(* ===== verification/Prelude.thy ===== *)
theory Prelude
  imports "HOL-Library.Word" "HOL-Library.Monad_Syntax"
begin

text \<open>
  What the components of the firmware share: the integer types of integer.h, little-endian
  access to byte buffers (the LD_ and ST_ macros of tff.h), division as the cc65 runtime does
  it, and lemmas on buffers, the option monad and words. A buffer is the list of its bytes; a
  routine that may not return, because it waits for hardware or follows a chain that may be
  cyclic, has its result in the option type, and None means that it does not return.
\<close>

unbundle bit_operations_syntax

named_theorems frame_simps "what an operation leaves as it was"
named_theorems len_simps "lengths of buffers"

section \<open>The integer types of integer.h\<close>

type_synonym BYTE = "8 word"
type_synonym WORD = "16 word"
type_synonym DWORD = "32 word"

text \<open>Pointers are 16-bit addresses; the null pointer is 0.\<close>

type_synonym ptr = "16 word"

definition NULL :: ptr where
  "NULL = 0"

section \<open>Buffers\<close>

text \<open>Writing the bytes \<open>bs\<close> at offset \<open>i\<close> of a buffer (memcpy, memset, a DMA transfer).\<close>

definition store :: "nat \<Rightarrow> 'a list \<Rightarrow> 'a list \<Rightarrow> 'a list" where
  "store i bs buf = take i buf @ bs @ drop (i + length bs) buf"

lemma length_store [len_simps]:
  "i + length bs \<le> length buf \<Longrightarrow> length (store i bs buf) = length buf"
  by (simp add: store_def)

lemma store_Nil [simp]: "i \<le> length buf \<Longrightarrow> store i [] buf = buf"
  by (simp add: store_def)

lemma store_all: "length bs = length buf \<Longrightarrow> store 0 bs buf = bs"
  by (simp add: store_def)

lemma nth_store:
  assumes "i + length bs \<le> length buf" and "k < length buf"
  shows "store i bs buf ! k = (if i \<le> k \<and> k < i + length bs then bs ! (k - i) else buf ! k)"
proof -
  consider "k < i" | "i \<le> k" "k < i + length bs" | "i + length bs \<le> k" by linarith
  then show ?thesis
  proof cases
    case 1
    with assms show ?thesis by (simp add: store_def nth_append)
  next
    case 2
    with assms show ?thesis by (simp add: store_def nth_append less_diff_conv2)
  next
    case 3
    with assms have "\<not> k - i < length bs" by simp
    with 3 assms show ?thesis by (simp add: store_def nth_append min_def)
  qed
qed

lemma take_store:
  "i \<le> length buf \<Longrightarrow> take (i + length bs) (store i bs buf) = take i buf @ bs"
  by (simp add: store_def)

lemma store_store_adjacent:
  assumes "i + length bs + length cs \<le> length buf"
  shows "store (i + length bs) cs (store i bs buf) = store i (bs @ cs) buf"
  using assms by (simp add: store_def ac_simps)

lemma drop_store:
  "i + length bs \<le> length buf \<Longrightarrow> i + length bs \<le> k \<Longrightarrow> drop k (store i bs buf) = drop k buf"
  by (simp add: store_def)

text \<open>The C string at the start of a buffer: the bytes before the first zero.\<close>

definition cstr :: "BYTE list \<Rightarrow> BYTE list" where
  "cstr b = takeWhile (\<lambda>c. c \<noteq> 0) b"

definition strlen :: "BYTE list \<Rightarrow> nat" where
  "strlen b = length (cstr b)"

lemma cstr_append0 [simp]: "0 \<notin> set xs \<Longrightarrow> cstr (xs @ 0 # ys) = xs"
  by (induction xs) (auto simp: cstr_def)

lemma cstr_no0: "0 \<notin> set (cstr b)"
  by (auto simp: cstr_def dest: set_takeWhileD)

text \<open>Text of the source as bytes.\<close>

definition bytes_of :: "string \<Rightarrow> BYTE list" where
  "bytes_of s = map (\<lambda>c. of_nat (of_char c)) s"

lemma length_bytes_of [simp]: "length (bytes_of s) = length s"
  by (simp add: bytes_of_def)

section \<open>Words in buffers (tff.h)\<close>

definition LD_WORD :: "BYTE list \<Rightarrow> nat \<Rightarrow> WORD" where
  "LD_WORD b i = ucast (b ! i) OR push_bit 8 (ucast (b ! (i + 1)))"

definition LD_DWORD :: "BYTE list \<Rightarrow> nat \<Rightarrow> DWORD" where
  "LD_DWORD b i = ucast (b ! i) OR push_bit 8 (ucast (b ! (i + 1)))
     OR push_bit 16 (ucast (b ! (i + 2))) OR push_bit 24 (ucast (b ! (i + 3)))"

definition ST_WORD :: "nat \<Rightarrow> WORD \<Rightarrow> BYTE list \<Rightarrow> BYTE list" where
  "ST_WORD i v b = store i [ucast v, ucast (drop_bit 8 v)] b"

definition ST_DWORD :: "nat \<Rightarrow> DWORD \<Rightarrow> BYTE list \<Rightarrow> BYTE list" where
  "ST_DWORD i v b =
     store i [ucast v, ucast (drop_bit 8 v), ucast (drop_bit 16 v), ucast (drop_bit 24 v)] b"

lemma length_ST_WORD [len_simps]: "i + 2 \<le> length b \<Longrightarrow> length (ST_WORD i v b) = length b"
  by (simp add: ST_WORD_def length_store)

lemma length_ST_DWORD [len_simps]: "i + 4 \<le> length b \<Longrightarrow> length (ST_DWORD i v b) = length b"
  by (simp add: ST_DWORD_def length_store)

lemma LD_ST_WORD:
  assumes "i + 2 \<le> length b"
  shows "LD_WORD (ST_WORD i v b) i = v"
proof -
  have "LD_WORD (ST_WORD i v b) i =
      ucast (ucast v :: BYTE) OR push_bit 8 (ucast (ucast (drop_bit 8 v) :: BYTE))"
    using assms by (simp add: LD_WORD_def ST_WORD_def nth_store)
  also have "\<dots> = v"
    by (rule bit_word_eqI) (auto simp: bit_simps)
  finally show ?thesis .
qed

lemma LD_ST_DWORD:
  assumes "i + 4 \<le> length b"
  shows "LD_DWORD (ST_DWORD i v b) i = v"
proof -
  have "LD_DWORD (ST_DWORD i v b) i =
      ucast (ucast v :: BYTE) OR push_bit 8 (ucast (ucast (drop_bit 8 v) :: BYTE))
      OR push_bit 16 (ucast (ucast (drop_bit 16 v) :: BYTE))
      OR push_bit 24 (ucast (ucast (drop_bit 24 v) :: BYTE))"
    using assms by (simp add: LD_DWORD_def ST_DWORD_def nth_store)
  also have "\<dots> = v"
  proof (rule bit_word_eqI)
    fix n
    assume "n < LENGTH(32)"
    then consider "n < 8" | "8 \<le> n" "n < 16" | "16 \<le> n" "n < 24" | "24 \<le> n" "n < 32"
      by fastforce
    then show "bit (ucast (ucast v :: BYTE) OR push_bit 8 (ucast (ucast (drop_bit 8 v) :: BYTE))
      OR push_bit 16 (ucast (ucast (drop_bit 16 v) :: BYTE))
      OR push_bit 24 (ucast (ucast (drop_bit 24 v) :: BYTE)) :: DWORD) n = bit v n"
      by cases (auto simp: bit_simps)
  qed
  finally show ?thesis .
qed

section \<open>Division\<close>

text \<open>
  The cc65 runtime divides by shifting and subtracting; with a zero divisor every subtraction
  succeeds and every quotient bit is set. HOL's division by zero is 0, so the case is written
  out.
\<close>

definition udiv32 :: "DWORD \<Rightarrow> DWORD \<Rightarrow> DWORD" where
  "udiv32 a b = (if b = 0 then 0xFFFFFFFF else a div b)"

section \<open>The option monad\<close>

lemma bind_Some_iff:
  "(Option.bind m f = Some y) = (\<exists>x. m = Some x \<and> f x = Some y)"
  by (cases m) auto

lemma Some_bind [simp]: "Option.bind (Some x) f = f x"
  by simp

section \<open>Words\<close>

lemma unat_plus_less: "unat a + unat b < 2 ^ LENGTH('a::len) \<Longrightarrow> unat (a + b :: 'a word) = unat a + unat b"
  by (simp add: unat_word_ariths)

lemma unat_ucast_up:
  "LENGTH('a::len) \<le> LENGTH('b::len) \<Longrightarrow> unat (ucast (x :: 'a word) :: 'b word) = unat x"
  by (simp add: unsigned_ucast_eq take_bit_nat_eq_self_iff order_less_le_trans [OF unsigned_less])

lemma unat_of_nat_less: "n < 2 ^ LENGTH('a::len) \<Longrightarrow> unat (of_nat n :: 'a word) = n"
  by (simp add: unat_of_nat)

lemma BYTE_less [simp]: "unat (x :: BYTE) < 256"
  using unsigned_less [of x, where 'a = nat] by simp

lemma WORD_less [simp]: "unat (x :: WORD) < 65536"
  using unsigned_less [of x, where 'a = nat] by simp

lemma DWORD_less [simp]: "unat (x :: DWORD) < 4294967296"
  using unsigned_less [of x, where 'a = nat] by simp

end
