(* ===== verification/Diskio.thy ===== *)
theory Diskio
  imports Prelude
begin

text \<open>
  The disk interface of diskio.h: result codes, status bits, and the record of the functions the
  FAT module calls. mmc.c provides them (theory Mmc); the FAT module is stated over the record,
  as tff.c is written against the header. A transfer into a buffer takes the address of the buffer
  and returns the bytes it stored from there on, in order; a transfer from a buffer takes its
  address and its contents.
\<close>

datatype DRESULT = RES_OK | RES_ERROR | RES_WRPRT | RES_NOTRDY | RES_PARERR

fun dresult_code :: "DRESULT \<Rightarrow> BYTE" where
  "dresult_code RES_OK = 0"
| "dresult_code RES_ERROR = 1"
| "dresult_code RES_WRPRT = 2"
| "dresult_code RES_NOTRDY = 3"
| "dresult_code RES_PARERR = 4"

definition STA_NOINIT :: BYTE where
  "STA_NOINIT = 0x01"

definition STA_NODISK :: BYTE where
  "STA_NODISK = 0x02"

definition STA_PROTECT :: BYTE where
  "STA_PROTECT = 0x04"

definition CTRL_SYNC :: BYTE where
  "CTRL_SYNC = 0"

record 'd diskio =
  d_status :: "BYTE \<Rightarrow> 'd \<Rightarrow> BYTE"
  d_initialize :: "BYTE \<Rightarrow> 'd \<Rightarrow> (BYTE \<times> 'd) option"
  d_read :: "BYTE \<Rightarrow> ptr \<Rightarrow> DWORD \<Rightarrow> BYTE \<Rightarrow> 'd \<Rightarrow> (DRESULT \<times> BYTE list \<times> 'd) option"
  d_write :: "BYTE \<Rightarrow> ptr \<Rightarrow> BYTE list \<Rightarrow> DWORD \<Rightarrow> BYTE \<Rightarrow> 'd \<Rightarrow> (DRESULT \<times> 'd) option"
  d_ioctl :: "BYTE \<Rightarrow> BYTE \<Rightarrow> ptr \<Rightarrow> BYTE list \<Rightarrow> 'd \<Rightarrow> (DRESULT \<times> BYTE list \<times> 'd) option"

text \<open>
  The FAT module is compiled with or without its writing functions (_FS_READONLY in tff.h, 1 in
  this repository); the switch is part of the environment the module is built in, so that both
  builds are instances of one model. So is the address the linker gives to the sector window.
\<close>

record 'd fsenv = "'d diskio" +
  fs_readonly :: bool
  win_adr :: ptr

end
