(* ===== verification/Tff_Base.thy ===== *)
theory Tff_Base
  imports Diskio
begin

text \<open>
  The data of the FAT module (tff.h) and the layer of tff.c below directories and files: the
  sector window, the FAT entries, and the map from clusters to sectors. FAT12 and FAT16 volumes
  (_FAT32, _USE_SJIS, _USE_NTFLAG and _USE_FSINFO are 0, as tff.h has them), with or without the
  writing functions (\<open>fs_readonly\<close>).
\<close>

section \<open>Data (tff.h)\<close>

type_synonym CLUST = WORD

record FATFS =
  fs_id :: WORD
  n_rootdir :: WORD
  winsect :: DWORD
  fatbase :: DWORD
  dirbase :: DWORD
  database :: DWORD
  sects_fat :: CLUST
  max_clust :: CLUST
  last_clust :: CLUST
  free_clust :: CLUST
  fs_type :: BYTE
  sects_clust :: BYTE
  n_fats :: BYTE
  winflag :: BYTE

text \<open>A file system object cleared by memset.\<close>

definition FATFS_zero :: FATFS where
  "FATFS_zero = \<lparr>fs_id = 0, n_rootdir = 0, winsect = 0, fatbase = 0, dirbase = 0, database = 0,
     sects_fat = 0, max_clust = 0, last_clust = 0, free_clust = 0, fs_type = 0, sects_clust = 0,
     n_fats = 0, winflag = 0\<rparr>"

text \<open>DIR, FIL and FILINFO; \<open>dir_ptr\<close> is an offset into the sector window.\<close>

record DIR =
  dj_id :: WORD
  dj_index :: WORD
  dj_fs :: ptr
  sclust :: CLUST
  dj_clust :: CLUST
  dj_sect :: DWORD

record FIL =
  fl_id :: WORD
  flag :: BYTE
  sect_clust :: BYTE
  fl_fs :: ptr
  fptr :: DWORD
  fsize :: DWORD
  org_clust :: CLUST
  curr_clust :: CLUST
  curr_sect :: DWORD
  dir_sect :: DWORD
  dir_ptr :: nat

record FILINFO =
  fi_size :: DWORD
  fdate :: WORD
  ftime :: WORD
  fattrib :: BYTE
  fname :: "BYTE list"

datatype FRESULT = FR_OK | FR_NOT_READY | FR_NO_FILE | FR_NO_PATH | FR_INVALID_NAME
  | FR_INVALID_DRIVE | FR_DENIED | FR_EXIST | FR_RW_ERROR | FR_WRITE_PROTECTED | FR_NOT_ENABLED
  | FR_NO_FILESYSTEM | FR_INVALID_OBJECT

fun fresult_code :: "FRESULT \<Rightarrow> BYTE" where
  "fresult_code FR_OK = 0"
| "fresult_code FR_NOT_READY = 1"
| "fresult_code FR_NO_FILE = 2"
| "fresult_code FR_NO_PATH = 3"
| "fresult_code FR_INVALID_NAME = 4"
| "fresult_code FR_INVALID_DRIVE = 5"
| "fresult_code FR_DENIED = 6"
| "fresult_code FR_EXIST = 7"
| "fresult_code FR_RW_ERROR = 8"
| "fresult_code FR_WRITE_PROTECTED = 9"
| "fresult_code FR_NOT_ENABLED = 10"
| "fresult_code FR_NO_FILESYSTEM = 11"
| "fresult_code FR_INVALID_OBJECT = 12"

lemma fresult_code_inj: "fresult_code a = fresult_code b \<longleftrightarrow> a = b"
  by (cases a; cases b) simp_all

definition FS_FAT12 :: BYTE where "FS_FAT12 = 1"

definition FS_FAT16 :: BYTE where "FS_FAT16 = 2"

definition AM_RDO :: BYTE where "AM_RDO = 0x01"

definition AM_HID :: BYTE where "AM_HID = 0x02"

definition AM_SYS :: BYTE where "AM_SYS = 0x04"

definition AM_VOL :: BYTE where "AM_VOL = 0x08"

definition AM_DIR :: BYTE where "AM_DIR = 0x10"

definition AM_ARC :: BYTE where "AM_ARC = 0x20"

definition FA_READ :: BYTE where "FA_READ = 0x01"

definition FA_WRITE :: BYTE where "FA_WRITE = 0x02"

definition FA_CREATE_NEW :: BYTE where "FA_CREATE_NEW = 0x04"

definition FA_CREATE_ALWAYS :: BYTE where "FA_CREATE_ALWAYS = 0x08"

definition FA_OPEN_ALWAYS :: BYTE where "FA_OPEN_ALWAYS = 0x10"

definition FA__WRITTEN :: BYTE where "FA__WRITTEN = 0x20"

definition FA__ERROR :: BYTE where "FA__ERROR = 0x80"

lemmas flag_defs = FS_FAT12_def FS_FAT16_def AM_RDO_def AM_HID_def AM_SYS_def AM_VOL_def AM_DIR_def
  AM_ARC_def FA_READ_def FA_WRITE_def FA_CREATE_NEW_def FA_CREATE_ALWAYS_def FA_OPEN_ALWAYS_def
  FA__WRITTEN_def FA__ERROR_def

section \<open>Module state\<close>

text \<open>
  The globals of tff.c: the pointer \<open>FatFs\<close> to the registered file system object, the mount
  counter, the sector window; with them the file system objects the pointers of the program lead
  to, and the state of the disk below.
\<close>

record 'd tff =
  FatFs :: ptr
  fsid :: WORD
  fs__win :: "BYTE list"
  fsobj :: "ptr \<Rightarrow> FATFS"
  disk :: 'd

definition cur_fs :: "'d tff \<Rightarrow> FATFS" where
  "cur_fs s = fsobj s (FatFs s)"

definition upd_fs :: "(FATFS \<Rightarrow> FATFS) \<Rightarrow> 'd tff \<Rightarrow> 'd tff" where
  "upd_fs f s = s\<lparr>fsobj := (fsobj s)(FatFs s := f (fsobj s (FatFs s)))\<rparr>"

lemma upd_fs_simps [simp]:
  "FatFs (upd_fs f s) = FatFs s" "fsid (upd_fs f s) = fsid s" "fs__win (upd_fs f s) = fs__win s"
  "disk (upd_fs f s) = disk s" "cur_fs (upd_fs f s) = f (cur_fs s)"
  "fsobj (upd_fs f s) (FatFs s) = f (fsobj s (FatFs s))"
  by (simp_all add: upd_fs_def cur_fs_def)

lemma upd_fs_other: "p \<noteq> FatFs s \<Longrightarrow> fsobj (upd_fs f s) p = fsobj s p"
  by (simp add: upd_fs_def)

lemma cur_fs_upds [simp]:
  "cur_fs (s\<lparr>disk := d\<rparr>) = cur_fs s" "cur_fs (s\<lparr>fs__win := w\<rparr>) = cur_fs s"
  "cur_fs (s\<lparr>fsid := i\<rparr>) = cur_fs s"
  by (simp_all add: cur_fs_def)

section \<open>The sector window\<close>

text \<open>Write the window to the copies of the FAT: the loop over \<open>n\<close> of move_window.\<close>

fun flush_copies :: "'d fsenv \<Rightarrow> DWORD \<Rightarrow> nat \<Rightarrow> DWORD \<Rightarrow> 'd tff \<Rightarrow> 'd tff option" where
  "flush_copies e step 0 wsect s = Some s"
| "flush_copies e step (Suc n) wsect s = do {
     (r, d) \<leftarrow> d_write e 0 (win_adr e) (fs__win s) (wsect + step) 1 (disk s);
     flush_copies e step n (wsect + step) (s\<lparr>disk := d\<rparr>) }"

definition write_back :: "'d fsenv \<Rightarrow> 'd tff \<Rightarrow> (bool \<times> 'd tff) option" where
  "write_back e s = (let wsect = winsect (cur_fs s) in do {
     (r, d) \<leftarrow> d_write e 0 (win_adr e) (fs__win s) wsect 1 (disk s);
     if r \<noteq> RES_OK then Some (False, s\<lparr>disk := d\<rparr>)
     else let s = upd_fs (\<lambda>f. f\<lparr>winflag := 0\<rparr>) (s\<lparr>disk := d\<rparr>); fs = cur_fs s in
       if wsect < fatbase fs + ucast (sects_fat fs)
       then do {
         s \<leftarrow> flush_copies e (ucast (sects_fat fs)) (unat (n_fats fs) - 1) wsect s;
         Some (True, s) }
       else Some (True, s) })"

definition move_window :: "'d fsenv \<Rightarrow> DWORD \<Rightarrow> 'd tff \<Rightarrow> (bool \<times> 'd tff) option" where
  "move_window e sector s = (
     if winsect (cur_fs s) \<noteq> sector then do {
       (ok, s) \<leftarrow> (if \<not> fs_readonly e \<and> winflag (cur_fs s) \<noteq> 0 then write_back e s
                   else Some (True, s));
       if \<not> ok then Some (False, s)
       else if sector \<noteq> 0 then do {
         (r, bs, d) \<leftarrow> d_read e 0 (win_adr e) sector 1 (disk s);
         let s = s\<lparr>fs__win := store 0 bs (fs__win s), disk := d\<rparr>;
         if r \<noteq> RES_OK then Some (False, s)
         else Some (True, upd_fs (\<lambda>f. f\<lparr>winsect := sector\<rparr>) s) }
       else Some (True, s) }
     else Some (True, s))"

definition sync :: "'d fsenv \<Rightarrow> 'd tff \<Rightarrow> (FRESULT \<times> 'd tff) option" where
  "sync e s = do {
     (ok, s) \<leftarrow> move_window e 0 (upd_fs (\<lambda>f. f\<lparr>winflag := 1\<rparr>) s);
     if \<not> ok then Some (FR_RW_ERROR, s)
     else do {
       (r, _, d) \<leftarrow> d_ioctl e 0 CTRL_SYNC NULL [] (disk s);
       Some (if r \<noteq> RES_OK then FR_RW_ERROR else FR_OK, s\<lparr>disk := d\<rparr>) } }"

section \<open>FAT entries\<close>

definition get_cluster :: "'d fsenv \<Rightarrow> CLUST \<Rightarrow> 'd tff \<Rightarrow> (CLUST \<times> 'd tff) option" where
  "get_cluster e clust s = (let fs = cur_fs s; fatsect = fatbase fs in
     if clust \<ge> 2 \<and> clust < max_clust fs then
       if fs_type fs = FS_FAT12 then let bc = clust * 3 div 2 in do {
         (ok, s) \<leftarrow> move_window e (fatsect + ucast (bc div 512)) s;
         if \<not> ok then Some (1, s)
         else let wc = ucast (fs__win s ! unat (bc mod 512)) :: WORD; bc = bc + 1 in do {
           (ok, s) \<leftarrow> move_window e (fatsect + ucast (bc div 512)) s;
           if \<not> ok then Some (1, s)
           else let wc = wc OR push_bit 8 (ucast (fs__win s ! unat (bc mod 512))) in
             Some (if clust AND 1 \<noteq> 0 then drop_bit 4 wc else wc AND 0xFFF, s) } }
       else if fs_type fs = FS_FAT16 then do {
         (ok, s) \<leftarrow> move_window e (fatsect + ucast (clust div 256)) s;
         if \<not> ok then Some (1, s)
         else Some (LD_WORD (fs__win s) (unat (clust * 2 mod 512)), s) }
       else Some (1, s)
     else Some (1, s))"

definition set_win :: "nat \<Rightarrow> BYTE \<Rightarrow> 'd tff \<Rightarrow> 'd tff" where
  "set_win i b s = s\<lparr>fs__win := (fs__win s)[i := b]\<rparr>"

definition set_dirty :: "'d tff \<Rightarrow> 'd tff" where
  "set_dirty s = upd_fs (\<lambda>f. f\<lparr>winflag := 1\<rparr>) s"

definition put_cluster :: "'d fsenv \<Rightarrow> CLUST \<Rightarrow> CLUST \<Rightarrow> 'd tff \<Rightarrow> (bool \<times> 'd tff) option" where
  "put_cluster e clust val s = (let fs = cur_fs s; fatsect = fatbase fs in
     if fs_type fs = FS_FAT12 then let bc = clust * 3 div 2 in do {
       (ok, s) \<leftarrow> move_window e (fatsect + ucast (bc div 512)) s;
       if \<not> ok then Some (False, s)
       else let i = unat (bc mod 512); p = fs__win s ! i;
         s = set_dirty (set_win i (if clust AND 1 \<noteq> 0 then (p AND 0x0F) OR push_bit 4 (ucast val)
                                   else ucast val) s);
         bc = bc + 1 in do {
           (ok, s) \<leftarrow> move_window e (fatsect + ucast (bc div 512)) s;
           if \<not> ok then Some (False, s)
           else let i = unat (bc mod 512); p = fs__win s ! i;
             s = set_win i (if clust AND 1 \<noteq> 0 then ucast (drop_bit 4 val)
                            else (p AND 0xF0) OR (ucast (drop_bit 8 val) AND 0x0F)) s in
             Some (True, set_dirty s) } }
     else if fs_type fs = FS_FAT16 then do {
       (ok, s) \<leftarrow> move_window e (fatsect + ucast (clust div 256)) s;
       if \<not> ok then Some (False, s)
       else Some (True, set_dirty
         (s\<lparr>fs__win := ST_WORD (unat (clust * 2 mod 512)) val (fs__win s)\<rparr>)) }
     else Some (False, s))"

definition clust2sect :: "CLUST \<Rightarrow> 'd tff \<Rightarrow> DWORD" where
  "clust2sect clust s = (let fs = cur_fs s; clust = clust - 2 in
     if clust \<ge> max_clust fs - 2 then 0
     else ucast clust * ucast (sects_clust fs) + database fs)"

section \<open>Cluster chains\<close>

definition count_free :: "(CLUST \<Rightarrow> CLUST) \<Rightarrow> 'd tff \<Rightarrow> 'd tff" where
  "count_free g s = (if free_clust (cur_fs s) \<noteq> 0xFFFF
     then upd_fs (\<lambda>f. f\<lparr>free_clust := g (free_clust f)\<rparr>) s else s)"

partial_function (option) remove_chain :: "'d fsenv \<Rightarrow> CLUST \<Rightarrow> 'd tff \<Rightarrow> (bool \<times> 'd tff) option" where
  "remove_chain e clust s = (
     if clust \<ge> 2 \<and> clust < max_clust (cur_fs s) then do {
       (nxt, s) \<leftarrow> get_cluster e clust s;
       if nxt = 1 then Some (False, s)
       else do {
         (ok, s) \<leftarrow> put_cluster e clust 0 s;
         if \<not> ok then Some (False, s)
         else remove_chain e nxt (count_free (\<lambda>n. n + 1) s) } }
     else Some (True, s))"

text \<open>
  The search of create_chain for a free cluster, from \<open>ncl\<close> and around to \<open>scl\<close>: the cluster
  found, or 0 for none and 1 for an error.
\<close>

partial_function (option) find_free ::
  "'d fsenv \<Rightarrow> CLUST \<Rightarrow> CLUST \<Rightarrow> 'd tff \<Rightarrow> (CLUST \<times> 'd tff) option" where
  "find_free e scl ncl s = (let mcl = max_clust (cur_fs s);
       wrap = (ncl + 1 \<ge> mcl); ncl = (if wrap then 2 else ncl + 1) in
     if wrap \<and> ncl > scl then Some (0, s)
     else do {
       (cstat, s) \<leftarrow> get_cluster e ncl s;
       if cstat = 0 then Some (ncl, s)
       else if cstat = 1 then Some (1, s)
       else if ncl = scl then Some (0, s)
       else find_free e scl ncl s })"

definition link_chain :: "'d fsenv \<Rightarrow> CLUST \<Rightarrow> CLUST \<Rightarrow> 'd tff \<Rightarrow> (CLUST \<times> 'd tff) option" where
  "link_chain e clust ncl s = do {
     (ok, s) \<leftarrow> put_cluster e ncl 0xFFFF s;
     if \<not> ok then Some (1, s)
     else do {
       (ok, s) \<leftarrow> (if clust \<noteq> 0 then put_cluster e clust ncl s else Some (True, s));
       if \<not> ok then Some (1, s)
       else Some (ncl, count_free (\<lambda>n. n - 1) (upd_fs (\<lambda>f. f\<lparr>last_clust := ncl\<rparr>) s)) } }"

definition create_chain :: "'d fsenv \<Rightarrow> CLUST \<Rightarrow> 'd tff \<Rightarrow> (CLUST \<times> 'd tff) option" where
  "create_chain e clust s = (let mcl = max_clust (cur_fs s) in do {
     (done, scl, s) \<leftarrow> (
       if clust = 0 then
         let scl = last_clust (cur_fs s) in
         Some (None, if scl < 2 \<or> scl \<ge> mcl then 1 else scl, s)
       else do {
         (cstat, s) \<leftarrow> get_cluster e clust s;
         if cstat < 2 then Some (Some 1, 0, s)
         else if cstat < mcl then Some (Some cstat, 0, s)
         else Some (None, clust, s) });
     case done of
       Some r \<Rightarrow> Some (r, s)
     | None \<Rightarrow> do {
         (ncl, s) \<leftarrow> find_free e scl scl s;
         if ncl = 0 then Some (0, s)
         else if ncl = 1 then Some (1, s)
         else link_chain e clust ncl s } })"

end
