(* ===== verification/Tff_Names.thy ===== *)
theory Tff_Names
  imports Tff_Base
begin

text \<open>
  File names in tff.c: make_dirfile takes one segment of a path to the 11 bytes of a directory
  entry, get_fileinfo takes an entry to the name, attributes, size and date of FILINFO. The
  theory shows that the two are inverse on the names make_dirfile accepts and that neither
  leaves its buffer.
\<close>

section \<open>Directory entries to file information\<close>

definition DIR_Attr :: nat where "DIR_Attr = 11"

definition DIR_NTres :: nat where "DIR_NTres = 12"

definition DIR_CrtTime :: nat where "DIR_CrtTime = 14"

definition DIR_WrtTime :: nat where "DIR_WrtTime = 22"

definition DIR_WrtDate :: nat where "DIR_WrtDate = 24"

definition DIR_FstClusLO :: nat where "DIR_FstClusLO = 26"

definition DIR_FileSize :: nat where "DIR_FileSize = 28"

lemmas dir_offsets = DIR_Attr_def DIR_NTres_def DIR_CrtTime_def DIR_WrtTime_def DIR_WrtDate_def
  DIR_FstClusLO_def DIR_FileSize_def

text \<open>
  The loop over the 8 bytes of the body, from byte \<open>n\<close>, and the one over the 3 bytes of the
  extension: both stop at the first space. The argument \<open>k\<close> counts the bytes left.
\<close>

fun fileinfo_body :: "nat \<Rightarrow> BYTE list \<Rightarrow> BYTE list" where
  "fileinfo_body 0 dir = []"
| "fileinfo_body (Suc k) dir = (let c = hd dir in
     if c = 0x20 then []
     else (if c = 0x05 then 0xE5 else c) # fileinfo_body k (tl dir))"

fun fileinfo_ext :: "nat \<Rightarrow> BYTE list \<Rightarrow> BYTE list" where
  "fileinfo_ext 0 dir = []"
| "fileinfo_ext (Suc k) dir = (let c = hd dir in
     if c = 0x20 then [] else c # fileinfo_ext k (tl dir))"

definition get_fileinfo :: "BYTE list \<Rightarrow> FILINFO" where
  "get_fileinfo dir = \<lparr>
     fi_size = LD_DWORD dir DIR_FileSize,
     fdate = LD_WORD dir DIR_WrtDate,
     ftime = LD_WORD dir DIR_WrtTime,
     fattrib = dir ! DIR_Attr,
     fname = fileinfo_body 8 dir
       @ (if dir ! 8 \<noteq> 0x20 then 0x2E # fileinfo_ext 3 (drop 8 dir) else [])
       @ [0]\<rparr>"

section \<open>Path segments to directory entries\<close>

text \<open>
  What make_dirfile does with a character that is no separator and no dot: None to reject it,
  otherwise the byte it stores. The tests are the code's, in its order (the dot is tested between
  the first and the second, and fails neither).
\<close>

definition mdf_char :: "BYTE \<Rightarrow> BYTE option" where
  "mdf_char c = (
     if c \<le> 0x20 \<or> c = 0x7F then None
     else if c = 0x22 then None
     else if c \<le> 0x29 then Some c
     else if c \<le> 0x2C then None
     else if c \<le> 0x39 then Some c
     else if c \<le> 0x3F then None
     else if c = 0x7C then None
     else if c \<ge> 0x5B \<and> c \<le> 0x5D then None
     else if c \<ge> 0x61 \<and> c \<le> 0x7A then Some (c - 0x20)
     else Some c)"

text \<open>
  The loop of make_dirfile: \<open>n\<close> is the next position in the buffer, \<open>t\<close> its limit (8 in the
  body, 11 in the extension). Reading at the end of the list reads the terminator. The result is
  the returned character (1 for an invalid name), the path behind it, and the buffer.
\<close>

fun mdf_loop :: "BYTE list \<Rightarrow> nat \<Rightarrow> nat \<Rightarrow> BYTE list \<Rightarrow> BYTE \<times> BYTE list \<times> BYTE list" where
  "mdf_loop [] n t dn = (if n = 0 then (1, [], dn) else (0, [], dn @ [0]))"
| "mdf_loop (c # path) n t dn = (
     if c = 0 \<or> c = 0x2F then (if n = 0 then (1, path, dn) else (c, path, dn @ [0]))
     else if c = 0x2E then
       (if 1 \<le> n \<and> n \<le> 8 then mdf_loop path 8 11 dn else (1, path, dn))
     else (case mdf_char c of
       None \<Rightarrow> (1, path, dn)
     | Some b \<Rightarrow> if n \<ge> t then (1, path, dn) else mdf_loop path (n + 1) t (dn[n := b])))"

definition make_dirfile :: "BYTE list \<Rightarrow> BYTE \<times> BYTE list \<times> BYTE list" where
  "make_dirfile path = mdf_loop path 0 8 (replicate 11 0x20)"

section \<open>Properties\<close>

subsection \<open>The file name of FILINFO\<close>

lemma length_fileinfo_body: "length (fileinfo_body k dir) \<le> k"
  by (induction k dir rule: fileinfo_body.induct) (auto simp: Let_def)

lemma length_fileinfo_ext: "length (fileinfo_ext k dir) \<le> k"
  by (induction k dir rule: fileinfo_ext.induct) (auto simp: Let_def)

lemma fname_fits: "length (fname (get_fileinfo dir)) \<le> 13"
  using length_fileinfo_body [of 8 dir] length_fileinfo_ext [of 3 "drop 8 dir"]
  by (simp add: get_fileinfo_def)

subsection \<open>Short names\<close>

text \<open>
  The bytes a stored name may hold, and the entry and the displayed name of a body and an
  extension.
\<close>

definition name_byte :: "BYTE \<Rightarrow> bool" where
  "name_byte b \<longleftrightarrow> mdf_char b = Some b \<and> b \<noteq> 0x2E \<and> b \<noteq> 0x2F"

definition short_name :: "BYTE list \<Rightarrow> BYTE list \<Rightarrow> bool" where
  "short_name b x \<longleftrightarrow> 1 \<le> length b \<and> length b \<le> 8 \<and> length x \<le> 3
     \<and> list_all name_byte b \<and> list_all name_byte x"

definition entry_name :: "BYTE list \<Rightarrow> BYTE list \<Rightarrow> BYTE list" where
  "entry_name b x = b @ replicate (8 - length b) 0x20 @ x @ replicate (3 - length x) 0x20"

definition shown_name :: "BYTE list \<Rightarrow> BYTE list \<Rightarrow> BYTE list" where
  "shown_name b x = b @ (if x = [] then [] else 0x2E # x)"

lemma length_entry_name [len_simps]: "short_name b x \<Longrightarrow> length (entry_name b x) = 11"
  by (simp add: short_name_def entry_name_def)

lemma upper_name_byte: "0x61 \<le> c \<Longrightarrow> c \<le> 0x7A \<Longrightarrow> name_byte (c - 0x20)"
proof -
  assume c: "0x61 \<le> c" "c \<le> 0x7A"
  then have u: "unat (c - 0x20) = unat c - 32"
    by (subst unat_sub) (auto simp: word_le_nat_alt)
  have "c - 0x20 \<noteq> k" if "unat k < 65 \<or> 90 < unat k" for k
    using c u that by (auto simp: word_le_nat_alt)
  with c u show ?thesis
    by (auto simp: name_byte_def mdf_char_def word_le_nat_alt)
qed

lemma mdf_char_name_byte:
  assumes "mdf_char c = Some b" and "c \<noteq> 0x2E" and "c \<noteq> 0x2F"
  shows "name_byte b"
proof (cases "0x61 \<le> c \<and> c \<le> 0x7A")
  case True
  with assms(1) have "b = c - 0x20"
    by (auto simp: mdf_char_def word_le_nat_alt split: if_splits)
  with True show ?thesis by (simp add: upper_name_byte)
next
  case False
  with assms(1) have "b = c"
    by (auto simp: mdf_char_def split: if_splits)
  with assms show ?thesis by (simp add: name_byte_def)
qed

lemma name_byteD:
  "name_byte b \<Longrightarrow> b \<noteq> 0 \<and> b \<noteq> 0x05 \<and> b \<noteq> 0x20 \<and> b \<noteq> 0x2E \<and> b \<noteq> 0x2F \<and> mdf_char b = Some b"
  by (auto simp: name_byte_def mdf_char_def)

subsection \<open>Running make_dirfile\<close>

definition path_byte :: "BYTE \<Rightarrow> bool" where
  "path_byte c \<longleftrightarrow> c \<noteq> 0 \<and> c \<noteq> 0x2E \<and> c \<noteq> 0x2F \<and> mdf_char c \<noteq> None"

definition upcase :: "BYTE \<Rightarrow> BYTE" where
  "upcase c = (if c \<ge> 0x61 \<and> c \<le> 0x7A then c - 0x20 else c)"

lemma mdf_char_upcase: "mdf_char c \<noteq> None \<Longrightarrow> mdf_char c = Some (upcase c)"
  by (auto simp: mdf_char_def upcase_def word_le_nat_alt split: if_splits)

lemma name_byte_path_byte: "name_byte b \<Longrightarrow> path_byte b"
  using name_byteD by (auto simp: path_byte_def)

lemma name_byte_upcase: "name_byte b \<Longrightarrow> upcase b = b"
  by (metis mdf_char_upcase name_byteD option.distinct(1) option.inject)

lemma path_byte_upcase: "path_byte c \<Longrightarrow> name_byte (upcase c)"
  unfolding path_byte_def using mdf_char_name_byte mdf_char_upcase by blast

lemma mdf_loop_run:
  assumes "list_all path_byte cs" and "n + length cs \<le> t" and "t \<le> length dn"
  shows "mdf_loop (cs @ path) n t dn =
    mdf_loop path (n + length cs) t (store n (map upcase cs) dn)"
  using assms
proof (induction cs arbitrary: n dn)
  case Nil
  then show ?case by simp
next
  case (Cons c cs)
  from Cons.prems(1) have c: "c \<noteq> 0" "c \<noteq> 0x2E" "c \<noteq> 0x2F" "mdf_char c = Some (upcase c)"
    using mdf_char_upcase by (auto simp: path_byte_def)
  have "mdf_loop ((c # cs) @ path) n t dn = mdf_loop (cs @ path) (n + 1) t (dn[n := upcase c])"
    using c Cons.prems(2) by simp
  also have "\<dots> = mdf_loop path (n + 1 + length cs) t
      (store (n + 1) (map upcase cs) (dn[n := upcase c]))"
    using Cons by simp
  also have "dn[n := upcase c] = store n [upcase c] dn"
    using Cons.prems by (simp add: store_def upd_conv_take_nth_drop)
  also have "store (n + 1) (map upcase cs) (store n [upcase c] dn)
      = store n (map upcase (c # cs)) dn"
    using store_store_adjacent [of n "[upcase c]" "map upcase cs" dn] Cons.prems by simp
  finally show ?case by simp
qed

lemma store_spaces: "n + length xs \<le> k \<Longrightarrow>
    store n xs (replicate k y) = replicate n y @ xs @ replicate (k - n - length xs) y"
  by (simp add: store_def)

text \<open>make_dirfile on a segment of accepted characters.\<close>

lemma make_dirfile_short:
  assumes "list_all path_byte b" "list_all path_byte x"
    and "1 \<le> length b" "length b \<le> 8" "length x \<le> 3"
    and "d = 0 \<or> d = 0x2F"
  shows "make_dirfile (shown_name b x @ d # rest) =
    (d, rest, entry_name (map upcase b) (map upcase x) @ [0])"
proof -
  let ?B = "map upcase b" and ?X = "map upcase x" and ?s = "replicate 11 (0x20 :: BYTE)"
  have body: "make_dirfile (b @ path) = mdf_loop path (length b) 8 (store 0 ?B ?s)" for path
    using assms mdf_loop_run [of b 0 8 ?s path] by (simp add: make_dirfile_def)
  have B: "store 0 ?B ?s = ?B @ replicate (11 - length b) 0x20"
    using assms by (simp add: store_spaces)
  show ?thesis
  proof (cases "x = []")
    case True
    with assms body B show ?thesis
      by (auto simp: shown_name_def entry_name_def simp flip: replicate_add)
  next
    case False
    have "make_dirfile (shown_name b x @ d # rest) = mdf_loop (x @ d # rest) 8 11 (store 0 ?B ?s)"
      using assms False body by (simp add: shown_name_def)
    also have "\<dots> = mdf_loop (d # rest) (8 + length x) 11 (store 8 ?X (store 0 ?B ?s))"
      using assms mdf_loop_run [of x 8 11 "store 0 ?B ?s" "d # rest"] by (simp add: B)
    also have "store 8 ?X (store 0 ?B ?s) = entry_name ?B ?X"
      using assms by (simp add: B store_def entry_name_def)
    finally show ?thesis using assms by simp
  qed
qed

subsection \<open>What make_dirfile accepts\<close>

definition mdf_inv :: "nat \<Rightarrow> nat \<Rightarrow> BYTE list \<Rightarrow> bool" where
  "mdf_inv n t dn \<longleftrightarrow> (\<exists>b x. length b \<le> 8 \<and> length x \<le> 3 \<and> list_all name_byte b
     \<and> list_all name_byte x \<and> dn = entry_name b x
     \<and> (t = 8 \<and> n = length b \<and> x = [] \<or> t = 11 \<and> 1 \<le> length b \<and> n = 8 + length x))"

lemma mdf_inv_dot: "mdf_inv n t dn \<Longrightarrow> 1 \<le> n \<Longrightarrow> n \<le> 8 \<Longrightarrow> mdf_inv 8 11 dn"
  unfolding mdf_inv_def by (metis One_nat_def add.right_neutral add_le_same_cancel1 le_zero_eq
      length_0_conv list.size(3))

lemma list_update_replicate_append:
  "0 < k \<Longrightarrow> length b = n \<Longrightarrow> (b @ replicate k y @ zs)[n := c] = b @ c # replicate (k - 1) y @ zs"
  by (cases k) (simp_all add: list_update_append)

lemma mdf_inv_char:
  assumes "mdf_inv n t dn" and "n < t" and "name_byte c"
  shows "mdf_inv (n + 1) t (dn[n := c])"
proof -
  from assms(1) obtain b x where bx: "length b \<le> 8" "length x \<le> 3" "list_all name_byte b"
      "list_all name_byte x" "dn = entry_name b x"
      and cs: "t = 8 \<and> n = length b \<and> x = [] \<or> t = 11 \<and> 1 \<le> length b \<and> n = 8 + length x"
    unfolding mdf_inv_def by blast
  from cs show ?thesis
  proof (elim disjE conjE)
    assume h: "t = 8" "n = length b" "x = []"
    have "dn[n := c] = entry_name (b @ [c]) x"
      using bx h assms(2) by (simp add: entry_name_def list_update_replicate_append)
    with bx h assms show ?thesis
      unfolding mdf_inv_def by (intro exI [of _ "b @ [c]"] exI [of _ x]) auto
  next
    assume h: "t = 11" "1 \<le> length b" "n = 8 + length x"
    have "dn[n := c] = entry_name b (x @ [c])"
      using bx h assms(2) list_update_replicate_append
        [of "3 - length x" "b @ replicate (8 - length b) 0x20 @ x" n "0x20" "[]" c]
      by (simp add: entry_name_def)
    with bx h assms show ?thesis
      unfolding mdf_inv_def by (intro exI [of _ b] exI [of _ "x @ [c]"]) auto
  qed
qed

lemma mdf_inv_short: "mdf_inv n t dn \<Longrightarrow> n \<noteq> 0 \<Longrightarrow> \<exists>b x. short_name b x \<and> dn = entry_name b x"
  unfolding mdf_inv_def short_name_def
  by (elim exE conjE disjE; intro exI conjI) (auto simp: Suc_le_eq)

lemma mdf_loop_sound:
  assumes "mdf_loop path n t dn = (c, rest, dn')" and "mdf_inv n t dn" and "c \<noteq> 1"
  shows "\<exists>b x. short_name b x \<and> dn' = entry_name b x @ [0]"
  using assms
proof (induction path n t dn rule: mdf_loop.induct)
  case (1 n t dn)
  then show ?case using mdf_inv_short by (auto split: if_splits)
next
  case (2 a path n t dn)
  consider "a = 0 \<or> a = 0x2F" | "a = 0x2E" | "a \<noteq> 0" "a \<noteq> 0x2F" "a \<noteq> 0x2E" by blast
  then show ?case
  proof cases
    case 1
    with 2 show ?thesis using mdf_inv_short by (auto split: if_splits)
  next
    case dot: 2
    with "2.prems" have n: "1 \<le> n \<and> n \<le> 8" by (auto split: if_splits)
    then have "mdf_inv 8 11 dn" using "2.prems"(2) mdf_inv_dot by blast
    with dot n 2 show ?thesis by auto
  next
    case 3
    with "2.prems" obtain b where b: "mdf_char a = Some b" and n: "n < t"
      by (auto split: option.splits if_splits)
    then have "name_byte b" using 3 mdf_char_name_byte by blast
    with n have "mdf_inv (n + 1) t (dn[n := b])" using "2.prems"(2) mdf_inv_char by blast
    with 3 b n 2 show ?thesis by auto
  qed
qed

lemma make_dirfile_sound:
  assumes "make_dirfile path = (c, rest, dn)" and "c \<noteq> 1"
  shows "\<exists>b x. short_name b x \<and> dn = entry_name b x @ [0]"
proof -
  have "mdf_inv 0 8 (replicate 11 0x20)"
    unfolding mdf_inv_def by (intro exI [of _ "[]"]) (simp add: entry_name_def flip: replicate_add)
  with assms show ?thesis
    unfolding make_dirfile_def using mdf_loop_sound by blast
qed

subsection \<open>The displayed name\<close>

lemma fileinfo_body_entry:
  "list_all name_byte b \<Longrightarrow> length b \<le> k \<Longrightarrow> length b < k \<longrightarrow> hd zs = 0x20 \<Longrightarrow>
   fileinfo_body k (b @ zs) = b"
proof (induction b arbitrary: k)
  case Nil
  then show ?case by (cases k) auto
next
  case (Cons a b)
  then show ?case using name_byteD by (cases k) auto
qed

lemma fileinfo_ext_entry:
  "list_all name_byte b \<Longrightarrow> length b \<le> k \<Longrightarrow> length b < k \<longrightarrow> hd zs = 0x20 \<Longrightarrow>
   fileinfo_ext k (b @ zs) = b"
proof (induction b arbitrary: k)
  case Nil
  then show ?case by (cases k) auto
next
  case (Cons a b)
  then show ?case using name_byteD by (cases k) auto
qed

lemma fname_entry:
  assumes "short_name b x" and "take 11 ent = entry_name b x"
  shows "fname (get_fileinfo ent) = shown_name b x @ [0]"
proof -
  let ?z = "drop 11 ent"
  have ent: "ent = b @ replicate (8 - length b) 0x20 @ x @ replicate (3 - length x) 0x20 @ ?z"
    using assms(2) append_take_drop_id [of 11 ent] by (simp add: entry_name_def)
  from assms(1) have l: "length b \<le> 8" "length x \<le> 3" and nb: "list_all name_byte b" "list_all name_byte x"
    by (auto simp: short_name_def)
  have body: "fileinfo_body 8 ent = b"
    by (subst ent, rule fileinfo_body_entry) (use l nb in auto)
  have d8: "drop 8 ent = x @ replicate (3 - length x) 0x20 @ ?z"
    using l by (subst ent) simp
  have ext: "fileinfo_ext 3 (drop 8 ent) = x"
    unfolding d8 by (rule fileinfo_ext_entry) (use l nb in auto)
  have "ent ! 8 = (x @ replicate (3 - length x) 0x20 @ ?z) ! 0"
    using l by (subst ent) (simp add: nth_append)
  then have "ent ! 8 \<noteq> 0x20 \<longleftrightarrow> x \<noteq> []"
    using nb l by (cases x) (auto simp: nth_append dest: name_byteD)
  with body ext show ?thesis by (simp add: get_fileinfo_def shown_name_def)
qed

end
