(* ===== verification/Tff_Mount.thy ===== *)
theory Tff_Mount
  imports Tff_Base
begin

text \<open>
  Mounting in tff.c: check_fs, auto_mount, validate and f_mount. A path is the list of its bytes
  up to and including the terminator.
\<close>

definition BS_55AA :: nat where "BS_55AA = 510"

definition BS_FilSysType :: nat where "BS_FilSysType = 54"

definition BPB_BytsPerSec :: nat where "BPB_BytsPerSec = 11"

definition BPB_SecPerClus :: nat where "BPB_SecPerClus = 13"

definition BPB_RsvdSecCnt :: nat where "BPB_RsvdSecCnt = 14"

definition BPB_NumFATs :: nat where "BPB_NumFATs = 16"

definition BPB_RootEntCnt :: nat where "BPB_RootEntCnt = 17"

definition BPB_TotSec16 :: nat where "BPB_TotSec16 = 19"

definition BPB_FATSz16 :: nat where "BPB_FATSz16 = 22"

definition BPB_TotSec32 :: nat where "BPB_TotSec32 = 32"

definition BPB_FATSz32 :: nat where "BPB_FATSz32 = 36"

definition MBR_Table :: nat where "MBR_Table = 446"

lemmas bpb_offsets = BS_55AA_def BS_FilSysType_def BPB_BytsPerSec_def BPB_SecPerClus_def
  BPB_RsvdSecCnt_def BPB_NumFATs_def BPB_RootEntCnt_def BPB_TotSec16_def BPB_FATSz16_def
  BPB_TotSec32_def BPB_FATSz32_def MBR_Table_def

section \<open>Operations\<close>

definition check_fs :: "'d fsenv \<Rightarrow> DWORD \<Rightarrow> 'd tff \<Rightarrow> (BYTE \<times> 'd tff) option" where
  "check_fs e sect s = do {
     (r, bs, d) \<leftarrow> d_read e 0 (win_adr e) sect 1 (disk s);
     let s = s\<lparr>fs__win := store 0 bs (fs__win s), disk := d\<rparr>;
     let w = fs__win s;
     if r \<noteq> RES_OK then Some (2, s)
     else if LD_WORD w BS_55AA \<noteq> 0xAA55 then Some (2, s)
     else if take 3 (drop BS_FilSysType w) = bytes_of ''FAT'' then Some (0, s)
     else Some (1, s) }"

text \<open>
  The last part of auto_mount: the file system object from the boot sector in the window.
\<close>

definition init_fs :: "DWORD \<Rightarrow> 'd tff \<Rightarrow> FRESULT \<times> 'd tff" where
  "init_fs bootsect s = (let w = fs__win s;
       fatsize = ucast (LD_WORD w BPB_FATSz16);
       fatsize = (if fatsize = 0 then LD_DWORD w BPB_FATSz32 else fatsize);
       s = upd_fs (\<lambda>f. f\<lparr>sects_fat := ucast fatsize, n_fats := w ! BPB_NumFATs\<rparr>) s;
       fatsize = fatsize * ucast (n_fats (cur_fs s));
       rsvd = ucast (LD_WORD w BPB_RsvdSecCnt);
       s = upd_fs (\<lambda>f. f\<lparr>fatbase := bootsect + rsvd, sects_clust := w ! BPB_SecPerClus,
             n_rootdir := LD_WORD w BPB_RootEntCnt\<rparr>) s;
       fs = cur_fs s;
       totalsect = ucast (LD_WORD w BPB_TotSec16);
       totalsect = (if totalsect = 0 then LD_DWORD w BPB_TotSec32 else totalsect);
       maxclust = udiv32 (totalsect - rsvd - fatsize - ucast (n_rootdir fs div 16))
                    (ucast (sects_clust fs)) + 2;
       s = upd_fs (\<lambda>f. f\<lparr>max_clust := ucast maxclust\<rparr>) s;
       fmt = (if maxclust > 0xFF7 then FS_FAT16 else FS_FAT12) in
     if maxclust > 0xFFF7 then (FR_NO_FILESYSTEM, s)
     else let s = upd_fs (\<lambda>f. f\<lparr>dirbase := fatbase f + fatsize,
            database := fatbase f + fatsize + ucast (n_rootdir f div 16),
            fs_type := fmt, free_clust := 0xFFFF\<rparr>) s;
          s = s\<lparr>fsid := fsid s + 1\<rparr> in
       (FR_OK, upd_fs (\<lambda>f. f\<lparr>fs_id := fsid s\<rparr>) s))"

definition strip_path :: "BYTE list \<Rightarrow> BYTE list" where
  "strip_path path = (let p = dropWhile (\<lambda>c. c = 0x20) path in
     case p of [] \<Rightarrow> [] | c # q \<Rightarrow> if c = 0x2F then q else p)"

definition find_fat :: "'d fsenv \<Rightarrow> 'd tff \<Rightarrow> (BYTE \<times> DWORD \<times> 'd tff) option" where
  "find_fat e s = do {
     (fmt, s) \<leftarrow> check_fs e 0 s;
     if fmt = 1 then
       if fs__win s ! (MBR_Table + 4) \<noteq> 0 then let bootsect = LD_DWORD (fs__win s) (MBR_Table + 8) in do {
         (fmt, s) \<leftarrow> check_fs e bootsect s;
         Some (fmt, bootsect, s) }
       else Some (fmt, 0, s)
     else Some (fmt, 0, s) }"

definition mount_drive :: "'d fsenv \<Rightarrow> bool \<Rightarrow> 'd tff \<Rightarrow> (FRESULT \<times> 'd tff) option" where
  "mount_drive e chk_wp s = (let s = upd_fs (\<lambda>_. FATFS_zero) s in do {
     (stat, d) \<leftarrow> d_initialize e 0 (disk s);
     let s = s\<lparr>disk := d\<rparr>;
     if stat AND STA_NOINIT \<noteq> 0 then Some (FR_NOT_READY, s)
     else if \<not> fs_readonly e \<and> chk_wp \<and> stat AND STA_PROTECT \<noteq> 0 then Some (FR_WRITE_PROTECTED, s)
     else do {
       (fmt, bootsect, s) \<leftarrow> find_fat e s;
       if fmt \<noteq> 0 \<or> LD_WORD (fs__win s) BPB_BytsPerSec \<noteq> 512 then Some (FR_NO_FILESYSTEM, s)
       else Some (init_fs bootsect s) } })"

definition auto_mount :: "'d fsenv \<Rightarrow> BYTE list \<Rightarrow> bool \<Rightarrow> 'd tff \<Rightarrow> (FRESULT \<times> BYTE list \<times> 'd tff) option" where
  "auto_mount e path chk_wp s = (let p = strip_path path; stat = d_status e 0 (disk s) in
     if FatFs s = NULL then Some (FR_NOT_ENABLED, p, s)
     else if fs_type (cur_fs s) \<noteq> 0 \<and> stat AND STA_NOINIT = 0 then
       Some (if \<not> fs_readonly e \<and> chk_wp \<and> stat AND STA_PROTECT \<noteq> 0 then FR_WRITE_PROTECTED
             else FR_OK, p, s)
     else do {
       (res, s) \<leftarrow> mount_drive e chk_wp s;
       Some (res, p, s) })"

definition validate :: "('d, 'z) diskio_scheme \<Rightarrow> ptr \<Rightarrow> WORD \<Rightarrow> 'd tff \<Rightarrow> FRESULT" where
  "validate e fs i s = (
     if fs = NULL \<or> fs_id (fsobj s fs) \<noteq> i then FR_INVALID_OBJECT
     else if d_status e 0 (disk s) AND STA_NOINIT \<noteq> 0 then FR_NOT_READY
     else FR_OK)"

definition clear_fs :: "ptr \<Rightarrow> 'd tff \<Rightarrow> 'd tff" where
  "clear_fs p s = (if p \<noteq> NULL then s\<lparr>fsobj := (fsobj s)(p := FATFS_zero)\<rparr> else s)"

definition f_mount :: "BYTE \<Rightarrow> ptr \<Rightarrow> 'd tff \<Rightarrow> FRESULT \<times> 'd tff" where
  "f_mount drv fs s = (
     if drv \<noteq> 0 then (FR_INVALID_DRIVE, s)
     else let fsobj_old = FatFs s in
       (FR_OK, clear_fs fs (clear_fs fsobj_old (s\<lparr>FatFs := fs\<rparr>))))"

end
