(* ===== verification/Tff_Dir.thy ===== *)
theory Tff_Dir
  imports Tff_Names Tff_Mount
begin

text \<open>
  Directories in tff.c: moving to the next entry, tracing a path, opening and reading a
  directory. A pointer to an entry is its offset in the sector window.
\<close>

definition next_dir_entry :: "'d fsenv \<Rightarrow> DIR \<Rightarrow> 'd tff \<Rightarrow> (bool \<times> DIR \<times> 'd tff) option" where
  "next_dir_entry e dirobj s = (let fs = cur_fs s; idx = dj_index dirobj + 1 in
     if idx AND 15 = 0 then
       let dirobj = dirobj\<lparr>dj_sect := dj_sect dirobj + 1\<rparr> in
       if dj_clust dirobj = 0 then
         if idx \<ge> n_rootdir fs then Some (False, dirobj, s)
         else Some (True, dirobj\<lparr>dj_index := idx\<rparr>, s)
       else if (idx div 16) AND (ucast (sects_clust fs) - 1) = 0 then do {
         (clust, s) \<leftarrow> get_cluster e (dj_clust dirobj) s;
         if clust < 2 \<or> clust \<ge> max_clust (cur_fs s) then Some (False, dirobj, s)
         else Some (True, dirobj\<lparr>dj_clust := clust, dj_sect := clust2sect clust s, dj_index := idx\<rparr>, s) }
       else Some (True, dirobj\<lparr>dj_index := idx\<rparr>, s)
     else Some (True, dirobj\<lparr>dj_index := idx\<rparr>, s))"

text \<open>The offset of the entry a directory object stands at.\<close>

definition entry_ofs :: "DIR \<Rightarrow> nat" where
  "entry_ofs dirobj = unat (dj_index dirobj AND 15) * 32"

definition entry_at :: "nat \<Rightarrow> 'd tff \<Rightarrow> BYTE list" where
  "entry_at i s = take 32 (drop i (fs__win s))"

text \<open>What the inner loop of trace_path ends with.\<close>

datatype search = Hit nat | Miss | Disk_Failure

partial_function (option) dir_search ::
  "'d fsenv \<Rightarrow> BYTE list \<Rightarrow> DIR \<Rightarrow> 'd tff \<Rightarrow> (search \<times> DIR \<times> 'd tff) option" where
  "dir_search e fn dirobj s = do {
     (ok, s) \<leftarrow> move_window e (dj_sect dirobj) s;
     if \<not> ok then Some (Disk_Failure, dirobj, s)
     else let i = entry_ofs dirobj; dptr = entry_at i s in
       if dptr ! 0 = 0 then Some (Miss, dirobj, s)
       else if dptr ! 0 \<noteq> 0xE5 \<and> dptr ! DIR_Attr AND AM_VOL = 0 \<and> take 11 dptr = take 11 fn
       then Some (Hit i, dirobj, s)
       else do {
         (more, dirobj, s) \<leftarrow> next_dir_entry e dirobj s;
         if \<not> more then Some (Miss, dirobj, s)
         else dir_search e fn dirobj s } }"

text \<open>
  The outer loop of trace_path, over the segments of the path. The result holds the directory
  object, the last segment's name and the entry it matched.
\<close>

partial_function (option) trace_segments ::
  "'d fsenv \<Rightarrow> BYTE list \<Rightarrow> DIR \<Rightarrow> 'd tff \<Rightarrow> (FRESULT \<times> DIR \<times> BYTE list \<times> nat option \<times> 'd tff) option" where
  "trace_segments e path dirobj s = (case make_dirfile path of (ds, path', fn) \<Rightarrow>
     if ds = 1 then Some (FR_INVALID_NAME, dirobj, fn, None, s)
     else do {
       (hit, dirobj, s) \<leftarrow> dir_search e fn dirobj s;
       case hit of
         Disk_Failure \<Rightarrow> Some (FR_RW_ERROR, dirobj, fn, None, s)
       | Miss \<Rightarrow> Some (if ds = 0 then FR_NO_FILE else FR_NO_PATH, dirobj, fn, None, s)
       | Hit i \<Rightarrow>
           if ds = 0 then Some (FR_OK, dirobj, fn, Some i, s)
           else if entry_at i s ! DIR_Attr AND AM_DIR = 0 then Some (FR_NO_PATH, dirobj, fn, None, s)
           else let clust = LD_WORD (entry_at i s) DIR_FstClusLO in
             trace_segments e path'
               (dirobj\<lparr>dj_clust := clust, sclust := clust, dj_sect := clust2sect clust s, dj_index := 2\<rparr>) s })"

definition path_end :: "BYTE list \<Rightarrow> bool" where
  "path_end path \<longleftrightarrow> path = [] \<or> hd path = 0"

definition trace_path ::
  "'d fsenv \<Rightarrow> DIR \<Rightarrow> BYTE list \<Rightarrow> BYTE list \<Rightarrow> 'd tff \<Rightarrow> (FRESULT \<times> DIR \<times> BYTE list \<times> nat option \<times> 'd tff) option" where
  "trace_path e dirobj fn path s = (let
       dirobj = dirobj\<lparr>dj_clust := 0, sclust := 0, dj_sect := dirbase (cur_fs s), dj_index := 0,
         dj_fs := FatFs s\<rparr> in
     if path_end path then Some (FR_OK, dirobj, fn, None, s)
     else trace_segments e path dirobj s)"

definition f_opendir :: "'d fsenv \<Rightarrow> DIR \<Rightarrow> BYTE list \<Rightarrow> 'd tff \<Rightarrow> (FRESULT \<times> DIR \<times> 'd tff) option" where
  "f_opendir e dirobj path s = do {
     (res, path, s) \<leftarrow> auto_mount e path False s;
     if res \<noteq> FR_OK then Some (res, dirobj, s)
     else do {
       (res, dirobj, _, dir, s) \<leftarrow> trace_path e dirobj (replicate 12 0) path s;
       if res \<noteq> FR_OK then Some (res, dirobj, s)
       else case dir of
         None \<Rightarrow> Some (FR_OK, dirobj\<lparr>dj_id := fs_id (cur_fs s)\<rparr>, s)
       | Some i \<Rightarrow>
           if entry_at i s ! DIR_Attr AND AM_DIR \<noteq> 0 then
             let clust = LD_WORD (entry_at i s) DIR_FstClusLO in
             Some (FR_OK, dirobj\<lparr>dj_clust := clust, dj_sect := clust2sect clust s, dj_index := 2,
               dj_id := fs_id (cur_fs s)\<rparr>, s)
           else Some (FR_NO_FILE, dirobj\<lparr>dj_id := fs_id (cur_fs s)\<rparr>, s) } }"

text \<open>The loop of f_readdir; \<open>finfo\<close> keeps an empty name until a valid entry is found.\<close>

partial_function (option) readdir_loop ::
  "'d fsenv \<Rightarrow> DIR \<Rightarrow> FILINFO \<Rightarrow> 'd tff \<Rightarrow> (FRESULT \<times> DIR \<times> FILINFO \<times> 'd tff) option" where
  "readdir_loop e dirobj finfo s = (
     if dj_sect dirobj = 0 then Some (FR_OK, dirobj, finfo, s)
     else do {
       (ok, s) \<leftarrow> move_window e (dj_sect dirobj) s;
       if \<not> ok then Some (FR_RW_ERROR, dirobj, finfo, s)
       else let dir = entry_at (entry_ofs dirobj) s; c = dir ! 0 in
         if c = 0 then Some (FR_OK, dirobj, finfo, s)
         else let finfo = (if c \<noteq> 0xE5 \<and> dir ! DIR_Attr AND AM_VOL = 0 then get_fileinfo dir else finfo) in do {
           (more, dirobj, s) \<leftarrow> next_dir_entry e dirobj s;
           let dirobj = (if more then dirobj else dirobj\<lparr>dj_sect := 0\<rparr>);
           if fname finfo ! 0 \<noteq> 0 then Some (FR_OK, dirobj, finfo, s)
           else readdir_loop e dirobj finfo s } })"

definition f_readdir ::
  "'d fsenv \<Rightarrow> DIR \<Rightarrow> FILINFO \<Rightarrow> 'd tff \<Rightarrow> (FRESULT \<times> DIR \<times> FILINFO \<times> 'd tff) option" where
  "f_readdir e dirobj finfo s = (let res = validate e (dj_fs dirobj) (dj_id dirobj) s in
     if res \<noteq> FR_OK then Some (res, dirobj, finfo, s)
     else readdir_loop e dirobj (finfo\<lparr>fname := store 0 [0] (fname finfo)\<rparr>) s)"

definition f_stat :: "'d fsenv \<Rightarrow> BYTE list \<Rightarrow> FILINFO \<Rightarrow> DIR \<Rightarrow> 'd tff \<Rightarrow> (FRESULT \<times> FILINFO \<times> 'd tff) option" where
  "f_stat e path finfo dirobj s = do {
     (res, path, s) \<leftarrow> auto_mount e path False s;
     if res \<noteq> FR_OK then Some (res, finfo, s)
     else do {
       (res, _, _, dir, s) \<leftarrow> trace_path e dirobj (replicate 12 0) path s;
       if res \<noteq> FR_OK then Some (res, finfo, s)
       else case dir of
         None \<Rightarrow> Some (FR_INVALID_NAME, finfo, s)
       | Some i \<Rightarrow> Some (FR_OK, get_fileinfo (entry_at i s), s) } }"

end
