(* ===== verification/Philes.thy ===== *)
theory Philes
  imports Tff_Dir
begin

text \<open>
  The directory of disk images, philes.c: the path of the selected image and the enumeration of
  the .FDD files. The globals are the directory object, the file information and the string
  \<open>ptrfile\<close>, above the FAT module; \<open>fatfs\<close> is the address of the file system object philes.c
  registers.
\<close>

record 'd philes =
  tf :: "'d tff"
  dir :: DIR
  finfo :: FILINFO
  ptrfile :: "BYTE list"

definition ptrfile_init :: "BYTE list" where
  "ptrfile_init = bytes_of ''/VECTOR06/xxxxxxxx.xxx'' @ [0, 0, 0, 0]"

definition endsWith :: "BYTE list \<Rightarrow> BYTE list \<Rightarrow> bool" where
  "endsWith s1 suffix = (let s1len = strlen s1; sulen = strlen suffix in
     if sulen > s1len then False
     else cstr (drop (s1len - sulen) s1) = cstr suffix)"

definition philes_mount :: "'d fsenv \<Rightarrow> ptr \<Rightarrow> 'd philes \<Rightarrow> (FRESULT \<times> 'd philes) option" where
  "philes_mount e fatfs s = do {
     (_, d) \<leftarrow> d_initialize e 0 (disk (tf s));
     case f_mount 0 fatfs ((tf s)\<lparr>disk := d\<rparr>) of (r, t) \<Rightarrow> Some (r, s\<lparr>tf := t\<rparr>) }"

definition philes_opendir :: "'d fsenv \<Rightarrow> 'd philes \<Rightarrow> (FRESULT \<times> 'd philes) option" where
  "philes_opendir e s = (let s = s\<lparr>ptrfile := (ptrfile s)[9 := 0]\<rparr> in do {
     (result, d, t) \<leftarrow> f_opendir e (dir s) (ptrfile s) (tf s);
     Some (result, s\<lparr>dir := d, tf := t, ptrfile := (ptrfile s)[9 := 0x2F]\<rparr>) })"

text \<open>strxcpy copies the characters before the terminator, at most 12.\<close>

fun strxcpy_loop :: "nat \<Rightarrow> BYTE list \<Rightarrow> BYTE list" where
  "strxcpy_loop 0 src = []"
| "strxcpy_loop (Suc i) src = (if src = [] \<or> hd src = 0 then [] else hd src # strxcpy_loop i (tl src))"

definition strxcpy :: "BYTE list \<Rightarrow> BYTE list \<Rightarrow> BYTE list" where
  "strxcpy dst src = store 0 (strxcpy_loop 12 src) dst"

text \<open>The library's strncpy: the characters before the terminator, then zeros, \<open>n\<close> in all.\<close>

definition strncpy :: "BYTE list \<Rightarrow> BYTE list \<Rightarrow> nat \<Rightarrow> BYTE list" where
  "strncpy dst src n = (let c = take n (cstr src) in store 0 (c @ replicate (n - length c) 0) dst)"

text \<open>
  \<open>filename\<close> is the memory behind the pointer, None for a null pointer.
\<close>

partial_function (option) philes_nextfile ::
  "'d fsenv \<Rightarrow> BYTE list option \<Rightarrow> bool \<Rightarrow> 'd philes \<Rightarrow> (FRESULT \<times> BYTE list option \<times> 'd philes) option" where
  "philes_nextfile e filename terminate s = do {
     (r, d, fi, t) \<leftarrow> f_readdir e (dir s) (finfo s) (tf s);
     let s = s\<lparr>dir := d, finfo := fi, tf := t\<rparr>;
     if r = FR_OK \<and> fname fi ! 0 \<noteq> 0 then
       if fattrib fi AND AM_DIR = 0 \<and> endsWith (fname fi) (bytes_of ''.FDD'') then
         Some (FR_OK, map_option (\<lambda>m. if terminate then strncpy m (fname fi) 12
                                      else strxcpy m (fname fi)) filename, s)
       else philes_nextfile e filename terminate s
     else Some (FR_NO_FILE, filename, s) }"

section \<open>Properties\<close>

lemma strxcpy_loop_take: "strxcpy_loop n src = take n (cstr src)"
proof (induction n src rule: strxcpy_loop.induct)
  case (2 n src)
  then show ?case by (cases src) (auto simp: cstr_def)
qed simp

lemma length_strxcpy [len_simps]: "12 \<le> length dst \<Longrightarrow> length (strxcpy dst src) = length dst"
  by (simp add: strxcpy_def strxcpy_loop_take length_store)

lemma length_strncpy [len_simps]: "n \<le> length dst \<Longrightarrow> length (strncpy dst src n) = length dst"
  by (simp add: strncpy_def Let_def length_store)

lemma cstr_drop: "k \<le> strlen s \<Longrightarrow> cstr (drop k s) = drop k (cstr s)"
proof (induction k arbitrary: s)
  case (Suc k)
  then show ?case by (cases s) (auto simp: cstr_def strlen_def split: if_splits)
qed simp

lemma endsWith_iff: "endsWith s1 suffix \<longleftrightarrow> (\<exists>stem. cstr s1 = stem @ cstr suffix)"
proof
  assume "endsWith s1 suffix"
  then have "strlen suffix \<le> strlen s1" and d: "drop (strlen s1 - strlen suffix) (cstr s1) = cstr suffix"
    by (auto simp: endsWith_def Let_def cstr_drop split: if_splits)
  then show "\<exists>stem. cstr s1 = stem @ cstr suffix"
    by (metis append_take_drop_id)
next
  assume "\<exists>stem. cstr s1 = stem @ cstr suffix"
  then show "endsWith s1 suffix"
    by (auto simp: endsWith_def Let_def strlen_def cstr_drop)
qed

end
