(* ===== verification/Osd.thy ===== *)
theory Osd
  imports Prelude
begin

text \<open>
  The on-screen display, osd.c: a cursor, an inverse flag and the 256 bytes of display memory at
  DISPLAY_BASE. A store behind the display memory would show as a longer list.
\<close>

definition DISPLAY_RAMSIZE :: nat where "DISPLAY_RAMSIZE = 256"

record osd =
  osd_x :: BYTE
  osd_y :: BYTE
  inv :: BYTE
  dmem :: "BYTE list"

definition cnotice1 :: "BYTE list" where
  "cnotice1 = bytes_of ''    VECTOR-06C FPGA REPLICA     ''"

definition cnotice2 :: "BYTE list" where
  "cnotice2 = bytes_of ''  (C)2008 VIACHESLAV SLAVINSKY  ''"

definition osd_gotoxy :: "BYTE \<Rightarrow> BYTE \<Rightarrow> osd \<Rightarrow> osd" where
  "osd_gotoxy px py o' = o'\<lparr>osd_x := px, osd_y := py\<rparr>"

definition osd_inv :: "BYTE \<Rightarrow> osd \<Rightarrow> osd" where
  "osd_inv i o' = o'\<lparr>inv := i\<rparr>"

definition osd_puts :: "BYTE list \<Rightarrow> osd \<Rightarrow> osd" where
  "osd_puts str o' = (let ofs = push_bit 5 (osd_y o') + osd_x o' :: BYTE; t = cstr str in
     o'\<lparr>dmem := store (unat ofs) (if inv o' \<noteq> 0 then map (\<lambda>c. 0x80 OR c) t else t) (dmem o')\<rparr>)"

definition osd_cls :: "bool \<Rightarrow> osd \<Rightarrow> osd" where
  "osd_cls hdr o' = (let
       o' = o'\<lparr>osd_x := 0, osd_y := 0, inv := 0, dmem := store 0 (replicate DISPLAY_RAMSIZE 32) (dmem o')\<rparr> in
     if hdr then osd_inv 0 (osd_puts cnotice1 (osd_inv 1 o')) else o')"

section \<open>Properties\<close>

definition osd_ok :: "osd \<Rightarrow> bool" where
  "osd_ok o' \<longleftrightarrow> length (dmem o') = DISPLAY_RAMSIZE"

lemma osd_ofs: "osd_y o' < 8 \<Longrightarrow> osd_x o' < 32 \<Longrightarrow>
    unat (push_bit 5 (osd_y o') + osd_x o') = 32 * unat (osd_y o') + unat (osd_x o')"
  by (simp add: push_bit_eq_mult unat_word_ariths word_less_nat_alt)

lemma osd_gotoxy_ok [simp]: "osd_ok (osd_gotoxy a b o') = osd_ok o'"
  by (simp add: osd_ok_def osd_gotoxy_def)

lemma osd_inv_ok [simp]: "osd_ok (osd_inv i o') = osd_ok o'"
  by (simp add: osd_ok_def osd_inv_def)

lemma osd_cursor [simp]:
  "osd_x (osd_gotoxy a b o') = a" "osd_y (osd_gotoxy a b o') = b"
  "osd_x (osd_inv i o') = osd_x o'" "osd_y (osd_inv i o') = osd_y o'"
  by (simp_all add: osd_gotoxy_def osd_inv_def)

lemma osd_puts_ok:
  "osd_ok o' \<Longrightarrow> unat (push_bit 5 (osd_y o') + osd_x o') + strlen str \<le> 256 \<Longrightarrow> osd_ok (osd_puts str o')"
  by (simp add: osd_ok_def osd_puts_def Let_def length_store strlen_def DISPLAY_RAMSIZE_def)

text \<open>A text that fits its line, placed on the screen, stays on the screen.\<close>

lemma osd_place_ok:
  assumes "osd_ok o'" and "b < 8" and "unat a + strlen str \<le> 32"
  shows "osd_ok (osd_puts str (osd_gotoxy a b o'))"
proof (cases "strlen str = 0")
  case True
  have "unat (push_bit 5 b + a) < 256" by (rule BYTE_less)
  with True assms(1) show ?thesis
    by (intro osd_puts_ok) (simp_all add: less_imp_le)
next
  case False
  with assms(3) have "unat a < 32" by linarith
  then have "unat (push_bit 5 b + a) = 32 * unat b + unat a"
    using assms(2) osd_ofs [of "osd_gotoxy a b o'"] by (simp add: word_less_nat_alt)
  with assms show ?thesis
    by (intro osd_puts_ok) (simp_all add: word_less_nat_alt)
qed

lemma cstr_bytes_of: "list_all (\<lambda>c. c \<noteq> 0) (bytes_of str) \<Longrightarrow> cstr (bytes_of str) = bytes_of str"
  by (simp add: cstr_def takeWhile_eq_all_conv list_all_iff)

lemma strlen_le: "strlen str \<le> length str"
  by (simp add: strlen_def cstr_def length_takeWhile_le)

lemma osd_cls_ok [simp]: "osd_ok o' \<Longrightarrow> osd_ok (osd_cls hdr o')"
proof -
  assume ok: "osd_ok o'"
  define o1 where "o1 = o'\<lparr>osd_x := 0, osd_y := 0, inv := 0,
      dmem := store 0 (replicate DISPLAY_RAMSIZE 32) (dmem o')\<rparr>"
  have o1: "osd_ok o1" using ok by (simp add: o1_def osd_ok_def length_store)
  have "strlen cnotice1 \<le> 32"
    using strlen_le [of cnotice1] by (simp add: cnotice1_def)
  then have "osd_ok (osd_puts cnotice1 (osd_inv 1 o1))"
    using o1 by (intro osd_puts_ok) (simp_all, simp add: o1_def)
  with o1 show ?thesis by (simp add: osd_cls_def Let_def flip: o1_def)
qed

end
