(* ===== verification/Hw.thy ===== *)
theory Hw
  imports Prelude
begin

text \<open>
  The memory-mapped I/O of specialio.h. The FPGA behind the ports is a parameter: a record of
  what reading and writing a port address does to its state. The SPI data register is written to
  exchange a byte with the card and read to fetch the byte received; the DMA controller
  (dma_rw.v) holds the processor while it exchanges 512 bytes, so its transfers are sequences of
  such accesses here.
\<close>

record 'h ports =
  port_rd :: "WORD \<Rightarrow> 'h \<Rightarrow> BYTE \<times> 'h"
  port_wr :: "WORD \<Rightarrow> BYTE \<Rightarrow> 'h \<Rightarrow> 'h"

definition IOPORT_BASE :: WORD where "IOPORT_BASE = 0xE000"

definition MMC_A :: WORD where "MMC_A = IOPORT_BASE + 0x00"

definition SPDR :: WORD where "SPDR = IOPORT_BASE + 0x01"

definition SPSR :: WORD where "SPSR = IOPORT_BASE + 0x02"

definition JOYSTICK :: WORD where "JOYSTICK = IOPORT_BASE + 0x03"

definition SERIAL_TxD :: WORD where "SERIAL_TxD = IOPORT_BASE + 0x04"

definition SERIAL_CTL :: WORD where "SERIAL_CTL = IOPORT_BASE + 0x06"

definition TIMER_1 :: WORD where "TIMER_1 = IOPORT_BASE + 0x07"

definition TIMER_2 :: WORD where "TIMER_2 = IOPORT_BASE + 0x08"

definition MASTER_COMMAND :: WORD where "MASTER_COMMAND = IOPORT_BASE + 0x09"

definition SLAVE_STATUS :: WORD where "SLAVE_STATUS = IOPORT_BASE + 0x0A"

definition MASTER_TRACK :: WORD where "MASTER_TRACK = IOPORT_BASE + 0x0B"

definition MASTER_SECTOR :: WORD where "MASTER_SECTOR = IOPORT_BASE + 0x0C"

definition DMAMSB :: WORD where "DMAMSB = IOPORT_BASE + 0x0E"

definition DMALSB :: WORD where "DMALSB = IOPORT_BASE + 0x0F"

definition GREEN_LEDS :: WORD where "GREEN_LEDS = IOPORT_BASE + 0x10"

definition OSD_CMD :: WORD where "OSD_CMD = IOPORT_BASE + 0x11"

definition MMC_DAT3 :: BYTE where "MMC_DAT3 = 1"

definition JOY_LT :: BYTE where "JOY_LT = 0x10"

definition JOY_RT :: BYTE where "JOY_RT = 0x08"

definition JOY_UP :: BYTE where "JOY_UP = 0x04"

definition JOY_DN :: BYTE where "JOY_DN = 0x02"

definition JOY_FIRE :: BYTE where "JOY_FIRE = 0x01"

lemmas port_defs = IOPORT_BASE_def MMC_A_def SPDR_def SPSR_def JOYSTICK_def SERIAL_TxD_def
  SERIAL_CTL_def TIMER_1_def TIMER_2_def MASTER_COMMAND_def SLAVE_STATUS_def MASTER_TRACK_def
  MASTER_SECTOR_def DMAMSB_def DMALSB_def GREEN_LEDS_def OSD_CMD_def

section \<open>The SPI port and the DMA controller\<close>

definition SELECT :: "'h ports \<Rightarrow> 'h \<Rightarrow> 'h" where
  "SELECT p h = (case port_rd p MMC_A h of (v, h) \<Rightarrow> port_wr p MMC_A (v AND NOT MMC_DAT3) h)"

definition DESELECT :: "'h ports \<Rightarrow> 'h \<Rightarrow> 'h" where
  "DESELECT p h = (case port_rd p MMC_A h of (v, h) \<Rightarrow> port_wr p MMC_A (v OR MMC_DAT3) h)"

definition rcvr_spi :: "'h ports \<Rightarrow> 'h \<Rightarrow> BYTE \<times> 'h" where
  "rcvr_spi p h = port_rd p SPDR (port_wr p SPDR 0xFF h)"

definition xmit_spi :: "'h ports \<Rightarrow> BYTE \<Rightarrow> 'h \<Rightarrow> 'h" where
  "xmit_spi p dat h = port_wr p SPDR dat h"

fun xmit_all :: "'h ports \<Rightarrow> BYTE list \<Rightarrow> 'h \<Rightarrow> 'h" where
  "xmit_all p [] h = h"
| "xmit_all p (b # bs) h = xmit_all p bs (xmit_spi p b h)"

fun rcvr_n :: "'h ports \<Rightarrow> nat \<Rightarrow> 'h \<Rightarrow> BYTE list \<times> 'h" where
  "rcvr_n p 0 h = ([], h)"
| "rcvr_n p (Suc n) h = (case rcvr_spi p h of (b, h) \<Rightarrow>
     case rcvr_n p n h of (bs, h) \<Rightarrow> (b # bs, h))"

lemma length_rcvr_n [len_simps]: "length (fst (rcvr_n p n h)) = n"
  by (induction n arbitrary: h) (auto split: prod.splits, metis fst_conv)

text \<open>
  A transfer started by writing the SPI control register: the number of blocks is in bits 4 to 6,
  bit 7 chooses the direction from memory to the card. The data is what the controller stores to
  memory from the DMA address on, or reads from there.
\<close>

definition dma_to_ram :: "'h ports \<Rightarrow> BYTE \<Rightarrow> 'h \<Rightarrow> BYTE list \<times> 'h" where
  "dma_to_ram p ctl h = rcvr_n p (512 * unat (drop_bit 4 ctl AND 7)) (port_wr p SPSR ctl h)"

definition dma_to_spi :: "'h ports \<Rightarrow> BYTE \<Rightarrow> BYTE list \<Rightarrow> 'h \<Rightarrow> 'h" where
  "dma_to_spi p ctl mem h =
     xmit_all p (take (512 * unat (drop_bit 4 ctl AND 7)) mem) (port_wr p SPSR ctl h)"

end
