(* ===== verification/Serial.thy ===== *)
theory Serial
  imports Hw
begin

text \<open>
  The UART output of serial.c (WITH_SERIAL) and the delays of timer.c. Both wait for a
  port: a wait that the hardware never ends is None.
\<close>

section \<open>serial.c\<close>

text \<open>\<open>for (; SERIAL_CTL & SERIAL_RDY != 0;);\<close> The comparison binds tighter, and SERIAL_RDY is 1.\<close>

partial_function (option) ser_wait :: "'h ports \<Rightarrow> 'h \<Rightarrow> 'h option" where
  "ser_wait p h = (case port_rd p SERIAL_CTL h of (v, h) \<Rightarrow>
     if v AND 1 \<noteq> 0 then ser_wait p h else Some h)"

definition ser_putc :: "'h ports \<Rightarrow> BYTE \<Rightarrow> 'h \<Rightarrow> 'h option" where
  "ser_putc p c h = do {
     h \<leftarrow> ser_wait p h;
     Some (port_wr p SERIAL_TxD c h) }"

fun ser_puts :: "'h ports \<Rightarrow> BYTE list \<Rightarrow> 'h \<Rightarrow> 'h option" where
  "ser_puts p [] h = Some h"
| "ser_puts p (c # s) h = (if c = 0 then Some h
     else do {
       h \<leftarrow> ser_wait p h;
       ser_puts p s (port_wr p SERIAL_TxD c h) })"

definition ser_nl :: "'h ports \<Rightarrow> 'h \<Rightarrow> 'h option" where
  "ser_nl p h = do {
     h \<leftarrow> ser_putc p 0x0D h;
     ser_putc p 0x0A h }"

definition nybble_alpha :: "BYTE \<Rightarrow> BYTE" where
  "nybble_alpha nybble = nybble + (if nybble < 0x0A then 0x30 else 0x61 - 0x0A)"

definition print_hex :: "'h ports \<Rightarrow> BYTE \<Rightarrow> 'h \<Rightarrow> 'h option" where
  "print_hex p b h = do {
     h \<leftarrow> ser_putc p (nybble_alpha (drop_bit 4 (b AND 0xF0))) h;
     ser_putc p (nybble_alpha (b AND 0x0F)) h }"

text \<open>The two inner loops of print_buff, over the bytes of a line from position \<open>add\<close> on.\<close>

fun print_hexes :: "'h ports \<Rightarrow> nat \<Rightarrow> BYTE list \<Rightarrow> 'h \<Rightarrow> 'h option" where
  "print_hexes p add [] h = Some h"
| "print_hexes p add (b # bs) h = do {
     h \<leftarrow> print_hex p b h;
     h \<leftarrow> ser_putc p (if add = 8 then 0x2D else 0x20) h;
     print_hexes p (add + 1) bs h }"

fun print_chars :: "'h ports \<Rightarrow> BYTE list \<Rightarrow> 'h \<Rightarrow> 'h option" where
  "print_chars p [] h = Some h"
| "print_chars p (c # bs) h = do {
     h \<leftarrow> ser_putc p (if c > 31 \<and> c < 128 then c else 0x2E) h;
     print_chars p bs h }"

fun print_lines :: "'h ports \<Rightarrow> nat \<Rightarrow> BYTE list \<Rightarrow> 'h \<Rightarrow> 'h option" where
  "print_lines p 0 buff h = Some h"
| "print_lines p (Suc n) buff h = do {
     h \<leftarrow> ser_nl p h;
     h \<leftarrow> print_hexes p 0 (take 16 buff) h;
     h \<leftarrow> print_chars p (take 16 buff) h;
     print_lines p n (drop 16 buff) h }"

definition print_buff :: "'h ports \<Rightarrow> BYTE list \<Rightarrow> 'h \<Rightarrow> 'h option" where
  "print_buff p buff h = do {
     h \<leftarrow> print_lines p (1024 div 16) buff h;
     ser_nl p h }"

section \<open>timer.c\<close>

partial_function (option) timer_wait :: "'h ports \<Rightarrow> WORD \<Rightarrow> 'h \<Rightarrow> 'h option" where
  "timer_wait p a h = (case port_rd p a h of (t, h) \<Rightarrow> if t \<noteq> 0 then timer_wait p a h else Some h)"

definition delay1 :: "'h ports \<Rightarrow> BYTE \<Rightarrow> 'h \<Rightarrow> 'h option" where
  "delay1 p ms10 h = timer_wait p TIMER_1 (port_wr p TIMER_1 ms10 h)"

definition delay2 :: "'h ports \<Rightarrow> BYTE \<Rightarrow> 'h \<Rightarrow> 'h option" where
  "delay2 p ms10 h = timer_wait p TIMER_2 (port_wr p TIMER_2 ms10 h)"

end
