(* ===== verification/Mmc.thy ===== *)
theory Mmc
  imports Diskio Hw
begin

text \<open>
  The MMC/SD card driver mmc.c, in the build config.h selects (WITH_DMA). The driver's state is
  its disk status and card type, above the hardware; every wait for the card is bounded by a
  hardware timer, whose expiry is the hardware's, so the waits are in the option type.
\<close>

definition CMD0 :: BYTE where "CMD0 = 0x40"

definition CMD1 :: BYTE where "CMD1 = 0x41"

definition ACMD41 :: BYTE where "ACMD41 = 0xE9"

definition CMD8 :: BYTE where "CMD8 = 0x48"

definition CMD12 :: BYTE where "CMD12 = 0x4C"

definition CMD16 :: BYTE where "CMD16 = 0x50"

definition CMD17 :: BYTE where "CMD17 = 0x51"

definition CMD18 :: BYTE where "CMD18 = 0x52"

definition ACMD23 :: BYTE where "ACMD23 = 0xD7"

definition CMD24 :: BYTE where "CMD24 = 0x58"

definition CMD25 :: BYTE where "CMD25 = 0x59"

definition CMD55 :: BYTE where "CMD55 = 0x77"

definition CMD58 :: BYTE where "CMD58 = 0x7A"

lemmas cmd_defs = CMD0_def CMD1_def ACMD41_def CMD8_def CMD12_def CMD16_def CMD17_def CMD18_def
  ACMD23_def CMD24_def CMD25_def CMD55_def CMD58_def

section \<open>State\<close>

record 'h mmc =
  Stat :: BYTE
  CardType :: BYTE
  hw :: 'h

definition mmc_init :: "'h \<Rightarrow> 'h mmc" where
  "mmc_init h = \<lparr>Stat = STA_NOINIT, CardType = 0, hw = h\<rparr>"

section \<open>Private functions\<close>

text \<open>The loop of wait_ready, behind the timer start and the first byte.\<close>

partial_function (option) wait_loop :: "'h ports \<Rightarrow> 'h \<Rightarrow> (BYTE \<times> 'h) option" where
  "wait_loop p h = (case rcvr_spi p h of (res, h) \<Rightarrow>
     if res \<noteq> 0xFF then (case port_rd p TIMER_2 h of (t, h) \<Rightarrow>
       if t \<noteq> 0 then wait_loop p h else Some (res, h))
     else Some (res, h))"

definition wait_ready :: "'h ports \<Rightarrow> 'h \<Rightarrow> (BYTE \<times> 'h) option" where
  "wait_ready p h = wait_loop p (snd (rcvr_spi p (port_wr p TIMER_2 50 h)))"

definition release_spi :: "'h ports \<Rightarrow> 'h \<Rightarrow> 'h" where
  "release_spi p h = snd (rcvr_spi p (DESELECT p h))"

definition power_off :: "'h ports \<Rightarrow> 'h mmc \<Rightarrow> 'h mmc option" where
  "power_off p s = do {
     (_, h) \<leftarrow> wait_ready p (SELECT p (hw s));
     Some (s\<lparr>hw := release_spi p h, Stat := Stat s OR STA_NOINIT\<rparr>) }"

text \<open>The wait of rcvr_datablock for the data token.\<close>

partial_function (option) token_loop :: "'h ports \<Rightarrow> 'h \<Rightarrow> (BYTE \<times> 'h) option" where
  "token_loop p h = (case rcvr_spi p h of (token, h) \<Rightarrow>
     if token = 0xFF then (case port_rd p TIMER_1 h of (t, h) \<Rightarrow>
       if t \<noteq> 0 then token_loop p h else Some (token, h))
     else Some (token, h))"

text \<open>
  rcvr_datablock to the address \<open>buff\<close>: whether a block came, and the bytes the DMA controller
  stored from that address on.
\<close>

definition rcvr_datablock :: "'h ports \<Rightarrow> ptr \<Rightarrow> WORD \<Rightarrow> 'h \<Rightarrow> (bool \<times> BYTE list \<times> 'h) option" where
  "rcvr_datablock p buff btr h = do {
     (token, h) \<leftarrow> token_loop p (port_wr p TIMER_1 10 h);
     if token \<noteq> 0xFE then Some (False, [], h)
     else let h = port_wr p DMAMSB (ucast (drop_bit 8 buff)) h;
            h = port_wr p DMALSB (ucast (buff AND 0x00FF)) h in
       case dma_to_ram p (ucast (push_bit 4 (btr div 512))) h of (bs, h) \<Rightarrow>
         Some (True, bs, snd (rcvr_spi p (snd (rcvr_spi p h)))) }"

text \<open>xmit_datablock of the data \<open>mem\<close> at the address \<open>buff\<close>.\<close>

definition xmit_datablock :: "'h ports \<Rightarrow> ptr \<Rightarrow> BYTE list \<Rightarrow> BYTE \<Rightarrow> 'h \<Rightarrow> (bool \<times> 'h) option" where
  "xmit_datablock p buff mem token h = do {
     (r, h) \<leftarrow> wait_ready p h;
     if r \<noteq> 0xFF then Some (False, h)
     else let h = xmit_spi p token h in
       if token \<noteq> 0xFD then
         let h = port_wr p DMAMSB (ucast (drop_bit 8 buff)) h;
             h = port_wr p DMALSB (ucast (buff AND 0x00FF)) h;
             h = dma_to_spi p 0x90 mem h;
             h = xmit_spi p 0xFF (xmit_spi p 0xFF h) in
         case rcvr_spi p h of (resp, h) \<Rightarrow> Some (resp AND 0x1F = 0x05, h)
       else Some (True, h) }"

text \<open>The response loop of send_cmd: at most \<open>n\<close> attempts.\<close>

fun resp_loop :: "'h ports \<Rightarrow> nat \<Rightarrow> 'h \<Rightarrow> BYTE \<times> 'h" where
  "resp_loop p 0 h = rcvr_spi p h"
| "resp_loop p (Suc n) h = (case rcvr_spi p h of (res, h) \<Rightarrow>
     if res AND 0x80 \<noteq> 0 \<and> n \<noteq> 0 then resp_loop p n h else (res, h))"

text \<open>The six bytes of a command.\<close>

definition cmd_packet :: "BYTE \<Rightarrow> DWORD \<Rightarrow> BYTE list" where
  "cmd_packet cmd arg = [cmd, ucast (drop_bit 24 arg), ucast (drop_bit 16 arg),
     ucast (drop_bit 8 arg), ucast arg,
     if cmd = CMD8 then 0x87 else if cmd = CMD0 then 0x95 else 0xFF]"

definition send_packet :: "'h ports \<Rightarrow> BYTE \<Rightarrow> DWORD \<Rightarrow> 'h \<Rightarrow> (BYTE \<times> 'h) option" where
  "send_packet p cmd arg h = do {
     (r, h) \<leftarrow> wait_ready p (SELECT p (DESELECT p h));
     if r \<noteq> 0xFF then Some (0xFF, h)
     else let h = xmit_all p (cmd_packet cmd arg) h;
            h = (if cmd = CMD12 then snd (rcvr_spi p h) else h) in
       Some (resp_loop p 10 h) }"

text \<open>
  send_cmd: an application command (bit 7) is preceded by CMD55, whose recursive call is
  send_packet, since bit 7 of CMD55 is clear.
\<close>

definition send_cmd :: "'h ports \<Rightarrow> BYTE \<Rightarrow> DWORD \<Rightarrow> 'h \<Rightarrow> (BYTE \<times> 'h) option" where
  "send_cmd p cmd arg h = (
     if cmd AND 0x80 \<noteq> 0 then do {
       (res, h) \<leftarrow> send_packet p CMD55 0 h;
       if res > 1 then Some (res, h) else send_packet p (cmd AND 0x7F) arg h }
     else send_packet p cmd arg h)"

section \<open>Public functions\<close>

definition disk_poll :: "'h ports \<Rightarrow> BYTE \<Rightarrow> 'h mmc \<Rightarrow> (BYTE \<times> 'h mmc) option" where
  "disk_poll p drv s = (if drv \<noteq> 0 then Some (STA_NOINIT, s)
     else do {
       (r, h) \<leftarrow> send_cmd p CMD58 0 (hw s);
       let (res, h) = (if r = 0 then (dresult_code RES_OK, snd (rcvr_n p 4 h))
                       else (dresult_code RES_NOTRDY, h));
       Some (res, s\<lparr>hw := release_spi p h\<rparr>) })"

text \<open>\<open>while (Timer1 && send_cmd (cmd, arg));\<close>\<close>

partial_function (option) leave_idle :: "'h ports \<Rightarrow> BYTE \<Rightarrow> DWORD \<Rightarrow> 'h \<Rightarrow> 'h option" where
  "leave_idle p cmd arg h = (case port_rd p TIMER_1 h of (t, h) \<Rightarrow>
     if t = 0 then Some h
     else do {
       (r, h) \<leftarrow> send_cmd p cmd arg h;
       if r \<noteq> 0 then leave_idle p cmd arg h else Some h })"

text \<open>The two branches of disk_initialize on the answer to CMD8: the card type found.\<close>

definition init_sdhc :: "'h ports \<Rightarrow> 'h \<Rightarrow> (BYTE \<times> 'h) option" where
  "init_sdhc p h = (case rcvr_n p 4 h of (ocr, h) \<Rightarrow>
     if ocr ! 2 = 0x01 \<and> ocr ! 3 = 0xAA then do {
       h \<leftarrow> leave_idle p ACMD41 (push_bit 30 1) h;
       case port_rd p TIMER_1 h of (t, h) \<Rightarrow>
         if t = 0 then Some (0, h)
         else do {
           (r, h) \<leftarrow> send_cmd p CMD58 0 h;
           if r \<noteq> 0 then Some (0, h)
           else case rcvr_n p 4 h of (ocr, h) \<Rightarrow>
             Some (if ocr ! 0 AND 0x40 \<noteq> 0 then 12 else 4, h) } }
     else Some (0, h))"

definition init_sdsc :: "'h ports \<Rightarrow> 'h \<Rightarrow> (BYTE \<times> 'h) option" where
  "init_sdsc p h = do {
     (r, h) \<leftarrow> send_cmd p ACMD41 0 h;
     let (ty, cmd) = (if r \<le> 1 then (2, ACMD41) else (1, CMD1));
     h \<leftarrow> leave_idle p cmd 0 h;
     case port_rd p TIMER_1 h of (t, h) \<Rightarrow>
       if t = 0 then Some (0, h)
       else do {
         (r, h) \<leftarrow> send_cmd p CMD16 512 h;
         Some (if r \<noteq> 0 then 0 else ty, h) } }"

definition init_card :: "'h ports \<Rightarrow> 'h \<Rightarrow> (BYTE \<times> 'h) option" where
  "init_card p h = do {
     (r, h) \<leftarrow> send_cmd p CMD0 0 h;
     if r \<noteq> 1 then Some (0, h)
     else do {
       (r, h) \<leftarrow> send_cmd p CMD8 0x1AA (port_wr p TIMER_1 100 h);
       if r = 1 then init_sdhc p h else init_sdsc p h } }"

definition disk_initialize :: "'h ports \<Rightarrow> BYTE \<Rightarrow> 'h mmc \<Rightarrow> (BYTE \<times> 'h mmc) option" where
  "disk_initialize p drv s = (
     if drv \<noteq> 0 then Some (STA_NOINIT, s)
     else if Stat s AND STA_NODISK \<noteq> 0 then Some (Stat s, s)
     else do {
       (ty, h) \<leftarrow> init_card p (snd (rcvr_n p 10 (hw s)));
       let s = s\<lparr>CardType := ty, hw := release_spi p h\<rparr>;
       s \<leftarrow> (if ty \<noteq> 0 then Some (s\<lparr>Stat := Stat s AND NOT STA_NOINIT\<rparr>) else power_off p s);
       Some (Stat s, s) })"

definition disk_status :: "BYTE \<Rightarrow> 'h mmc \<Rightarrow> BYTE" where
  "disk_status drv s = (if drv \<noteq> 0 then STA_NOINIT else Stat s)"

text \<open>
  The block loop of disk_read, with \<open>n\<close> blocks to go: the number left when it ends (0 when every
  block came) and the bytes stored.
\<close>

fun read_blocks :: "'h ports \<Rightarrow> ptr \<Rightarrow> nat \<Rightarrow> 'h \<Rightarrow> (nat \<times> BYTE list \<times> 'h) option" where
  "read_blocks p buff 0 h = Some (0, [], h)"
| "read_blocks p buff (Suc n) h = do {
     (ok, bs, h) \<leftarrow> rcvr_datablock p buff 512 h;
     if \<not> ok then Some (Suc n, bs, h)
     else do {
       (left, bs', h) \<leftarrow> read_blocks p (buff + 512) n h;
       Some (left, bs @ bs', h) } }"

definition card_address :: "'h mmc \<Rightarrow> DWORD \<Rightarrow> DWORD" where
  "card_address s sector = (if CardType s AND 8 = 0 then sector * 512 else sector)"

definition disk_read :: "'h ports \<Rightarrow> BYTE \<Rightarrow> ptr \<Rightarrow> DWORD \<Rightarrow> BYTE \<Rightarrow> 'h mmc \<Rightarrow> (DRESULT \<times> BYTE list \<times> 'h mmc) option" where
  "disk_read p drv buff sector count s = (
     if drv \<noteq> 0 \<or> count = 0 then Some (RES_PARERR, [], s)
     else if Stat s AND STA_NOINIT \<noteq> 0 then Some (RES_NOTRDY, [], s)
     else let sector = card_address s sector in do {
       (left, bs, h) \<leftarrow> (
         if count = 1 then do {
           (r, h) \<leftarrow> send_cmd p CMD17 sector (hw s);
           if r \<noteq> 0 then Some (1, [], h)
           else do {
             (ok, bs, h) \<leftarrow> rcvr_datablock p buff 512 h;
             Some (if ok then 0 else 1, bs, h) } }
         else do {
           (r, h) \<leftarrow> send_cmd p CMD18 sector (hw s);
           if r \<noteq> 0 then Some (unat count, [], h)
           else do {
             (left, bs, h) \<leftarrow> read_blocks p buff (unat count) h;
             (_, h) \<leftarrow> send_cmd p CMD12 0 h;
             Some (left, bs, h) } });
       Some (if left \<noteq> 0 then RES_ERROR else RES_OK, bs, s\<lparr>hw := release_spi p h\<rparr>) })"

fun write_blocks :: "'h ports \<Rightarrow> ptr \<Rightarrow> BYTE list \<Rightarrow> nat \<Rightarrow> 'h \<Rightarrow> (nat \<times> 'h) option" where
  "write_blocks p buff mem 0 h = Some (0, h)"
| "write_blocks p buff mem (Suc n) h = do {
     (ok, h) \<leftarrow> xmit_datablock p buff mem 0xFC h;
     if \<not> ok then Some (Suc n, h) else write_blocks p (buff + 512) (drop 512 mem) n h }"

definition disk_write :: "'h ports \<Rightarrow> BYTE \<Rightarrow> ptr \<Rightarrow> BYTE list \<Rightarrow> DWORD \<Rightarrow> BYTE \<Rightarrow> 'h mmc \<Rightarrow> (DRESULT \<times> 'h mmc) option" where
  "disk_write p drv buff mem sector count s = (
     if drv \<noteq> 0 \<or> count = 0 then Some (RES_PARERR, s)
     else if Stat s AND STA_NOINIT \<noteq> 0 then Some (RES_NOTRDY, s)
     else if Stat s AND STA_PROTECT \<noteq> 0 then Some (RES_WRPRT, s)
     else let sector = card_address s sector in do {
       (left, h) \<leftarrow> (
         if count = 1 then do {
           (r, h) \<leftarrow> send_cmd p CMD24 sector (hw s);
           if r \<noteq> 0 then Some (1, h)
           else do {
             (ok, h) \<leftarrow> xmit_datablock p buff mem 0xFE h;
             Some (if ok then 0 else 1, h) } }
         else do {
           h \<leftarrow> (if CardType s AND 6 \<noteq> 0 then do {
               (_, h) \<leftarrow> send_cmd p ACMD23 (ucast count) (hw s);
               Some h }
             else Some (hw s));
           (r, h) \<leftarrow> send_cmd p CMD25 sector h;
           if r \<noteq> 0 then Some (unat count, h)
           else do {
             (left, h) \<leftarrow> write_blocks p buff mem (unat count) h;
             (ok, h) \<leftarrow> xmit_datablock p 0 [] 0xFD h;
             Some (if \<not> ok then 1 else left, h) } });
       Some (if left \<noteq> 0 then RES_ERROR else RES_OK, s\<lparr>hw := release_spi p h\<rparr>) })"

section \<open>Control requests\<close>

text \<open>
  disk_ioctl, compiled in when _USE_IOCTL is set. \<open>buff\<close> is the memory at the caller's pointer
  \<open>adr\<close>; \<open>csd\<close> is the local array of 16 bytes, uninitialised, at \<open>csd_adr\<close>. Shifts take
  their count as the runtime does: modulo 32 on long, modulo 16 on int.
\<close>

definition CTRL_POWER :: BYTE where "CTRL_POWER = 4"

definition GET_SECTOR_COUNT :: BYTE where "GET_SECTOR_COUNT = 1"

definition GET_SECTOR_SIZE :: BYTE where "GET_SECTOR_SIZE = 2"

definition GET_BLOCK_SIZE :: BYTE where "GET_BLOCK_SIZE = 3"

definition MMC_GET_TYPE :: BYTE where "MMC_GET_TYPE = 10"

definition MMC_GET_CSD :: BYTE where "MMC_GET_CSD = 11"

definition MMC_GET_CID :: BYTE where "MMC_GET_CID = 12"

definition MMC_GET_OCR :: BYTE where "MMC_GET_OCR = 13"

definition MMC_GET_SDSTAT :: BYTE where "MMC_GET_SDSTAT = 14"

definition CMD9 :: BYTE where "CMD9 = 0x49"

definition CMD10 :: BYTE where "CMD10 = 0x4A"

definition ACMD13 :: BYTE where "ACMD13 = 0xCD"

text \<open>Send a command and receive a data block of \<open>btr\<close> bytes into \<open>mem\<close> at \<open>adr\<close>.\<close>

definition cmd_block :: "'h ports \<Rightarrow> BYTE \<Rightarrow> bool \<Rightarrow> ptr \<Rightarrow> BYTE list \<Rightarrow> WORD \<Rightarrow> 'h \<Rightarrow> (bool \<times> BYTE list \<times> 'h) option" where
  "cmd_block p cmd r2 adr mem btr h = do {
     (r, h) \<leftarrow> send_cmd p cmd 0 h;
     if r \<noteq> 0 then Some (False, mem, h)
     else do {
       (ok, bs, h) \<leftarrow> rcvr_datablock p adr btr (if r2 then snd (rcvr_spi p h) else h);
       Some (ok, store 0 bs mem, h) } }"

text \<open>The sizes computed from the card's CSD register.\<close>

definition csd_sectors :: "BYTE list \<Rightarrow> DWORD" where
  "csd_sectors csd = (
     if drop_bit 6 (csd ! 0) = 1 then
       let csize = ucast (csd ! 9) + push_bit 8 (ucast (csd ! 8)) + 1 :: WORD in push_bit 10 (ucast csize)
     else let n = (csd ! 5 AND 15) + drop_bit 7 (csd ! 10 AND 128) + push_bit 1 (csd ! 9 AND 3) + 2;
         csize = ucast (drop_bit 6 (csd ! 8)) + push_bit 2 (ucast (csd ! 7))
           + push_bit 10 (ucast (csd ! 6 AND 3)) + 1 :: WORD in
       push_bit (unat ((n - 9) AND 0x1F)) (ucast csize))"

definition csd_erase_sd1 :: "BYTE list \<Rightarrow> DWORD" where
  "csd_erase_sd1 csd = (let
       v = push_bit 1 (ucast (csd ! 10 AND 63)) + ucast (drop_bit 7 (csd ! 11 AND 128)) + 1 :: WORD;
       k = ucast (drop_bit 6 (csd ! 13)) - 1 :: WORD in
     ucast (push_bit (unat (k AND 0x0F)) v))"

definition csd_erase_mmc :: "BYTE list \<Rightarrow> DWORD" where
  "csd_erase_mmc csd = (let
       a = ucast (drop_bit 2 (csd ! 10 AND 124)) + 1 :: WORD;
       b = push_bit 3 (ucast (csd ! 11 AND 3)) + ucast (drop_bit 5 (csd ! 11 AND 224)) + 1 :: WORD in
     ucast (a * b))"

definition ioctl_power :: "'h ports \<Rightarrow> BYTE list \<Rightarrow> 'h mmc \<Rightarrow> (DRESULT \<times> BYTE list \<times> 'h mmc) option" where
  "ioctl_power p buff s = (
     if buff ! 0 = 0 then do {
       s \<leftarrow> power_off p s;
       Some (RES_OK, buff, s) }
     else if buff ! 0 = 1 then Some (RES_OK, buff, s)
     else if buff ! 0 = 2 then Some (RES_OK, buff[1 := 1], s)
     else Some (RES_PARERR, buff, s))"

definition ioctl_block_size ::
  "'h ports \<Rightarrow> ptr \<Rightarrow> BYTE list \<Rightarrow> BYTE \<Rightarrow> BYTE list \<Rightarrow> 'h \<Rightarrow> (DRESULT \<times> BYTE list \<times> 'h) option" where
  "ioctl_block_size p csd_adr csd ty buff h = (
     if ty AND 4 \<noteq> 0 then do {
       (ok, csd, h) \<leftarrow> cmd_block p ACMD13 True csd_adr csd 16 h;
       if \<not> ok then Some (RES_ERROR, buff, h)
       else Some (RES_OK, ST_DWORD 0 (push_bit (unat (drop_bit 4 (csd ! 10))) 16) buff, snd (rcvr_n p 48 h)) }
     else do {
       (ok, csd, h) \<leftarrow> cmd_block p CMD9 False csd_adr csd 16 h;
       if \<not> ok then Some (RES_ERROR, buff, h)
       else Some (RES_OK,
         ST_DWORD 0 (if ty AND 2 \<noteq> 0 then csd_erase_sd1 csd else csd_erase_mmc csd) buff, h) })"

definition block_result :: "(bool \<times> BYTE list \<times> 'h) option \<Rightarrow> (DRESULT \<times> BYTE list \<times> 'h) option" where
  "block_result m = do {
     (ok, mem, h) \<leftarrow> m;
     Some (if ok then RES_OK else RES_ERROR, mem, h) }"

definition ioctl_request ::
  "'h ports \<Rightarrow> ptr \<Rightarrow> BYTE list \<Rightarrow> BYTE \<Rightarrow> ptr \<Rightarrow> BYTE list \<Rightarrow> BYTE \<Rightarrow> 'h \<Rightarrow> (DRESULT \<times> BYTE list \<times> 'h) option" where
  "ioctl_request p csd_adr csd ctrl adr buff ty h = (
     if ctrl = CTRL_SYNC then do {
       (r, h) \<leftarrow> wait_ready p (SELECT p h);
       Some (if r = 0xFF then RES_OK else RES_ERROR, buff, h) }
     else if ctrl = GET_SECTOR_COUNT then do {
       (ok, csd, h) \<leftarrow> cmd_block p CMD9 False csd_adr csd 16 h;
       Some (if ok then (RES_OK, ST_DWORD 0 (csd_sectors csd) buff, h) else (RES_ERROR, buff, h)) }
     else if ctrl = GET_SECTOR_SIZE then Some (RES_OK, ST_WORD 0 512 buff, h)
     else if ctrl = GET_BLOCK_SIZE then ioctl_block_size p csd_adr csd ty buff h
     else if ctrl = MMC_GET_TYPE then Some (RES_OK, buff[0 := ty], h)
     else if ctrl = MMC_GET_CSD then block_result (cmd_block p CMD9 False adr buff 16 h)
     else if ctrl = MMC_GET_CID then block_result (cmd_block p CMD10 False adr buff 16 h)
     else if ctrl = MMC_GET_OCR then do {
       (r, h) \<leftarrow> send_cmd p CMD58 0 h;
       if r \<noteq> 0 then Some (RES_ERROR, buff, h)
       else case rcvr_n p 4 h of (bs, h) \<Rightarrow> Some (RES_OK, store 0 bs buff, h) }
     else if ctrl = MMC_GET_SDSTAT then block_result (cmd_block p ACMD13 True adr buff 64 h)
     else Some (RES_PARERR, buff, h))"

definition disk_ioctl ::
  "'h ports \<Rightarrow> ptr \<Rightarrow> BYTE list \<Rightarrow> BYTE \<Rightarrow> BYTE \<Rightarrow> ptr \<Rightarrow> BYTE list \<Rightarrow> 'h mmc \<Rightarrow> (DRESULT \<times> BYTE list \<times> 'h mmc) option" where
  "disk_ioctl p csd_adr csd drv ctrl adr buff s = (
     if drv \<noteq> 0 then Some (RES_PARERR, buff, s)
     else if ctrl = CTRL_POWER then ioctl_power p buff s
     else if Stat s AND STA_NOINIT \<noteq> 0 then Some (RES_NOTRDY, buff, s)
     else do {
       (res, buff, h) \<leftarrow> ioctl_request p csd_adr csd ctrl adr buff (CardType s) (hw s);
       Some (res, buff, s\<lparr>hw := release_spi p h\<rparr>) })"

section \<open>The driver as a disk\<close>

text \<open>The functions of diskio.h as mmc.c defines them, for the FAT module.\<close>

definition mmc_io :: "'h ports \<Rightarrow> ptr \<Rightarrow> BYTE list \<Rightarrow> bool \<Rightarrow> ptr \<Rightarrow> 'h mmc fsenv" where
  "mmc_io p csd_adr csd ro win = \<lparr>
     d_status = disk_status, d_initialize = disk_initialize p, d_read = disk_read p,
     d_write = disk_write p, d_ioctl = disk_ioctl p csd_adr csd, fs_readonly = ro, win_adr = win\<rparr>"

end
