(* ===== verification/Menu.thy ===== *)
theory Menu
  imports Philes Osd Serial Mmc
begin

text \<open>
  The on-screen menu, menu.c: a state machine driven by the joystick port, which draws on the
  on-screen display, selects an image file and sets the OSD command port. The world the firmware
  runs in holds the directory module (and through it the FAT module, the card driver and the
  hardware), the display and the menu's variables; slave.c adds its own (theory Slave).
\<close>

section \<open>The world\<close>

record menu =
  fsel_index :: BYTE
  fsel_pagestart :: BYTE
  fsel_redraw :: BYTE
  fsel_hasnextpage :: BYTE
  joy_status :: BYTE
  state :: BYTE
  menu_x :: BYTE
  menu_y :: BYTE
  menu_selected :: BYTE
  osdcmd :: BYTE
  inactivity :: WORD
  dude_seqno :: BYTE

record 'h world =
  ph :: "'h mmc philes"
  scr :: osd
  mnu :: menu

text \<open>
  What the build fixes: the ports, the FAT module's environment, the memory a null pointer
  points to (draw_item is called on the null entries of menu_item), and the addresses of the file
  system object and the sector buffer.
\<close>

record 'h board =
  ports :: "'h ports"
  fsenv :: "'h mmc fsenv"
  page0 :: "BYTE list"
  fatfs :: ptr

definition get_hw :: "('h, 'z) world_scheme \<Rightarrow> 'h" where
  "get_hw w = hw (disk (tf (ph w)))"

definition set_hw :: "'h \<Rightarrow> ('h, 'z) world_scheme \<Rightarrow> ('h, 'z) world_scheme" where
  "set_hw h w = w\<lparr>ph := (ph w)\<lparr>tf := (tf (ph w))\<lparr>disk := (disk (tf (ph w)))\<lparr>hw := h\<rparr>\<rparr>\<rparr>\<rparr>"

definition rd :: "'h board \<Rightarrow> WORD \<Rightarrow> ('h, 'z) world_scheme \<Rightarrow> BYTE \<times> ('h, 'z) world_scheme" where
  "rd b a w = (case port_rd (ports b) a (get_hw w) of (v, h) \<Rightarrow> (v, set_hw h w))"

definition wr :: "'h board \<Rightarrow> WORD \<Rightarrow> BYTE \<Rightarrow> ('h, 'z) world_scheme \<Rightarrow> ('h, 'z) world_scheme" where
  "wr b a v w = set_hw (port_wr (ports b) a v (get_hw w)) w"

text \<open>A routine of serial.c or timer.c on the world.\<close>

definition io :: "('h \<Rightarrow> 'h option) \<Rightarrow> ('h, 'z) world_scheme \<Rightarrow> ('h, 'z) world_scheme option" where
  "io f w = map_option (\<lambda>h. set_hw h w) (f (get_hw w))"

definition on_scr :: "(osd \<Rightarrow> osd) \<Rightarrow> ('h, 'z) world_scheme \<Rightarrow> ('h, 'z) world_scheme" where
  "on_scr f w = w\<lparr>scr := f (scr w)\<rparr>"

definition on_mnu :: "(menu \<Rightarrow> menu) \<Rightarrow> ('h, 'z) world_scheme \<Rightarrow> ('h, 'z) world_scheme" where
  "on_mnu f w = w\<lparr>mnu := f (mnu w)\<rparr>"

section \<open>Constants (menu.c, menu.h)\<close>

definition STATE_MENU :: BYTE where "STATE_MENU = 0"

definition STATE_FSEL :: BYTE where "STATE_FSEL = 1"

definition STATE_WAITBREAK :: BYTE where "STATE_WAITBREAK = 10"

definition STATE_WAITBREAK2 :: BYTE where "STATE_WAITBREAK2 = 11"

definition STATE_ABOOT2 :: BYTE where "STATE_ABOOT2 = 12"

definition STATE_ABOOT :: BYTE where "STATE_ABOOT = 2"

lemmas state_defs = STATE_MENU_def STATE_FSEL_def STATE_WAITBREAK_def STATE_WAITBREAK2_def
  STATE_ABOOT2_def STATE_ABOOT_def

definition INACTIVITY :: WORD where "INACTIVITY = 8192"

definition FSEL_PAGESIZE :: BYTE where "FSEL_PAGESIZE = 12"

definition FSEL_NLINES :: BYTE where "FSEL_NLINES = 6"

datatype menuresult = MENURESULT_NOTHING | MENURESULT_DISK

fun menuresult_code :: "menuresult \<Rightarrow> BYTE" where
  "menuresult_code MENURESULT_NOTHING = 0"
| "menuresult_code MENURESULT_DISK = 1"

definition TXT_MENU_HALP :: "BYTE list" where
  "TXT_MENU_HALP = bytes_of ''  Select with Arrows and Enter  ''"

definition TXT_MENU_ABOOTHALP :: "BYTE list" where
  "TXT_MENU_ABOOTHALP = bytes_of ''         Press something        ''"

definition TXT_MENU_BUSY :: "BYTE list" where
  "TXT_MENU_BUSY = bytes_of ''             [BUSY]             ''"

definition TXT_MENU_INSERT :: "BYTE list" where
  "TXT_MENU_INSERT = bytes_of ''          INSERT CARD           ''"

definition menu_item :: "BYTE list option list" where
  "menu_item = [None, Some (bytes_of '' HOLD ''), None,
     Some (bytes_of '' RESET ''), Some (bytes_of '' DISK ''), Some (bytes_of '' RESTART ''),
     None, Some (bytes_of '' ABOUT ''), None]"

datatype align = ALIGN_RIGHT | ALIGN_MIDDLE | ALIGN_LEFT

section \<open>Drawing\<close>

text \<open>A position is the cursor of osd_gotoxy; the length is an int, the column a byte.\<close>

definition draw_item :: "BYTE list \<Rightarrow> BYTE \<Rightarrow> BYTE \<Rightarrow> align \<Rightarrow> osd \<Rightarrow> osd" where
  "draw_item str px py al o' = (let len = strlen str;
       px = (case al of ALIGN_MIDDLE \<Rightarrow> px - of_nat (len div 2) | ALIGN_LEFT \<Rightarrow> px
             | ALIGN_RIGHT \<Rightarrow> px - of_nat len) in
     osd_puts str (osd_gotoxy px py o'))"

text \<open>One item of the loops of draw_menu: \<open>item\<close> is \<open>3 * m_y + m_x\<close>.\<close>

definition draw_menu_item :: "'h board \<Rightarrow> ('h, 'z) world_scheme \<Rightarrow> nat \<Rightarrow> osd \<Rightarrow> osd" where
  "draw_menu_item b w item o' = (let m_y = item div 3; m_x = item mod 3;
       str = (case menu_item ! item of None \<Rightarrow> page0 b | Some t \<Rightarrow> t) in
     draw_item str (of_nat (5 + m_x * 10)) (of_nat (m_y + 2)) ALIGN_MIDDLE
       (osd_inv (if m_y = unat (menu_y (mnu w)) \<and> m_x = unat (menu_x (mnu w)) then 1 else 0) o'))"

definition draw_menu :: "'h board \<Rightarrow> ('h, 'z) world_scheme \<Rightarrow> ('h, 'z) world_scheme" where
  "draw_menu b w = on_scr (\<lambda>o'. let
       o' = fold (draw_menu_item b w) [0..<9] o';
       o' = draw_item (ptrfile (ph w)) 16 6 ALIGN_MIDDLE (osd_inv 0 o') in
     osd_puts TXT_MENU_HALP (osd_gotoxy 0 7 (osd_inv 0 o'))) w"

definition menu_init :: "'h board \<Rightarrow> ('h, 'z) world_scheme \<Rightarrow> ('h, 'z) world_scheme" where
  "menu_init b w = (let
       w = (if state (mnu w) \<noteq> STATE_MENU
            then on_scr (osd_cls True) (on_mnu (\<lambda>m. m\<lparr>state := STATE_MENU, joy_status := 0xFF\<rparr>) w) else w);
       w = on_mnu (\<lambda>m. m\<lparr>menu_x := 1, menu_y := 1, menu_selected := 0xFF, osdcmd := osdcmd m AND 1\<rparr>) w in
     wr b OSD_CMD (osdcmd (mnu w)) w)"

text \<open>
  menu_busy writes the status line. Only the codes 0, 1 and 2 give a text; with another the
  pointer is uninitialised, and the result here is None.
\<close>

definition busy_text :: "BYTE \<Rightarrow> menu \<Rightarrow> BYTE list option" where
  "busy_text status m = (
     if status = 0 then Some (if state m = STATE_ABOOT2 then TXT_MENU_ABOOTHALP else TXT_MENU_HALP)
     else if status = 1 then Some TXT_MENU_BUSY
     else if status = 2 then Some TXT_MENU_INSERT else None)"

definition menu_busy :: "'h board \<Rightarrow> BYTE \<Rightarrow> ('h, 'z) world_scheme \<Rightarrow> ('h, 'z) world_scheme option" where
  "menu_busy b status w = do {
     text \<leftarrow> busy_text status (mnu w);
     let w = (if status = 2 then menu_init b w else w);
     Some (on_scr (\<lambda>o'. osd_puts text (osd_gotoxy 0 7 o')) w) }"

definition fsel_init :: "('h, 'z) world_scheme \<Rightarrow> ('h, 'z) world_scheme" where
  "fsel_init w = on_mnu (\<lambda>m. m\<lparr>menu_x := 0, menu_y := 0, menu_selected := 0\<rparr>)
     (on_scr (osd_cls True) (on_mnu (\<lambda>m. m\<lparr>fsel_pagestart := 0, fsel_redraw := 1, joy_status := 0xFF\<rparr>) w))"

section \<open>The about screen\<close>

definition about_lines :: "BYTE list list" where
  "about_lines = [cnotice2, [], bytes_of ''vector06cc.googlecode.com'',
     bytes_of ''sensi.org/~svo/vector06c'', [], bytes_of ''Thank you for using VECTOR-06CC!'']"

definition aboot_show :: "('h, 'z) world_scheme \<Rightarrow> ('h, 'z) world_scheme" where
  "aboot_show w = on_mnu (\<lambda>m. m\<lparr>dude_seqno := 0\<rparr>) (on_scr (\<lambda>o'.
     fold (\<lambda>i o'. osd_puts (about_lines ! i) (osd_gotoxy 0 (of_nat (i + 1)) o')) [0..<6] (osd_cls True o')) w)"

text \<open>The figures: a backslash is 0x5C, a slash 0x2F, a bar 0x7C, \<open>o\<close> 0x6F, an underscore 0x5F.\<close>

definition dude :: "BYTE list list" where
  "dude = [[0x5C, 0x6F, 0x2F], [0x20, 0x7C, 0x20], [0x2F, 0x20, 0x5C],
           [0x5F, 0x6F, 0x5F], [0x20, 0x7C, 0x20], [0x2F, 0x20, 0x5C],
           [0x5C, 0x6F, 0x5F], [0x20, 0x7C, 0x5F], [0x2F, 0x20, 0x20],
           [0x5F, 0x6F, 0x2F], [0x5F, 0x7C, 0x20], [0x20, 0x20, 0x5C]]"

definition waverseq :: "nat list" where
  "waverseq = [0, 0, 1, 1, 0, 0, 1, 1, 2, 3, 2, 3, 2, 3, 2, 3]"

definition aboot_anim :: "('h, 'z) world_scheme \<Rightarrow> ('h, 'z) world_scheme" where
  "aboot_anim w = on_mnu (\<lambda>m. m\<lparr>dude_seqno := (dude_seqno m + 1) mod 16\<rparr>) (on_scr (\<lambda>o'.
     fold (\<lambda>i o'. osd_puts (dude ! (waverseq ! unat (dude_seqno (mnu w)) * 3 + i))
                    (osd_gotoxy 28 (of_nat (i + 3)) o')) [0..<3] o') w)"

section \<open>The menu's actions\<close>

definition switch_state :: "'h board \<Rightarrow> ('h, 'z) world_scheme \<Rightarrow> ('h, 'z) world_scheme" where
  "switch_state b w = (let to_menu = on_mnu (\<lambda>m. m\<lparr>state := STATE_MENU\<rparr>);
       set_cmd = (\<lambda>f w. let w = on_mnu (\<lambda>m. m\<lparr>osdcmd := f (osdcmd m)\<rparr>) w in wr b OSD_CMD (osdcmd (mnu w)) w);
       sel = menu_selected (mnu w) in
     if state (mnu w) = STATE_WAITBREAK then
       if sel = 1 then to_menu (set_cmd (\<lambda>c. c XOR 1) w)
       else if sel = 3 then to_menu (set_cmd (\<lambda>c. c AND NOT 4) (set_cmd (\<lambda>c. c OR 4) w))
       else if sel = 5 then to_menu (set_cmd (\<lambda>c. c AND NOT 2) (set_cmd (\<lambda>c. c OR 2) w))
       else if sel = 7 then aboot_show (on_mnu (\<lambda>m. m\<lparr>state := STATE_ABOOT\<rparr>) w)
       else if sel = 4 then on_mnu (\<lambda>m. m\<lparr>state := STATE_FSEL\<rparr>) (fsel_init w)
       else to_menu w
     else w)"

definition fsel_index2offs :: "BYTE \<Rightarrow> BYTE" where
  "fsel_index2offs idx = 33 + (idx div 2) * 32 + (idx mod 2) * 16"

text \<open>Skip \<open>n\<close> files; running out of files resets the page.\<close>

fun fsel_skip :: "'h board \<Rightarrow> nat \<Rightarrow> ('h, 'z) world_scheme \<Rightarrow> ('h, 'z) world_scheme option" where
  "fsel_skip b 0 w = Some w"
| "fsel_skip b (Suc n) w = do {
     (r, _, s) \<leftarrow> philes_nextfile (fsenv b) None False (ph w);
     let w = w\<lparr>ph := s\<rparr>;
     if r \<noteq> FR_OK then Some (on_mnu (\<lambda>m. m\<lparr>fsel_pagestart := 0\<rparr>) w) else fsel_skip b n w }"

text \<open>Show the files at the places \<open>i\<close> to 11: the name goes straight to display memory.\<close>

definition fsel_show_one :: "'h board \<Rightarrow> BYTE \<Rightarrow> ('h, 'z) world_scheme \<Rightarrow> ('h, 'z) world_scheme option" where
  "fsel_show_one b i w = (let uptr = unat (fsel_index2offs i);
       w = on_scr (\<lambda>o'. o'\<lparr>dmem := store uptr (replicate 12 32) (dmem o')\<rparr>) w in do {
     (r, m, s) \<leftarrow> philes_nextfile (fsenv b) (Some (drop uptr (dmem (scr w)))) False (ph w);
     let w = on_scr (\<lambda>o'. o'\<lparr>dmem := store uptr (the m) (dmem o')\<rparr>) (w\<lparr>ph := s\<rparr>);
     Some (if r \<noteq> FR_OK then on_mnu (\<lambda>n. n\<lparr>fsel_hasnextpage := 0\<rparr>) w else w) })"

fun fsel_show :: "'h board \<Rightarrow> nat \<Rightarrow> nat \<Rightarrow> ('h, 'z) world_scheme \<Rightarrow> ('h, 'z) world_scheme option" where
  "fsel_show b i 0 w = Some w"
| "fsel_show b i (Suc n) w = do {
     w \<leftarrow> fsel_show_one b (of_nat i) w;
     fsel_show b (i + 1) n w }"

definition draw_fsel :: "'h board \<Rightarrow> ('h, 'z) world_scheme \<Rightarrow> ('h, 'z) world_scheme option" where
  "draw_fsel b w = do {
     w \<leftarrow> io (ser_puts (ports b) (bytes_of ''opendir'')) (on_mnu (\<lambda>m. m\<lparr>fsel_hasnextpage := 1\<rparr>) w);
     (r, s) \<leftarrow> philes_opendir (fsenv b) (ph w);
     let w = w\<lparr>ph := s\<rparr>;
     if r \<noteq> FR_OK then Some w
     else do {
       w \<leftarrow> io (ser_puts (ports b) (bytes_of '' ok'')) w;
       w \<leftarrow> io (ser_nl (ports b)) w;
       w \<leftarrow> fsel_skip b (unat (fsel_pagestart (mnu w))) w;
       fsel_show b 0 (unat FSEL_PAGESIZE) w } }"

definition fsel_showselection :: "bool \<Rightarrow> ('h, 'z) world_scheme \<Rightarrow> ('h, 'z) world_scheme" where
  "fsel_showselection on w = on_scr (\<lambda>o'. let uptr = unat (fsel_index2offs (menu_selected (mnu w))) in
     o'\<lparr>dmem := store uptr (map (\<lambda>c. if on then c OR 0x80 else c AND 0x7F) (take 12 (drop uptr (dmem o'))))
                  (dmem o')\<rparr>) w"

text \<open>fsel_getselected to the memory \<open>file\<close>.\<close>

definition fsel_getselected :: "('h, 'z) world_scheme \<Rightarrow> BYTE list \<Rightarrow> BYTE list" where
  "fsel_getselected w file = (let uptr = unat (fsel_index2offs (menu_selected (mnu w))) in
     store 0 (takeWhile (\<lambda>u. u \<noteq> 32) (map (\<lambda>c. c AND 0x7F) (take 12 (drop uptr (dmem (scr w))))) @ [0]) file)"

section \<open>menu_dispatch\<close>

text \<open>
  The case of the file selector. The remainder of \<open>menu_x - 1\<close> is taken as an int: from column
  0 it is \<open>- 1 % 2 = - 1\<close>, which is stored as 255.
\<close>

definition fsel_move :: "menu \<Rightarrow> menu" where
  "fsel_move m = (let joy = joy_status m;
       m = (if joy AND JOY_UP \<noteq> 0 then
              if menu_y m > 0 then m\<lparr>menu_y := menu_y m - 1\<rparr>
              else if fsel_pagestart m \<noteq> 0 then
                m\<lparr>fsel_pagestart := fsel_pagestart m - (FSEL_PAGESIZE - 1), menu_y := FSEL_NLINES - 1,
                  fsel_redraw := 1\<rparr>
              else m
            else m);
       m = (if joy AND JOY_DN \<noteq> 0 then
              if menu_y m < FSEL_NLINES - 1 then m\<lparr>menu_y := menu_y m + 1\<rparr>
              else if fsel_hasnextpage m \<noteq> 0 then
                m\<lparr>menu_y := 0, fsel_pagestart := fsel_pagestart m + (FSEL_PAGESIZE - 1), fsel_redraw := 1\<rparr>
              else m
            else m);
       m = (if joy AND JOY_LT \<noteq> 0
            then m\<lparr>menu_x := (if menu_x m = 0 then 0xFF else (menu_x m - 1) mod 2)\<rparr> else m);
       m = (if joy AND JOY_RT \<noteq> 0
            then m\<lparr>menu_x := ucast ((ucast (menu_x m) + 1 :: WORD) mod 2)\<rparr> else m) in
     m)"

definition fsel_step :: "'h board \<Rightarrow> ('h, 'z) world_scheme \<Rightarrow> ('h, 'z) world_scheme option" where
  "fsel_step b w = (let w = on_mnu fsel_move w in do {
     w \<leftarrow> (if fsel_redraw (mnu w) \<noteq> 0 then draw_fsel b (on_mnu (\<lambda>m. m\<lparr>fsel_redraw := 0\<rparr>) w) else Some w);
     let w = fsel_showselection False w;
     let w = on_mnu (\<lambda>m. m\<lparr>menu_selected := menu_y m * 2 + menu_x m\<rparr>) w;
     let w = fsel_showselection True w;
     Some (if joy_status (mnu w) AND 1 \<noteq> 0 then on_mnu (\<lambda>m. m\<lparr>state := STATE_WAITBREAK2\<rparr>) w else w) })"

definition menu_move :: "menu \<Rightarrow> menu" where
  "menu_move m = (let joy = joy_status m in m\<lparr>
     menu_y := (if joy AND JOY_UP \<noteq> 0 then 0 else if joy AND JOY_DN \<noteq> 0 then 2 else 1),
     menu_x := (if joy AND JOY_LT \<noteq> 0 then 0 else if joy AND JOY_RT \<noteq> 0 then 2 else 1)\<rparr>)"

definition take_image :: "'h board \<Rightarrow> ('h, 'z) world_scheme \<Rightarrow> (menuresult \<times> ('h, 'z) world_scheme) option" where
  "take_image b w = (let pf = ptrfile (ph w);
       w = w\<lparr>ph := (ph w)\<lparr>ptrfile := take 10 pf @ fsel_getselected w (drop 10 pf)\<rparr>\<rparr> in do {
     w \<leftarrow> io (ser_puts (ports b) (bytes_of ''Selected image: '')) w;
     w \<leftarrow> io (ser_puts (ports b) (ptrfile (ph w))) w;
     w \<leftarrow> io (ser_nl (ports b)) w;
     Some (MENURESULT_DISK, menu_init b w) })"

text \<open>The switch of menu_dispatch, run when the joystick changed.\<close>

definition menu_event :: "'h board \<Rightarrow> ('h, 'z) world_scheme \<Rightarrow> (menuresult \<times> ('h, 'z) world_scheme) option" where
  "menu_event b w = (let joy = joy_status (mnu w); st = state (mnu w); nothing = Pair MENURESULT_NOTHING in
     if st = STATE_ABOOT then
       Some (nothing (if joy = 0 then on_mnu (\<lambda>m. m\<lparr>state := STATE_ABOOT2\<rparr>) w else w))
     else if st = STATE_MENU then
       let w = draw_menu b (on_mnu menu_move w) in
       Some (nothing (if joy AND JOY_FIRE \<noteq> 0
         then on_mnu (\<lambda>m. m\<lparr>state := STATE_WAITBREAK, menu_selected := menu_x m + menu_y m * 3\<rparr>) w else w))
     else if st = STATE_WAITBREAK then
       Some (nothing (if joy AND JOY_FIRE = 0 then switch_state b w else w))
     else if st = STATE_WAITBREAK2 then
       if joy AND JOY_FIRE = 0 then take_image b w else Some (nothing w)
     else if st = STATE_ABOOT2 then
       Some (nothing (if joy AND JOY_FIRE = 0 then menu_init b w else w))
     else if st = STATE_FSEL then map_option nothing (fsel_step b w)
     else Some (nothing w))"

definition menu_idle :: "'h board \<Rightarrow> bool \<Rightarrow> ('h, 'z) world_scheme \<Rightarrow> ('h, 'z) world_scheme" where
  "menu_idle b tick w = (let
       w = (if tick \<and> state (mnu w) = STATE_ABOOT2 then aboot_anim w else w);
       w = (if inactivity (mnu w) \<noteq> 0 then on_mnu (\<lambda>m. m\<lparr>inactivity := inactivity m - 1\<rparr>) w else w) in
     if inactivity (mnu w) = 0 \<and> state (mnu w) = STATE_FSEL then menu_init b w else w)"

definition menu_dispatch :: "'h board \<Rightarrow> bool \<Rightarrow> ('h, 'z) world_scheme \<Rightarrow> (menuresult \<times> ('h, 'z) world_scheme) option" where
  "menu_dispatch b tick w = (let w = menu_idle b tick w in
     case rd b JOYSTICK w of (j, w) \<Rightarrow>
       if j \<noteq> joy_status (mnu w) then
         (case rd b JOYSTICK w of (j, w) \<Rightarrow>
            menu_event b (on_mnu (\<lambda>m. m\<lparr>joy_status := j, inactivity := INACTIVITY\<rparr>) w))
       else Some (MENURESULT_NOTHING, w))"

end
