(* ===== verification/Tff_File.thy ===== *)
theory Tff_File
  imports Tff_Dir
begin

text \<open>
  Files in tff.c, as far as the read-only build has them: reading, writing in place, seeking and
  closing. A file object and a buffer are passed and returned with the new state; the buffer is
  the memory behind the caller's pointer \<open>adr\<close>, and \<open>br\<close>, the count of bytes transferred so far, is
  also the distance of the moving pointer \<open>rbuff\<close> from its start.
\<close>

section \<open>Reading and writing in place\<close>

definition file_error :: "FIL \<Rightarrow> FIL" where
  "file_error fp = fp\<lparr>flag := flag fp OR FA__ERROR\<rparr>"

text \<open>
  The step of f_read_or_wr at a sector boundary: the next sector of the cluster, or the first
  sector of the next cluster. False means \<open>goto fr_error\<close>.
\<close>

definition next_sector :: "'d fsenv \<Rightarrow> FIL \<Rightarrow> 'd tff \<Rightarrow> (bool \<times> FIL \<times> 'd tff) option" where
  "next_sector e fp s = (let fp = fp\<lparr>sect_clust := sect_clust fp - 1\<rparr> in
     if sect_clust fp \<noteq> 0 then Some (True, fp\<lparr>curr_sect := curr_sect fp + 1\<rparr>, s)
     else do {
       (clust, s) \<leftarrow> (if fptr fp = 0 then Some (org_clust fp, s) else get_cluster e (curr_clust fp) s);
       let fs = fsobj s (fl_fs fp);
       if clust < 2 \<or> clust \<ge> max_clust fs then Some (False, fp, s)
       else Some (True, fp\<lparr>curr_clust := clust, sect_clust := sects_clust fs,
              curr_sect := clust2sect clust s\<rparr>, s) })"

text \<open>The transfer of \<open>cc\<close> whole sectors between the disk and the caller's buffer.\<close>

definition transfer ::
  "'d fsenv \<Rightarrow> bool \<Rightarrow> ptr \<Rightarrow> DWORD \<Rightarrow> WORD \<Rightarrow> nat \<Rightarrow> BYTE list \<Rightarrow> 'd tff \<Rightarrow> (bool \<times> BYTE list \<times> 'd tff) option" where
  "transfer e wr adr sect cc i buff s = (
     if wr then do {
       (r, d) \<leftarrow> d_write e 0 adr (take (unat cc * 512) (drop i buff)) sect (ucast cc) (disk s);
       Some (r = RES_OK, buff, s\<lparr>disk := d\<rparr>) }
     else do {
       (r, bs, d) \<leftarrow> d_read e 0 adr sect (ucast cc) (disk s);
       Some (r = RES_OK, store i bs buff, s\<lparr>disk := d\<rparr>) })"

partial_function (option) rw_loop ::
  "'d fsenv \<Rightarrow> bool \<Rightarrow> FIL \<Rightarrow> ptr \<Rightarrow> BYTE list \<Rightarrow> WORD \<Rightarrow> WORD \<Rightarrow> 'd tff \<Rightarrow>
     (FRESULT \<times> FIL \<times> BYTE list \<times> WORD \<times> 'd tff) option" where
  "rw_loop e wr fp adr buff br btr s = (
     if btr = 0 then Some (FR_OK, fp, buff, br, s)
     else do {
       (ok, fp, s) \<leftarrow> (if fptr fp mod 512 = 0 then next_sector e fp s else Some (True, fp, s));
       if \<not> ok then Some (FR_RW_ERROR, file_error fp, buff, br, s)
       else if fptr fp mod 512 = 0 \<and> btr div 512 \<noteq> 0 then
         let cc = min (btr div 512) (ucast (sect_clust fp)) in do {
           (ok, buff, s) \<leftarrow> transfer e wr (adr + br) (curr_sect fp) cc (unat br) buff s;
           if \<not> ok then Some (FR_RW_ERROR, file_error fp, buff, br, s)
           else let rcnt = cc * 512 in
             rw_loop e wr
               (fp\<lparr>sect_clust := sect_clust fp - ucast (cc - 1), curr_sect := curr_sect fp + ucast (cc - 1),
                 fptr := fptr fp + ucast rcnt\<rparr>) adr buff (br + rcnt) (btr - rcnt) s }
       else do {
         (ok, s) \<leftarrow> move_window e (curr_sect fp) s;
         if \<not> ok then Some (FR_RW_ERROR, file_error fp, buff, br, s)
         else let o512 = fptr fp mod 512; rcnt = min (512 - ucast o512) btr in
           rw_loop e wr (fp\<lparr>fptr := fptr fp + ucast rcnt\<rparr>) adr
             (store (unat br) (take (unat rcnt) (drop (unat o512) (fs__win s))) buff)
             (br + rcnt) (btr - rcnt) s } })"

definition f_read_or_wr ::
  "'d fsenv \<Rightarrow> FIL \<Rightarrow> ptr \<Rightarrow> BYTE list \<Rightarrow> WORD \<Rightarrow> bool \<Rightarrow> 'd tff \<Rightarrow>
     (FRESULT \<times> FIL \<times> BYTE list \<times> WORD \<times> 'd tff) option" where
  "f_read_or_wr e fp adr buff btr mode_wr s = (let res = validate e (fl_fs fp) (fl_id fp) s in
     if res \<noteq> FR_OK then Some (res, fp, buff, 0, s)
     else if flag fp AND FA__ERROR \<noteq> 0 then Some (FR_RW_ERROR, fp, buff, 0, s)
     else if flag fp AND FA_READ = 0 then Some (FR_DENIED, fp, buff, 0, s)
     else let remain = fsize fp - fptr fp;
            btr = (if ucast btr > remain then ucast remain else btr) in
       rw_loop e mode_wr fp adr buff 0 btr s)"

definition f_write_inplace ::
  "'d fsenv \<Rightarrow> FIL \<Rightarrow> ptr \<Rightarrow> BYTE list \<Rightarrow> WORD \<Rightarrow> 'd tff \<Rightarrow> (FRESULT \<times> FIL \<times> BYTE list \<times> WORD \<times> 'd tff) option" where
  "f_write_inplace e fp adr buff btr s = f_read_or_wr e fp adr buff btr True s"

definition f_read ::
  "'d fsenv \<Rightarrow> FIL \<Rightarrow> ptr \<Rightarrow> BYTE list \<Rightarrow> WORD \<Rightarrow> 'd tff \<Rightarrow> (FRESULT \<times> FIL \<times> BYTE list \<times> WORD \<times> 'd tff) option" where
  "f_read e fp adr buff btr s = f_read_or_wr e fp adr buff btr False s"

section \<open>Seeking\<close>

text \<open>
  The loop of f_lseek that skips whole clusters: the result says whether the chain was followed
  (False is \<open>goto fk_error\<close>), and holds the cluster and the rest of the offset it stopped at.
\<close>

partial_function (option) lseek_loop ::
  "'d fsenv \<Rightarrow> DWORD \<Rightarrow> FIL \<Rightarrow> CLUST \<Rightarrow> DWORD \<Rightarrow> 'd tff \<Rightarrow>
     (bool \<times> FIL \<times> CLUST \<times> DWORD \<times> 'd tff) option" where
  "lseek_loop e csize fp clust ofs s = (let fp = fp\<lparr>curr_clust := clust\<rparr> in
     if ofs \<le> csize then Some (True, fp, clust, ofs, s)
     else do {
       (clust, s) \<leftarrow> (if \<not> fs_readonly e \<and> flag fp AND FA_WRITE \<noteq> 0 then create_chain e clust s
                      else get_cluster e clust s);
       if clust = 0 then Some (True, fp, clust, csize, s)
       else if clust = 1 \<or> clust \<ge> max_clust (fsobj s (fl_fs fp)) then Some (False, fp, clust, ofs, s)
       else lseek_loop e csize (fp\<lparr>fptr := fptr fp + csize\<rparr>) clust (ofs - csize) s })"

definition seek_chain :: "'d fsenv \<Rightarrow> DWORD \<Rightarrow> FIL \<Rightarrow> 'd tff \<Rightarrow> (bool \<times> FIL \<times> 'd tff) option" where
  "seek_chain e ofs fp s = do {
     (ok, clust, fp, s) \<leftarrow> (if \<not> fs_readonly e \<and> org_clust fp = 0 then do {
         (clust, s) \<leftarrow> create_chain e 0 s;
         if clust = 1 then Some (False, clust, fp, s)
         else Some (True, clust, fp\<lparr>org_clust := clust\<rparr>, s) }
       else Some (True, org_clust fp, fp, s));
     if \<not> ok then Some (False, fp, s)
     else if clust = 0 then Some (True, fp, s)
     else do {
       (ok, fp, clust, ofs, s) \<leftarrow> lseek_loop e (ucast (sects_clust (fsobj s (fl_fs fp))) * 512) fp clust ofs s;
       if \<not> ok then Some (False, fp, s)
       else let csect = ucast ((ofs - 1) div 512) :: BYTE in
         Some (True, fp\<lparr>curr_sect := clust2sect clust s + ucast csect,
           sect_clust := sects_clust (fsobj s (fl_fs fp)) - csect, fptr := fptr fp + ofs\<rparr>, s) } }"

definition f_lseek :: "'d fsenv \<Rightarrow> FIL \<Rightarrow> DWORD \<Rightarrow> 'd tff \<Rightarrow> (FRESULT \<times> FIL \<times> 'd tff) option" where
  "f_lseek e fp ofs s = (let res = validate e (fl_fs fp) (fl_id fp) s in
     if res \<noteq> FR_OK then Some (res, fp, s)
     else if flag fp AND FA__ERROR \<noteq> 0 then Some (FR_RW_ERROR, fp, s)
     else let ofs = (if ofs > fsize fp \<and> (fs_readonly e \<or> flag fp AND FA_WRITE = 0) then fsize fp else ofs);
            fp = fp\<lparr>fptr := 0, sect_clust := 1\<rparr> in do {
       (ok, fp, s) \<leftarrow> (if ofs \<noteq> 0 then seek_chain e ofs fp s else Some (True, fp, s));
       if \<not> ok then Some (FR_RW_ERROR, file_error fp, s)
       else if \<not> fs_readonly e \<and> flag fp AND FA_WRITE \<noteq> 0 \<and> fptr fp > fsize fp
       then Some (FR_OK, fp\<lparr>fsize := fptr fp, flag := flag fp OR FA__WRITTEN\<rparr>, s)
       else Some (FR_OK, fp, s) })"

end
