(* ===== verification/Fddimage.thy ===== *)
theory Fddimage
  imports Tff_File
begin

text \<open>
  The floppy image, fddimage.c: the mapping from side, track and sector to a position in the
  image file. The file object and the sector buffer behind the pointers of the FDDImage are
  passed and returned beside it; \<open>fdderror\<close> is the module's error variable.
\<close>

definition FDD_SECTOR_SIZE :: WORD where "FDD_SECTOR_SIZE = 1024"

definition FDD_NSIDES :: WORD where "FDD_NSIDES = 2"

definition FDD_NSECTORS :: WORD where "FDD_NSECTORS = 5"

definition SECTOR_SIZE_CODE :: WORD where "SECTOR_SIZE_CODE = 3"

lemmas fdd_consts = FDD_SECTOR_SIZE_def FDD_NSIDES_def FDD_NSECTORS_def SECTOR_SIZE_CODE_def

datatype FDDErrors = FDD_OK | FDD_SEEK_ERROR | FDD_READ_ERROR

fun fdd_error_code :: "FDDErrors \<Rightarrow> BYTE" where
  "fdd_error_code FDD_OK = 0"
| "fdd_error_code FDD_SEEK_ERROR = 1"
| "fdd_error_code FDD_READ_ERROR = 2"

record FDDImage =
  nsides :: BYTE
  ntracks :: BYTE
  nsectors :: BYTE
  sectorsize :: WORD
  cur_side :: BYTE
  cur_sector :: BYTE
  cur_track :: BYTE
  fd_file :: ptr
  fd_offset :: WORD
  ready :: BYTE
  fd_buffer :: ptr

text \<open>The module: the error variable.\<close>

type_synonym fdderror = BYTE

definition seterror :: "FDDErrors \<Rightarrow> fdderror \<Rightarrow> fdderror" where
  "seterror x err = fdd_error_code x"

definition fdd_clearerror :: "fdderror \<Rightarrow> BYTE \<times> fdderror" where
  "fdd_clearerror err = (err, 0)"

definition fdd_load :: "ptr \<Rightarrow> FIL \<Rightarrow> FDDImage \<Rightarrow> ptr \<Rightarrow> fdderror \<Rightarrow> FDDImage \<times> fdderror" where
  "fdd_load adr file fdd bufptr err = (
     fdd\<lparr>ntracks := ucast (drop_bit 10 (fsize file) div 2 * ucast FDD_NSECTORS),
       nsides := ucast FDD_NSIDES, nsectors := ucast FDD_NSECTORS, sectorsize := FDD_SECTOR_SIZE,
       fd_file := adr, fd_buffer := bufptr\<rparr>,
     snd (fdd_clearerror err))"

definition fdd_seek :: "FDDImage \<Rightarrow> BYTE \<Rightarrow> BYTE \<Rightarrow> BYTE \<Rightarrow> fdderror \<Rightarrow> FDDImage \<times> fdderror" where
  "fdd_seek fdd side track sector err = (let err = snd (fdd_clearerror err) in
     (fdd\<lparr>cur_side := side, cur_track := track, cur_sector := sector, fd_offset := 0, ready := 0\<rparr>,
      if ucast side > FDD_NSIDES \<or> track > ntracks fdd \<or> ucast sector > FDD_NSECTORS
      then seterror FDD_SEEK_ERROR err else err))"

text \<open>
  The first product and sum are unsigned int (16 bits); the later ones are 32 bits wide, and
  \<open>cur_sector - 1\<close> is a signed int, extended with its sign.
\<close>

definition calc_offset :: "FDDImage \<Rightarrow> DWORD" where
  "calc_offset fdd = (let
       w = FDD_NSIDES * ucast (cur_track fdd) + (1 - ucast (cur_side fdd)) :: WORD;
       off = ucast w * ucast FDD_NSECTORS :: DWORD;
       off = off + scast (ucast (cur_sector fdd) - 1 :: WORD) in
     off * ucast FDD_SECTOR_SIZE)"

definition fdd_readsector ::
  "'d fsenv \<Rightarrow> FDDImage \<Rightarrow> FIL \<Rightarrow> BYTE list \<Rightarrow> 'd tff \<Rightarrow> (FRESULT \<times> FIL \<times> BYTE list \<times> 'd tff) option" where
  "fdd_readsector e fdd file buff s = do {
     (r, file, s) \<leftarrow> f_lseek e file (calc_offset fdd) s;
     if r \<noteq> FR_OK then Some (r, file, buff, s)
     else do {
       (r, file, buff, bytesread, s) \<leftarrow> f_read e file (fd_buffer fdd) buff FDD_SECTOR_SIZE s;
       Some (r, file, buff, s) } }"

definition fdd_writesector ::
  "'d fsenv \<Rightarrow> FDDImage \<Rightarrow> FIL \<Rightarrow> BYTE list \<Rightarrow> 'd tff \<Rightarrow> (FRESULT \<times> FIL \<times> BYTE list \<times> 'd tff) option" where
  "fdd_writesector e fdd file buff s = do {
     (r, file, s) \<leftarrow> f_lseek e file (calc_offset fdd) s;
     if r \<noteq> FR_OK then Some (r, file, buff, s)
     else do {
       (r, file, buff, bytesread, s) \<leftarrow> f_write_inplace e file (fd_buffer fdd) buff FDD_SECTOR_SIZE s;
       Some (r, file, buff, s) } }"

definition fdd_readadr :: "FDDImage \<Rightarrow> BYTE list \<Rightarrow> FRESULT \<times> BYTE list" where
  "fdd_readadr fdd buff = (FR_OK,
     store 0 [cur_track fdd, cur_side fdd, cur_sector fdd, ucast SECTOR_SIZE_CODE, 0, 0] buff)"

end
