(* ===== verification/Tff_Write.thy ===== *)
theory Tff_Write
  imports Tff_File
begin

text \<open>
  The writing functions of tff.c, and f_open, which uses them in the build that has them
  (\<open>fs_readonly\<close> is False there). Pointers to directory entries are offsets in the sector window.
\<close>

text \<open>main.c provides the clock of the FAT module: there is none.\<close>

definition get_fattime :: DWORD where
  "get_fattime = 0"

section \<open>Directory entries\<close>

definition win_put :: "nat \<Rightarrow> BYTE list \<Rightarrow> 'd tff \<Rightarrow> 'd tff" where
  "win_put i bs s = s\<lparr>fs__win := store i bs (fs__win s)\<rparr>"

definition win_word :: "nat \<Rightarrow> WORD \<Rightarrow> 'd tff \<Rightarrow> 'd tff" where
  "win_word i v s = s\<lparr>fs__win := ST_WORD i v (fs__win s)\<rparr>"

definition win_dword :: "nat \<Rightarrow> DWORD \<Rightarrow> 'd tff \<Rightarrow> 'd tff" where
  "win_dword i v s = s\<lparr>fs__win := ST_DWORD i v (fs__win s)\<rparr>"

text \<open>The scan of reserve_direntry: \<open>Hit\<close> at an entry that is free.\<close>

partial_function (option) free_entry ::
  "'d fsenv \<Rightarrow> DIR \<Rightarrow> 'd tff \<Rightarrow> (search \<times> DIR \<times> 'd tff) option" where
  "free_entry e dirobj s = do {
     (ok, s) \<leftarrow> move_window e (dj_sect dirobj) s;
     if \<not> ok then Some (Disk_Failure, dirobj, s)
     else let i = entry_ofs dirobj; c = fs__win s ! i in
       if c = 0 \<or> c = 0xE5 then Some (Hit i, dirobj, s)
       else do {
         (more, dirobj, s) \<leftarrow> next_dir_entry e dirobj s;
         if more then free_entry e dirobj s else Some (Miss, dirobj, s) } }"

text \<open>Write the cleared window to \<open>n\<close> sectors from \<open>sector\<close> on.\<close>

fun clear_sectors :: "'d fsenv \<Rightarrow> nat \<Rightarrow> DWORD \<Rightarrow> 'd tff \<Rightarrow> (bool \<times> 'd tff) option" where
  "clear_sectors e 0 sector s = Some (True, s)"
| "clear_sectors e (Suc n) sector s = do {
     (r, d) \<leftarrow> d_write e 0 (win_adr e) (fs__win s) sector 1 (disk s);
     if r \<noteq> RES_OK then Some (False, s\<lparr>disk := d\<rparr>)
     else clear_sectors e n (sector + 1) (s\<lparr>disk := d\<rparr>) }"

definition stretch_dir :: "'d fsenv \<Rightarrow> DIR \<Rightarrow> 'd tff \<Rightarrow> (FRESULT \<times> nat \<times> 'd tff) option" where
  "stretch_dir e dirobj s = do {
     (clust, s) \<leftarrow> create_chain e (dj_clust dirobj) s;
     if clust = 0 then Some (FR_DENIED, 0, s)
     else if clust = 1 then Some (FR_RW_ERROR, 0, s)
     else do {
       (ok, s) \<leftarrow> move_window e 0 s;
       if \<not> ok then Some (FR_RW_ERROR, 0, s)
       else let sector = clust2sect clust s;
              s = (upd_fs (\<lambda>f. f\<lparr>winsect := sector\<rparr>) s)\<lparr>fs__win := replicate 512 0\<rparr> in do {
         (ok, s) \<leftarrow> clear_sectors e (unat (sects_clust (cur_fs s))) sector s;
         if \<not> ok then Some (FR_RW_ERROR, 0, s)
         else Some (FR_OK, 0, set_dirty s) } } }"

definition reserve_direntry :: "'d fsenv \<Rightarrow> DIR \<Rightarrow> 'd tff \<Rightarrow> (FRESULT \<times> DIR \<times> nat \<times> 'd tff) option" where
  "reserve_direntry e dirobj s = (let clust = sclust dirobj;
       dirobj = (if clust \<noteq> 0 then dirobj\<lparr>dj_clust := clust, dj_sect := clust2sect clust s\<rparr>
                 else dirobj\<lparr>dj_sect := dirbase (cur_fs s)\<rparr>)\<lparr>dj_index := 0\<rparr> in do {
     (hit, dirobj, s) \<leftarrow> free_entry e dirobj s;
     case hit of
       Disk_Failure \<Rightarrow> Some (FR_RW_ERROR, dirobj, 0, s)
     | Hit i \<Rightarrow> Some (FR_OK, dirobj, i, s)
     | Miss \<Rightarrow>
         if clust = 0 then Some (FR_DENIED, dirobj, 0, s)
         else do {
           (res, i, s) \<leftarrow> stretch_dir e dirobj s;
           Some (res, dirobj, i, s) } })"

section \<open>Opening and creating a file\<close>

text \<open>
  The branch of f_open for the creating modes: the entry to use and the mode, or an error.
\<close>

definition open_create ::
  "'d fsenv \<Rightarrow> BYTE \<Rightarrow> FRESULT \<Rightarrow> DIR \<Rightarrow> BYTE list \<Rightarrow> nat option \<Rightarrow> 'd tff \<Rightarrow> (FRESULT \<times> BYTE \<times> nat \<times> 'd tff) option" where
  "open_create e mode res dirobj fn dir s = (
     if res \<noteq> FR_OK then
       if res \<noteq> FR_NO_FILE then Some (res, mode, 0, s)
       else do {
         (res, _, i, s) \<leftarrow> reserve_direntry e dirobj s;
         if res \<noteq> FR_OK then Some (res, mode, 0, s)
         else let s = win_put i (replicate 32 0) s; s = win_put i (take 11 fn) s;
                s = set_win (i + DIR_NTres) (fn ! 11) s in
           Some (FR_OK, mode OR FA_CREATE_ALWAYS, i, s) }
     else if mode AND FA_CREATE_NEW \<noteq> 0 then Some (FR_EXIST, mode, 0, s)
     else case dir of
       None \<Rightarrow> Some (FR_DENIED, mode, 0, s)
     | Some i \<Rightarrow>
         if fs__win s ! (i + DIR_Attr) AND (AM_RDO OR AM_DIR) \<noteq> 0 then Some (FR_DENIED, mode, 0, s)
         else if mode AND FA_CREATE_ALWAYS \<noteq> 0 then
           let rs = LD_WORD (fs__win s) (i + DIR_FstClusLO);
             s = set_dirty (win_dword (i + DIR_FileSize) 0 (win_word (i + DIR_FstClusLO) 0 s));
             dw = winsect (cur_fs s) in do {
             (ok, s) \<leftarrow> remove_chain e rs s;
             if \<not> ok then Some (FR_RW_ERROR, mode, 0, s)
             else do {
               (ok, s) \<leftarrow> move_window e dw s;
               if \<not> ok then Some (FR_RW_ERROR, mode, 0, s)
               else Some (FR_OK, mode, i, upd_fs (\<lambda>f. f\<lparr>last_clust := rs - 1\<rparr>) s) } }
         else Some (FR_OK, mode, i, s))"

definition open_new_entry :: "BYTE \<Rightarrow> nat \<Rightarrow> 'd tff \<Rightarrow> 'd tff" where
  "open_new_entry mode i s = (
     if mode AND FA_CREATE_ALWAYS \<noteq> 0 then
       let s = set_win (i + DIR_Attr) AM_ARC s; dw = get_fattime in
       set_dirty (win_dword (i + DIR_CrtTime) dw (win_dword (i + DIR_WrtTime) dw s))
     else s)"

text \<open>The end of f_open: the file object from the entry at offset \<open>i\<close>.\<close>

definition open_file :: "'d fsenv \<Rightarrow> BYTE \<Rightarrow> nat \<Rightarrow> FIL \<Rightarrow> 'd tff \<Rightarrow> FIL" where
  "open_file e mode i fp s = (let
       fp = (if fs_readonly e then fp else fp\<lparr>dir_sect := winsect (cur_fs s), dir_ptr := i\<rparr>) in
     fp\<lparr>flag := mode, org_clust := LD_WORD (fs__win s) (i + DIR_FstClusLO),
        fsize := LD_DWORD (fs__win s) (i + DIR_FileSize), fptr := 0, sect_clust := 1,
        fl_fs := FatFs s, fl_id := fs_id (cur_fs s)\<rparr>)"

definition f_open :: "'d fsenv \<Rightarrow> FIL \<Rightarrow> BYTE list \<Rightarrow> BYTE \<Rightarrow> DIR \<Rightarrow> 'd tff \<Rightarrow> (FRESULT \<times> FIL \<times> 'd tff) option" where
  "f_open e fp path mode dirobj s = (let fp = fp\<lparr>fl_fs := NULL\<rparr>; rw = \<not> fs_readonly e;
       creating = FA_CREATE_ALWAYS OR FA_OPEN_ALWAYS OR FA_CREATE_NEW;
       mode = (if rw then mode AND (FA_READ OR FA_WRITE OR creating) else mode AND FA_READ) in do {
     (res, path, s) \<leftarrow> auto_mount e path (rw \<and> mode AND (FA_WRITE OR creating) \<noteq> 0) s;
     if res \<noteq> FR_OK then Some (res, fp, s)
     else do {
       (res, dirobj, fn, dir, s) \<leftarrow> trace_path e dirobj (replicate 12 0) path s;
       if rw \<and> mode AND creating \<noteq> 0 then do {
         (res, mode, i, s) \<leftarrow> open_create e mode res dirobj fn dir s;
         if res \<noteq> FR_OK then Some (res, fp, s)
         else let s = open_new_entry mode i s in Some (FR_OK, open_file e mode i fp s, s) }
       else if res \<noteq> FR_OK then Some (res, fp, s)
       else case dir of
         None \<Rightarrow> Some (FR_NO_FILE, fp, s)
       | Some i \<Rightarrow>
           if fs__win s ! (i + DIR_Attr) AND AM_DIR \<noteq> 0 then Some (FR_NO_FILE, fp, s)
           else if rw \<and> mode AND FA_WRITE \<noteq> 0 \<and> fs__win s ! (i + DIR_Attr) AND AM_RDO \<noteq> 0
           then Some (FR_DENIED, fp, s)
           else Some (FR_OK, open_file e mode i fp s, s) } })"

section \<open>Writing a file\<close>

text \<open>What f_write does at a sector boundary; None in the first component goes on, Some ends the loop.\<close>

datatype write_end = Disk_Full | Write_Error

definition write_sector :: "'d fsenv \<Rightarrow> FIL \<Rightarrow> 'd tff \<Rightarrow> (write_end option \<times> FIL \<times> 'd tff) option" where
  "write_sector e fp s = (let fp = fp\<lparr>sect_clust := sect_clust fp - 1\<rparr> in
     if sect_clust fp \<noteq> 0 then Some (None, fp\<lparr>curr_sect := curr_sect fp + 1\<rparr>, s)
     else do {
       (clust, fp, s) \<leftarrow> (if fptr fp = 0 then
           if org_clust fp = 0 then do {
             (clust, s) \<leftarrow> create_chain e 0 s;
             Some (clust, fp\<lparr>org_clust := clust\<rparr>, s) }
           else Some (org_clust fp, fp, s)
         else do {
           (clust, s) \<leftarrow> create_chain e (curr_clust fp) s;
           Some (clust, fp, s) });
       let fs = fsobj s (fl_fs fp);
       if clust = 0 then Some (Some Disk_Full, fp, s)
       else if clust = 1 \<or> clust \<ge> max_clust fs then Some (Some Write_Error, fp, s)
       else Some (None, fp\<lparr>curr_clust := clust, sect_clust := sects_clust fs,
              curr_sect := clust2sect clust s\<rparr>, s) })"

text \<open>Move the window to the file's sector, without reading it when it is behind the end.\<close>

definition write_window :: "'d fsenv \<Rightarrow> FIL \<Rightarrow> 'd tff \<Rightarrow> (bool \<times> 'd tff) option" where
  "write_window e fp s = do {
     (ok, s) \<leftarrow> (if fptr fp mod 512 = 0 \<and> fptr fp \<ge> fsize fp then do {
         (ok, s) \<leftarrow> move_window e 0 s;
         Some (ok, if ok then s\<lparr>fsobj := (fsobj s)(fl_fs fp := fsobj s (fl_fs fp)\<lparr>winsect := curr_sect fp\<rparr>)\<rparr>
                   else s) }
       else Some (True, s));
     if \<not> ok then Some (False, s) else move_window e (curr_sect fp) s }"

partial_function (option) write_loop ::
  "'d fsenv \<Rightarrow> FIL \<Rightarrow> ptr \<Rightarrow> BYTE list \<Rightarrow> WORD \<Rightarrow> WORD \<Rightarrow> 'd tff \<Rightarrow>
     (FRESULT \<times> FIL \<times> WORD \<times> 'd tff) option" where
  "write_loop e fp adr wbuff bw btw s = (
     if btw = 0 then Some (FR_OK, fp, bw, s)
     else do {
       (st, fp, s) \<leftarrow> (if fptr fp mod 512 = 0 then write_sector e fp s else Some (None, fp, s));
       case st of
         Some Disk_Full \<Rightarrow> Some (FR_OK, fp, bw, s)
       | Some Write_Error \<Rightarrow> Some (FR_RW_ERROR, fp, bw, s)
       | None \<Rightarrow>
         if fptr fp mod 512 = 0 \<and> btw div 512 \<noteq> 0 then
           let cc = min (btw div 512) (ucast (sect_clust fp)) in do {
             (ok, _, s) \<leftarrow> transfer e True (adr + bw) (curr_sect fp) cc (unat bw) wbuff s;
             if \<not> ok then Some (FR_RW_ERROR, fp, bw, s)
             else let wcnt = cc * 512 in
               write_loop e
                 (fp\<lparr>sect_clust := sect_clust fp - ucast (cc - 1), curr_sect := curr_sect fp + ucast (cc - 1),
                   fptr := fptr fp + ucast wcnt\<rparr>) adr wbuff (bw + wcnt) (btw - wcnt) s }
         else do {
           (ok, s) \<leftarrow> write_window e fp s;
           if \<not> ok then Some (FR_RW_ERROR, fp, bw, s)
           else let o512 = fptr fp mod 512; wcnt = min (512 - ucast o512) btw in
             write_loop e (fp\<lparr>fptr := fptr fp + ucast wcnt\<rparr>) adr wbuff (bw + wcnt) (btw - wcnt)
               (s\<lparr>fs__win := store (unat o512) (take (unat wcnt) (drop (unat bw) wbuff)) (fs__win s),
                  fsobj := (fsobj s)(fl_fs fp := fsobj s (fl_fs fp)\<lparr>winflag := 1\<rparr>)\<rparr>) } })"

definition f_write ::
  "'d fsenv \<Rightarrow> FIL \<Rightarrow> ptr \<Rightarrow> BYTE list \<Rightarrow> WORD \<Rightarrow> 'd tff \<Rightarrow> (FRESULT \<times> FIL \<times> WORD \<times> 'd tff) option" where
  "f_write e fp adr buff btw s = (let res = validate e (fl_fs fp) (fl_id fp) s in
     if res \<noteq> FR_OK then Some (res, fp, 0, s)
     else if flag fp AND FA__ERROR \<noteq> 0 then Some (FR_RW_ERROR, fp, 0, s)
     else if flag fp AND FA_WRITE = 0 then Some (FR_DENIED, fp, 0, s)
     else if fsize fp + ucast btw < fsize fp then Some (FR_OK, fp, 0, s)
     else do {
       (res, fp, bw, s) \<leftarrow> write_loop e fp adr buff 0 btw s;
       if res \<noteq> FR_OK then Some (FR_RW_ERROR, file_error fp, bw, s)
       else let fp = (if fptr fp > fsize fp then fp\<lparr>fsize := fptr fp\<rparr> else fp) in
         Some (FR_OK, fp\<lparr>flag := flag fp OR FA__WRITTEN\<rparr>, bw, s) })"

definition f_sync :: "'d fsenv \<Rightarrow> FIL \<Rightarrow> 'd tff \<Rightarrow> (FRESULT \<times> FIL \<times> 'd tff) option" where
  "f_sync e fp s = (let res = validate e (fl_fs fp) (fl_id fp) s in
     if res = FR_OK \<and> flag fp AND FA__WRITTEN \<noteq> 0 then do {
       (ok, s) \<leftarrow> move_window e (dir_sect fp) s;
       if \<not> ok then Some (FR_RW_ERROR, fp, s)
       else let i = dir_ptr fp;
         s = set_win (i + DIR_Attr) (fs__win s ! (i + DIR_Attr) OR AM_ARC) s;
         s = win_dword (i + DIR_FileSize) (fsize fp) s;
         s = win_word (i + DIR_FstClusLO) (org_clust fp) s;
         s = win_dword (i + DIR_WrtTime) get_fattime s in do {
         (res, s) \<leftarrow> sync e s;
         Some (res, fp\<lparr>flag := flag fp AND NOT FA__WRITTEN\<rparr>, s) } }
     else Some (res, fp, s))"

definition f_close :: "'d fsenv \<Rightarrow> FIL \<Rightarrow> 'd tff \<Rightarrow> (FRESULT \<times> FIL \<times> 'd tff) option" where
  "f_close e fp s = do {
     (res, fp, s) \<leftarrow> (if \<not> fs_readonly e then f_sync e fp s
       else Some (validate e (fl_fs fp) (fl_id fp) s, fp, s));
     Some (res, if res = FR_OK then fp\<lparr>fl_fs := NULL\<rparr> else fp, s) }"

end
