(* ===== verification/Slave.thy ===== *)
theory Slave
  imports Menu Fddimage Tff_Write
begin

text \<open>
  The request handler, slave.c: it answers the host's requests at the MASTER and SLAVE ports
  from the floppy image, and runs the menu when the host is silent. VERBOSE is 2 (config.h), so
  the vputs family writes to the serial port and vdump does nothing.
\<close>

section \<open>State\<close>

text \<open>
  The variables of slave.c and fddimage.c, the sector buffer of main.c at \<open>buffer_adr\<close>, and
  the statics of blink.
\<close>

record 'h fworld = "'h world" +
  fdderr :: fdderror
  fddimage :: FDDImage
  file1 :: FIL
  buffer :: "BYTE list"
  leds :: BYTE
  bdelay :: BYTE

text \<open>
  Addresses of objects, and the values uninitialised locals have: \<open>stack_dir\<close> is the directory
  object of f_open, \<open>stack_result\<close> and \<open>stack_t1\<close> are the variables of slave.
\<close>

record 'h fboard = "'h board" +
  file1_adr :: ptr
  buffer_adr :: ptr
  stack_dir :: DIR
  stack_result :: BYTE
  stack_t1 :: BYTE

text \<open>The part of the build the menu needs.\<close>

definition brd :: "'h fboard \<Rightarrow> 'h board" where
  "brd b = board.truncate b"

definition CPU_REQUEST_READ :: BYTE where "CPU_REQUEST_READ = 0x10"

definition CPU_REQUEST_WRITE :: BYTE where "CPU_REQUEST_WRITE = 0x20"

definition CPU_REQUEST_READADDR :: BYTE where "CPU_REQUEST_READADDR = 0x30"

definition CPU_REQUEST_NOP :: BYTE where "CPU_REQUEST_NOP = 0x40"

definition CPU_REQUEST_ACK :: BYTE where "CPU_REQUEST_ACK = 0x80"

definition CPU_REQUEST_FAIL :: BYTE where "CPU_REQUEST_FAIL = 0xC0"

definition CPU_STATUS_COMPLETE :: BYTE where "CPU_STATUS_COMPLETE = 0x01"

definition CPU_STATUS_SUCCESS :: BYTE where "CPU_STATUS_SUCCESS = 0x02"

definition CPU_STATUS_CRC :: BYTE where "CPU_STATUS_CRC = 0x04"

definition CPU_STATUS_DRVNOTRDY :: BYTE where "CPU_STATUS_DRVNOTRDY = 0x08"

definition CPU_STATUS_BUSY :: BYTE where "CPU_STATUS_BUSY = 0x80"

lemmas request_defs = CPU_REQUEST_READ_def CPU_REQUEST_WRITE_def CPU_REQUEST_READADDR_def
  CPU_REQUEST_NOP_def CPU_REQUEST_ACK_def CPU_REQUEST_FAIL_def

lemmas status_defs = CPU_STATUS_COMPLETE_def CPU_STATUS_SUCCESS_def CPU_STATUS_CRC_def
  CPU_STATUS_DRVNOTRDY_def CPU_STATUS_BUSY_def

section \<open>Serial output\<close>

definition vputs :: "'h fboard \<Rightarrow> string \<Rightarrow> 'h fworld \<Rightarrow> 'h fworld option" where
  "vputs b s w = io (ser_puts (ports b) (bytes_of s)) w"

definition vputc :: "'h fboard \<Rightarrow> BYTE \<Rightarrow> 'h fworld \<Rightarrow> 'h fworld option" where
  "vputc b c w = io (ser_putc (ports b) c) w"

definition vputh :: "'h fboard \<Rightarrow> BYTE \<Rightarrow> 'h fworld \<Rightarrow> 'h fworld option" where
  "vputh b x w = io (print_hex (ports b) x) w"

definition vnl :: "'h fboard \<Rightarrow> 'h fworld \<Rightarrow> 'h fworld option" where
  "vnl b w = io (ser_nl (ports b)) w"

text \<open>Reading a port and printing it.\<close>

definition vport :: "'h fboard \<Rightarrow> WORD \<Rightarrow> 'h fworld \<Rightarrow> 'h fworld option" where
  "vport b a w = (case rd (brd b) a w of (v, w) \<Rightarrow> vputh b v w)"

definition vposition :: "'h fboard \<Rightarrow> 'h fworld \<Rightarrow> 'h fworld option" where
  "vposition b w = do {
     w \<leftarrow> vputh b (cur_side (fddimage w)) w;
     w \<leftarrow> vputh b (cur_sector (fddimage w)) w;
     vputh b (cur_track (fddimage w)) w }"

section \<open>Requests\<close>

definition set_status :: "'h fboard \<Rightarrow> BYTE \<Rightarrow> 'h fworld \<Rightarrow> 'h fworld" where
  "set_status b v w = wr (brd b) SLAVE_STATUS v w"

text \<open>The seek of every transfer, to the side of the command and the position at the ports.\<close>

definition seek_request :: "'h fboard \<Rightarrow> BYTE \<Rightarrow> 'h fworld \<Rightarrow> 'h fworld" where
  "seek_request b cmd w = (case rd (brd b) MASTER_TRACK w of (track, w) \<Rightarrow>
     case rd (brd b) MASTER_SECTOR w of (sector, w) \<Rightarrow>
     case fdd_seek (fddimage w) (1 AND cmd) track sector (fdderr w) of (f, err) \<Rightarrow>
       w\<lparr>fddimage := f, fdderr := err\<rparr>)"

definition final_status :: "bool \<Rightarrow> BYTE \<Rightarrow> BYTE" where
  "final_status crc result = CPU_STATUS_COMPLETE
     OR (if result = fresult_code FR_OK then CPU_STATUS_SUCCESS else 0)
     OR (if crc \<and> result = fresult_code FR_RW_ERROR then CPU_STATUS_CRC else 0)"

definition on_image ::
  "(FDDImage \<Rightarrow> FIL \<Rightarrow> BYTE list \<Rightarrow> 'h mmc tff \<Rightarrow> (FRESULT \<times> FIL \<times> BYTE list \<times> 'h mmc tff) option)
     \<Rightarrow> 'h fworld \<Rightarrow> (BYTE \<times> 'h fworld) option" where
  "on_image f w = do {
     (r, file, buff, t) \<leftarrow> f (fddimage w) (file1 w) (buffer w) (tf (ph w));
     Some (fresult_code r, w\<lparr>file1 := file, buffer := buff, ph := (ph w)\<lparr>tf := t\<rparr>\<rparr>) }"

definition drive_error :: "'h fboard \<Rightarrow> 'h fworld \<Rightarrow> (BYTE \<times> 'h fworld) option" where
  "drive_error b w = do {
     w \<leftarrow> vputs b ''DRVERR'' w;
     Some (fresult_code FR_INVALID_DRIVE, w) }"

text \<open>The result is the new \<open>result\<close> and \<open>t1\<close>.\<close>

definition request_read :: "'h fboard \<Rightarrow> BYTE \<Rightarrow> 'h fworld \<Rightarrow> (BYTE \<times> BYTE \<times> 'h fworld) option" where
  "request_read b cmd w = do {
     w \<leftarrow> menu_busy (brd b) 1 (set_status b CPU_STATUS_BUSY w);
     w \<leftarrow> vnl b w;
     w \<leftarrow> vputs b ''rHST:'' w;
     let t1 = cmd AND 0x02;
     (result, w) \<leftarrow> (if t1 = 0 then do {
         w \<leftarrow> vposition b (seek_request b cmd w);
         (result, w) \<leftarrow> on_image (fdd_readsector (fsenv b)) w;
         w \<leftarrow> vputc b 0x3A w;
         w \<leftarrow> vputh b result w;
         Some (result, w) }
       else drive_error b w);
     Some (result, t1, set_status b (final_status True result) w) }"

definition request_readaddr :: "'h fboard \<Rightarrow> BYTE \<Rightarrow> 'h fworld \<Rightarrow> (BYTE \<times> BYTE \<times> 'h fworld) option" where
  "request_readaddr b cmd w = do {
     w \<leftarrow> menu_busy (brd b) 1 (set_status b CPU_STATUS_BUSY w);
     w \<leftarrow> vnl b w;
     w \<leftarrow> vputc b 0x51 w;
     let t1 = cmd AND 0x02;
     (result, w) \<leftarrow> (if t1 = 0 then
         let w = seek_request b cmd w in
         (case fdd_readadr (fddimage w) (buffer w) of (r, buff) \<Rightarrow>
            Some (fresult_code r, w\<lparr>buffer := buff\<rparr>))
       else drive_error b w);
     Some (result, t1, set_status b (final_status False result) w) }"

text \<open>The write request does not assign \<open>t1\<close>: it tests the value an earlier request left.\<close>

definition request_write :: "'h fboard \<Rightarrow> BYTE \<Rightarrow> BYTE \<Rightarrow> 'h fworld \<Rightarrow> (BYTE \<times> BYTE \<times> 'h fworld) option" where
  "request_write b cmd t1 w = do {
     w \<leftarrow> menu_busy (brd b) 1 (set_status b CPU_STATUS_BUSY w);
     w \<leftarrow> vnl b w;
     w \<leftarrow> vputh b cmd w;
     w \<leftarrow> vport b MASTER_TRACK w;
     w \<leftarrow> vputs b ''wHST:'' w;
     (result, w) \<leftarrow> (if t1 = 0 then do {
         w \<leftarrow> vposition b (seek_request b cmd w);
         w \<leftarrow> vport b MASTER_TRACK w;
         (result, w) \<leftarrow> on_image (fdd_writesector (fsenv b)) w;
         w \<leftarrow> vputc b 0x3A w;
         w \<leftarrow> vputh b result w;
         Some (result, w) }
       else drive_error b w);
     Some (result, t1, set_status b (final_status True result) w) }"

definition request_nop :: "'h fboard \<Rightarrow> BYTE \<Rightarrow> 'h fworld \<Rightarrow> 'h fworld option" where
  "request_nop b cmd w = do {
     w \<leftarrow> vputc b 0x60 (set_status b CPU_STATUS_BUSY w);
     w \<leftarrow> vputh b cmd w;
     w \<leftarrow> vport b MASTER_SECTOR w;
     w \<leftarrow> vport b MASTER_TRACK w;
     Some (set_status b CPU_STATUS_COMPLETE w) }"

text \<open>The failure request reports and then loops for ever: there is no result.\<close>

definition request_fail :: "'h fboard \<Rightarrow> BYTE \<Rightarrow> 'h fworld \<Rightarrow> 'h fworld option" where
  "request_fail b cmd w = do {
     w \<leftarrow> vputs b ''Death by snoo-snoo:'' (set_status b 0 w);
     w \<leftarrow> vputh b cmd w;
     w \<leftarrow> vputs b ''CMD:'' w;
     w \<leftarrow> vport b MASTER_SECTOR w;
     w \<leftarrow> vputs b '' STATE:'' w;
     w \<leftarrow> vport b MASTER_TRACK w;
     w \<leftarrow> vnl b w;
     w \<leftarrow> vputs b ''X_x'' w;
     None }"

definition blink :: "'h fboard \<Rightarrow> 'h fworld \<Rightarrow> (menuresult \<times> 'h fworld) option" where
  "blink b w = (let w = w\<lparr>bdelay := bdelay w - 1\<rparr>; tick = (bdelay w = 0) in do {
     w \<leftarrow> menu_busy (brd b) 0 w;
     let w = (if tick then
         let w = wr (brd b) GREEN_LEDS (leds w) (w\<lparr>bdelay := 128\<rparr>); l = push_bit 1 (leds w) in
         w\<lparr>leds := (if l = 0 then 1 else l)\<rparr>
       else w);
     menu_dispatch (brd b) tick w })"

section \<open>The request loop\<close>

text \<open>One pass of the loop of slave, behind its test: go on with \<open>result\<close> and \<open>t1\<close>, or leave.\<close>

datatype slave_end = Continue BYTE BYTE | Break BYTE | Return BYTE

definition slave_switch :: "'h fboard \<Rightarrow> BYTE \<Rightarrow> BYTE \<Rightarrow> 'h fworld \<Rightarrow> (slave_end \<times> 'h fworld) option" where
  "slave_switch b cmd t1 w = (let req = cmd AND 0xF0; ok = fresult_code FR_OK in
     if req = CPU_REQUEST_READ then map_option (\<lambda>(r, t, w). (Continue r t, w)) (request_read b cmd w)
     else if req = CPU_REQUEST_READADDR then
       map_option (\<lambda>(r, t, w). (Continue r t, w)) (request_readaddr b cmd w)
     else if req = CPU_REQUEST_WRITE then
       map_option (\<lambda>(r, t, w). (Continue r t, w)) (request_write b cmd t1 w)
     else if req = CPU_REQUEST_ACK then do {
       w \<leftarrow> vputc b 0x2B (set_status b 0 w);
       Some (Continue ok t1, w) }
     else if req = CPU_REQUEST_NOP then map_option (\<lambda>w. (Continue ok t1, w)) (request_nop b cmd w)
     else if req = CPU_REQUEST_FAIL then map_option (\<lambda>w. (Continue ok t1, w)) (request_fail b cmd w)
     else do {
       (mr, w) \<leftarrow> blink b (set_status b 0 w);
       Some (if mr \<noteq> MENURESULT_NOTHING then Return (menuresult_code mr)
             else Continue (menuresult_code mr) t1, w) })"

definition slave_pass :: "'h fboard \<Rightarrow> BYTE \<Rightarrow> 'h fworld \<Rightarrow> (slave_end \<times> 'h fworld) option" where
  "slave_pass b t1 w = do {
     (r, d) \<leftarrow> disk_poll (ports b) 0 (disk (tf (ph w)));
     let w = w\<lparr>ph := (ph w)\<lparr>tf := (tf (ph w))\<lparr>disk := d\<rparr>\<rparr>\<rparr>;
     if r = dresult_code RES_NOTRDY then do {
       w \<leftarrow> vputs b ''NOSD'' w;
       Some (Break (fresult_code FR_OK), w) }
     else (case rd (brd b) MASTER_COMMAND w of (cmd, w) \<Rightarrow> slave_switch b cmd t1 w) }"

partial_function (option) slave_loop :: "'h fboard \<Rightarrow> BYTE \<Rightarrow> BYTE \<Rightarrow> 'h fworld \<Rightarrow> (BYTE \<times> 'h fworld) option" where
  "slave_loop b result t1 w = (
     if result = fresult_code FR_RW_ERROR then Some (result, set_status b 0 w)
     else do {
       (x, w) \<leftarrow> slave_pass b t1 w;
       case x of
         Continue result t1 \<Rightarrow> slave_loop b result t1 w
       | Break result \<Rightarrow> Some (result, set_status b 0 w)
       | Return result \<Rightarrow> Some (result, w) })"

definition slave :: "'h fboard \<Rightarrow> 'h fworld \<Rightarrow> (BYTE \<times> 'h fworld) option" where
  "slave b w = slave_loop b (stack_result b) (stack_t1 b) (set_status b 0 w)"

section \<open>thrall\<close>

text \<open>
  The body of the \<open>do\<close> of thrall, with \<open>first\<close>: mounting, choosing the first image, opening the
  image and serving requests.
\<close>

definition thrall_serve :: "'h fboard \<Rightarrow> 'h fworld \<Rightarrow> 'h fworld option" where
  "thrall_serve b w = (case fdd_load (file1_adr b) (file1 w) (fddimage w) (buffer_adr b) (fdderr w) of
     (f, err) \<Rightarrow> map_option snd (slave b (w\<lparr>fddimage := f, fdderr := err\<rparr>)))"

definition thrall_open :: "'h fboard \<Rightarrow> BYTE \<Rightarrow> 'h fworld \<Rightarrow> (FRESULT \<times> BYTE \<times> 'h fworld) option" where
  "thrall_open b first w = do {
     w \<leftarrow> vnl b w;
     (result, file, t) \<leftarrow> f_open (fsenv b) (file1 w) (ptrfile (ph w)) FA_READ (stack_dir b) (tf (ph w));
     let w = w\<lparr>file1 := file, ph := (ph w)\<lparr>tf := t\<rparr>\<rparr>;
     w \<leftarrow> vputs b (if result \<noteq> FR_OK then ''Error: '' else ''=> '') w;
     w \<leftarrow> io (ser_puts (ports b) (ptrfile (ph w))) w;
     w \<leftarrow> vputc b 0x24 w;
     w \<leftarrow> vnl b w;
     Some (result, if result \<noteq> FR_OK then 0 else first, w) }"

definition thrall_first :: "'h fboard \<Rightarrow> 'h fworld \<Rightarrow> 'h fworld option" where
  "thrall_first b w = (let pf = ptrfile (ph w) in do {
     (_, m, s) \<leftarrow> philes_nextfile (fsenv b) (Some (drop 10 pf)) True (ph w);
     Some (w\<lparr>ph := s\<lparr>ptrfile := take 10 (ptrfile s) @ the m\<rparr>\<rparr>) })"

definition thrall_body :: "'h fboard \<Rightarrow> BYTE \<Rightarrow> 'h fworld \<Rightarrow> (BYTE \<times> 'h fworld) option" where
  "thrall_body b first w = do {
     (_, s) \<leftarrow> philes_mount (fsenv b) (fatfs b) (ph w);
     (result, s) \<leftarrow> philes_opendir (fsenv b) s;
     let w = w\<lparr>ph := s\<rparr>;
     if result \<noteq> FR_OK then Some (first, w)
     else do {
       w \<leftarrow> (if first = 0 then thrall_first b w else Some w);
       let first = (if first = 0 then first + 1 else first);
       (result, first, w) \<leftarrow> thrall_open b first w;
       if result \<noteq> FR_OK then Some (first, w)
       else do {
         w \<leftarrow> thrall_serve b w;
         Some (first, w) } } }"

definition thrall_pass :: "'h fboard \<Rightarrow> BYTE \<Rightarrow> 'h fworld \<Rightarrow> (BYTE \<times> 'h fworld) option" where
  "thrall_pass b first w = do {
     (first, w) \<leftarrow> thrall_body b first (set_status b CPU_STATUS_DRVNOTRDY w);
     w \<leftarrow> menu_busy (brd b) 2 w;
     (_, w) \<leftarrow> menu_dispatch (brd b) False w;
     w \<leftarrow> io (delay2 (ports b) 10) w;
     Some (first, w) }"

definition thrall_start :: "'h fboard \<Rightarrow> 'h fworld \<Rightarrow> 'h fworld" where
  "thrall_start b w = menu_init (brd b) (set_status b CPU_STATUS_DRVNOTRDY w)"

text \<open>
  thrall does not return; its states at the head of the endless loop are those a step relation
  reaches from its start.
\<close>

inductive thrall_reaches :: "'h fboard \<Rightarrow> 'h fworld \<Rightarrow> BYTE \<Rightarrow> 'h fworld \<Rightarrow> bool" for b w0 where
  start: "thrall_reaches b w0 0 (thrall_start b w0)"
| pass: "thrall_reaches b w0 first w \<Longrightarrow> thrall_pass b first w = Some (first', w') \<Longrightarrow>
    thrall_reaches b w0 first' w'"

end
