(* ===== verification/Menu_Props.thy ===== *)
theory Menu_Props
  imports Menu
begin

text \<open>
  The menu stays on the screen: an invariant of the display, the image path and the menu's state
  that every operation of menu.c and osd.c keeps, whatever the joystick, the directory and the
  card answer.
\<close>

section \<open>The invariant\<close>

definition menu_states :: "BYTE set" where
  "menu_states = {0xFF, STATE_MENU, STATE_FSEL, STATE_WAITBREAK, STATE_WAITBREAK2, STATE_ABOOT, STATE_ABOOT2}"

definition menu_inv :: "('h, 'z) world_scheme \<Rightarrow> bool" where
  "menu_inv w \<longleftrightarrow> osd_ok (scr w) \<and> length (ptrfile (ph w)) = 26 \<and> dude_seqno (mnu w) < 16
     \<and> state (mnu w) \<in> menu_states"

lemma set_hw_simps [simp, frame_simps]:
  "scr (set_hw h w) = scr w" "mnu (set_hw h w) = mnu w" "ptrfile (ph (set_hw h w)) = ptrfile (ph w)"
  "dir (ph (set_hw h w)) = dir (ph w)" "finfo (ph (set_hw h w)) = finfo (ph w)"
  by (simp_all add: set_hw_def)

lemma wr_simps [simp, frame_simps]:
  "scr (wr b a v w) = scr w" "mnu (wr b a v w) = mnu w" "ptrfile (ph (wr b a v w)) = ptrfile (ph w)"
  by (simp_all add: wr_def)

lemma rd_frame: "rd b a w = (v, w') \<Longrightarrow> scr w' = scr w \<and> mnu w' = mnu w \<and> ptrfile (ph w') = ptrfile (ph w)"
  by (auto simp: rd_def split: prod.splits)

lemma io_frame: "io f w = Some w' \<Longrightarrow> scr w' = scr w \<and> mnu w' = mnu w \<and> ptrfile (ph w') = ptrfile (ph w)"
  by (auto simp: io_def)

lemma on_scr_simps [simp]:
  "scr (on_scr f w) = f (scr w)" "mnu (on_scr f w) = mnu w" "ph (on_scr f w) = ph w"
  by (simp_all add: on_scr_def)

lemma on_mnu_simps [simp]:
  "scr (on_mnu f w) = scr w" "mnu (on_mnu f w) = f (mnu w)" "ph (on_mnu f w) = ph w"
  by (simp_all add: on_mnu_def)

lemma menu_inv_wr [simp]: "menu_inv (wr b a v w) = menu_inv w"
  by (simp add: menu_inv_def)

lemma menu_inv_rd: "rd b a w = (v, w') \<Longrightarrow> menu_inv w' = menu_inv w"
  by (auto simp: menu_inv_def dest: rd_frame)

lemma menu_inv_io: "io f w = Some w' \<Longrightarrow> menu_inv w' = menu_inv w"
  by (auto simp: menu_inv_def dest: io_frame)

lemma menu_inv_mnu:
  "menu_inv w \<Longrightarrow> dude_seqno (f (mnu w)) < 16 \<Longrightarrow> state (f (mnu w)) \<in> menu_states \<Longrightarrow> menu_inv (on_mnu f w)"
  by (simp add: menu_inv_def)

lemma menu_inv_scr: "menu_inv w \<Longrightarrow> osd_ok (f (scr w)) \<Longrightarrow> menu_inv (on_scr f w)"
  by (simp add: menu_inv_def)

lemma menu_invD:
  "menu_inv w \<Longrightarrow> osd_ok (scr w)" "menu_inv w \<Longrightarrow> length (ptrfile (ph w)) = 26"
  "menu_inv w \<Longrightarrow> dude_seqno (mnu w) < 16" "menu_inv w \<Longrightarrow> state (mnu w) \<in> menu_states"
  by (simp_all add: menu_inv_def)

lemma menu_states_in [simp]:
  "STATE_MENU \<in> menu_states" "STATE_FSEL \<in> menu_states" "STATE_WAITBREAK \<in> menu_states"
  "STATE_WAITBREAK2 \<in> menu_states" "STATE_ABOOT \<in> menu_states" "STATE_ABOOT2 \<in> menu_states"
  by (simp_all add: menu_states_def)

section \<open>Drawing\<close>

lemma fold_osd_ok: "(\<And>i o'. i \<in> set xs \<Longrightarrow> osd_ok o' \<Longrightarrow> osd_ok (f i o')) \<Longrightarrow> osd_ok o' \<Longrightarrow> osd_ok (fold f xs o')"
  by (induction xs arbitrary: o') auto

text \<open>A centred item keeps its line when it fits on both sides of its column.\<close>

lemma draw_middle_ok:
  assumes "osd_ok o'" and "py < 8" and "strlen str div 2 \<le> unat px"
    and "unat px - strlen str div 2 + strlen str \<le> 32"
  shows "osd_ok (draw_item str px py ALIGN_MIDDLE o')"
proof -
  let ?l = "strlen str div 2"
  have l: "?l < 256" using assms(3) by (rule order_le_less_trans) (rule BYTE_less)
  then have u: "unat (of_nat ?l :: BYTE) = ?l" by (intro unat_of_nat_less) simp
  then have "unat (px - of_nat ?l) = unat px - ?l"
    using assms(3) by (subst unat_sub) (simp_all add: word_le_nat_alt)
  then show ?thesis
    using assms by (simp add: draw_item_def Let_def osd_place_ok)
qed

lemma place_text: "osd_ok o' \<Longrightarrow> py < 8 \<Longrightarrow> length str \<le> 32 \<Longrightarrow> osd_ok (osd_puts str (osd_gotoxy 0 py o'))"
  using strlen_le [of str] by (intro osd_place_ok) simp_all

lemma draw_menu_ok:
  assumes "menu_inv w" and "strlen (page0 b) \<le> 10"
  shows "menu_inv (draw_menu b w)"
proof -
  have item: "osd_ok (draw_menu_item b w i o')" if "i \<in> set [0..<9]" "osd_ok o'" for i o'
  proof -
    define str where "str = (case menu_item ! i of None \<Rightarrow> page0 b | Some t \<Rightarrow> t)"
    have i: "i < 9" "i div 3 < 3" "i mod 3 < 3" using that(1) by auto
    have "i \<in> {0, 1, 2, 3, 4, 5, 6, 7, 8}" using i(1) by auto
    then have "strlen str \<le> 10"
      using assms(2) order_trans [OF strlen_le] by (auto simp: str_def menu_item_def)
    then have "osd_ok (draw_item str (of_nat (5 + i mod 3 * 10)) (of_nat (i div 3 + 2)) ALIGN_MIDDLE o'')"
      if "osd_ok o''" for o''
    proof (intro draw_middle_ok that)
      have x: "unat (of_nat (5 + i mod 3 * 10) :: BYTE) = 5 + i mod 3 * 10"
        using i(3) by (intro unat_of_nat_less) simp
      show "strlen str div 2 \<le> unat (of_nat (5 + i mod 3 * 10) :: BYTE)"
        "unat (of_nat (5 + i mod 3 * 10) :: BYTE) - strlen str div 2 + strlen str \<le> 32"
        unfolding x using \<open>strlen str \<le> 10\<close> i(3) by linarith+
      have "unat (of_nat (i div 3 + 2) :: BYTE) = i div 3 + 2"
        using i(2) by (intro unat_of_nat_less) simp
      then show "(of_nat (i div 3 + 2) :: BYTE) < 8" using i(2) by (simp add: word_less_nat_alt)
    qed
    then show ?thesis using that(2) by (simp add: draw_menu_item_def Let_def str_def)
  qed
  have "strlen (ptrfile (ph w)) \<le> 26" using strlen_le menu_invD(2) [OF assms(1)] by metis
  then have "osd_ok o' \<Longrightarrow> osd_ok (draw_item (ptrfile (ph w)) 16 6 ALIGN_MIDDLE o')" for o'
    by (intro draw_middle_ok) simp_all
  moreover have "osd_ok (fold (draw_menu_item b w) [0..<9] (scr w))"
    by (rule fold_osd_ok [OF item]) (use assms(1) in \<open>simp_all add: menu_inv_def\<close>)
  ultimately show ?thesis
    unfolding draw_menu_def Let_def
    by (intro menu_inv_scr assms(1) place_text) (simp_all add: TXT_MENU_HALP_def)
qed

lemma menu_init_ok: "menu_inv w \<Longrightarrow> menu_inv (menu_init b w)"
  unfolding menu_init_def Let_def menu_inv_wr
  by (intro menu_inv_mnu; cases "state (mnu w) = STATE_MENU") (auto simp: menu_inv_def)

lemma menu_init_state [simp]: "state (mnu (menu_init b w)) = STATE_MENU"
  by (simp add: menu_init_def Let_def)

lemma menu_busy_ok: "menu_inv w \<Longrightarrow> menu_busy b st w = Some w' \<Longrightarrow> menu_inv w'"
  by (auto simp: menu_busy_def bind_Some_iff busy_text_def TXT_MENU_HALP_def TXT_MENU_ABOOTHALP_def
      TXT_MENU_BUSY_def TXT_MENU_INSERT_def menu_init_ok menu_invD
      intro!: menu_inv_scr place_text split: if_splits)

lemma fsel_init_ok: "menu_inv w \<Longrightarrow> menu_inv (fsel_init w)"
  by (simp add: fsel_init_def menu_inv_def)

lemma aboot_show_ok: "menu_inv w \<Longrightarrow> menu_inv (aboot_show w)"
proof -
  assume w: "menu_inv w"
  have "osd_ok (osd_puts (about_lines ! i) (osd_gotoxy 0 (of_nat (i + 1)) o'))"
    if i: "i \<in> set [0..<6]" and "osd_ok o'" for i o'
  proof (rule place_text [OF that(2)])
    have "i \<in> {0, 1, 2, 3, 4, 5}" using i by auto
    then show "length (about_lines ! i) \<le> 32" by (auto simp: about_lines_def cnotice2_def)
    have "unat (of_nat (i + 1) :: BYTE) = i + 1" using i by (intro unat_of_nat_less) auto
    then show "(of_nat (i + 1) :: BYTE) < 8" using i by (auto simp: word_less_nat_alt)
  qed
  then have "osd_ok (fold (\<lambda>i o'. osd_puts (about_lines ! i) (osd_gotoxy 0 (of_nat (i + 1)) o')) [0..<6] (osd_cls True (scr w)))"
    using w by (intro fold_osd_ok) (simp_all add: menu_inv_def)
  with w show ?thesis unfolding aboot_show_def by (intro menu_inv_mnu menu_inv_scr) (simp_all add: menu_inv_def)
qed

lemma aboot_anim_ok: "menu_inv w \<Longrightarrow> menu_inv (aboot_anim w)"
proof -
  assume w: "menu_inv w"
  let ?k = "unat (dude_seqno (mnu w))"
  have k: "?k < 16" using w by (simp add: menu_inv_def word_less_nat_alt)
  have "\<forall>k \<in> {0..<16}. \<forall>i \<in> {0..<3}. length (dude ! (waverseq ! k * 3 + i)) = 3" by code_simp
  then have l: "length (dude ! (waverseq ! ?k * 3 + i)) = 3" if "i < 3" for i
    using k that by simp
  have "osd_ok (osd_puts (dude ! (waverseq ! ?k * 3 + i)) (osd_gotoxy 28 (of_nat (i + 3)) o'))"
    if i: "i \<in> set [0..<3]" and "osd_ok o'" for i o'
  proof (rule osd_place_ok [OF that(2)])
    show "unat (28 :: BYTE) + strlen (dude ! (waverseq ! ?k * 3 + i)) \<le> 32"
      using l [of i] i strlen_le [of "dude ! (waverseq ! ?k * 3 + i)"] by simp
    have "unat (of_nat (i + 3) :: BYTE) = i + 3" using i by (intro unat_of_nat_less) auto
    then show "(of_nat (i + 3) :: BYTE) < 8" using i by (auto simp: word_less_nat_alt)
  qed
  then have "osd_ok (fold (\<lambda>i o'. osd_puts (dude ! (waverseq ! ?k * 3 + i)) (osd_gotoxy 28 (of_nat (i + 3)) o')) [0..<3] (scr w))"
    using w by (intro fold_osd_ok) (simp_all add: menu_inv_def)
  with w show ?thesis
    unfolding aboot_anim_def by (intro menu_inv_mnu menu_inv_scr)
      (simp_all add: menu_inv_def word_less_nat_alt unat_mod)
qed

lemma switch_state_ok: "menu_inv w \<Longrightarrow> menu_inv (switch_state b w)"
  by (auto simp: switch_state_def Let_def menu_invD intro!: menu_inv_mnu aboot_show_ok fsel_init_ok)
    (auto simp: menu_inv_def fsel_init_def)

section \<open>The file selector\<close>

text \<open>The twelve bytes of every file place lie in display memory, for every index.\<close>

lemma fsel_place: "unat (fsel_index2offs i) + 12 \<le> 256"
proof -
  have "\<forall>i \<in> set (map (of_nat :: nat \<Rightarrow> BYTE) [0..<256]). unat (fsel_index2offs i) + 12 \<le> 256"
    by code_simp
  moreover have "i \<in> set (map (of_nat :: nat \<Rightarrow> BYTE) [0..<256])"
    by (simp add: image_iff) (metis BYTE_less atLeastLessThan_iff of_nat_unat ucast_id zero_le)
  ultimately show ?thesis by blast
qed

text \<open>The places of a page do not overlap.\<close>

lemma fsel_apart:
  assumes "i < FSEL_PAGESIZE" and "j < FSEL_PAGESIZE" and "i \<noteq> j"
  shows "unat (fsel_index2offs i) + 12 \<le> unat (fsel_index2offs j)
    \<or> unat (fsel_index2offs j) + 12 \<le> unat (fsel_index2offs i)"
proof -
  have "\<forall>i \<in> set (map (of_nat :: nat \<Rightarrow> BYTE) [0..<12]). \<forall>j \<in> set (map (of_nat :: nat \<Rightarrow> BYTE) [0..<12]).
      i = j \<or> unat (fsel_index2offs i) + 12 \<le> unat (fsel_index2offs j)
      \<or> unat (fsel_index2offs j) + 12 \<le> unat (fsel_index2offs i)"
    by code_simp
  moreover have "k \<in> set (map (of_nat :: nat \<Rightarrow> BYTE) [0..<12])" if "k < FSEL_PAGESIZE" for k
  proof -
    have "unat k < 12" using that by (simp add: FSEL_PAGESIZE_def word_less_nat_alt)
    then show ?thesis by (simp add: image_iff) (metis atLeastLessThan_iff of_nat_unat ucast_id zero_le)
  qed
  ultimately show ?thesis using assms by blast
qed

definition nextfile_frame :: "BYTE list option \<Rightarrow> 'd philes \<Rightarrow> FRESULT \<times> BYTE list option \<times> 'd philes \<Rightarrow> bool" where
  "nextfile_frame m s y \<longleftrightarrow> (case y of (r, m', s') \<Rightarrow> ptrfile s' = ptrfile s
    \<and> (m = None \<longrightarrow> m' = None)
    \<and> (\<forall>x. m = Some x \<longrightarrow> 12 \<le> length x \<longrightarrow> (\<exists>y. m' = Some y \<and> length y = length x))
    \<and> (r = FR_OK \<or> r = FR_NO_FILE) \<and> (r = FR_NO_FILE \<longrightarrow> m' = m))"

lemma philes_nextfile_result:
  assumes "philes_nextfile e m t s = Some y"
  shows "nextfile_frame m s y"
proof (rule philes_nextfile.raw_induct [where P = "\<lambda>e m t s y. nextfile_frame m s y", OF _ assms])
  fix nxt e m t s y
  assume ih: "\<And>e m t s y. nxt e m t s = Some y \<Longrightarrow> nextfile_frame m s y"
    and body: "do {
      (r, d, fi, ta) \<leftarrow> f_readdir e (dir s) (finfo s) (tf s);
      let s = s\<lparr>dir := d, finfo := fi, tf := ta\<rparr>;
      if r = FR_OK \<and> fname fi ! 0 \<noteq> 0 then
        if fattrib fi AND AM_DIR = 0 \<and> endsWith (fname fi) (bytes_of ''.FDD'') then
          Some (FR_OK, map_option (\<lambda>m. if t then strncpy m (fname fi) 12
                                       else strxcpy m (fname fi)) m, s)
        else nxt e m t s
      else Some (FR_NO_FILE, m, s) } = Some y"
  then obtain fr d fi t1 where "f_readdir e (dir s) (finfo s) (tf s) = Some (fr, d, fi, t1)"
    by (auto simp: bind_Some_iff)
  with body show "nextfile_frame m s y"
    by (auto simp: nextfile_frame_def len_simps Let_def split: if_splits
        dest!: ih [unfolded nextfile_frame_def])
qed

lemma philes_nextfile_frame:
  assumes "philes_nextfile e m t s = Some (r, m', s')"
  shows "ptrfile s' = ptrfile s \<and> (m = None \<longrightarrow> m' = None)
    \<and> (\<forall>x. m = Some x \<longrightarrow> 12 \<le> length x \<longrightarrow> (\<exists>y. m' = Some y \<and> length y = length x))
    \<and> (r = FR_OK \<or> r = FR_NO_FILE) \<and> (r = FR_NO_FILE \<longrightarrow> m' = m)"
  using philes_nextfile_result [OF assms] by (simp add: nextfile_frame_def)

lemma philes_opendir_frame: "philes_opendir e s = Some (r, s') \<Longrightarrow> length (ptrfile s') = length (ptrfile s)"
  by (auto simp: philes_opendir_def Let_def bind_Some_iff)

lemma menu_inv_ph: "menu_inv w \<Longrightarrow> length (ptrfile s) = 26 \<Longrightarrow> menu_inv (w\<lparr>ph := s\<rparr>)"
  by (simp add: menu_inv_def)

lemma fsel_skip_ok: "menu_inv w \<Longrightarrow> fsel_skip b n w = Some w' \<Longrightarrow> menu_inv w'"
proof (induction n arbitrary: w)
  case (Suc n)
  then obtain r m s where n: "philes_nextfile (fsenv b) None False (ph w) = Some (r, m, s)"
    by (auto simp: bind_Some_iff)
  have "menu_inv (w\<lparr>ph := s\<rparr>)"
    using Suc.prems(1) philes_nextfile_frame [OF n] by (simp add: menu_inv_def)
  with Suc n show ?case
    by (auto simp: menu_invD Let_def intro: menu_inv_mnu split: if_splits)
qed simp

lemma osd_ok_store: "osd_ok o' \<Longrightarrow> i + length bs \<le> 256 \<Longrightarrow> osd_ok (o'\<lparr>dmem := store i bs (dmem o')\<rparr>)"
  by (simp add: osd_ok_def DISPLAY_RAMSIZE_def length_store)

lemma fsel_show_one_ok:
  assumes "menu_inv w" and "fsel_show_one b i w = Some w'"
  shows "menu_inv w'"
proof -
  let ?u = "unat (fsel_index2offs i)"
  define v where "v = on_scr (\<lambda>o'. o'\<lparr>dmem := store ?u (replicate 12 32) (dmem o')\<rparr>) w"
  have v: "menu_inv v"
    unfolding v_def using assms(1) fsel_place [of i] by (intro menu_inv_scr osd_ok_store) (simp_all add: menu_invD)
  then have l: "length (dmem (scr v)) = 256" by (simp add: menu_inv_def osd_ok_def DISPLAY_RAMSIZE_def)
  from assms(2) obtain r m s where n: "philes_nextfile (fsenv b) (Some (drop ?u (dmem (scr v)))) False (ph v) = Some (r, m, s)"
      and w': "w' = (let w = on_scr (\<lambda>o'. o'\<lparr>dmem := store ?u (the m) (dmem o')\<rparr>) (v\<lparr>ph := s\<rparr>) in
        if r \<noteq> FR_OK then on_mnu (\<lambda>n. n\<lparr>fsel_hasnextpage := 0\<rparr>) w else w)"
    unfolding fsel_show_one_def Let_def v_def by (auto simp: bind_Some_iff)
  have "12 \<le> length (drop ?u (dmem (scr v)))" using fsel_place [of i] l by simp
  with philes_nextfile_frame [OF n] obtain y where y: "m = Some y" "length y = 256 - ?u" and pf: "ptrfile s = ptrfile (ph v)"
    using l by auto
  have "menu_inv (on_scr (\<lambda>o'. o'\<lparr>dmem := store ?u y (dmem o')\<rparr>) (v\<lparr>ph := s\<rparr>))"
    using menu_invD [OF v] v pf y(2) fsel_place [of i]
    by (intro menu_inv_scr menu_inv_ph osd_ok_store) simp_all
  note w2 = this
  then have "menu_inv (on_mnu (\<lambda>n. n\<lparr>fsel_hasnextpage := 0\<rparr>)
      (on_scr (\<lambda>o'. o'\<lparr>dmem := store ?u y (dmem o')\<rparr>) (v\<lparr>ph := s\<rparr>)))"
    using menu_invD [OF v] by (intro menu_inv_mnu) simp_all
  with w' y w2 show ?thesis by (simp add: Let_def split: if_splits)
qed

lemma fsel_show_ok: "menu_inv w \<Longrightarrow> fsel_show b i n w = Some w' \<Longrightarrow> menu_inv w'"
  by (induction n arbitrary: i w) (auto simp: bind_Some_iff dest: fsel_show_one_ok)

lemma draw_fsel_ok:
  assumes "menu_inv w" and "draw_fsel b w = Some w'"
  shows "menu_inv w'"
proof -
  let ?w = "on_mnu (\<lambda>m. m\<lparr>fsel_hasnextpage := 1\<rparr>) w"
  from assms(2) obtain w1 r s where i: "io (ser_puts (ports b) (bytes_of ''opendir'')) ?w = Some w1"
      and o: "philes_opendir (fsenv b) (ph w1) = Some (r, s)"
      and rest: "(if r \<noteq> FR_OK then Some (w1\<lparr>ph := s\<rparr>) else do {
        w \<leftarrow> io (ser_puts (ports b) (bytes_of '' ok'')) (w1\<lparr>ph := s\<rparr>);
        w \<leftarrow> io (ser_nl (ports b)) w;
        w \<leftarrow> fsel_skip b (unat (fsel_pagestart (mnu w))) w;
        fsel_show b 0 (unat FSEL_PAGESIZE) w }) = Some w'"
    unfolding draw_fsel_def Let_def by (auto simp: bind_Some_iff)
  have "menu_inv ?w" using assms(1) by (intro menu_inv_mnu) (simp_all add: menu_invD)
  then have "menu_inv w1" using menu_inv_io [OF i] by simp
  then have "menu_inv (w1\<lparr>ph := s\<rparr>)"
    using philes_opendir_frame [OF o] by (intro menu_inv_ph) (simp_all add: menu_invD)
  note w2 = this
  show ?thesis
  proof (cases "r = FR_OK")
    case True
    with rest obtain w3 w4 w5 where "io (ser_puts (ports b) (bytes_of '' ok'')) (w1\<lparr>ph := s\<rparr>) = Some w3"
        "io (ser_nl (ports b)) w3 = Some w4" "fsel_skip b (unat (fsel_pagestart (mnu w4))) w4 = Some w5"
        "fsel_show b 0 (unat FSEL_PAGESIZE) w5 = Some w'"
      by (auto simp: bind_Some_iff)
    with w2 show ?thesis by (metis menu_inv_io fsel_skip_ok fsel_show_ok)
  qed (use rest w2 in simp)
qed

lemma fsel_showselection_ok: "menu_inv w \<Longrightarrow> menu_inv (fsel_showselection on w)"
  using fsel_place [of "menu_selected (mnu w)"] unfolding fsel_showselection_def Let_def
  by (intro menu_inv_scr osd_ok_store) (simp_all add: menu_invD)

lemma fsel_move_frame [simp]: "state (fsel_move m) = state m" "dude_seqno (fsel_move m) = dude_seqno m"
  by (simp_all add: fsel_move_def Let_def)

lemma fsel_step_ok:
  assumes "menu_inv w" and "fsel_step b w = Some w'"
  shows "menu_inv w'"
proof -
  define v where "v = on_mnu fsel_move w"
  have v: "menu_inv v" unfolding v_def using menu_invD [OF assms(1)] by (intro menu_inv_mnu assms(1)) simp_all
  from assms(2) obtain w1
    where d: "(if fsel_redraw (mnu v) \<noteq> 0 then draw_fsel b (on_mnu (\<lambda>m. m\<lparr>fsel_redraw := 0\<rparr>) v) else Some v) = Some w1"
      and w': "w' = (let w = fsel_showselection False w1;
         w = fsel_showselection True (on_mnu (\<lambda>m. m\<lparr>menu_selected := menu_y m * 2 + menu_x m\<rparr>) w) in
       if joy_status (mnu w) AND 1 \<noteq> 0 then on_mnu (\<lambda>m. m\<lparr>state := STATE_WAITBREAK2\<rparr>) w else w)"
    unfolding fsel_step_def Let_def v_def [symmetric] by (auto simp: bind_Some_iff)
  have "menu_inv (on_mnu (\<lambda>m. m\<lparr>fsel_redraw := 0\<rparr>) v)"
    using menu_invD [OF v] by (intro menu_inv_mnu v) simp_all
  with d v have w1: "menu_inv w1" by (auto dest: draw_fsel_ok split: if_splits)
  define w2 where "w2 = fsel_showselection False w1"
  have w2: "menu_inv w2" unfolding w2_def by (rule fsel_showselection_ok [OF w1])
  define w3 where "w3 = fsel_showselection True (on_mnu (\<lambda>m. m\<lparr>menu_selected := menu_y m * 2 + menu_x m\<rparr>) w2)"
  have w3: "menu_inv w3"
    unfolding w3_def using menu_invD [OF w2] by (intro fsel_showselection_ok menu_inv_mnu w2) simp_all
  have "w' = (if joy_status (mnu w3) AND 1 \<noteq> 0 then on_mnu (\<lambda>m. m\<lparr>state := STATE_WAITBREAK2\<rparr>) w3 else w3)"
    using w' by (simp add: Let_def w2_def w3_def)
  with w3 menu_invD [OF w3] show ?thesis by (auto intro: menu_inv_mnu)
qed

section \<open>menu_dispatch\<close>

lemma fsel_getselected_length: "13 \<le> length file \<Longrightarrow> length (fsel_getselected w file) = length file"
proof -
  assume f: "13 \<le> length file"
  have t: "length (takeWhile (\<lambda>u. u \<noteq> 32) (map (\<lambda>c. c AND 0x7F) (take 12 xs))) \<le> 12" for xs :: "BYTE list"
    by (rule order_trans [OF length_takeWhile_le]) simp
  show ?thesis
    unfolding fsel_getselected_def Let_def
    using t [of "drop (unat (fsel_index2offs (menu_selected (mnu w)))) (dmem (scr w))"] f
    by (intro length_store) simp
qed

lemma take_image_ok:
  assumes "menu_inv w" and "take_image b w = Some (r, w')"
  shows "menu_inv w'"
proof -
  let ?pf = "ptrfile (ph w)"
  let ?w = "w\<lparr>ph := (ph w)\<lparr>ptrfile := take 10 ?pf @ fsel_getselected w (drop 10 ?pf)\<rparr>\<rparr>"
  have "length ?pf = 26" using assms(1) by (rule menu_invD)
  then have "menu_inv ?w"
    using assms(1) by (intro menu_inv_ph) (simp_all add: fsel_getselected_length)
  with assms(2) show ?thesis
    unfolding take_image_def Let_def by (auto simp: bind_Some_iff menu_inv_io intro!: menu_init_ok)
qed

lemma menu_event_ok:
  assumes "menu_inv w" and "strlen (page0 b) \<le> 10" and "menu_event b w = Some (r, w')"
  shows "menu_inv w'"
proof -
  have "menu_inv (on_mnu menu_move w)"
    using assms(1) by (intro menu_inv_mnu) (simp_all add: menu_invD menu_move_def Let_def)
  then have d: "menu_inv (draw_menu b (on_mnu menu_move w))" by (rule draw_menu_ok [OF _ assms(2)])
  then have "menu_inv (on_mnu (\<lambda>m. m\<lparr>state := STATE_WAITBREAK, menu_selected := menu_x m + menu_y m * 3\<rparr>)
      (draw_menu b (on_mnu menu_move w)))"
    by (intro menu_inv_mnu) (simp_all add: menu_invD)
  moreover have "menu_inv (on_mnu (\<lambda>m. m\<lparr>state := STATE_ABOOT2\<rparr>) w)"
    using assms(1) by (intro menu_inv_mnu) (simp_all add: menu_invD)
  ultimately show ?thesis
    using assms(1,3) d unfolding menu_event_def Let_def
    by (auto intro: switch_state_ok menu_init_ok fsel_step_ok take_image_ok split: if_splits)
qed

lemma menu_idle_ok: "menu_inv w \<Longrightarrow> menu_inv (menu_idle b tick w)"
proof -
  assume w: "menu_inv w"
  let ?w1 = "if tick \<and> state (mnu w) = STATE_ABOOT2 then aboot_anim w else w"
  have w1: "menu_inv ?w1" using w by (simp add: aboot_anim_ok)
  have "menu_inv (if inactivity (mnu ?w1) \<noteq> 0 then on_mnu (\<lambda>m. m\<lparr>inactivity := inactivity m - 1\<rparr>) ?w1 else ?w1)"
    using w1 menu_invD [OF w1] by (simp add: menu_inv_mnu)
  then show ?thesis unfolding menu_idle_def Let_def by (simp add: menu_init_ok)
qed

lemma menu_dispatch_ok:
  assumes "menu_inv w" and "strlen (page0 b) \<le> 10" and "menu_dispatch b tick w = Some (r, w')"
  shows "menu_inv w'"
proof -
  obtain j w1 where r1: "rd b JOYSTICK (menu_idle b tick w) = (j, w1)" by (metis prod.exhaust)
  obtain j' w2 where r2: "rd b JOYSTICK w1 = (j', w2)" by (metis prod.exhaust)
  have i: "menu_inv w1" "menu_inv w2"
    using menu_idle_ok [OF assms(1)] menu_inv_rd [OF r1] menu_inv_rd [OF r2] by blast+
  then have "menu_inv (on_mnu (\<lambda>m. m\<lparr>joy_status := j', inactivity := INACTIVITY\<rparr>) w2)"
    by (intro menu_inv_mnu) (simp_all add: menu_invD)
  with assms(2,3) i r1 r2 show ?thesis
    unfolding menu_dispatch_def Let_def by (auto intro: menu_event_ok split: if_splits)
qed

end
