(* ===== verification/Slave_Props.thy ===== *)
theory Slave_Props
  imports Slave Menu_Props
begin

text \<open>
  The request handler: what the host sees at the status port, when the handler leaves its
  loop, and that the menu's invariant holds in every state the endless loop of thrall reaches.
\<close>

section \<open>Frames\<close>

lemma menu_inv_ext:
  "menu_inv w \<Longrightarrow> scr w' = scr w \<Longrightarrow> mnu w' = mnu w \<Longrightarrow> ptrfile (ph w') = ptrfile (ph w) \<Longrightarrow> menu_inv w'"
  by (simp add: menu_inv_def)

lemma page0_brd [simp]: "page0 (brd b) = page0 b"
  by (simp add: brd_def board.truncate_def)

lemma set_status_ok [simp]: "menu_inv (set_status b v w) = menu_inv w"
  by (simp add: set_status_def)

lemma vport_ok: "vport b a w = Some w' \<Longrightarrow> menu_inv w' = menu_inv w"
  by (auto simp: vport_def vputh_def menu_inv_io menu_inv_rd split: prod.splits)

lemma vposition_ok: "vposition b w = Some w' \<Longrightarrow> menu_inv w' = menu_inv w"
  by (auto simp: vposition_def vputh_def menu_inv_io bind_Some_iff)

lemma seek_request_ok [simp]: "menu_inv (seek_request b cmd w) = menu_inv w"
proof -
  obtain t w1 where 1: "rd (brd b) MASTER_TRACK w = (t, w1)" by (metis prod.exhaust)
  obtain n w2 where 2: "rd (brd b) MASTER_SECTOR w1 = (n, w2)" by (metis prod.exhaust)
  have "menu_inv w2 = menu_inv w" using menu_inv_rd [OF 1] menu_inv_rd [OF 2] by simp
  then show ?thesis
    by (simp add: seek_request_def 1 2 fdd_seek_def Let_def menu_inv_def)
qed

lemma on_image_ok: "on_image f w = Some (r, w') \<Longrightarrow> menu_inv w' = menu_inv w"
  by (auto simp: on_image_def bind_Some_iff menu_inv_def)

lemma drive_error_ok: "drive_error b w = Some (r, w') \<Longrightarrow> menu_inv w' = menu_inv w \<and> r = fresult_code FR_INVALID_DRIVE"
  by (auto simp: drive_error_def vputs_def menu_inv_io bind_Some_iff)

lemmas output_defs = vputs_def vputc_def vputh_def vnl_def

lemmas output_ok = menu_inv_io vport_ok vposition_ok on_image_ok drive_error_ok

lemma menu_inv_fields [simp]:
  "menu_inv (w\<lparr>leds := l\<rparr>) = menu_inv w" "menu_inv (w\<lparr>bdelay := n\<rparr>) = menu_inv w"
  "menu_inv (w\<lparr>fddimage := f\<rparr>) = menu_inv w" "menu_inv (w\<lparr>fdderr := e\<rparr>) = menu_inv w"
  "menu_inv (w\<lparr>file1 := file\<rparr>) = menu_inv w" "menu_inv (w\<lparr>buffer := bs\<rparr>) = menu_inv w"
  by (simp_all add: menu_inv_def)

section \<open>Postconditions of a run\<close>

text \<open>A run that ends, ends with \<open>Q\<close>; the rules follow the steps of a handler.\<close>

definition post :: "('a \<Rightarrow> bool) \<Rightarrow> 'a option \<Rightarrow> bool" where
  "post Q m \<longleftrightarrow> (\<forall>x. m = Some x \<longrightarrow> Q x)"

lemma postD: "post Q m \<Longrightarrow> m = Some x \<Longrightarrow> Q x"
  by (simp add: post_def)

lemma post_Some: "Q x \<Longrightarrow> post Q (Some x)"
  by (simp add: post_def)

lemma post_bind: "post R m \<Longrightarrow> (\<And>x. R x \<Longrightarrow> post Q (f x)) \<Longrightarrow> post Q (m \<bind> f)"
  by (auto simp: post_def bind_Some_iff)

lemma post_pairs:
  "post R m \<Longrightarrow> (\<And>r w. R (r, w) \<Longrightarrow> post Q (f r w)) \<Longrightarrow> post Q (m \<bind> (\<lambda>(r, w). f r w))"
  by (auto simp: post_def bind_Some_iff)

lemma post_step:
  "post menu_inv m \<Longrightarrow> (\<And>w. menu_inv w \<Longrightarrow> post Q (f w)) \<Longrightarrow> post Q (m \<bind> f)"
  by (rule post_bind)

lemma post_result:
  "post (\<lambda>y. menu_inv (snd y)) m \<Longrightarrow> (\<And>r w. menu_inv w \<Longrightarrow> post Q (f (r, w))) \<Longrightarrow> post Q (m \<bind> f)"
  by (erule post_bind) (metis prod.collapse)

lemma post_pair: "post Q (f r w) \<Longrightarrow> post Q (case (r, w) of (r, w) \<Rightarrow> f r w)"
  by simp

lemma post_if: "(c \<Longrightarrow> post Q x) \<Longrightarrow> (\<not> c \<Longrightarrow> post Q y) \<Longrightarrow> post Q (if c then x else y)"
  by simp

lemma post_output:
  "menu_inv w \<Longrightarrow> post menu_inv (vputs b s w)" "menu_inv w \<Longrightarrow> post menu_inv (vputc b c w)"
  "menu_inv w \<Longrightarrow> post menu_inv (vputh b x w)" "menu_inv w \<Longrightarrow> post menu_inv (vnl b w)"
  "menu_inv w \<Longrightarrow> post menu_inv (vport b a w)" "menu_inv w \<Longrightarrow> post menu_inv (vposition b w)"
  "menu_inv w \<Longrightarrow> post menu_inv (io f w)"
  "menu_inv w \<Longrightarrow> post menu_inv (menu_busy c' st w)"
  by (auto simp: post_def output_defs output_ok dest: menu_busy_ok)

lemma post_calls:
  "menu_inv w \<Longrightarrow> post (\<lambda>y. menu_inv (snd y)) (on_image f w)"
  "menu_inv w \<Longrightarrow> post (\<lambda>y. menu_inv (snd y)) (drive_error b w)"
  by (auto simp: post_def output_ok)

lemmas post_rules = post_Some post_pair post_step post_result post_if post_output post_calls

section \<open>Requests\<close>

lemma post_request_read: "menu_inv w \<Longrightarrow> post (\<lambda>(r, t, w). menu_inv w \<and> t = cmd AND 2) (request_read b cmd w)"
  unfolding request_read_def Let_def by (intro post_rules | simp)+

lemma post_request_readaddr: "menu_inv w \<Longrightarrow> post (\<lambda>(r, t, w). menu_inv w \<and> t = cmd AND 2) (request_readaddr b cmd w)"
  unfolding request_readaddr_def Let_def fdd_readadr_def prod.case
  by (intro post_rules | simp add: menu_inv_def [of "_\<lparr>buffer := _\<rparr>"] menu_invD)+

lemma post_request_write: "menu_inv w \<Longrightarrow> post (\<lambda>(r, t, w). menu_inv w \<and> t = t1) (request_write b cmd t1 w)"
  unfolding request_write_def Let_def by (intro post_rules | simp)+

lemma post_request_nop: "menu_inv w \<Longrightarrow> post menu_inv (request_nop b cmd w)"
  unfolding request_nop_def by (intro post_rules | simp)+

lemma request_fail_hangs: "request_fail b cmd w = None"
  by (simp add: request_fail_def bind_eq_None_conv split: Option.bind_split)

lemma post_map: "post (\<lambda>x. Q (f x)) m \<Longrightarrow> post Q (map_option f m)"
  by (auto simp: post_def)

lemma post_mono: "post R m \<Longrightarrow> (\<And>x. R x \<Longrightarrow> Q x) \<Longrightarrow> post Q m"
  by (auto simp: post_def)

lemma post_dispatch:
  "menu_inv w \<Longrightarrow> strlen (page0 b) \<le> 10 \<Longrightarrow> post (\<lambda>y. menu_inv (snd y)) (menu_dispatch b tick w)"
  by (auto simp: post_def dest: menu_dispatch_ok)

lemma post_blink: "menu_inv w \<Longrightarrow> strlen (page0 b) \<le> 10 \<Longrightarrow> post (\<lambda>y. menu_inv (snd y)) (blink b w)"
  unfolding blink_def Let_def
  by (intro post_step post_output(8) post_dispatch) simp_all

section \<open>The request loop\<close>

text \<open>How a pass ends: only a choice of the menu returns, only a missing card breaks.\<close>

definition pass_end :: "slave_end \<times> 'h fworld \<Rightarrow> bool" where
  "pass_end y \<longleftrightarrow> menu_inv (snd y) \<and> (\<forall>r. fst y = Return r \<longrightarrow> r = menuresult_code MENURESULT_DISK)
    \<and> (\<forall>r. fst y = Break r \<longrightarrow> r = fresult_code FR_OK)"

lemma pass_end_Continue [simp]: "pass_end (Continue r t, w) = menu_inv w"
  by (simp add: pass_end_def)

lemma post_slave_switch:
  assumes "menu_inv w" and "strlen (page0 b) \<le> 10"
  shows "post pass_end (slave_switch b cmd t1 w)"
proof -
  have codes: "mr \<noteq> MENURESULT_NOTHING \<Longrightarrow> mr = MENURESULT_DISK" for mr :: menuresult
    by (cases mr) simp_all
  have s: "menu_inv (set_status b v w)" for v using assms(1) by simp
  have "post pass_end (map_option (\<lambda>(r, t, w). (Continue r t, w)) (request_read b cmd w))"
    "post pass_end (map_option (\<lambda>(r, t, w). (Continue r t, w)) (request_readaddr b cmd w))"
    "post pass_end (map_option (\<lambda>(r, t, w). (Continue r t, w)) (request_write b cmd t1 w))"
    "post pass_end (map_option (\<lambda>w. (Continue (fresult_code FR_OK) t1, w)) (request_nop b cmd w))"
    by (rule post_map, rule post_mono, rule post_request_read post_request_readaddr post_request_write
        post_request_nop, rule assms(1), auto)+
  moreover have "post pass_end (vputc b 0x2B (set_status b 0 w) \<bind> (\<lambda>w. Some (Continue (fresult_code FR_OK) t1, w)))"
    by (intro post_step post_output s post_Some) simp
  moreover have "post pass_end (blink b (set_status b 0 w) \<bind> (\<lambda>(mr, w).
      Some (if mr \<noteq> MENURESULT_NOTHING then Return (menuresult_code mr) else Continue (menuresult_code mr) t1, w)))"
    by (intro post_result post_blink s assms(2) post_pair post_Some) (auto simp: pass_end_def dest: codes)
  ultimately show ?thesis
    by (simp add: slave_switch_def Let_def request_fail_hangs post_def)
qed

lemma post_slave_pass:
  assumes "menu_inv w" and "strlen (page0 b) \<le> 10"
  shows "post pass_end (slave_pass b t1 w)"
proof -
  have d: "menu_inv (w\<lparr>ph := (ph w)\<lparr>tf := (tf (ph w))\<lparr>disk := d\<rparr>\<rparr>\<rparr>)" for d
    using assms(1) by (rule menu_inv_ext) simp_all
  have n: "post pass_end (vputs b ''NOSD'' v \<bind> (\<lambda>w. Some (Break (fresult_code FR_OK), w)))" if "menu_inv v" for v
    using that by (intro post_step post_output post_Some) (simp_all add: pass_end_def)
  have s: "post pass_end (case rd (brd b) a v of (cmd, w) \<Rightarrow> slave_switch b cmd t1 w)" if "menu_inv v" for v a
    using that by (cases "rd (brd b) a v") (simp add: menu_inv_rd post_slave_switch assms(2))
  show ?thesis
    unfolding slave_pass_def Let_def
    by (intro post_pairs [where R = "\<lambda>_. True"] post_if n s d) (simp add: post_def)
qed

text \<open>
  The handler returns only on a failed transfer, a missing card or a newly chosen image, and the
  status port is cleared unless an image was chosen.
\<close>

definition slave_result :: "BYTE \<times> 'h fworld \<Rightarrow> bool" where
  "slave_result y \<longleftrightarrow> menu_inv (snd y)
    \<and> fst y \<in> {fresult_code FR_OK, fresult_code FR_RW_ERROR, menuresult_code MENURESULT_DISK}"

lemma slave_loop_result:
  assumes "slave_loop b r t w = Some y" and "menu_inv w" and "strlen (page0 b) \<le> 10"
  shows "slave_result y"
proof -
  have "menu_inv w \<and> strlen (page0 b) \<le> 10 \<longrightarrow> slave_result y"
  proof (rule slave_loop.raw_induct [where P = "\<lambda>b r t w y. menu_inv w \<and> strlen (page0 b) \<le> 10 \<longrightarrow> slave_result y", OF _ assms(1)],
      intro impI, elim conjE)
    fix sl and b :: "'h fboard" and r t w and y :: "BYTE \<times> 'h fworld"
    assume ih: "\<And>b r t w y. sl b r t w = Some y \<Longrightarrow> menu_inv w \<and> strlen (page0 b) \<le> 10 \<longrightarrow> slave_result y"
      and body: "(if r = fresult_code FR_RW_ERROR then Some (r, set_status b 0 w)
        else do {
          (x, w) \<leftarrow> slave_pass b t w;
          case x of
            Continue result t1 \<Rightarrow> sl b result t1 w
          | Break result \<Rightarrow> Some (result, set_status b 0 w)
          | Return result \<Rightarrow> Some (result, w) }) = Some y"
      and inv: "menu_inv w" "strlen (page0 b) \<le> 10"
    show "slave_result y"
    proof (cases "r = fresult_code FR_RW_ERROR")
      case False
      with body obtain x w1 where p: "slave_pass b t w = Some (x, w1)"
        and rest: "(case x of Continue result t1 \<Rightarrow> sl b result t1 w1
          | Break result \<Rightarrow> Some (result, set_status b 0 w1) | Return result \<Rightarrow> Some (result, w1)) = Some y"
        by (auto simp: bind_Some_iff)
      have e: "pass_end (x, w1)" using post_slave_pass [OF inv] p by (rule postD)
      show ?thesis
      proof (cases x)
        case (Continue r' t')
        with rest e show ?thesis using ih inv(2) by simp
      qed (use rest e in \<open>auto simp: pass_end_def slave_result_def\<close>)
    qed (use body inv in \<open>auto simp: slave_result_def\<close>)
  qed
  with assms(2,3) show ?thesis by blast
qed

lemma post_slave: "menu_inv w \<Longrightarrow> strlen (page0 b) \<le> 10 \<Longrightarrow> post slave_result (slave b w)"
  unfolding slave_def by (auto simp: post_def dest: slave_loop_result)

section \<open>thrall\<close>

lemma post_thrall_serve: "menu_inv w \<Longrightarrow> strlen (page0 b) \<le> 10 \<Longrightarrow> post menu_inv (thrall_serve b w)"
  unfolding thrall_serve_def
  by (auto intro!: post_map post_mono [OF post_slave] simp: slave_result_def split: prod.splits)

lemma post_thrall_open: "menu_inv w \<Longrightarrow> post (\<lambda>(r, f, w). menu_inv w) (thrall_open b first w)"
proof -
  have t: "menu_inv (v\<lparr>file1 := fil, ph := (ph v)\<lparr>tf := t\<rparr>\<rparr>)" if "menu_inv v" for fil t and v :: "'a fworld"
    using that by (rule menu_inv_ext) simp_all
  assume "menu_inv w"
  then show ?thesis
    unfolding thrall_open_def Let_def
    by (intro post_step post_output) (auto intro!: post_bind [where R = "\<lambda>_. True"] post_step post_output t post_Some
        simp: post_def [of "\<lambda>_. True"])
qed

lemma post_thrall_first:
  assumes "menu_inv w"
  shows "post menu_inv (thrall_first b w)"
proof -
  let ?pf = "ptrfile (ph w)"
  have l: "length ?pf = 26" using assms by (rule menu_invD)
  have "menu_inv (w\<lparr>ph := s\<lparr>ptrfile := take 10 (ptrfile s) @ the m\<rparr>\<rparr>)"
    if n: "philes_nextfile (fsenv b) (Some (drop 10 ?pf)) True (ph w) = Some (r, m, s)" for r m s
  proof -
    obtain y where "m = Some y" "length y = 16" "ptrfile s = ?pf"
      using philes_nextfile_frame [OF n] l by auto
    then show ?thesis using assms l by (intro menu_inv_ph) simp_all
  qed
  then show ?thesis unfolding thrall_first_def Let_def by (auto simp: post_def bind_Some_iff)
qed

lemma philes_mount_frame: "philes_mount e fs s = Some (r, s') \<Longrightarrow> ptrfile s' = ptrfile s"
  by (auto simp: philes_mount_def bind_Some_iff case_prod_beta)

lemma post_thrall_body:
  assumes "menu_inv w" and "strlen (page0 b) \<le> 10"
  shows "post (\<lambda>y. menu_inv (snd y)) (thrall_body b first w)"
proof -
  have serve: "post (\<lambda>y. menu_inv (snd y)) (if r \<noteq> FR_OK then Some (k, v) else do { w \<leftarrow> thrall_serve b v; Some (k, w) })"
    if "menu_inv v" for r :: FRESULT and k and v :: "'a fworld"
    using that assms(2) by (intro post_if post_Some post_step [OF post_thrall_serve]) simp_all
  have go: "post (\<lambda>y. menu_inv (snd y)) (do {
      w \<leftarrow> (if first = 0 then thrall_first b v else Some v);
      (result, first, w) \<leftarrow> thrall_open b k w;
      if result \<noteq> FR_OK then Some (first, w) else do { w \<leftarrow> thrall_serve b w; Some (first, w) } })"
    if "menu_inv v" for k v
    using that
    by (intro post_step post_if post_thrall_first post_Some)
      (auto intro!: post_bind [OF post_thrall_open] serve)
  let ?R = "\<lambda>y. length (ptrfile (snd y)) = 26"
  have "post ?R (philes_mount (fsenv b) (fatfs b) (ph w))"
    using menu_invD [OF assms(1)] by (auto simp: post_def dest: philes_mount_frame)
  moreover have "post ?R (philes_opendir (fsenv b) s)" if "length (ptrfile s) = 26" for s
    using that by (auto simp: post_def dest: philes_opendir_frame)
  ultimately show ?thesis
    unfolding thrall_body_def Let_def
    by (intro post_pairs [where R = ?R] post_if post_Some go) (simp_all add: menu_inv_ph assms(1))
qed

lemma thrall_pass_ok:
  assumes "menu_inv w" and "strlen (page0 b) \<le> 10" and "thrall_pass b first w = Some (first', w')"
  shows "menu_inv w'"
proof -
  have "post (\<lambda>y. menu_inv (snd y)) (thrall_pass b first w)"
    unfolding thrall_pass_def using assms(1,2)
    by (intro post_result post_thrall_body post_pair post_step post_output post_dispatch post_Some) simp_all
  with assms(3) show ?thesis by (auto dest: postD)
qed

lemma thrall_start_ok: "menu_inv w \<Longrightarrow> menu_inv (thrall_start b w)"
  by (simp add: thrall_start_def menu_init_ok)

inductive_cases thrall_passE: "thrall_reaches b w0 first w"

lemma thrall_reaches_inv:
  assumes "thrall_reaches b w0 first w" and "menu_inv w0" and "strlen (page0 b) \<le> 10"
  shows "menu_inv w"
  using assms(1) by (induction rule: thrall_reaches.induct) (use assms(2,3) in \<open>auto intro: thrall_start_ok thrall_pass_ok\<close>)

section \<open>Answers\<close>

lemma final_status_bits:
  "final_status crc r = (if r = fresult_code FR_OK then 3 else if crc \<and> r = fresult_code FR_RW_ERROR then 5 else 1)"
  by (simp add: final_status_def status_defs)

lemma read_answer:
  assumes "request_read b cmd w = Some (r, t, w')"
  shows "\<exists>v. w' = set_status b (final_status True r) v"
    and "t = cmd AND 2"
    and "t \<noteq> 0 \<Longrightarrow> r = fresult_code FR_INVALID_DRIVE"
proof -
  from assms obtain v where "w' = set_status b (final_status True r) v \<and> t = cmd AND 2
      \<and> (t \<noteq> 0 \<longrightarrow> r = fresult_code FR_INVALID_DRIVE)"
    unfolding request_read_def Let_def
    by (auto simp: bind_Some_iff dest!: drive_error_ok [THEN conjunct2] split: if_splits)
  then show "\<exists>v. w' = set_status b (final_status True r) v" "t = cmd AND 2"
    "t \<noteq> 0 \<Longrightarrow> r = fresult_code FR_INVALID_DRIVE" by auto
qed

lemma write_answer:
  assumes "request_write b cmd t1 w = Some (r, t, w')"
  shows "\<exists>v. w' = set_status b (final_status True r) v" and "t = t1"
    and "t1 \<noteq> 0 \<Longrightarrow> r = fresult_code FR_INVALID_DRIVE"
proof -
  from assms obtain v where "w' = set_status b (final_status True r) v \<and> t = t1
      \<and> (t1 \<noteq> 0 \<longrightarrow> r = fresult_code FR_INVALID_DRIVE)"
    unfolding request_write_def Let_def
    by (auto simp: bind_Some_iff dest!: drive_error_ok [THEN conjunct2] split: if_splits)
  then show "\<exists>v. w' = set_status b (final_status True r) v" "t = t1"
    "t1 \<noteq> 0 \<Longrightarrow> r = fresult_code FR_INVALID_DRIVE" by auto
qed

text \<open>A refused write leaves the image file and the sector buffer as they were.\<close>

definition image_same :: "'h fworld \<Rightarrow> 'h fworld \<Rightarrow> bool" where
  "image_same w v \<longleftrightarrow> file1 v = file1 w \<and> buffer v = buffer w \<and> fddimage v = fddimage w"

lemma image_same_set_hw [simp]: "image_same w (set_hw h v) = image_same w v"
  by (simp add: image_same_def set_hw_def)

lemma image_same_wr [simp]: "image_same w (wr b a x v) = image_same w v"
  by (simp add: wr_def)

lemma image_same_set_status [simp]: "image_same w (set_status b x v) = image_same w v"
  by (simp add: set_status_def)

lemma image_same_on [simp]: "image_same w (on_scr f v) = image_same w v" "image_same w (on_mnu g v) = image_same w v"
  by (simp_all add: image_same_def on_scr_def on_mnu_def)

lemma image_same_init [simp]: "image_same w (menu_init b v) = image_same w v"
  by (simp add: menu_init_def Let_def)

lemma post_same:
  "image_same w v \<Longrightarrow> post (image_same w) (io f v)"
  "image_same w v \<Longrightarrow> post (image_same w) (vputs b s v)"
  "image_same w v \<Longrightarrow> post (image_same w) (vputh b x v)"
  "image_same w v \<Longrightarrow> post (image_same w) (vnl b v)"
  "image_same w v \<Longrightarrow> post (image_same w) (vport b a v)"
  "image_same w v \<Longrightarrow> post (image_same w) (menu_busy c st v)"
  by (auto simp: post_def output_defs vport_def rd_def io_def menu_busy_def bind_Some_iff split: prod.splits if_splits)

lemma write_refused_same:
  assumes "request_write b cmd t1 w = Some (r, t, w')" and "t1 \<noteq> 0"
  shows "image_same w w'"
proof -
  have e: "post (\<lambda>(r, v). image_same w v) (drive_error b v)" if "image_same w v" for v
    unfolding drive_error_def using post_same(2) [OF that] by (auto simp: post_def bind_Some_iff)
  have "image_same w (set_status b CPU_STATUS_BUSY w)" by simp (simp add: image_same_def)
  then have "post (\<lambda>(r, t, v). image_same w v) (request_write b cmd t1 w)"
    unfolding request_write_def Let_def using assms(2)
    by (intro post_bind [where R = "image_same w"] post_same) (auto intro!: post_bind [OF e] post_Some)
  with assms(1) show ?thesis by (auto dest: postD)
qed

end
