(* ===== verification/Volume.thy ===== *)
theory Volume
  imports Tff_Base
begin

text \<open>
  The contract between the FAT module and the disk below it, and the contents of a volume as its
  sectors give them. Locale \<open>block_disk\<close> states what a disk promises whatever the medium does,
  \<open>sector_disk\<close> that a successful read returns the medium's sectors, \<open>live_disk\<close> that
  reads of an initialised disk succeed. mmc.c provides them (theories Mmc_Disk and Sd_Card).
\<close>

section \<open>The disk's contract\<close>

locale block_disk =
  fixes e :: "'d fsenv"
  assumes read_length: "d_read e 0 adr sect cnt d = Some (RES_OK, bs, d') \<Longrightarrow> length bs = 512 * unat cnt"
    and read_bounded: "d_read e 0 adr sect cnt d = Some (r, bs, d') \<Longrightarrow> length bs \<le> 512 * unat cnt"
    and read_failed: "d_read e 0 adr sect 1 d = Some (r, bs, d') \<Longrightarrow> r \<noteq> RES_OK \<Longrightarrow> bs = []"
    and read_status: "d_read e 0 adr sect cnt d = Some (r, bs, d') \<Longrightarrow> d_status e 0 d' = d_status e 0 d"
    and write_status: "d_write e 0 adr mem sect cnt d = Some (r, d') \<Longrightarrow> d_status e 0 d' = d_status e 0 d"

text \<open>The bytes of \<open>n\<close> consecutive sectors of a medium.\<close>

definition sectors :: "(DWORD \<Rightarrow> BYTE list) \<Rightarrow> DWORD \<Rightarrow> nat \<Rightarrow> BYTE list" where
  "sectors im sect n = concat (map (\<lambda>i. im (sect + of_nat i)) [0..<n])"

text \<open>
  The medium as the disk's state shows it: a function from sector numbers to sectors of 512
  bytes; a state that gives anything else has no readable medium, and nothing is said of it.
\<close>

definition readable :: "('d \<Rightarrow> DWORD \<Rightarrow> BYTE list) \<Rightarrow> 'd \<Rightarrow> bool" where
  "readable im d \<longleftrightarrow> (\<forall>sect. length (im d sect) = 512)"

locale sector_disk = block_disk e for e :: "'d fsenv" +
  fixes img :: "'d \<Rightarrow> DWORD \<Rightarrow> BYTE list"
  assumes read_img: "readable img d \<Longrightarrow> d_read e 0 adr sect cnt d = Some (RES_OK, bs, d') \<Longrightarrow>
      bs = sectors (img d) sect (unat cnt)"
    and read_keeps: "readable img d \<Longrightarrow> d_read e 0 adr sect cnt d = Some (r, bs, d') \<Longrightarrow> img d' = img d"

locale live_disk = sector_disk e img for e :: "'d fsenv" and img :: "'d \<Rightarrow> DWORD \<Rightarrow> BYTE list" +
  assumes read_live: "readable img d \<Longrightarrow> d_status e 0 d AND STA_NOINIT = 0 \<Longrightarrow> cnt \<noteq> 0 \<Longrightarrow>
    \<exists>bs d'. d_read e 0 adr sect cnt d = Some (RES_OK, bs, d')"

lemma readable_length: "readable im d \<Longrightarrow> length (im d sect) = 512"
  by (simp add: readable_def)

lemma length_sectors: "(\<And>s. length (im s) = 512) \<Longrightarrow> length (sectors im sect n) = 512 * n"
  by (induction n) (simp_all add: sectors_def)

lemma sectors_1 [simp]: "sectors im sect (Suc 0) = im sect"
  by (simp add: sectors_def)

section \<open>The file allocation table\<close>

text \<open>The entry of a cluster, as the FAT specification lays it out on the medium.\<close>

definition fat_byte :: "(DWORD \<Rightarrow> BYTE list) \<Rightarrow> DWORD \<Rightarrow> WORD \<Rightarrow> BYTE" where
  "fat_byte im base i = im (base + ucast (i div 512)) ! unat (i mod 512)"

definition fat_entry :: "(DWORD \<Rightarrow> BYTE list) \<Rightarrow> FATFS \<Rightarrow> CLUST \<Rightarrow> CLUST" where
  "fat_entry im fs c = (
     if fs_type fs = FS_FAT12 then
       let i = c * 3 div 2; w = ucast (fat_byte im (fatbase fs) i) OR push_bit 8 (ucast (fat_byte im (fatbase fs) (i + 1))) in
       if c AND 1 \<noteq> 0 then drop_bit 4 w else w AND 0xFFF
     else LD_WORD (im (fatbase fs + ucast (c div 256))) (unat (c * 2 mod 512)))"

definition clust_sect :: "FATFS \<Rightarrow> CLUST \<Rightarrow> DWORD" where
  "clust_sect fs c = ucast (c - 2) * ucast (sects_clust fs) + database fs"

definition data_clust :: "FATFS \<Rightarrow> CLUST \<Rightarrow> bool" where
  "data_clust fs c \<longleftrightarrow> 2 \<le> c \<and> c < max_clust fs"

section \<open>Files\<close>

text \<open>A chain of clusters, the sectors it holds, and its contents.\<close>

fun chain :: "(CLUST \<Rightarrow> CLUST) \<Rightarrow> (CLUST \<Rightarrow> bool) \<Rightarrow> CLUST list \<Rightarrow> bool" where
  "chain nxt ok [] \<longleftrightarrow> False"
| "chain nxt ok [c] \<longleftrightarrow> ok c"
| "chain nxt ok (c # d # cs) \<longleftrightarrow> ok c \<and> nxt c = d \<and> chain nxt ok (d # cs)"

definition spc :: "FATFS \<Rightarrow> nat" where
  "spc fs = unat (sects_clust fs)"

definition file_sect :: "FATFS \<Rightarrow> CLUST list \<Rightarrow> nat \<Rightarrow> DWORD" where
  "file_sect fs cs k = clust_sect fs (cs ! (k div spc fs)) + of_nat (k mod spc fs)"

definition file_data :: "(DWORD \<Rightarrow> BYTE list) \<Rightarrow> FATFS \<Rightarrow> CLUST list \<Rightarrow> BYTE list" where
  "file_data im fs cs = concat (map (\<lambda>k. im (file_sect fs cs k)) [0..<length cs * spc fs])"

text \<open>
  A volume the module can read: a known FAT type, a cluster of at least one sector, and FAT and
  data sectors with numbers from 1 to the largest of 32 bits (the window takes a request for
  sector 0 as no request).
\<close>

definition vol_ok :: "FATFS \<Rightarrow> bool" where
  "vol_ok fs \<longleftrightarrow> (fs_type fs = FS_FAT12 \<or> fs_type fs = FS_FAT16) \<and> sects_clust fs \<noteq> 0
     \<and> 0 < unat (fatbase fs) \<and> unat (fatbase fs) + 256 \<le> 2 ^ 32
     \<and> 0 < unat (database fs) \<and> unat (database fs) + unat (max_clust fs) * spc fs \<le> 2 ^ 32"

lemma fat_sect_nz:
  assumes "vol_ok fs" and "i < (256 :: WORD)"
  shows "fatbase fs + ucast i \<noteq> 0"
proof -
  have "unat (ucast i :: DWORD) = unat i" by (simp add: unat_ucast_up)
  moreover have "unat i < 256" using assms(2) by (simp add: word_less_nat_alt)
  ultimately have "unat (fatbase fs + ucast i) = unat (fatbase fs) + unat i"
    using assms(1) by (intro unat_plus_less [THEN trans]) (auto simp: vol_ok_def)
  with assms(1) show ?thesis by (auto simp: vol_ok_def)
qed

lemma fat_sect_nz512: "vol_ok fs \<Longrightarrow> fatbase fs + ucast (i div 512 :: WORD) \<noteq> 0"
proof (rule fat_sect_nz)
  have "unat i < 256 * 512" by (rule less_trans [OF WORD_less]) simp
  then show "i div 512 < 256" by (simp add: word_less_nat_alt unat_div less_mult_imp_div_less)
qed

lemma fat_sect_nz256: "vol_ok fs \<Longrightarrow> fatbase fs + ucast (i div 256 :: WORD) \<noteq> 0"
proof (rule fat_sect_nz)
  have "unat i < 256 * 256" by (rule less_le_trans [OF WORD_less]) simp
  then show "i div 256 < 256" by (simp add: word_less_nat_alt unat_div less_mult_imp_div_less)
qed

lemma data_sect_nz:
  assumes "vol_ok fs" and "data_clust fs c" and "j < spc fs"
  shows "clust_sect fs c + of_nat j \<noteq> 0"
proof -
  let ?c = "unat c - 2"
  have c: "unat (c - 2) = ?c" and c2: "?c + 2 < unat (max_clust fs) + 1" "2 \<le> unat c"
    using assms(2) by (auto simp: data_clust_def word_le_nat_alt word_less_nat_alt unat_sub)
  have "?c * spc fs + j < (?c + 1) * spc fs" using assms(3) by simp
  also have "\<dots> \<le> unat (max_clust fs) * spc fs" using c2 by (intro mult_right_mono) auto
  finally have lt: "?c * spc fs + j < unat (max_clust fs) * spc fs" .
  have m: "unat (ucast (c - 2) * ucast (sects_clust fs) :: DWORD) = ?c * spc fs"
  proof -
    have "?c * spc fs < 2 ^ 32" using lt assms(1) by (simp add: vol_ok_def)
    then show ?thesis by (simp add: unat_word_ariths unat_ucast_up c spc_def)
  qed
  have j: "unat (of_nat j :: DWORD) = j"
  proof (rule unat_of_nat_less)
    have "j < 256" using assms(3) BYTE_less unfolding spc_def by (rule less_trans)
    then show "j < 2 ^ LENGTH(32)" by simp
  qed
  have "unat (clust_sect fs c) = ?c * spc fs + unat (database fs)"
    unfolding clust_sect_def using assms(1) lt m by (subst unat_plus_less) (auto simp: vol_ok_def)
  then have "unat (clust_sect fs c + of_nat j) = ?c * spc fs + unat (database fs) + j"
    using assms(1) lt j by (subst unat_plus_less) (auto simp: vol_ok_def)
  with assms(1) show ?thesis by (auto simp: vol_ok_def)
qed

lemma chain_nth:
  "chain nxt ok cs \<Longrightarrow> i < length cs \<Longrightarrow> ok (cs ! i) \<and> (Suc i < length cs \<longrightarrow> nxt (cs ! i) = cs ! Suc i)"
proof (induction nxt ok cs arbitrary: i rule: chain.induct)
  case (3 nxt ok c d cs)
  then show ?case by (cases i) auto
qed auto

lemma length_file_data:
  "(\<And>s. length (im s) = 512) \<Longrightarrow> length (file_data im fs cs) = 512 * (length cs * spc fs)"
  by (simp add: file_data_def length_concat comp_def sum_list_triv)

text \<open>Slices of a concatenation of equal pieces.\<close>

lemma concat_slice:
  assumes len: "\<And>k. length (f k) = (m::nat)" and "a + b \<le> n"
  shows "take (m * b) (drop (m * a) (concat (map f [0..<n]))) = concat (map f [a..<a + b])"
proof -
  have l: "length (concat (map f xs)) = m * length xs" for xs :: "nat list"
    by (simp add: length_concat comp_def len sum_list_triv)
  have "[0..<n] = [0..<a] @ [a..<a + b] @ [a + b..<n]"
    using assms(2) upt_add_eq_append [of 0 a "n - a"] upt_add_eq_append [of a "a + b" "n - a - b"] by simp
  then have "concat (map f [0..<n]) = concat (map f [0..<a]) @ concat (map f [a..<a + b]) @ concat (map f [a + b..<n])"
    by simp
  then show ?thesis by (simp add: l)
qed

lemma file_data_sectors:
  assumes "\<And>s. length (im s) = 512" and "k + n \<le> length cs * spc fs"
  shows "take (512 * n) (drop (512 * k) (file_data im fs cs)) = concat (map (\<lambda>i. im (file_sect fs cs i)) [k..<k + n])"
  unfolding file_data_def by (rule concat_slice) (use assms in auto)

text \<open>Consecutive sectors of one cluster.\<close>

lemma file_sect_add:
  assumes "k mod spc fs + j < spc fs"
  shows "file_sect fs cs (k + j) = file_sect fs cs k + of_nat j"
proof -
  have k: "k + j = (k mod spc fs + j) + spc fs * (k div spc fs)"
    by (metis add.assoc add.commute mult_div_mod_eq)
  have "(k + j) div spc fs = k div spc fs"
    using assms by (subst k, subst div_mult_self2) auto
  moreover have "(k + j) mod spc fs = k mod spc fs + j"
    using assms by (subst k, subst mod_mult_self2) simp
  ultimately show ?thesis by (simp add: file_sect_def)
qed

lemma file_data_run:
  assumes "\<And>s. length (im s) = 512" and "k + n \<le> length cs * spc fs" and "k mod spc fs + n \<le> spc fs"
  shows "take (512 * n) (drop (512 * k) (file_data im fs cs)) = sectors im (file_sect fs cs k) n"
proof -
  have "map (\<lambda>i. im (file_sect fs cs i)) [k..<k + n] = map (\<lambda>j. im (file_sect fs cs (k + j))) [0..<n]"
    by (rule nth_equalityI) auto
  also have "\<dots> = map (\<lambda>j. im (file_sect fs cs k + of_nat j)) [0..<n]"
    using assms(3) by (intro map_cong) (auto simp: file_sect_add)
  finally show ?thesis
    using assms by (simp add: file_data_sectors sectors_def)
qed

end
