(* ===== verification/Tff_Cache.thy ===== *)
theory Tff_Cache
  imports Volume
begin

text \<open>
  The sector window of tff.c as a cache of one sector, and the FAT entries read through it: over
  any disk that keeps the contract of theory Volume, get_cluster returns the entry the medium
  holds, and the window stays a copy of its sector.
\<close>

section \<open>Invariant and frame\<close>

definition cached :: "('d \<Rightarrow> DWORD \<Rightarrow> BYTE list) \<Rightarrow> 'd tff \<Rightarrow> bool" where
  "cached im s \<longleftrightarrow> readable im (disk s) \<and> length (fs__win s) = 512 \<and> winflag (cur_fs s) = 0
     \<and> (winsect (cur_fs s) \<noteq> 0 \<longrightarrow> fs__win s = im (disk s) (winsect (cur_fs s)))"

text \<open>What reading leaves as it was: everything but the window and the state of the disk.\<close>

definition kept :: "('d fsenv) \<Rightarrow> ('d \<Rightarrow> DWORD \<Rightarrow> BYTE list) \<Rightarrow> 'd tff \<Rightarrow> 'd tff \<Rightarrow> bool" where
  "kept e im s s' \<longleftrightarrow> FatFs s' = FatFs s \<and> fsid s' = fsid s
     \<and> (\<forall>p. p \<noteq> FatFs s \<longrightarrow> fsobj s' p = fsobj s p)
     \<and> (cur_fs s')\<lparr>winsect := 0\<rparr> = (cur_fs s)\<lparr>winsect := 0\<rparr>
     \<and> im (disk s') = im (disk s) \<and> d_status e 0 (disk s') = d_status e 0 (disk s)"

lemma cached_length: "cached im s \<Longrightarrow> length (im (disk s) x) = 512"
  by (simp add: cached_def readable_def)

lemma kept_refl [simp]: "kept e im s s"
  by (simp add: kept_def)

lemma kept_trans [trans]: "kept e im s s' \<Longrightarrow> kept e im s' s'' \<Longrightarrow> kept e im s s''"
  by (simp add: kept_def)

text \<open>The geometry of a volume does not depend on the sector in the window.\<close>

definition geometry :: "FATFS \<Rightarrow> FATFS" where
  "geometry fs = fs\<lparr>winsect := 0\<rparr>"

lemma geometry_fields:
  assumes "geometry fs = geometry fs'"
  shows "fs_id fs = fs_id fs'" "fs_type fs = fs_type fs'" "fatbase fs = fatbase fs'"
    "database fs = database fs'" "dirbase fs = dirbase fs'" "max_clust fs = max_clust fs'"
    "sects_clust fs = sects_clust fs'" "n_rootdir fs = n_rootdir fs'" "winflag fs = winflag fs'"
    "sects_fat fs = sects_fat fs'" "n_fats fs = n_fats fs'"
  using assms by (cases fs; cases fs'; simp add: geometry_def)+

lemma geometry_cong:
  assumes "geometry fs = geometry fs'"
  shows "vol_ok fs = vol_ok fs'" "fat_entry im fs = fat_entry im fs'" "clust_sect fs = clust_sect fs'"
    "data_clust fs = data_clust fs'" "spc fs = spc fs'" "file_sect fs = file_sect fs'"
    "file_data im fs = file_data im fs'"
  using geometry_fields [OF assms]
  by (simp_all add: vol_ok_def fat_entry_def clust_sect_def data_clust_def spc_def file_sect_def
      file_data_def fun_eq_iff)

lemma kept_geometry: "kept e im s s' \<Longrightarrow> geometry (cur_fs s') = geometry (cur_fs s)"
  by (simp add: kept_def geometry_def)

lemmas kept_fields = kept_geometry [THEN geometry_fields(1)] kept_geometry [THEN geometry_fields(2)]
  kept_geometry [THEN geometry_fields(3)] kept_geometry [THEN geometry_fields(4)]
  kept_geometry [THEN geometry_fields(5)] kept_geometry [THEN geometry_fields(6)]
  kept_geometry [THEN geometry_fields(7)] kept_geometry [THEN geometry_fields(8)]

lemmas kept_cong = kept_geometry [THEN geometry_cong(1)] kept_geometry [THEN geometry_cong(2)]
  kept_geometry [THEN geometry_cong(3)] kept_geometry [THEN geometry_cong(4)]
  kept_geometry [THEN geometry_cong(5)] kept_geometry [THEN geometry_cong(6)]
  kept_geometry [THEN geometry_cong(7)]

lemma keptD:
  assumes "kept e im s s'"
  shows "FatFs s' = FatFs s" "fsid s' = fsid s" "im (disk s') = im (disk s)"
    "d_status e 0 (disk s') = d_status e 0 (disk s)"
  using assms by (simp_all add: kept_def)

lemma kept_fsobj: "kept e im s s' \<Longrightarrow> fsobj s (FatFs s) = cur_fs s \<and> fsobj s' (FatFs s) = cur_fs s'"
  by (simp add: kept_def cur_fs_def)

section \<open>Lookup through the window\<close>

context sector_disk begin

lemma move_window_cached:
  assumes "cached img s" and "sect \<noteq> 0" and "move_window e sect s = Some (ok, s')"
  shows "cached img s' \<and> kept e img s s' \<and> (ok \<longrightarrow> fs__win s' = img (disk s) sect)"
proof (cases "winsect (cur_fs s) = sect")
  case True
  with assms show ?thesis by (auto simp: move_window_def cached_def)
next
  case False
  with assms obtain r bs d where r: "d_read e 0 (win_adr e) sect 1 (disk s) = Some (r, bs, d)"
      and s': "(ok, s') = (if r \<noteq> RES_OK then (False, s\<lparr>fs__win := store 0 bs (fs__win s), disk := d\<rparr>)
        else (True, upd_fs (\<lambda>f. f\<lparr>winsect := sect\<rparr>) (s\<lparr>fs__win := store 0 bs (fs__win s), disk := d\<rparr>)))"
    by (auto simp: move_window_def cached_def bind_Some_iff Let_def split: if_splits)
  have rd: "readable img (disk s)" using assms(1) by (simp add: cached_def)
  have im: "img d = img (disk s)" by (rule read_keeps [OF rd r])
  then have rd': "readable img d" using rd by (simp add: readable_def)
  note laws = im rd' read_status [OF r]
  show ?thesis
  proof (cases "r = RES_OK")
    case True
    with read_img [OF rd, of _ sect 1] r have "bs = img (disk s) sect" by fastforce
    moreover have "length (fs__win s) = 512" using assms(1) by (simp add: cached_def)
    ultimately show ?thesis
      using s' True laws assms(1) by (simp add: cached_def kept_def store_all readable_length upd_fs_other)
  next
    case False
    with s' read_failed [OF r] laws assms(1) show ?thesis
      by (auto simp: cached_def kept_def)
  qed
qed

lemma get_cluster_cached:
  assumes "cached img s" and "vol_ok (cur_fs s)" and "get_cluster e c s = Some (v, s')"
  shows "cached img s' \<and> kept e img s s'
    \<and> (v \<noteq> 1 \<longrightarrow> data_clust (cur_fs s) c \<and> v = fat_entry (img (disk s)) (cur_fs s) c)"
proof -
  let ?fs = "cur_fs s"
  have ft: "fs_type ?fs = FS_FAT12 \<or> fs_type ?fs = FS_FAT16" using assms(2) by (simp add: vol_ok_def)
  note nz512 = fat_sect_nz512 [OF assms(2)] and nz256 = fat_sect_nz256 [OF assms(2)]
  consider "v = 1" "s' = s" | "data_clust ?fs c" "fs_type ?fs = FS_FAT12"
    | "data_clust ?fs c" "fs_type ?fs = FS_FAT16" "fs_type ?fs \<noteq> FS_FAT12"
    using assms(3) ft by (auto simp: get_cluster_def data_clust_def Let_def split: if_splits)
  then show ?thesis
  proof cases
    case 1
    with assms(1) show ?thesis by simp
  next
    case 2
    let ?i = "c * 3 div 2"
    from 2 assms(3) obtain ok1 s1 where m1: "move_window e (fatbase ?fs + ucast (?i div 512)) s = Some (ok1, s1)"
      by (auto simp: get_cluster_def data_clust_def Let_def bind_Some_iff)
    note g = assms(3) [unfolded get_cluster_def Let_def] and c1 = move_window_cached [OF assms(1) nz512 m1]
    show ?thesis
    proof (cases ok1)
      case True
      with g 2 m1 obtain ok2 where m2: "move_window e (fatbase ?fs + ucast ((?i + 1) div 512)) s1 = Some (ok2, s')"
          and v: "ok2 \<longrightarrow> v = (let wc = (ucast (fs__win s1 ! unat (?i mod 512)) :: WORD)
                   OR push_bit 8 (ucast (fs__win s' ! unat ((?i + 1) mod 512))) in
              if c AND 1 \<noteq> 0 then drop_bit 4 wc else wc AND 0xFFF)" "\<not> ok2 \<longrightarrow> v = 1"
        by (auto simp: data_clust_def bind_Some_iff split: if_splits)
      from c1 have s1: "cached img s1" "kept e img s s1" by simp_all
      note c2 = move_window_cached [OF s1(1) nz512 m2]
      show ?thesis
        using 2 True c1 c2 v kept_trans [of e img s s1 s']
        by (auto simp: fat_entry_def fat_byte_def Let_def keptD(3))
    qed (use g 2 m1 c1 in \<open>auto simp: data_clust_def\<close>)
  next
    case 3
    then obtain ok1 where m1: "move_window e (fatbase ?fs + ucast (c div 256)) s = Some (ok1, s')"
        and v: "v = (if ok1 then LD_WORD (fs__win s') (unat (c * 2 mod 512)) else 1)"
      using assms(3) by (auto simp: get_cluster_def data_clust_def Let_def bind_Some_iff split: if_splits)
    note c1 = move_window_cached [OF assms(1) nz256 m1]
    with 3 v show ?thesis by (auto simp: fat_entry_def)
  qed
qed

end

context live_disk begin

lemma move_window_live:
  assumes "cached img s" and "d_status e 0 (disk s) AND STA_NOINIT = 0"
  shows "\<exists>s'. move_window e sect s = Some (True, s')"
proof -
  obtain bs d where "d_read e 0 (win_adr e) sect 1 (disk s) = Some (RES_OK, bs, d)"
    using read_live [OF _ assms(2), of 1 "win_adr e" sect] assms(1) by (auto simp: cached_def)
  with assms(1) show ?thesis by (auto simp: move_window_def cached_def)
qed

lemma get_cluster_live:
  assumes "cached img s" and "vol_ok (cur_fs s)" and "d_status e 0 (disk s) AND STA_NOINIT = 0"
    and "data_clust (cur_fs s) c"
  shows "\<exists>s'. get_cluster e c s = Some (fat_entry (img (disk s)) (cur_fs s) c, s')"
proof -
  let ?fs = "cur_fs s"
  note nz512 = fat_sect_nz512 [OF assms(2)] and nz256 = fat_sect_nz256 [OF assms(2)]
  show ?thesis
  proof (cases "fs_type ?fs = FS_FAT12")
    case True
    let ?i = "c * 3 div 2"
    obtain s1 where m1: "move_window e (fatbase ?fs + ucast (?i div 512)) s = Some (True, s1)"
      using move_window_live [OF assms(1,3)] by blast
    from move_window_cached [OF assms(1) nz512 m1]
    have s1: "cached img s1" "kept e img s s1" "fs__win s1 = img (disk s) (fatbase ?fs + ucast (?i div 512))"
      by simp_all
    have "d_status e 0 (disk s1) AND STA_NOINIT = 0" using s1(2) assms(3) by (simp add: keptD(4))
    then obtain s2 where m2: "move_window e (fatbase ?fs + ucast ((?i + 1) div 512)) s1 = Some (True, s2)"
      using move_window_live [OF s1(1)] by blast
    from move_window_cached [OF s1(1) nz512 m2]
    have "fs__win s2 = img (disk s) (fatbase ?fs + ucast ((?i + 1) div 512))"
      using s1(2) by (simp add: keptD(3))
    with True m1 m2 s1 assms(4) show ?thesis
      by (simp add: get_cluster_def data_clust_def Let_def fat_entry_def fat_byte_def)
  next
    case False
    with assms(2) have ft: "fs_type ?fs = FS_FAT16" by (simp add: vol_ok_def)
    obtain s1 where m1: "move_window e (fatbase ?fs + ucast (c div 256)) s = Some (True, s1)"
      using move_window_live [OF assms(1,3)] by blast
    with ft False assms(4) move_window_cached [OF assms(1) nz256 m1] show ?thesis
      by (simp add: get_cluster_def data_clust_def Let_def fat_entry_def)
  qed
qed

end

end
