(* ===== verification/Tff_Reading.thy ===== *)
theory Tff_Reading
  imports Tff_File Tff_Cache
begin

text \<open>
  Reading and seeking files: over a disk that keeps the contract of theory Volume, f_read
  delivers the bytes of the file's cluster chain and f_lseek establishes the position that
  f_read relies on. The position invariant \<open>pos_ok\<close> is what the fields \<open>curr_clust\<close>, \<open>curr_sect\<close>
  and \<open>sect_clust\<close> mean between calls.
\<close>

section \<open>The position invariant\<close>

definition located :: "FATFS \<Rightarrow> CLUST list \<Rightarrow> nat \<Rightarrow> FIL \<Rightarrow> bool" where
  "located fs cs k fp \<longleftrightarrow> k < length cs * spc fs \<and> curr_clust fp = cs ! (k div spc fs)
     \<and> curr_sect fp = file_sect fs cs k \<and> unat (sect_clust fp) = spc fs - k mod spc fs"

definition pos_ok :: "FATFS \<Rightarrow> CLUST list \<Rightarrow> FIL \<Rightarrow> bool" where
  "pos_ok fs cs fp \<longleftrightarrow> (if fptr fp = 0 then sect_clust fp = 1
     else located fs cs ((unat (fptr fp) - 1) div 512) fp)"

text \<open>A file object that stands for the chain \<open>cs\<close> on the mounted volume.\<close>

definition file_on :: "(DWORD \<Rightarrow> BYTE list) \<Rightarrow> ptr \<Rightarrow> FATFS \<Rightarrow> CLUST list \<Rightarrow> FIL \<Rightarrow> bool" where
  "file_on im p fs cs fp \<longleftrightarrow> fl_fs fp = p \<and> vol_ok fs \<and> org_clust fp = hd cs
     \<and> chain (fat_entry im fs) (data_clust fs) cs \<and> unat (fsize fp) \<le> 512 * (length cs * spc fs)"

definition same_file :: "FIL \<Rightarrow> FIL \<Rightarrow> bool" where
  "same_file fp fp' \<longleftrightarrow> fl_id fp' = fl_id fp \<and> fl_fs fp' = fl_fs fp \<and> fsize fp' = fsize fp
     \<and> org_clust fp' = org_clust fp \<and> dir_sect fp' = dir_sect fp \<and> dir_ptr fp' = dir_ptr fp"

lemma same_file_refl [simp]: "same_file fp fp"
  by (simp add: same_file_def)

lemma same_file_trans: "same_file a b \<Longrightarrow> same_file b c \<Longrightarrow> same_file a c"
  by (simp add: same_file_def)

lemma file_on_same: "same_file fp fp' \<Longrightarrow> file_on im p fs cs fp' = file_on im p fs cs fp"
  by (simp add: same_file_def file_on_def)

lemma file_on_kept:
  assumes "kept e im s s'"
  shows "file_on (im (disk s')) (FatFs s') (cur_fs s') cs fp
     = file_on (im (disk s)) (FatFs s) (cur_fs s) cs fp"
  by (simp add: file_on_def keptD [OF assms] kept_cong [OF assms])

lemma located_geometry:
  assumes "geometry fs = geometry fs'"
  shows "located fs cs k fp = located fs' cs k fp"
  by (simp add: located_def geometry_cong [OF assms])

lemma located_pos:
  "located fs cs ((unat (fptr fp) - 1) div 512) fp \<Longrightarrow> fptr fp \<noteq> 0 \<Longrightarrow> pos_ok fs cs fp"
  by (simp add: pos_ok_def)

lemma pos_ok_geometry:
  assumes "geometry fs = geometry fs'"
  shows "pos_ok fs cs fp = pos_ok fs' cs fp"
  by (simp add: pos_ok_def located_geometry [OF assms])

lemma file_on_spc: "file_on im p fs cs fp \<Longrightarrow> 0 < spc fs"
  by (auto simp: file_on_def vol_ok_def spc_def word_gt_0_no unat_gt_0)

lemma spc_less: "spc fs < 256"
  by (simp add: spc_def)

lemma file_on_chain:
  assumes "file_on im p fs cs fp" and "i < length cs"
  shows "data_clust fs (cs ! i)" and "Suc i < length cs \<Longrightarrow> fat_entry im fs (cs ! i) = cs ! Suc i"
  using chain_nth [of "fat_entry im fs" "data_clust fs" cs i] assms by (auto simp: file_on_def)

lemma file_on_nonempty: "file_on im p fs cs fp \<Longrightarrow> cs \<noteq> [] \<and> org_clust fp = cs ! 0"
  by (cases cs) (auto simp: file_on_def)

lemma clust2sect_data: "data_clust (cur_fs s) c \<Longrightarrow> clust2sect c s = clust_sect (cur_fs s) c"
proof -
  assume c: "data_clust (cur_fs s) c"
  then have "unat (c - 2) < unat (max_clust (cur_fs s) - 2)"
    by (subst (1 2) unat_sub) (auto simp: data_clust_def word_le_nat_alt word_less_nat_alt)
  then show ?thesis
    by (auto simp: clust2sect_def clust_sect_def Let_def word_le_nat_alt)
qed

lemma file_sect_nz:
  assumes "file_on im p fs cs fp" and "k < length cs * spc fs"
  shows "file_sect fs cs k \<noteq> 0"
proof -
  have "k div spc fs < length cs"
    using assms(2) by (simp add: less_mult_imp_div_less)
  then show ?thesis
    unfolding file_sect_def using file_on_chain(1) [OF assms(1)] assms(1) file_on_spc [OF assms(1)]
    by (intro data_sect_nz) (auto simp: file_on_def)
qed

lemma run_div_mod:
  assumes "k mod S + j < (S::nat)"
  shows "(k + j) div S = k div S" "(k + j) mod S = k mod S + j"
proof -
  have k: "k + j = (k mod S + j) + S * (k div S)"
    by (metis add.assoc add.commute mult_div_mod_eq)
  show "(k + j) div S = k div S"
    using assms by (subst k, subst div_mult_self2) auto
  show "(k + j) mod S = k mod S + j"
    using assms by (subst k, subst mod_mult_self2) simp
qed

text \<open>The next sector of a chain: in the same cluster, or the first of the next one.\<close>

lemma succ_div_mod:
  assumes "0 < (S::nat)"
  shows "k mod S + 1 < S \<Longrightarrow> Suc k div S = k div S \<and> Suc k mod S = k mod S + 1"
    and "\<not> k mod S + 1 < S \<Longrightarrow> Suc k div S = Suc (k div S) \<and> Suc k mod S = 0"
proof -
  show "k mod S + 1 < S \<Longrightarrow> Suc k div S = k div S \<and> Suc k mod S = k mod S + 1"
    using run_div_mod [of k S 1] by simp
  assume "\<not> k mod S + 1 < S"
  then have "Suc (k mod S) = S" using mod_less_divisor [OF assms, of k] by linarith
  then show "Suc k div S = Suc (k div S) \<and> Suc k mod S = 0"
    using assms by (simp add: div_Suc mod_Suc)
qed

section \<open>The step to the next sector\<close>

lemma clust_bad: "c < 2 \<or> max_clust fs \<le> c \<longleftrightarrow> \<not> data_clust fs c"
  by (auto simp: data_clust_def)

context sector_disk begin

lemma next_sector_located:
  assumes c: "cached img s" and f: "file_on (img (disk s)) (FatFs s) (cur_fs s) cs fp"
    and p: "pos_ok (cur_fs s) cs fp" and b: "unat (fptr fp) = 512 * k" and k: "k < length cs * spc (cur_fs s)"
    and n: "next_sector e fp s = Some (ok, fp', s')"
  shows "cached img s' \<and> kept e img s s' \<and> same_file fp fp' \<and> flag fp' = flag fp \<and> fptr fp' = fptr fp
    \<and> (ok \<longrightarrow> located (cur_fs s) cs k fp')"
proof -
  let ?fs = "cur_fs s" and ?S = "spc (cur_fs s)"
  have S: "0 < ?S" using file_on_spc [OF f] .
  have fsp: "fl_fs fp = FatFs s" using f by (simp add: file_on_def)
  have fresh: "ok = data_clust (cur_fs t) c \<and> located ?fs cs k fp' \<and> same_file fp fp'
      \<and> flag fp' = flag fp \<and> fptr fp' = fptr fp"
    if "data_clust (cur_fs s) c" "kept e img s t" "c = cs ! (k div ?S)" "k mod ?S = 0"
      "(ok, fp') = (True, fp\<lparr>sect_clust := sect_clust fp - 1, curr_clust := c,
         sect_clust := sects_clust (cur_fs t), curr_sect := clust2sect c t\<rparr>)" for c t
    using that k by (auto simp: located_def same_file_def file_sect_def clust2sect_data kept_cong [OF that(2)]
        kept_fields [OF that(2)] spc_def)
  show ?thesis
  proof (cases "k = 0")
    case True
    with b p have z: "fptr fp = 0" "sect_clust fp = 1"
      by (simp_all add: pos_ok_def unat_eq_0)
    have d: "data_clust ?fs (org_clust fp)"
      using file_on_chain(1) [OF f, of 0] file_on_nonempty [OF f] by auto
    with n z fsp have s': "s' = s" and "(ok, fp') = (True, fp\<lparr>sect_clust := sect_clust fp - 1,
        curr_clust := org_clust fp, sect_clust := sects_clust ?fs, curr_sect := clust2sect (org_clust fp) s\<rparr>)"
      by (auto simp: next_sector_def Let_def clust_bad simp flip: cur_fs_def)
    with fresh [OF d kept_refl] True file_on_nonempty [OF f] c show ?thesis by auto
  next
    case False
    define j where "j = k - 1"
    have kj: "k = Suc j" using False by (simp add: j_def)
    have z: "fptr fp \<noteq> 0" using b False by (auto simp: unat_eq_0 [symmetric])
    have "(unat (fptr fp) - 1) div 512 = j" using b kj by simp
    with p z have l: "located ?fs cs j fp" by (simp add: pos_ok_def)
    then have sc: "unat (sect_clust fp) = ?S - j mod ?S" and "j mod ?S < ?S" using S by (auto simp: located_def)
    then have sc0: "sect_clust fp \<noteq> 0" by (auto simp: unat_eq_0 [symmetric])
    then have sc1: "unat (sect_clust fp - 1) = ?S - j mod ?S - 1"
      using sc by (simp add: unat_minus_one)
    show ?thesis
    proof (cases "j mod ?S + 1 < ?S")
      case True
      then have nz: "sect_clust fp - 1 \<noteq> 0" using sc1 by (auto simp: unat_eq_0 [symmetric])
      with n have r: "ok" "s' = s" "fp' = fp\<lparr>sect_clust := sect_clust fp - 1, curr_sect := curr_sect fp + 1\<rparr>"
        by (auto simp: next_sector_def Let_def)
      have "located ?fs cs k fp'"
        using r l k kj sc1 succ_div_mod(1) [OF S True] file_sect_add [of j ?fs 1 cs] True
        by (auto simp: located_def)
      with r c show ?thesis by (simp add: same_file_def)
    next
      case last: False
      then have "?S - j mod ?S - 1 = 0" by linarith
      then have zz: "sect_clust fp - 1 = 0" using sc1 by (simp add: unat_eq_0)
      note dm = succ_div_mod(2) [OF S last]
      have "k div ?S < length cs" using k by (simp add: less_mult_imp_div_less)
      then have i: "Suc (j div ?S) < length cs" using dm kj by simp
      then have nx: "fat_entry (img (disk s)) ?fs (curr_clust fp) = cs ! (k div ?S)"
          and d: "data_clust ?fs (cs ! (k div ?S))"
        using l file_on_chain [OF f, of "j div ?S"] file_on_chain(1) [OF f, of "Suc (j div ?S)"] dm kj
        by (auto simp: located_def)
      from n zz z obtain v where g: "get_cluster e (curr_clust fp) s = Some (v, s')"
        and e: "if \<not> data_clust (fsobj s' (fl_fs fp)) v then \<not> ok \<and> fp' = fp\<lparr>sect_clust := sect_clust fp - 1\<rparr>
            else (ok, fp') = (True, fp\<lparr>sect_clust := sect_clust fp - 1, curr_clust := v,
              sect_clust := sects_clust (fsobj s' (fl_fs fp)), curr_sect := clust2sect v s'\<rparr>)"
        unfolding next_sector_def Let_def by (auto simp: clust_bad bind_Some_iff split: if_splits)
      from f have "vol_ok ?fs" by (simp add: file_on_def)
      note gc = get_cluster_cached [OF c this g]
      have cur: "fsobj s' (fl_fs fp) = cur_fs s'" using gc fsp kept_fsobj by metis
      show ?thesis
      proof (cases "data_clust (cur_fs s') v")
        case False
        with e cur gc show ?thesis by (simp add: same_file_def)
      next
        case True
        then have "v \<noteq> 1" by (auto simp: data_clust_def word_le_nat_alt)
        with gc nx have v: "v = cs ! (k div ?S)" by simp
        from e cur True have o: "ok" "fp' = fp\<lparr>sect_clust := sect_clust fp - 1, curr_clust := v,
              sect_clust := sects_clust (cur_fs s'), curr_sect := clust2sect v s'\<rparr>" by auto
        have "kept e img s s'" using gc by simp
        with fresh [of v s'] v d dm kj o gc show ?thesis by simp
      qed
    qed
  qed
qed

end

section \<open>One pass of the read loop\<close>

text \<open>
  The body of the loop of f_read_or_wr in read mode, with the count of bytes it delivers.
\<close>

definition read_pass ::
  "'d fsenv \<Rightarrow> FIL \<Rightarrow> ptr \<Rightarrow> BYTE list \<Rightarrow> WORD \<Rightarrow> WORD \<Rightarrow> 'd tff \<Rightarrow> (bool \<times> FIL \<times> BYTE list \<times> WORD \<times> 'd tff) option" where
  "read_pass e fp adr buff br btr s = do {
     (ok, fp, s) \<leftarrow> (if fptr fp mod 512 = 0 then next_sector e fp s else Some (True, fp, s));
     if \<not> ok then Some (False, fp, buff, 0, s)
     else if fptr fp mod 512 = 0 \<and> btr div 512 \<noteq> 0 then
       let cc = min (btr div 512) (ucast (sect_clust fp)) in do {
         (ok, buff, s) \<leftarrow> transfer e False (adr + br) (curr_sect fp) cc (unat br) buff s;
         if \<not> ok then Some (False, fp, buff, 0, s)
         else Some (True, fp\<lparr>sect_clust := sect_clust fp - ucast (cc - 1), curr_sect := curr_sect fp + ucast (cc - 1),
                fptr := fptr fp + ucast (cc * 512)\<rparr>, buff, cc * 512, s) }
     else do {
       (ok, s) \<leftarrow> move_window e (curr_sect fp) s;
       if \<not> ok then Some (False, fp, buff, 0, s)
       else let o512 = fptr fp mod 512; rcnt = min (512 - ucast o512) btr in
         Some (True, fp\<lparr>fptr := fptr fp + ucast rcnt\<rparr>,
           store (unat br) (take (unat rcnt) (drop (unat o512) (fs__win s))) buff, rcnt, s) } }"

lemma rw_loop_read_pass:
  "rw_loop e False fp adr buff br btr s = (if btr = 0 then Some (FR_OK, fp, buff, br, s)
     else do {
       (ok, fp', buff', n, s') \<leftarrow> read_pass e fp adr buff br btr s;
       if \<not> ok then Some (FR_RW_ERROR, file_error fp', buff', br, s')
       else rw_loop e False fp' adr buff' (br + n) (btr - n) s' })"
proof (cases "btr = 0")
  case True
  then show ?thesis by (subst rw_loop.simps) simp
next
  case False
  let ?n = "if fptr fp mod 512 = 0 then next_sector e fp s else Some (True, fp, s)"
  show ?thesis
  proof (cases ?n)
    case None
    with False show ?thesis by (subst rw_loop.simps) (simp add: read_pass_def)
  next
    case (Some r)
    obtain ok f t where r: "r = (ok, f, t)" by (cases r)
    consider "\<not> ok" | "ok" "fptr f mod 512 = 0 \<and> btr div 512 \<noteq> 0" | "ok" "\<not> (fptr f mod 512 = 0 \<and> btr div 512 \<noteq> 0)"
      by blast
    then show ?thesis
    proof cases
      case 1
      with False Some r show ?thesis by (subst rw_loop.simps) (simp add: read_pass_def)
    next
      case 2
      then show ?thesis using False Some r
        by (subst rw_loop.simps)
          (simp add: read_pass_def Let_def split: Option.bind_split prod.split)
    next
      case 3
      then show ?thesis using False Some r
        by (subst rw_loop.simps)
          (auto simp add: read_pass_def Let_def split: Option.bind_split prod.split)
    qed
  qed
qed

text \<open>
  What a pass achieves: it delivers the \<open>unat n\<close> bytes of the file at its position, and leaves the
  position behind them.
\<close>

definition pass_ok ::
  "BYTE list \<Rightarrow> FATFS \<Rightarrow> CLUST list \<Rightarrow> FIL \<Rightarrow> BYTE list \<Rightarrow> nat \<Rightarrow> WORD \<Rightarrow> FIL \<Rightarrow> BYTE list \<Rightarrow> WORD \<Rightarrow> bool" where
  "pass_ok content fs cs fp buff i btr fp' buff' n \<longleftrightarrow> 0 < unat n \<and> unat n \<le> unat btr
     \<and> buff' = store i (take (unat n) (drop (unat (fptr fp)) content)) buff
     \<and> unat (fptr fp') = unat (fptr fp) + unat n \<and> flag fp' = flag fp \<and> pos_ok fs cs fp'"

lemma unat_mod_512: "unat (x mod 512 :: DWORD) = unat x mod 512"
  by (simp add: unat_mod)

lemma boundary: "x mod 512 = (0 :: DWORD) \<Longrightarrow> unat x = 512 * (unat x div 512)"
proof -
  assume "x mod 512 = 0"
  then have "unat x mod 512 = 0" by (metis unat_mod_512 unsigned_0)
  then show ?thesis by (metis add.right_neutral mult_div_mod_eq)
qed

lemma fptr_advance:
  assumes "unat (fptr fp) + unat n \<le> unat (fsize fp)"
  shows "unat (fptr fp + ucast (n :: WORD)) = unat (fptr fp) + unat n"
proof -
  have "unat (fptr fp) + unat n < 2 ^ 32"
    using assms DWORD_less [of "fsize fp"] by (simp del: DWORD_less)
  then show ?thesis by (simp add: unat_plus_less unat_ucast_up)
qed

lemma take_within_sector:
  assumes "n + r \<le> 512"
  shows "take n (drop r (take 512 (drop (512 * k) xs))) = take n (drop (512 * k + r) xs)"
  using assms by (simp add: drop_take min_def add.commute)

lemma div_advance: "0 < n \<Longrightarrow> P mod 512 + n \<le> 512 \<Longrightarrow> (P + n - 1) div 512 = P div (512::nat)"
  using mult_div_mod_eq [of 512 P] by (intro div_nat_eqI, unfold mult_Suc_right) linarith+

text \<open>The copy from the window.\<close>

lemma pass_window:
  assumes im: "\<And>x. length (im x) = 512" and l: "located fs cs (unat (fptr fp) div 512) fp"
    and w: "win = im (curr_sect fp)" and btr: "btr \<noteq> 0"
    and sz: "unat (fptr fp) + unat btr \<le> unat (fsize fp)"
    and n: "n = min (512 - ucast (fptr fp mod 512)) (btr :: WORD)"
  shows "pass_ok (file_data im fs cs) fs cs fp buff i btr (fp\<lparr>fptr := fptr fp + ucast n\<rparr>)
    (store i (take (unat n) (drop (unat (fptr fp mod 512)) win)) buff) n"
proof -
  let ?P = "unat (fptr fp)"
  let ?k = "?P div 512" and ?o = "?P mod 512"
  have o: "unat (ucast (fptr fp mod 512) :: WORD) = ?o"
  proof -
    have "?o < 65536" by (rule order_less_trans [of _ 512]) simp_all
    then show ?thesis by (simp add: unsigned_ucast_eq take_bit_nat_eq_self_iff unat_mod_512)
  qed
  have "unat (512 - ucast (fptr fp mod 512) :: WORD) = 512 - ?o"
    by (subst unat_sub) (simp_all add: o word_le_nat_alt less_imp_le)
  then have nn: "unat n = min (512 - ?o) (unat btr)"
    by (simp add: n min_def word_le_nat_alt)
  have n0: "0 < unat n" "unat n \<le> unat btr" "?o + unat n \<le> 512"
    using btr by (auto simp: nn unat_gt_0)
  have adv: "unat (fptr fp + ucast n) = ?P + unat n"
    using fptr_advance [of fp n] sz n0(2) by linarith
  from l have k: "?k < length cs * spc fs" and cs: "curr_sect fp = file_sect fs cs ?k"
    by (simp_all add: located_def)
  have S: "?k mod spc fs + 1 \<le> spc fs"
    using k by (metis One_nat_def Suc_eq_plus1 Suc_leI mod_less_divisor mult_0_right neq0_conv not_less_zero)
  have "take (512 * 1) (drop (512 * ?k) (file_data im fs cs)) = sectors im (file_sect fs cs ?k) 1"
    by (rule file_data_run) (use im k S in auto)
  then have win: "win = take 512 (drop (512 * ?k) (file_data im fs cs))" using w cs by simp
  have "take (unat n) (drop ?o win) = take (unat n) (drop (512 * ?k + ?o) (file_data im fs cs))"
    unfolding win by (rule take_within_sector) (use n0(3) in linarith)
  then have d: "take (unat n) (drop (unat (fptr fp mod 512)) win) = take (unat n) (drop ?P (file_data im fs cs))"
    by (simp add: unat_mod_512)
  have "(?P + unat n - 1) div 512 = ?k"
    by (rule div_advance) (use n0 in auto)
  then have "pos_ok fs cs (fp\<lparr>fptr := fptr fp + ucast n\<rparr>)"
    using l adv n0(1) by (auto simp: pos_ok_def located_def unat_eq_0 [symmetric])
  with n0 adv d show ?thesis by (simp add: pass_ok_def)
qed

text \<open>The transfer of whole sectors.\<close>

lemma pass_sectors:
  assumes im: "\<And>x. length (im x) = 512" and l: "located fs cs k fp" and P: "unat (fptr fp) = 512 * k"
    and tot: "unat (fsize fp) \<le> 512 * (length cs * spc fs)"
    and sz: "unat (fptr fp) + unat btr \<le> unat (fsize fp)" and whole: "btr div 512 \<noteq> (0 :: WORD)"
    and cc: "cc = min (btr div 512) (ucast (sect_clust fp))"
  shows "unat (ucast cc :: BYTE) = unat cc" and "cc \<noteq> 0"
    and "pass_ok (file_data im fs cs) fs cs fp buff i btr
      (fp\<lparr>sect_clust := sect_clust fp - ucast (cc - 1), curr_sect := curr_sect fp + ucast (cc - 1),
         fptr := fptr fp + ucast (cc * 512)\<rparr>)
      (store i (sectors im (curr_sect fp) (unat cc)) buff) (cc * 512)"
proof -
  let ?S = "spc fs" and ?c = "unat cc"
  have sc: "unat (sect_clust fp) = ?S - k mod ?S" and k: "k < length cs * ?S"
    using l by (simp_all add: located_def)
  have S: "k mod ?S < ?S" using k by (metis mod_less_divisor mult_0_right neq0_conv not_less_zero)
  have c: "?c = min (unat btr div 512) (?S - k mod ?S)"
    using sc by (simp add: cc min_def word_le_nat_alt unat_div unat_ucast_up)
  have w0: "unat btr div 512 \<noteq> 0" using whole by (simp add: unat_eq_0 [symmetric] unat_div)
  with c S have c0: "0 < ?c" by simp
  then show "cc \<noteq> 0" by auto
  have c256: "?c < 256" using c spc_less [of fs] by linarith
  then show cb: "unat (ucast cc :: BYTE) = ?c"
    by (simp add: unsigned_ucast_eq take_bit_nat_eq_self_iff)
  have cbtr: "?c * 512 \<le> unat btr" using c by (metis div_times_less_eq_dividend le_trans min.cobounded1 mult_le_mono1)
  then have n: "unat (cc * 512) = ?c * 512"
    using order_le_less_trans [OF cbtr WORD_less] by (simp add: unat_word_ariths)
  have adv: "unat (fptr fp + ucast (cc * 512)) = 512 * k + ?c * 512"
    using fptr_advance [of fp "cc * 512"] sz n cbtr P by linarith
  have c1: "unat (cc - 1) = ?c - 1" using c0 by (simp add: unat_minus_one unat_gt_0)
  have u1: "unat (ucast (cc - 1) :: BYTE) = ?c - 1"
    using c256 c1 by (simp add: unsigned_ucast_eq take_bit_nat_eq_self_iff)
  have run: "k mod ?S + (?c - 1) < ?S" using c c0 S by linarith
  note dm = run_div_mod [OF run]
  have kc: "k + ?c \<le> length cs * ?S" using sz tot cbtr P by linarith
  have data: "sectors im (curr_sect fp) ?c = take (?c * 512) (drop (512 * k) (file_data im fs cs))"
    using l run c0 kc file_data_run [of im k ?c cs fs] im by (simp add: located_def mult.commute)
  have sct: "unat (sect_clust fp - ucast (cc - 1)) = ?S - (k + (?c - 1)) mod ?S"
    using run sc u1 dm by (subst unat_sub) (simp_all add: word_le_nat_alt)
  have "(ucast (cc - 1) :: DWORD) = of_nat (?c - 1)"
    using c1 by (metis of_nat_unat)
  then have sect: "curr_sect fp + ucast (cc - 1) = file_sect fs cs (k + (?c - 1))"
    using l file_sect_add [OF run] by (simp add: located_def)
  have idx: "(512 * k + ?c * 512 - 1) div 512 = k + (?c - 1)"
    using c0 by (cases ?c) simp_all
  have "located fs cs (k + (?c - 1)) (fp\<lparr>sect_clust := sect_clust fp - ucast (cc - 1),
      curr_sect := curr_sect fp + ucast (cc - 1), fptr := fptr fp + ucast (cc * 512)\<rparr>)"
    using l sct sect dm kc c0 by (auto simp: located_def)
  moreover have "fptr fp + ucast (cc * 512) \<noteq> 0" using adv c0 by (auto simp: unat_eq_0 [symmetric])
  ultimately show "pass_ok (file_data im fs cs) fs cs fp buff i btr
      (fp\<lparr>sect_clust := sect_clust fp - ucast (cc - 1), curr_sect := curr_sect fp + ucast (cc - 1),
         fptr := fptr fp + ucast (cc * 512)\<rparr>)
      (store i (sectors im (curr_sect fp) ?c) buff) (cc * 512)"
    using n c0 cbtr adv data P idx by (simp add: pass_ok_def pos_ok_def)
qed

section \<open>The loop\<close>

text \<open>The situation of the loop: an open file at a valid position, \<open>btr\<close> bytes still to deliver.\<close>

definition reading :: "('d \<Rightarrow> DWORD \<Rightarrow> BYTE list) \<Rightarrow> CLUST list \<Rightarrow> FIL \<Rightarrow> WORD \<Rightarrow> 'd tff \<Rightarrow> bool" where
  "reading im cs fp btr s \<longleftrightarrow> cached im s \<and> file_on (im (disk s)) (FatFs s) (cur_fs s) cs fp
     \<and> pos_ok (cur_fs s) cs fp \<and> unat (fptr fp) + unat btr \<le> unat (fsize fp)"

lemma reading_next:
  assumes "reading im cs fp btr s" and "cached im s'" and k: "kept e im s s'" and "same_file fp fp'"
    and "pass_ok (file_data (im (disk s)) (cur_fs s) cs) (cur_fs s) cs fp buff i btr fp' buff' n"
  shows "reading im cs fp' (btr - n) s'"
proof -
  have "pos_ok (cur_fs s') cs fp'"
    using assms(5) pos_ok_geometry [OF kept_geometry [OF k]] by (simp add: pass_ok_def)
  moreover have "unat (btr - n) = unat btr - unat n"
    using assms(5) by (simp add: pass_ok_def unat_sub word_le_nat_alt)
  ultimately show ?thesis
    using assms by (simp add: reading_def file_on_kept [OF k] file_on_same [OF assms(4)] pass_ok_def same_file_def)
qed

context sector_disk begin

lemma read_pass_ok:
  assumes r: "reading img cs fp btr s" and btr: "btr \<noteq> 0"
    and p: "read_pass e fp adr buff br btr s = Some (ok, fp', buff', n, s')"
  shows "cached img s' \<and> kept e img s s' \<and> same_file fp fp' \<and> flag fp' = flag fp
    \<and> (ok \<longrightarrow> pass_ok (file_data (img (disk s)) (cur_fs s) cs) (cur_fs s) cs fp buff (unat br) btr fp' buff' n)"
proof -
  let ?fs = "cur_fs s" and ?P = "unat (fptr fp)"
  let ?S = "spc ?fs" and ?data = "file_data (img (disk s)) (cur_fs s) cs"
  have c: "cached img s" and f: "file_on (img (disk s)) (FatFs s) ?fs cs fp" and po: "pos_ok ?fs cs fp"
    and sz: "?P + unat btr \<le> unat (fsize fp)"
    using r by (simp_all add: reading_def)
  have tot: "unat (fsize fp) \<le> 512 * (length cs * ?S)" using f by (simp add: file_on_def)
  have b0: "0 < unat btr" using btr by (simp add: unat_gt_0)
  have k: "?P div 512 < length cs * ?S" using sz tot b0 by linarith
  obtain ok1 fp1 s1 where n1: "(if fptr fp mod 512 = 0 then next_sector e fp s else Some (True, fp, s)) = Some (ok1, fp1, s1)"
    using p by (auto simp: read_pass_def bind_Some_iff)
  have st: "cached img s1 \<and> kept e img s s1 \<and> same_file fp fp1 \<and> flag fp1 = flag fp \<and> fptr fp1 = fptr fp
      \<and> (ok1 \<longrightarrow> located ?fs cs (?P div 512) fp1)"
  proof (cases "fptr fp mod 512 = 0")
    case True
    note P = boundary [OF True]
    from True n1 have "next_sector e fp s = Some (ok1, fp1, s1)" by simp
    from next_sector_located [OF c f po P k this] show ?thesis by blast
  next
    case False
    then have m: "?P mod 512 \<noteq> 0" by (simp add: unat_eq_0 flip: unat_mod_512)
    then have "fptr fp \<noteq> 0" "(?P - 1) div 512 = ?P div 512"
      using div_advance [of "?P mod 512" "512 * (?P div 512)"] mod_less_divisor [of 512 ?P] by auto
    with False n1 po c show ?thesis by (auto simp: pos_ok_def)
  qed
  show ?thesis
  proof (cases ok1)
    case False
    with n1 p st show ?thesis by (auto simp: read_pass_def)
  next
    case ok1: True
    with st have l: "located ?fs cs (?P div 512) fp1" and s1: "cached img s1" "kept e img s s1"
      and sf: "same_file fp fp1" "flag fp1 = flag fp" "fptr fp1 = fptr fp" "fsize fp1 = fsize fp"
      by (simp_all add: same_file_def)
    have im1: "img (disk s1) = img (disk s)" using s1(2) by (simp add: keptD)
    have rd1: "readable img (disk s1)" using s1(1) by (simp add: cached_def)
    have pass: "pass_ok ?data ?fs cs fp b i btr g b' m = pass_ok ?data ?fs cs fp1 b i btr g b' m" for b i g b' m
      using sf by (simp add: pass_ok_def)
    show ?thesis
    proof (cases "fptr fp mod 512 = 0 \<and> btr div 512 \<noteq> 0")
      case True
      have P: "unat (fptr fp1) = 512 * (?P div 512)"
        using boundary [of "fptr fp"] True sf(3) by metis
      define cc where "cc = min (btr div 512) (ucast (sect_clust fp1))"
      note ps = pass_sectors [OF cached_length [OF c] l P, of btr cc, unfolded sf(4), OF tot _ _ cc_def]
      from p n1 ok1 True sf obtain rr bs d
        where rd: "d_read e 0 (adr + br) (curr_sect fp1) (ucast cc) (disk s1) = Some (rr, bs, d)"
          and s': "s' = s1\<lparr>disk := d\<rparr>" and ok: "ok = (rr = RES_OK)"
          and okd: "if ok then fp' = fp1\<lparr>sect_clust := sect_clust fp1 - ucast (cc - 1),
              curr_sect := curr_sect fp1 + ucast (cc - 1), fptr := fptr fp1 + ucast (cc * 512)\<rparr>
            \<and> buff' = store (unat br) bs buff \<and> n = cc * 512 else fp' = fp1"
        by (auto simp: read_pass_def transfer_def Let_def cc_def bind_Some_iff split: if_splits)
      have k': "cached img s' \<and> kept e img s s'"
        using s' s1 read_keeps [OF rd1 rd] read_status [OF rd]
        by (auto simp: cached_def kept_def cur_fs_def readable_def)
      show ?thesis
      proof (cases ok)
        case True
        with ok rd have "bs = sectors (img (disk s)) (curr_sect fp1) (unat (ucast cc :: BYTE))"
          using read_img [OF rd1] im1 by fastforce
        with ps(1,3) sz sf have "pass_ok ?data ?fs cs fp1 buff (unat br) btr fp' buff' n"
          using okd True \<open>fptr fp mod 512 = 0 \<and> btr div 512 \<noteq> 0\<close> by simp
        with k' okd True sf pass show ?thesis by (simp add: same_file_def)
      next
        case False
        with k' okd sf show ?thesis by simp
      qed
    next
      case frac: False
      from p n1 ok1 frac sf obtain ok2 where m: "move_window e (curr_sect fp1) s1 = Some (ok2, s')"
        and ok: "ok = ok2"
        and okd: "if ok then n = min (512 - ucast (fptr fp1 mod 512)) btr
            \<and> fp' = fp1\<lparr>fptr := fptr fp1 + ucast n\<rparr>
            \<and> buff' = store (unat br) (take (unat n) (drop (unat (fptr fp1 mod 512)) (fs__win s'))) buff
          else fp' = fp1"
        by (auto simp: read_pass_def Let_def bind_Some_iff split: if_splits del: mod_0_imp_dvd)
      have "curr_sect fp1 \<noteq> 0"
        using l file_sect_nz [OF f k] by (simp add: located_def)
      note mw = move_window_cached [OF s1(1) this m]
      then have k': "cached img s' \<and> kept e img s s'" using kept_trans s1(2) by blast
      show ?thesis
      proof (cases ok)
        case True
        then have "fs__win s' = img (disk s) (curr_sect fp1)" using mw ok im1 by simp
        from pass_window [of "img (disk s)" ?fs cs fp1, OF cached_length [OF c] _ this btr] l sz sf okd True
        have "pass_ok ?data ?fs cs fp1 buff (unat br) btr fp' buff' n" by simp
        with k' okd True sf pass show ?thesis by (simp add: same_file_def)
      next
        case False
        with k' okd sf show ?thesis by simp
      qed
    qed
  qed
qed

text \<open>
  The whole loop, by induction on the bytes still to deliver. An error leaves the invariant of the
  window and marks the file object.
\<close>

definition read_result ::
  "BYTE list \<Rightarrow> FATFS \<Rightarrow> CLUST list \<Rightarrow> FIL \<Rightarrow> BYTE list \<Rightarrow> WORD \<Rightarrow> WORD \<Rightarrow> FRESULT \<Rightarrow> FIL \<Rightarrow> BYTE list \<Rightarrow> WORD \<Rightarrow> bool" where
  "read_result content fs cs fp buff br btr r fp' buff' br' \<longleftrightarrow>
     r = FR_OK \<and> br' = br + btr \<and> flag fp' = flag fp
       \<and> buff' = store (unat br) (take (unat btr) (drop (unat (fptr fp)) content)) buff
       \<and> unat (fptr fp') = unat (fptr fp) + unat btr \<and> pos_ok fs cs fp'
     \<or> r = FR_RW_ERROR \<and> flag fp' = flag fp OR FA__ERROR"

lemma rw_loop_reads:
  assumes "reading img cs fp btr s" and "unat br + unat btr \<le> length buff" "unat br + unat btr < 65536"
    and "rw_loop e False fp adr buff br btr s = Some (r, fp', buff', br', s')"
  shows "cached img s' \<and> kept e img s s' \<and> same_file fp fp'
    \<and> read_result (file_data (img (disk s)) (cur_fs s) cs) (cur_fs s) cs fp buff br btr r fp' buff' br'"
  using assms
proof (induction "unat btr" arbitrary: fp buff br btr s rule: less_induct)
  case less
  let ?c = "file_data (img (disk s)) (cur_fs s) cs"
  show ?case
  proof (cases "btr = 0")
    case True
    with less.prems show ?thesis
      by (simp add: rw_loop_read_pass reading_def read_result_def)
  next
    case False
    with less.prems(4) obtain ok fp1 buff1 n s1
      where p: "read_pass e fp adr buff br btr s = Some (ok, fp1, buff1, n, s1)"
        and rest: "if ok then rw_loop e False fp1 adr buff1 (br + n) (btr - n) s1 = Some (r, fp', buff', br', s')
          else (r, fp', buff', br', s') = (FR_RW_ERROR, file_error fp1, buff1, br, s1)"
      by (subst (asm) rw_loop_read_pass) (auto simp: bind_Some_iff split: if_splits)
    note po = read_pass_ok [OF less.prems(1) False p]
    show ?thesis
    proof (cases ok)
      case no: False
      with po rest show ?thesis by (auto simp: read_result_def file_error_def same_file_def)
    next
      case True
      with po have k: "kept e img s s1" and sf: "same_file fp fp1" "flag fp1 = flag fp" and c1: "cached img s1"
        and pass: "pass_ok ?c (cur_fs s) cs fp buff (unat br) btr fp1 buff1 n" by simp_all
      have r1: "reading img cs fp1 (btr - n) s1" by (rule reading_next [OF less.prems(1) c1 k sf(1) pass])
      have n: "0 < unat n" "unat n \<le> unat btr" "unat (fptr fp1) = unat (fptr fp) + unat n"
        "buff1 = store (unat br) (take (unat n) (drop (unat (fptr fp)) ?c)) buff"
        using pass by (simp_all add: pass_ok_def)
      have u: "unat (btr - n) = unat btr - unat n" using n by (simp add: unat_sub word_le_nat_alt)
      have v: "unat (br + n) = unat br + unat n" using n less.prems(3) by (simp add: unat_plus_less)
      have lc: "unat (fptr fp) + unat btr \<le> length ?c"
      proof -
        have "unat (fptr fp) + unat btr \<le> 512 * (length cs * spc (cur_fs s))"
          using less.prems(1) by (simp add: reading_def file_on_def)
        also have "\<dots> = length ?c" by (rule length_file_data [symmetric])
          (use less.prems(1) in \<open>simp add: reading_def cached_length\<close>)
        finally show ?thesis .
      qed
      have l1: "length buff1 = length buff"
        using n lc less.prems(2) by (simp add: length_store)
      from rest True have "rw_loop e False fp1 adr buff1 (br + n) (btr - n) s1 = Some (r, fp', buff', br', s')" by simp
      from less.hyps [OF _ r1 _ _ this] n u v l1 less.prems
      have ih: "cached img s' \<and> kept e img s1 s' \<and> same_file fp1 fp'
          \<and> read_result (file_data (img (disk s1)) (cur_fs s1) cs) (cur_fs s1) cs fp1 buff1 (br + n) (btr - n) r fp' buff' br'"
        by simp
      have cong: "file_data (img (disk s1)) (cur_fs s1) cs = ?c" "pos_ok (cur_fs s1) = pos_ok (cur_fs s)"
        using k pos_ok_geometry [OF kept_geometry [OF k]] by (simp_all add: kept_cong [OF k] keptD [OF k] fun_eq_iff)
      have "take (unat n) (drop (unat (fptr fp)) ?c) @ take (unat btr - unat n) (drop (unat (fptr fp) + unat n) ?c)
          = take (unat btr) (drop (unat (fptr fp)) ?c)"
        using n(2) take_add [of "unat n" "unat btr - unat n" "drop (unat (fptr fp)) ?c"] by (simp add: add.commute)
      then have "store (unat br + unat n) (take (unat btr - unat n) (drop (unat (fptr fp) + unat n) ?c)) buff1
          = store (unat br) (take (unat btr) (drop (unat (fptr fp)) ?c)) buff"
        using store_store_adjacent [of "unat br" "take (unat n) (drop (unat (fptr fp)) ?c)"
            "take (unat btr - unat n) (drop (unat (fptr fp) + unat n) ?c)" buff] n lc less.prems(2)
        by simp
      then have "read_result ?c (cur_fs s) cs fp buff br btr r fp' buff' br'"
        using ih u v n sf by (auto simp: read_result_def cong)
      with ih k sf show ?thesis using kept_trans same_file_trans by blast
    qed
  qed
qed

end

section \<open>Reading succeeds on a disk that can be read\<close>

definition ready_disk :: "'d fsenv \<Rightarrow> 'd tff \<Rightarrow> bool" where
  "ready_disk e s \<longleftrightarrow> d_status e 0 (disk s) AND STA_NOINIT = 0"

lemma ready_disk_kept: "kept e im s s' \<Longrightarrow> ready_disk e s' = ready_disk e s"
  by (simp add: ready_disk_def kept_def)

context live_disk begin

lemma next_sector_live:
  assumes c: "cached img s" and f: "file_on (img (disk s)) (FatFs s) (cur_fs s) cs fp" and rdy: "ready_disk e s"
    and p: "pos_ok (cur_fs s) cs fp" and b: "unat (fptr fp) = 512 * k" and k: "k < length cs * spc (cur_fs s)"
  shows "\<exists>fp' s'. next_sector e fp s = Some (True, fp', s')"
proof -
  let ?fs = "cur_fs s" and ?S = "spc (cur_fs s)"
  have S: "0 < ?S" using file_on_spc [OF f] .
  have fsp: "fl_fs fp = FatFs s" using f by (simp add: file_on_def)
  show ?thesis
  proof (cases "k = 0 \<or> sect_clust fp - 1 \<noteq> 0")
    case True
    have "data_clust ?fs (org_clust fp)"
      using file_on_chain(1) [OF f, of 0] file_on_nonempty [OF f] by auto
    moreover have "k = 0 \<Longrightarrow> fptr fp = 0" using b by (simp add: unat_eq_0)
    ultimately show ?thesis using True fsp
      by (auto simp: next_sector_def Let_def clust_bad simp flip: cur_fs_def)
  next
    case False
    define j where "j = k - 1"
    have kj: "k = Suc j" using False by (simp add: j_def)
    have z: "fptr fp \<noteq> 0" using b kj by (auto simp: unat_eq_0 [symmetric])
    have "(unat (fptr fp) - 1) div 512 = j" using b kj by simp
    with p z have l: "located ?fs cs j fp" by (simp add: pos_ok_def)
    then have jS: "j mod ?S < ?S" "unat (sect_clust fp) = ?S - j mod ?S" using S by (auto simp: located_def)
    then have "sect_clust fp \<noteq> 0" by (auto simp: unat_eq_0 [symmetric])
    then have "unat (sect_clust fp - 1) = ?S - j mod ?S - 1" using jS by (simp add: unat_minus_one)
    then have last: "\<not> j mod ?S + 1 < ?S" using False by simp
    note dm = succ_div_mod(2) [OF S last]
    have "k div ?S < length cs" using k by (simp add: less_mult_imp_div_less)
    then have i: "Suc (j div ?S) < length cs" using dm kj by simp
    have d: "data_clust ?fs (curr_clust fp)" "data_clust ?fs (fat_entry (img (disk s)) ?fs (curr_clust fp))"
      using l i file_on_chain [OF f, of "j div ?S"] file_on_chain(1) [OF f, of "Suc (j div ?S)"]
      by (auto simp: located_def)
    from f have v: "vol_ok ?fs" by (simp add: file_on_def)
    obtain s' where g: "get_cluster e (curr_clust fp) s = Some (fat_entry (img (disk s)) ?fs (curr_clust fp), s')"
      using get_cluster_live [OF c v _ d(1)] rdy by (auto simp: ready_disk_def)
    note gc = get_cluster_cached [OF c v g]
    then have "kept e img s s'" by simp
    then have "fsobj s' (fl_fs fp) = cur_fs s'" "data_clust (cur_fs s') = data_clust ?fs"
      using fsp by (simp_all add: kept_fsobj [of e img s s'] kept_cong [of e img s s'])
    with g d z False show ?thesis
      by (auto simp: next_sector_def Let_def clust_bad)
  qed
qed

lemma read_pass_live:
  assumes r: "reading img cs fp btr s" and btr: "btr \<noteq> 0" and rdy: "ready_disk e s"
  shows "\<exists>fp' buff' n s'. read_pass e fp adr buff br btr s = Some (True, fp', buff', n, s')"
proof -
  let ?fs = "cur_fs s" and ?P = "unat (fptr fp)"
  have c: "cached img s" and f: "file_on (img (disk s)) (FatFs s) ?fs cs fp" and po: "pos_ok ?fs cs fp"
    and sz: "?P + unat btr \<le> unat (fsize fp)"
    using r by (simp_all add: reading_def)
  have tot: "unat (fsize fp) \<le> 512 * (length cs * spc ?fs)" using f by (simp add: file_on_def)
  have b0: "0 < unat btr" using btr by (simp add: unat_gt_0)
  have k: "?P div 512 < length cs * spc ?fs" using sz tot b0 by linarith
  show ?thesis
  proof (cases "fptr fp mod 512 = 0")
    case True
    obtain fp1 s1 where n: "next_sector e fp s = Some (True, fp1, s1)"
      using next_sector_live [OF c f rdy po boundary [OF True] k] by blast
    from next_sector_located [OF c f po boundary [OF True] k n]
    have s1: "cached img s1" "kept e img s s1" "fptr fp1 = fptr fp" "fsize fp1 = fsize fp"
      and l: "located ?fs cs (?P div 512) fp1" by (simp_all add: same_file_def)
    have rdy1: "ready_disk e s1" using ready_disk_kept [OF s1(2)] rdy by simp
    show ?thesis
    proof (cases "btr div 512 = 0")
      case zero: True
      obtain s2 where "move_window e (curr_sect fp1) s1 = Some (True, s2)"
        using move_window_live [OF s1(1)] rdy1 by (auto simp: ready_disk_def)
      with True n s1 zero show ?thesis by (simp add: read_pass_def Let_def)
    next
      case False
      define cc where "cc = min (btr div 512) (ucast (sect_clust fp1))"
      note ps = pass_sectors [OF cached_length [OF c] l, unfolded s1, OF boundary [OF True] tot sz False cc_def]
      then have "(ucast cc :: BYTE) \<noteq> 0" by (metis unat_eq_0 unat_0)
      then obtain bs d where "d_read e 0 (adr + br) (curr_sect fp1) (ucast cc) (disk s1) = Some (RES_OK, bs, d)"
        using read_live [of "disk s1"] rdy1 s1(1) unfolding ready_disk_def cached_def by metis
      with True n s1 False show ?thesis
        by (simp add: read_pass_def transfer_def Let_def flip: cc_def)
    qed
  next
    case False
    obtain s2 where "move_window e (curr_sect fp) s = Some (True, s2)"
      using move_window_live [OF c] rdy by (auto simp: ready_disk_def)
    with False show ?thesis by (simp add: read_pass_def Let_def)
  qed
qed

lemma rw_loop_live:
  assumes "reading img cs fp btr s" and "ready_disk e s"
  shows "\<exists>fp' buff' br' s'. rw_loop e False fp adr buff br btr s = Some (FR_OK, fp', buff', br', s')"
  using assms
proof (induction "unat btr" arbitrary: fp buff br btr s rule: less_induct)
  case less
  show ?case
  proof (cases "btr = 0")
    case True
    then show ?thesis by (simp add: rw_loop_read_pass)
  next
    case False
    obtain fp1 buff1 n s1 where p: "read_pass e fp adr buff br btr s = Some (True, fp1, buff1, n, s1)"
      using read_pass_live [OF less.prems(1) False less.prems(2)] by blast
    from read_pass_ok [OF less.prems(1) False p]
    have c1: "cached img s1" and k: "kept e img s s1" and sf: "same_file fp fp1"
      and pass: "pass_ok (file_data (img (disk s)) (cur_fs s) cs) (cur_fs s) cs fp buff (unat br) btr fp1 buff1 n"
      by simp_all
    have r1: "reading img cs fp1 (btr - n) s1" by (rule reading_next [OF less.prems(1) c1 k sf pass])
    have "unat (btr - n) < unat btr" using pass by (simp add: pass_ok_def unat_sub word_le_nat_alt)
    from less.hyps [OF this r1] ready_disk_kept [OF k] less.prems(2) p False show ?thesis
      by (subst rw_loop_read_pass) simp
  qed
qed

end

end
