(* ===== verification/Tff_Seeking.thy ===== *)
theory Tff_Seeking
  imports Tff_Reading
begin

text \<open>
  f_read and f_lseek at their interface: the contents of an open file as a byte list, what a read
  returns, and where a seek leaves the file. Theory Fddimage relies on these facts.
\<close>

section \<open>Open files\<close>

text \<open>The bytes of a file: as many bytes of its clusters as its size says.\<close>

definition file_bytes :: "(DWORD \<Rightarrow> BYTE list) \<Rightarrow> FATFS \<Rightarrow> CLUST list \<Rightarrow> FIL \<Rightarrow> BYTE list" where
  "file_bytes im fs cs fp = take (unat (fsize fp)) (file_data im fs cs)"

definition open_on :: "'d fsenv \<Rightarrow> ('d \<Rightarrow> DWORD \<Rightarrow> BYTE list) \<Rightarrow> CLUST list \<Rightarrow> FIL \<Rightarrow> 'd tff \<Rightarrow> bool" where
  "open_on e im cs fp s \<longleftrightarrow> cached im s \<and> file_on (im (disk s)) (FatFs s) (cur_fs s) cs fp
     \<and> FatFs s \<noteq> NULL \<and> fl_id fp = fs_id (cur_fs s) \<and> flag fp AND FA__ERROR = 0
     \<and> (fs_readonly e \<or> flag fp AND FA_WRITE = 0)"

definition reading_file :: "'d fsenv \<Rightarrow> ('d \<Rightarrow> DWORD \<Rightarrow> BYTE list) \<Rightarrow> CLUST list \<Rightarrow> FIL \<Rightarrow> 'd tff \<Rightarrow> bool" where
  "reading_file e im cs fp s \<longleftrightarrow> open_on e im cs fp s \<and> flag fp AND FA_READ \<noteq> 0
     \<and> pos_ok (cur_fs s) cs fp \<and> fptr fp \<le> fsize fp"

lemma open_on_kept:
  assumes "open_on e im cs fp s" and k: "kept e im s s'" and "cached im s'" and "same_file fp fp'" and "flag fp' = flag fp"
  shows "open_on e im cs fp' s'"
  using assms file_on_kept [OF k] file_on_same [OF assms(4)]
  by (simp add: open_on_def keptD [OF k] kept_fields [OF k] same_file_def)

lemma validate_open: "open_on e im cs fp s \<Longrightarrow> ready_disk e s \<Longrightarrow> validate e (fl_fs fp) (fl_id fp) s = FR_OK"
  by (simp add: open_on_def validate_def ready_disk_def file_on_def cur_fs_def)

lemma file_bytes_kept:
  assumes "kept e im s s'" "same_file fp fp'"
  shows "file_bytes (im (disk s')) (cur_fs s') cs fp' = file_bytes (im (disk s)) (cur_fs s) cs fp"
  using assms by (simp add: file_bytes_def keptD [OF assms(1)] kept_cong [OF assms(1)] same_file_def)

lemma file_bytes_length: "open_on e im cs fp s \<Longrightarrow> length (file_bytes (im (disk s)) (cur_fs s) cs fp) = unat (fsize fp)"
  by (simp add: file_bytes_def open_on_def file_on_def length_file_data cached_length)

section \<open>f_read\<close>

lemma read_count:
  fixes btr :: WORD
  assumes "fptr fp \<le> fsize fp"
  defines "n \<equiv> (if ucast btr > fsize fp - fptr fp then ucast (fsize fp - fptr fp) else btr)"
  shows "unat n = min (unat btr) (unat (fsize fp) - unat (fptr fp))"
proof -
  have u: "unat (fsize fp - fptr fp) = unat (fsize fp) - unat (fptr fp)"
    using assms(1) by (simp add: unat_sub word_le_nat_alt)
  have "unat (ucast (fsize fp - fptr fp) :: WORD) = unat (fsize fp - fptr fp)" if "unat (fsize fp - fptr fp) < unat btr"
    using less_trans [OF that WORD_less] by (simp add: unsigned_ucast_eq take_bit_nat_eq_self_iff)
  then show ?thesis
    by (auto simp: n_def u [symmetric] word_less_nat_alt unat_ucast_up)
qed

context sector_disk begin

lemma f_read_reads:
  assumes f: "reading_file e img cs fp s" and "ready_disk e s" and len: "unat btr \<le> length buff"
    and r: "f_read e fp adr buff btr s = Some (r, fp', buff', br, s')"
  defines "got \<equiv> take (unat btr) (drop (unat (fptr fp)) (file_bytes (img (disk s)) (cur_fs s) cs fp))"
  shows "kept e img s s' \<and> same_file fp fp'
    \<and> (r = FR_OK \<and> unat br = length got \<and> buff' = store 0 got buff
         \<and> unat (fptr fp') = unat (fptr fp) + length got \<and> reading_file e img cs fp' s'
       \<or> r = FR_RW_ERROR \<and> flag fp' AND FA__ERROR \<noteq> 0)"
proof -
  let ?c = "file_data (img (disk s)) (cur_fs s) cs"
  let ?n = "if ucast btr > fsize fp - fptr fp then ucast (fsize fp - fptr fp) else btr :: WORD"
  have o: "open_on e img cs fp s" and fl: "flag fp AND FA__ERROR = 0" "flag fp AND FA_READ \<noteq> 0"
    and sz: "fptr fp \<le> fsize fp" and po: "pos_ok (cur_fs s) cs fp"
    using f by (simp_all add: reading_file_def open_on_def)
  have n: "unat ?n = min (unat btr) (unat (fsize fp) - unat (fptr fp))"
    by (rule read_count [OF sz])
  have rd: "reading img cs fp ?n s"
    using o po n sz by (simp add: reading_def open_on_def word_le_nat_alt)
  have lp: "rw_loop e False fp adr buff 0 ?n s = Some (r, fp', buff', br, s')"
    using r fl validate_open [OF o assms(2)] unfolding f_read_def f_read_or_wr_def Let_def by simp
  have "unat ?n \<le> length buff" "unat ?n < 65536" using n len WORD_less [of ?n] by (simp_all del: WORD_less)
  with rw_loop_reads [OF rd _ _ lp]
  have res: "cached img s'" "kept e img s s'" "same_file fp fp'"
      "read_result ?c (cur_fs s) cs fp buff 0 ?n r fp' buff' br" by simp_all
  have lc: "unat (fsize fp) \<le> length ?c"
    using o by (simp add: open_on_def file_on_def length_file_data cached_length)
  have got: "got = take (unat ?n) (drop (unat (fptr fp)) ?c)"
    by (simp add: got_def file_bytes_def n drop_take min.commute)
  have lg: "length got = unat ?n"
    using got n lc by simp
  show ?thesis
  proof (cases "r = FR_OK")
    case True
    with res have ok: "br = ?n" "flag fp' = flag fp" "buff' = store 0 got buff"
        "unat (fptr fp') = unat (fptr fp) + unat ?n" "pos_ok (cur_fs s) cs fp'"
      by (auto simp: read_result_def got)
    have "open_on e img cs fp' s'" by (rule open_on_kept [OF o res(2,1,3) ok(2)])
    moreover have "fptr fp' \<le> fsize fp'"
      using ok n res(3) sz by (auto simp: word_le_nat_alt same_file_def)
    ultimately have "reading_file e img cs fp' s'"
      using ok fl pos_ok_geometry [OF kept_geometry [OF res(2)]] by (simp add: reading_file_def)
    with True ok res lg show ?thesis by simp
  next
    case False
    with res have "r = FR_RW_ERROR" "flag fp' = flag fp OR FA__ERROR" by (auto simp: read_result_def)
    moreover have "(flag fp OR FA__ERROR) AND FA__ERROR = FA__ERROR"
      by (rule bit_word_eqI) (auto simp: bit_simps)
    moreover have "FA__ERROR \<noteq> 0" by (simp add: FA__ERROR_def)
    ultimately show ?thesis using res by simp
  qed
qed

end

context live_disk begin

lemma f_read_lives:
  assumes f: "reading_file e img cs fp s" and "ready_disk e s"
  shows "\<exists>fp' buff' br s'. f_read e fp adr buff btr s = Some (FR_OK, fp', buff', br, s')"
proof -
  let ?n = "if ucast btr > fsize fp - fptr fp then ucast (fsize fp - fptr fp) else btr :: WORD"
  have o: "open_on e img cs fp s" and fl: "flag fp AND FA__ERROR = 0" "flag fp AND FA_READ \<noteq> 0"
    and sz: "fptr fp \<le> fsize fp" and po: "pos_ok (cur_fs s) cs fp"
    using f by (simp_all add: reading_file_def open_on_def)
  have "reading img cs fp ?n s"
    using o po read_count [OF sz, of btr] sz by (simp add: reading_def open_on_def word_le_nat_alt)
  from rw_loop_live [OF this assms(2), of adr buff 0] show ?thesis
    using fl validate_open [OF o assms(2)] unfolding f_read_def f_read_or_wr_def Let_def by simp
qed

end

section \<open>f_lseek\<close>

text \<open>The loop of f_lseek stands at cluster \<open>i\<close> of the chain with the rest of the offset \<open>t\<close>.\<close>

definition seek_at :: "FATFS \<Rightarrow> CLUST list \<Rightarrow> nat \<Rightarrow> nat \<Rightarrow> FIL \<Rightarrow> CLUST \<Rightarrow> DWORD \<Rightarrow> bool" where
  "seek_at fs cs t i fp c ofs \<longleftrightarrow> i < length cs \<and> c = cs ! i \<and> unat (fptr fp) = i * (512 * spc fs)
     \<and> unat ofs + i * (512 * spc fs) = t \<and> 0 < unat ofs"

lemma cluster_size: "unat (ucast (sects_clust fs) * 512 :: DWORD) = 512 * spc fs"
proof -
  have "spc fs * 512 < 2 ^ 32" using spc_less [of fs] by simp
  then show ?thesis by (simp add: unat_word_ariths unat_ucast_up spc_def)
qed

lemma lseek_loop_follow:
  assumes "\<not> ofs \<le> csize" and "fs_readonly e \<or> flag fp AND FA_WRITE = 0"
  shows "lseek_loop e csize fp c ofs s = do {
    (v, s1) \<leftarrow> get_cluster e c s;
    if v = 0 then Some (True, fp\<lparr>curr_clust := c\<rparr>, v, csize, s1)
    else if v = 1 \<or> v \<ge> max_clust (fsobj s1 (fl_fs fp)) then Some (False, fp\<lparr>curr_clust := c\<rparr>, v, ofs, s1)
    else lseek_loop e csize (fp\<lparr>curr_clust := c, fptr := fptr fp + csize\<rparr>) v (ofs - csize) s1 }"
  using assms by (subst lseek_loop.simps) (auto simp: Let_def cong: if_cong)

context sector_disk begin

lemma lseek_loop_at:
  assumes "cached img s" and "file_on (img (disk s)) (FatFs s) (cur_fs s) cs fp"
    and "fs_readonly e \<or> flag fp AND FA_WRITE = 0"
    and "seek_at (cur_fs s) cs t i fp c ofs" and "t \<le> unat (fsize fp)" and "unat csize = 512 * spc (cur_fs s)"
    and "lseek_loop e csize fp c ofs s = Some (ok, fp', c', ofs', s')"
  shows "cached img s' \<and> kept e img s s' \<and> same_file fp fp' \<and> flag fp' = flag fp
    \<and> (ok \<longrightarrow> curr_clust fp' = c' \<and> unat ofs' \<le> 512 * spc (cur_fs s)
         \<and> (\<exists>j. seek_at (cur_fs s) cs t j fp' c' ofs'))"
  using assms
proof (induction "unat ofs" arbitrary: fp c ofs s i rule: less_induct)
  case less
  let ?fs = "cur_fs s" and ?C = "512 * spc (cur_fs s)" and ?fp = "fp\<lparr>curr_clust := c\<rparr>"
  have S: "0 < spc ?fs" using file_on_spc [OF less.prems(2)] .
  show ?case
  proof (cases "ofs \<le> csize")
    case True
    with less.prems(7) have "ok" "fp' = ?fp" "c' = c" "ofs' = ofs" "s' = s"
      by (subst (asm) lseek_loop.simps; simp)+
    moreover have "seek_at ?fs cs t i ?fp c ofs" using less.prems(4) by (simp add: seek_at_def)
    ultimately show ?thesis
      using True less.prems(1,6) by (simp add: same_file_def word_le_nat_alt) blast
  next
    case False
    then have big: "?C < unat ofs" using less.prems(6) by (simp add: word_le_nat_alt)
    have i: "i < length cs" "c = cs ! i" "unat (fptr fp) = i * ?C" "unat ofs + i * ?C = t"
      using less.prems(4) by (simp_all add: seek_at_def)
    have "t \<le> ?C * length cs" using less.prems(2,5) by (simp add: file_on_def mult.commute mult.left_commute)
    moreover have "?C * Suc i = ?C + i * ?C" by (simp add: algebra_simps)
    ultimately have "?C * Suc i < ?C * length cs" using big i(4) by linarith
    then have i1: "Suc i < length cs" using mult_less_cancel1 by blast
    note nx = file_on_chain(2) [OF less.prems(2) i(1) i1] and d = file_on_chain(1) [OF less.prems(2) i1]
    from less.prems(7) [unfolded lseek_loop_follow [OF False less.prems(3)]] obtain v s1 where g: "get_cluster e c s = Some (v, s1)"
        and rest: "(if v = 0 then Some (True, ?fp, v, csize, s1)
          else if v = 1 \<or> v \<ge> max_clust (fsobj s1 (fl_fs fp)) then Some (False, ?fp, v, ofs, s1)
          else lseek_loop e csize (?fp\<lparr>fptr := fptr fp + csize\<rparr>) v (ofs - csize) s1)
            = Some (ok, fp', c', ofs', s')"
      by (auto simp: bind_Some_iff)
    from less.prems(2) have vo: "vol_ok ?fs" by (simp add: file_on_def)
    note gc = get_cluster_cached [OF less.prems(1) vo g]
    then have c1: "cached img s1" and k: "kept e img s s1" by simp_all
    show ?thesis
    proof (cases "v = 1")
      case True
      with rest c1 k show ?thesis by (auto simp: same_file_def)
    next
      case v1: False
      with gc nx i have v: "v = cs ! Suc i" by simp
      have dv: "data_clust (cur_fs s1) v" using d v by (simp add: kept_cong [OF k])
      have fsp: "fsobj s1 (fl_fs fp) = cur_fs s1"
        using less.prems(2) kept_fsobj [OF k] by (simp add: file_on_def)
      let ?fp1 = "?fp\<lparr>fptr := fptr fp + csize\<rparr>"
      have "v \<noteq> 0" "\<not> v \<ge> max_clust (cur_fs s1)"
        using dv by (auto simp: data_clust_def word_le_nat_alt word_less_nat_alt)
      with rest v1 fsp have lp: "lseek_loop e csize ?fp1 v (ofs - csize) s1 = Some (ok, fp', c', ofs', s')"
        by simp
      have u: "unat (ofs - csize) = unat ofs - ?C"
        using False less.prems(6) by (simp add: unat_sub)
      have fsz: "unat (fptr fp) + ?C < 2 ^ 32"
        using i big less.prems(5) order_le_less_trans [OF less.prems(5) DWORD_less] by simp
      have "seek_at (cur_fs s1) cs t (Suc i) ?fp1 v (ofs - csize)"
        using i i1 v u big fsz less.prems(6) by (simp add: seek_at_def kept_cong [OF k] unat_plus_less)
      moreover have "same_file fp ?fp1" by (simp add: same_file_def)
      moreover have "file_on (img (disk s1)) (FatFs s1) (cur_fs s1) cs ?fp1"
        using less.prems(2) file_on_kept [OF k] file_on_same [OF \<open>same_file fp ?fp1\<close>] by simp
      moreover have "unat (ofs - csize) < unat ofs" using u big S by simp
      ultimately have "cached img s' \<and> kept e img s1 s' \<and> same_file ?fp1 fp' \<and> flag fp' = flag ?fp1
          \<and> (ok \<longrightarrow> curr_clust fp' = c' \<and> unat ofs' \<le> 512 * spc (cur_fs s1)
               \<and> (\<exists>j. seek_at (cur_fs s1) cs t j fp' c' ofs'))"
        using less.hyps [OF _ c1 _ _ _ _ _ lp, of "Suc i"] less.prems(3,5,6)
        by (simp add: kept_cong [OF k])
      moreover have "seek_at (cur_fs s1) = seek_at (cur_fs s)"
        by (simp add: seek_at_def kept_cong [OF k] fun_eq_iff)
      ultimately show ?thesis
        using k kept_trans same_file_trans [OF \<open>same_file fp ?fp1\<close>] by (auto simp: kept_cong [OF k])
    qed
  qed
qed

text \<open>The end of the seek sets the position.\<close>

lemma seek_end:
  assumes "seek_at fs cs t j fp c ofs" and "curr_clust fp = c" and "unat ofs \<le> 512 * spc fs" and "0 < spc fs"
    and "data_clust fs c" and "fs = cur_fs s" and "t < 2 ^ 32"
  defines "fp' \<equiv> fp\<lparr>curr_sect := clust2sect c s + ucast (ucast ((ofs - 1) div 512) :: BYTE),
    sect_clust := sects_clust fs - ucast ((ofs - 1) div 512), fptr := fptr fp + ofs\<rparr>"
  shows "pos_ok fs cs fp' \<and> unat (fptr fp') = t"
proof -
  let ?o = "unat ofs" and ?S = "spc fs"
  have sk: "j < length cs" "c = cs ! j" "unat (fptr fp) = j * (512 * ?S)" "?o + j * (512 * ?S) = t" "0 < ?o"
    using assms(1) by (simp_all add: seek_at_def)
  let ?q = "(?o - 1) div 512"
  have q: "?q < ?S" using sk(5) assms(3) by (simp add: less_mult_imp_div_less)
  then have q256: "?q < 256" using spc_less [of fs] by linarith
  have "ofs \<noteq> 0" using sk(5) by auto
  then have uq: "unat ((ofs - 1) div 512) = ?q" by (simp add: unat_div unat_minus_one)
  then have uc: "unat (ucast ((ofs - 1) div 512) :: BYTE) = ?q"
    using q256 by (simp add: unsigned_ucast_eq take_bit_nat_eq_self_iff)
  have add: "unat (fptr fp) + ?o = t" using sk(3,4) by linarith
  then have "unat (fptr fp) + ?o < 2 ^ LENGTH(32)" using assms(7) by simp
  from unat_plus_less [OF this] add have pos: "unat (fptr fp + ofs) = t" by (rule trans)
  have "t - 1 = (?o - 1) + (j * ?S) * 512"
    unfolding sk(4) [symmetric] using sk(5) by (simp add: mult.commute mult.left_commute)
  then have idx: "(t - 1) div 512 = j * ?S + ?q"
    by (simp only: div_mult_self1 numeral_neq_zero not_False_eq_True)
  have dm: "(j * ?S + ?q) div ?S = j" "(j * ?S + ?q) mod ?S = ?q" using q by simp_all
  have "j * ?S + ?q < Suc j * ?S" using q by simp
  also have "\<dots> \<le> length cs * ?S" using sk(1) by (intro mult_right_mono) simp_all
  finally have k: "j * ?S + ?q < length cs * ?S" .
  have sc: "unat (sects_clust fs - ucast ((ofs - 1) div 512)) = ?S - ?q"
    using q uc by (subst unat_sub) (simp_all add: word_le_nat_alt spc_def)
  have "ucast (ucast ((ofs - 1) div 512) :: BYTE) = (of_nat ?q :: DWORD)"
    using uc by (metis of_nat_unat)
  moreover have "clust2sect c s = clust_sect fs c"
    using assms(5,6) clust2sect_data by metis
  ultimately have cs: "clust2sect c s + ucast (ucast ((ofs - 1) div 512) :: BYTE) = file_sect fs cs (j * ?S + ?q)"
    by (simp only: file_sect_def dm sk(2))
  have "located fs cs ((t - 1) div 512) fp'"
    unfolding located_def idx using k sc cs dm sk(2) assms(2) by (simp add: fp'_def)
  moreover have "fptr fp' \<noteq> 0" using pos sk(4,5) by (auto simp: fp'_def unat_eq_0 [symmetric])
  ultimately show ?thesis using pos by (simp add: pos_ok_def fp'_def)
qed

lemma f_lseek_seeks:
  assumes o: "open_on e img cs fp s" and rdy: "ready_disk e s" and r: "f_lseek e fp ofs s = Some (r, fp', s')"
  shows "kept e img s s' \<and> same_file fp fp'
    \<and> (r = FR_OK \<and> open_on e img cs fp' s' \<and> flag fp' = flag fp \<and> pos_ok (cur_fs s') cs fp'
         \<and> fptr fp' = min ofs (fsize fp)
       \<or> r = FR_RW_ERROR \<and> flag fp' AND FA__ERROR \<noteq> 0)"
proof -
  let ?fp = "fp\<lparr>fptr := 0, sect_clust := 1\<rparr>" and ?ofs = "min ofs (fsize fp)"
  have f: "file_on (img (disk s)) (FatFs s) (cur_fs s) cs fp" and c: "cached img s"
    and fl: "flag fp AND FA__ERROR = 0" and ro: "fs_readonly e \<or> flag fp AND FA_WRITE = 0"
    using o by (simp_all add: open_on_def)
  have fsp: "fl_fs fp = FatFs s" using f by (simp add: file_on_def)
  have S: "0 < spc (cur_fs s)" using file_on_spc [OF f] .
  have lim: "(if ofs > fsize fp \<and> (fs_readonly e \<or> flag fp AND FA_WRITE = 0) then fsize fp else ofs) = ?ofs"
    using ro by (auto simp: min_def)
  have sf: "same_file fp ?fp" by (simp add: same_file_def)
  have f': "file_on (img (disk s)) (FatFs s) (cur_fs s) cs ?fp" using f file_on_same [OF sf] by simp
  show ?thesis
  proof (cases "?ofs = 0")
    case True
    then have "r = FR_OK" "fp' = ?fp" "s' = s"
      using r fl ro validate_open [OF o rdy] unfolding f_lseek_def lim Let_def by auto
    moreover have "open_on e img cs ?fp s" by (rule open_on_kept [OF o kept_refl c sf]) simp
    ultimately show ?thesis using sf True by (simp add: pos_ok_def)
  next
    case False
    have oc: "org_clust fp = cs ! 0" "cs \<noteq> []" "data_clust (cur_fs s) (cs ! 0)"
      using file_on_nonempty [OF f] file_on_chain(1) [OF f, of 0] by auto
    then have oc0: "org_clust fp \<noteq> 0" by (auto simp: data_clust_def word_le_nat_alt)
    from r fl ro validate_open [OF o rdy] False obtain ok1 fp1
      where sc: "seek_chain e ?ofs ?fp s = Some (ok1, fp1, s')"
        and res: "if ok1 then r = FR_OK \<and> fp' = fp1 \<or> \<not> (fs_readonly e \<or> flag fp1 AND FA_WRITE = 0)
          else r = FR_RW_ERROR \<and> fp' = file_error fp1"
      unfolding f_lseek_def lim Let_def by (auto simp: bind_Some_iff split: if_splits)
    from sc oc0 fsp obtain ok fp2 c2 ofs2
      where lp: "lseek_loop e (ucast (sects_clust (cur_fs s)) * 512) ?fp (org_clust fp) ?ofs s = Some (ok, fp2, c2, ofs2, s')"
        and ok1: "ok1 = ok"
        and fp1: "if ok then fp1 = fp2\<lparr>curr_sect := clust2sect c2 s' + ucast (ucast ((ofs2 - 1) div 512) :: BYTE),
              sect_clust := sects_clust (fsobj s' (fl_fs fp2)) - ucast ((ofs2 - 1) div 512), fptr := fptr fp2 + ofs2\<rparr>
          else fp1 = fp2"
      unfolding seek_chain_def Let_def
      by (auto simp: bind_Some_iff simp flip: cur_fs_def split: if_splits)
    have at0: "seek_at (cur_fs s) cs (unat ?ofs) 0 ?fp (org_clust fp) ?ofs"
      using oc False by (simp add: seek_at_def unat_gt_0)
    have t: "unat ?ofs \<le> unat (fsize ?fp)" by (simp add: min_def word_le_nat_alt)
    have ro': "fs_readonly e \<or> flag ?fp AND FA_WRITE = 0" using ro by simp
    from lseek_loop_at [OF c f' ro' at0 t cluster_size lp]
    have st: "cached img s'" "kept e img s s'" "same_file ?fp fp2" "flag fp2 = flag fp"
      and okd: "ok \<Longrightarrow> curr_clust fp2 = c2 \<and> unat ofs2 \<le> 512 * spc (cur_fs s)
         \<and> (\<exists>j. seek_at (cur_fs s) cs (unat ?ofs) j fp2 c2 ofs2)" by simp_all
    note k = st(2)
    have sf1: "same_file fp fp1" "flag fp1 = flag fp"
      using same_file_trans [OF sf st(3)] fp1 st(4) by (auto simp: same_file_def split: if_splits)
    show ?thesis
    proof (cases ok)
      case no: False
      have "(flag fp OR FA__ERROR) AND FA__ERROR = FA__ERROR"
        by (rule bit_word_eqI) (auto simp: bit_simps)
      moreover have "FA__ERROR \<noteq> 0" by (simp add: FA__ERROR_def)
      ultimately show ?thesis
        using no ok1 res k sf1 by (simp add: file_error_def same_file_def)
    next
      case True
      with okd obtain j where j: "curr_clust fp2 = c2" "unat ofs2 \<le> 512 * spc (cur_fs s)"
        "seek_at (cur_fs s) cs (unat ?ofs) j fp2 c2 ofs2" by blast
      have fs2: "fsobj s' (fl_fs fp2) = cur_fs s'"
        using st(3) fsp kept_fsobj [OF k] by (simp add: same_file_def)
      have sk: "seek_at (cur_fs s') cs (unat ?ofs) j fp2 c2 ofs2"
        using j(3) by (simp add: seek_at_def kept_cong [OF k])
      have d2: "data_clust (cur_fs s') c2"
        using j(3) file_on_chain(1) [OF f, of j] by (simp add: seek_at_def kept_cong [OF k])
      have "pos_ok (cur_fs s') cs fp1 \<and> unat (fptr fp1) = unat ?ofs"
        using seek_end [OF sk j(1) _ _ d2 refl] fp1 True fs2 j(2) S by (simp add: kept_cong [OF k])
      moreover have "open_on e img cs fp1 s'" by (rule open_on_kept [OF o k st(1) sf1])
      moreover have "r = FR_OK" "fp' = fp1" using res True ok1 ro sf1 by auto
      ultimately show ?thesis using k sf1 by (simp add: word_unat_eq_iff)
    qed
  qed
qed

end

context live_disk begin

lemma lseek_loop_live:
  assumes "cached img s" and "file_on (img (disk s)) (FatFs s) (cur_fs s) cs fp" and "ready_disk e s"
    and "fs_readonly e \<or> flag fp AND FA_WRITE = 0"
    and "seek_at (cur_fs s) cs t i fp c ofs" and "t \<le> unat (fsize fp)" and "unat csize = 512 * spc (cur_fs s)"
  shows "\<exists>fp' c' ofs' s'. lseek_loop e csize fp c ofs s = Some (True, fp', c', ofs', s')"
  using assms
proof (induction "unat ofs" arbitrary: fp c ofs s i rule: less_induct)
  case less
  let ?fs = "cur_fs s" and ?C = "512 * spc (cur_fs s)"
  have S: "0 < spc ?fs" using file_on_spc [OF less.prems(2)] .
  show ?case
  proof (cases "ofs \<le> csize")
    case True
    then show ?thesis by (subst lseek_loop.simps) simp
  next
    case False
    then have big: "?C < unat ofs" using less.prems(7) by (simp add: word_le_nat_alt)
    have i: "i < length cs" "c = cs ! i" "unat (fptr fp) = i * ?C" "unat ofs + i * ?C = t"
      using less.prems(5) by (simp_all add: seek_at_def)
    have "t \<le> ?C * length cs" using less.prems(2,6) by (simp add: file_on_def mult.commute mult.left_commute)
    moreover have "?C * Suc i = ?C + i * ?C" by (simp add: algebra_simps)
    ultimately have "?C * Suc i < ?C * length cs" using big i(4) by linarith
    then have i1: "Suc i < length cs" using mult_less_cancel1 by blast
    note nx = file_on_chain(2) [OF less.prems(2) i(1) i1] and d = file_on_chain(1) [OF less.prems(2) i1]
    from less.prems(2) have vo: "vol_ok ?fs" by (simp add: file_on_def)
    have "data_clust ?fs c" using file_on_chain(1) [OF less.prems(2) i(1)] i(2) by simp
    from get_cluster_live [OF less.prems(1) vo _ this] less.prems(3) nx i(2)
    obtain s1 where g: "get_cluster e c s = Some (cs ! Suc i, s1)" by (auto simp: ready_disk_def)
    note gc = get_cluster_cached [OF less.prems(1) vo g]
    then have c1: "cached img s1" and k: "kept e img s s1" by simp_all
    let ?fp1 = "fp\<lparr>curr_clust := c, fptr := fptr fp + csize\<rparr>" and ?v = "cs ! Suc i"
    have dv: "data_clust (cur_fs s1) ?v" using d by (simp add: kept_cong [OF k])
    have fsp: "fsobj s1 (fl_fs fp) = cur_fs s1"
      using less.prems(2) kept_fsobj [OF k] by (simp add: file_on_def)
    have u: "unat (ofs - csize) = unat ofs - ?C"
      using False less.prems(7) by (simp add: unat_sub)
    have fsz: "unat (fptr fp) + ?C < 2 ^ 32"
      using i big less.prems(6) order_le_less_trans [OF less.prems(6) DWORD_less] by simp
    have sf: "same_file fp ?fp1" by (simp add: same_file_def)
    have at: "seek_at (cur_fs s1) cs t (Suc i) ?fp1 ?v (ofs - csize)"
      using i i1 u big fsz less.prems(7) by (simp add: seek_at_def kept_cong [OF k] unat_plus_less)
    have f1: "file_on (img (disk s1)) (FatFs s1) (cur_fs s1) cs ?fp1"
      using less.prems(2) file_on_kept [OF k] file_on_same [OF sf] by simp
    have "unat (ofs - csize) < unat ofs" using u big S by simp
    from less.hyps [OF this c1 f1 _ _ at] less.prems(3,4,6,7) ready_disk_kept [OF k]
    have "\<exists>fp' c' ofs' s'. lseek_loop e csize ?fp1 ?v (ofs - csize) s1 = Some (True, fp', c', ofs', s')"
      by (simp add: kept_cong [OF k])
    moreover have "?v \<noteq> 0" "?v \<noteq> 1" "\<not> ?v \<ge> max_clust (cur_fs s1)"
      using dv by (auto simp: data_clust_def word_le_nat_alt word_less_nat_alt)
    ultimately show ?thesis
      using g fsp by (simp add: lseek_loop_follow [OF False less.prems(4)])
  qed
qed

lemma f_lseek_lives:
  assumes o: "open_on e img cs fp s" and rdy: "ready_disk e s"
  shows "\<exists>fp' s'. f_lseek e fp ofs s = Some (FR_OK, fp', s')"
proof -
  let ?fp = "fp\<lparr>fptr := 0, sect_clust := 1\<rparr>" and ?ofs = "min ofs (fsize fp)"
  have f: "file_on (img (disk s)) (FatFs s) (cur_fs s) cs fp" and c: "cached img s"
    and fl: "flag fp AND FA__ERROR = 0" and ro: "fs_readonly e \<or> flag fp AND FA_WRITE = 0"
    using o by (simp_all add: open_on_def)
  have fsp: "fl_fs fp = FatFs s" using f by (simp add: file_on_def)
  have lim: "(if ofs > fsize fp \<and> (fs_readonly e \<or> flag fp AND FA_WRITE = 0) then fsize fp else ofs) = ?ofs"
    using ro by (auto simp: min_def)
  have f': "file_on (img (disk s)) (FatFs s) (cur_fs s) cs ?fp"
    using f by (simp add: file_on_def)
  show ?thesis
  proof (cases "?ofs = 0")
    case True
    then show ?thesis
      using fl ro validate_open [OF o rdy] unfolding f_lseek_def lim Let_def by auto
  next
    case False
    have oc: "org_clust fp = cs ! 0" "cs \<noteq> []" "data_clust (cur_fs s) (cs ! 0)"
      using file_on_nonempty [OF f] file_on_chain(1) [OF f, of 0] by auto
    then have oc0: "org_clust fp \<noteq> 0" by (auto simp: data_clust_def word_le_nat_alt)
    have at0: "seek_at (cur_fs s) cs (unat ?ofs) 0 ?fp (org_clust fp) ?ofs"
      using oc False by (simp add: seek_at_def unat_gt_0)
    have t: "unat ?ofs \<le> unat (fsize ?fp)" by (simp add: min_def word_le_nat_alt)
    have ro': "fs_readonly e \<or> flag ?fp AND FA_WRITE = 0" using ro by simp
    obtain fp2 c2 ofs2 s2 where lp: "lseek_loop e (ucast (sects_clust (cur_fs s)) * 512) ?fp (org_clust fp) ?ofs s
        = Some (True, fp2, c2, ofs2, s2)"
      using lseek_loop_live [OF c f' rdy ro' at0 t cluster_size] by blast
    have fl2: "flag fp2 = flag fp"
      using lseek_loop_at [OF c f' ro' at0 t cluster_size lp] by simp
    have "seek_chain e ?ofs ?fp s = Some (True,
        fp2\<lparr>curr_sect := clust2sect c2 s2 + ucast (ucast ((ofs2 - 1) div 512) :: BYTE),
          sect_clust := sects_clust (fsobj s2 (fl_fs fp2)) - ucast ((ofs2 - 1) div 512),
          fptr := fptr fp2 + ofs2\<rparr>, s2)"
      using lp oc0 fsp unfolding seek_chain_def Let_def by (simp flip: cur_fs_def)
    with fl fl2 ro validate_open [OF o rdy] False show ?thesis
      unfolding f_lseek_def lim Let_def by auto
  qed
qed

end

end
