(* ===== verification/Mmc_Disk.thy ===== *)
theory Mmc_Disk
  imports Mmc Volume
begin

text \<open>
  What the card driver promises on any hardware: the disk contract \<open>block_disk\<close> of theory Volume,
  and the status discipline: nothing is read or written before an initialisation has succeeded.
\<close>

section \<open>Blocks\<close>

lemma rcvr_block:
  assumes "rcvr_datablock p buff 512 h = Some (ok, bs, h')"
  shows "length bs = (if ok then 512 else 0)"
proof -
  have "(512 * unat (drop_bit 4 (ucast (push_bit 4 (512 div 512 :: WORD)) :: BYTE) AND 7)) = 512"
    by code_simp
  then have "length (fst (dma_to_ram p (ucast (push_bit 4 (512 div 512 :: WORD))) h1)) = 512" for h1
    unfolding dma_to_ram_def using length_rcvr_n by metis
  with assms show ?thesis
    unfolding rcvr_datablock_def Let_def
    by (auto simp: bind_Some_iff split: if_splits prod.splits) (metis fst_conv)
qed

lemma read_blocks_length:
  "read_blocks p buff n h = Some (left, bs, h') \<Longrightarrow> left \<le> n \<and> length bs = 512 * (n - left)"
proof (induction n arbitrary: buff h bs)
  case (Suc n)
  then obtain ok b h1 where r: "rcvr_datablock p buff 512 h = Some (ok, b, h1)"
    by (auto simp: bind_Some_iff)
  show ?case
  proof (cases ok)
    case True
    with Suc.prems r obtain bs' where "read_blocks p (buff + 512) n h1 = Some (left, bs', h')" "bs = b @ bs'"
      by (auto simp: bind_Some_iff)
    with Suc.IH [of "buff + 512" h1 bs'] rcvr_block [OF r] True show ?thesis by (auto simp: Suc_diff_le)
  next
    case False
    with Suc.prems r rcvr_block [OF r] show ?thesis by simp
  qed
qed simp

lemma disk_read_shape:
  assumes "disk_read p drv buff sect cnt s = Some (r, bs, s')"
  shows "length bs \<le> 512 * unat cnt \<and> (r = RES_OK \<longrightarrow> length bs = 512 * unat cnt)
    \<and> (r \<noteq> RES_OK \<longrightarrow> cnt = 1 \<longrightarrow> bs = []) \<and> Stat s' = Stat s \<and> CardType s' = CardType s"
proof (cases "drv \<noteq> 0 \<or> cnt = 0 \<or> Stat s AND STA_NOINIT \<noteq> 0")
  case True
  with assms show ?thesis by (auto simp: disk_read_def split: if_splits)
next
  case False
  then have c: "drv = 0" "cnt \<noteq> 0" "Stat s AND STA_NOINIT = 0" by auto
  show ?thesis
  proof (cases "cnt = 1")
    case True
    from assms [unfolded disk_read_def Let_def] c True obtain a h1 where
      s1: "send_cmd p CMD17 (card_address s sect) (hw s) = Some (a, h1)"
      by (auto simp: bind_Some_iff)
    show ?thesis
    proof (cases "a = 0")
      case a: True
      with assms [unfolded disk_read_def Let_def] c True s1 obtain ok b h2
        where rb: "rcvr_datablock p buff 512 h1 = Some (ok, b, h2)"
          and "bs = b" "r = (if ok then RES_OK else RES_ERROR)" "s' = s\<lparr>hw := release_spi p h2\<rparr>"
        by (auto simp: bind_Some_iff split: if_splits)
      with rcvr_block [OF rb] True show ?thesis by (cases ok) simp_all
    qed (use assms c True s1 in \<open>auto simp: disk_read_def Let_def\<close>)
  next
    case many: False
    from assms [unfolded disk_read_def Let_def] c many obtain a h1 where
      s1: "send_cmd p CMD18 (card_address s sect) (hw s) = Some (a, h1)"
      by (auto simp: bind_Some_iff)
    show ?thesis
    proof (cases "a = 0")
      case a: True
      with assms [unfolded disk_read_def Let_def] c many s1 obtain left b h2 h3
        where rb: "read_blocks p buff (unat cnt) h1 = Some (left, b, h2)"
          and "bs = b" "r = (if left \<noteq> 0 then RES_ERROR else RES_OK)" "s' = s\<lparr>hw := h3\<rparr>"
        by (auto simp: bind_Some_iff split: if_splits)
      with read_blocks_length [OF rb] many show ?thesis by (auto split: if_splits)
    next
      case False
      with assms [unfolded disk_read_def Let_def] c many s1 show ?thesis
        by (auto simp: unat_gt_0)
    qed
  qed
qed

lemma disk_write_shape:
  "disk_write p drv buff mem sect cnt s = Some (r, s') \<Longrightarrow> Stat s' = Stat s \<and> CardType s' = CardType s"
  by (auto simp: disk_write_def Let_def bind_Some_iff split: if_splits)

text \<open>The driver keeps the FAT module's contract whatever the card answers.\<close>

lemma mmc_io_simps [simp]:
  "d_status (mmc_io p a c ro w) = disk_status" "d_initialize (mmc_io p a c ro w) = disk_initialize p"
  "d_read (mmc_io p a c ro w) = disk_read p" "d_write (mmc_io p a c ro w) = disk_write p"
  "d_ioctl (mmc_io p a c ro w) = disk_ioctl p a c" "fs_readonly (mmc_io p a c ro w) = ro"
  "win_adr (mmc_io p a c ro w) = w"
  by (simp_all add: mmc_io_def)

interpretation mmc: block_disk "mmc_io p csd_adr csd ro win" for p csd_adr csd ro win
proof unfold_locales
  fix adr sect cnt d bs d' r mem
  let ?e = "mmc_io p csd_adr csd ro win"
  show "d_read ?e 0 adr sect cnt d = Some (RES_OK, bs, d') \<Longrightarrow> length bs = 512 * unat cnt"
    by (auto dest: disk_read_shape)
  show "d_read ?e 0 adr sect cnt d = Some (r, bs, d') \<Longrightarrow> length bs \<le> 512 * unat cnt"
    by (auto dest: disk_read_shape)
  show "d_read ?e 0 adr sect 1 d = Some (r, bs, d') \<Longrightarrow> r \<noteq> RES_OK \<Longrightarrow> bs = []"
    by (auto dest: disk_read_shape)
  show "d_read ?e 0 adr sect cnt d = Some (r, bs, d') \<Longrightarrow> d_status ?e 0 d' = d_status ?e 0 d"
    by (auto dest: disk_read_shape simp: disk_status_def)
  show "d_write ?e 0 adr mem sect cnt d = Some (r, d') \<Longrightarrow> d_status ?e 0 d' = d_status ?e 0 d"
    by (auto dest: disk_write_shape simp: disk_status_def)
qed

section \<open>The status discipline\<close>

text \<open>
  The invariant of the driver's state: outside a failed initialisation the status bit STA_NOINIT
  is clear exactly when a card type has been found; STA_NODISK and STA_PROTECT are never set.
\<close>

definition mmc_ok :: "'h mmc \<Rightarrow> bool" where
  "mmc_ok s \<longleftrightarrow> (Stat s = STA_NOINIT \<or> Stat s = 0 \<and> CardType s \<in> {1, 2, 4, 12})"

lemma init_card_types:
  assumes "init_card p h = Some (ty, h')"
  shows "ty \<in> {0, 1, 2, 4, 12}"
proof -
  have hc: "init_sdhc p h1 = Some (t, h2) \<Longrightarrow> t \<in> {0, 4, 12}" for h1 t h2
    by (auto simp: init_sdhc_def bind_Some_iff case_prod_beta split: if_splits)
  have sc: "init_sdsc p h1 = Some (t, h2) \<Longrightarrow> t \<in> {0, 1, 2}" for h1 t h2
    by (auto simp: init_sdsc_def Let_def bind_Some_iff case_prod_beta split: if_splits)
  from assms obtain r h1 where "send_cmd p CMD0 0 h = Some (r, h1)"
    by (auto simp: init_card_def bind_Some_iff)
  with assms show ?thesis
    using hc sc unfolding init_card_def by (fastforce simp: bind_Some_iff split: if_splits)
qed

lemma disk_initialize_ok:
  assumes "mmc_ok s" and "disk_initialize p drv s = Some (st, s')"
  shows "mmc_ok s'" and "drv = 0 \<Longrightarrow> st = Stat s'"
proof -
  have nd: "Stat s AND STA_NODISK = 0"
    using assms(1) by (auto simp: mmc_ok_def STA_NOINIT_def STA_NODISK_def)
  have clr: "Stat s AND NOT STA_NOINIT = 0" "Stat s OR STA_NOINIT = STA_NOINIT"
    using assms(1) by (auto simp: mmc_ok_def STA_NOINIT_def)
  show "drv = 0 \<Longrightarrow> st = Stat s'"
    using assms(2) nd by (auto simp: disk_initialize_def Let_def bind_Some_iff)
  show "mmc_ok s'"
  proof (cases "drv = 0")
    case True
    with assms(2) nd obtain ty h1 s1
      where i: "init_card p (snd (rcvr_n p 10 (hw s))) = Some (ty, h1)"
        and f: "(if ty \<noteq> 0 then Some (s\<lparr>CardType := ty, hw := release_spi p h1, Stat := Stat s AND NOT STA_NOINIT\<rparr>)
            else power_off p (s\<lparr>CardType := ty, hw := release_spi p h1\<rparr>)) = Some s'"
      by (auto simp: disk_initialize_def Let_def bind_Some_iff split: if_splits)
    with init_card_types [OF i] clr show ?thesis
      by (auto simp: mmc_ok_def power_off_def bind_Some_iff split: if_splits)
  next
    case False
    with assms show ?thesis by (auto simp: disk_initialize_def)
  qed
qed

lemma power_off_ok: "power_off p s = Some s' \<Longrightarrow> mmc_ok s \<Longrightarrow> mmc_ok s'"
  by (auto simp: power_off_def mmc_ok_def bind_Some_iff)

lemma mmc_ok_hw [simp]: "mmc_ok (s\<lparr>hw := h\<rparr>) = mmc_ok s"
  by (simp add: mmc_ok_def)

lemma disk_ioctl_ok: "mmc_ok s \<Longrightarrow> disk_ioctl p a csd drv ctrl adr buff s = Some (r, bs, s') \<Longrightarrow> mmc_ok s'"
  by (auto simp: disk_ioctl_def ioctl_power_def bind_Some_iff power_off_ok split: if_splits)

lemma disk_rw_ok:
  "mmc_ok s \<Longrightarrow> disk_read p drv adr sect cnt s = Some (r, bs, s') \<Longrightarrow> mmc_ok s'"
  "mmc_ok s \<Longrightarrow> disk_write p drv adr mem sect cnt s = Some (q, s') \<Longrightarrow> mmc_ok s'"
  by (auto simp: mmc_ok_def dest!: disk_read_shape disk_write_shape)

lemma disk_poll_ok: "mmc_ok s \<Longrightarrow> disk_poll p drv s = Some (r, s') \<Longrightarrow> mmc_ok s'"
  by (auto simp: disk_poll_def Let_def bind_Some_iff split: if_splits)

lemma disk_not_ready:
  assumes "Stat s AND STA_NOINIT \<noteq> 0" and "cnt \<noteq> 0"
  shows "disk_read p 0 buff sect cnt s = Some (RES_NOTRDY, [], s)"
    and "disk_write p 0 buff mem sect cnt s = Some (RES_NOTRDY, s)"
  using assms by (simp_all add: disk_read_def disk_write_def)

text \<open>The states of the driver that calls of its functions reach, on the hardware of \<open>p\<close>.\<close>

inductive mmc_reaches :: "'h ports \<Rightarrow> 'h \<Rightarrow> 'h mmc \<Rightarrow> bool" for p h0 where
  start: "mmc_reaches p h0 (mmc_init h0)"
| initialize: "mmc_reaches p h0 s \<Longrightarrow> disk_initialize p drv s = Some (st, s') \<Longrightarrow> mmc_reaches p h0 s'"
| poll: "mmc_reaches p h0 s \<Longrightarrow> disk_poll p drv s = Some (r, s') \<Longrightarrow> mmc_reaches p h0 s'"
| reading: "mmc_reaches p h0 s \<Longrightarrow> disk_read p drv adr sect cnt s = Some (res, bs, s') \<Longrightarrow> mmc_reaches p h0 s'"
| writing: "mmc_reaches p h0 s \<Longrightarrow> disk_write p drv adr mem sect cnt s = Some (res, s') \<Longrightarrow> mmc_reaches p h0 s'"
| ioctl: "mmc_reaches p h0 s \<Longrightarrow> disk_ioctl p a csd drv ctrl adr mem s = Some (res, bs, s') \<Longrightarrow> mmc_reaches p h0 s'"
| outside: "mmc_reaches p h0 s \<Longrightarrow> mmc_reaches p h0 (s\<lparr>hw := h\<rparr>)"

lemmas mmc_steps_ok = disk_initialize_ok(1) disk_poll_ok disk_rw_ok disk_ioctl_ok

lemma mmc_reaches_ok: "mmc_reaches p h0 s \<Longrightarrow> mmc_ok s"
proof (induction rule: mmc_reaches.induct)
  case start
  show ?case by (simp add: mmc_ok_def mmc_init_def)
qed (erule (1) mmc_steps_ok | simp only: mmc_ok_hw)+

end
