(* ===== verification/Sd_Card.thy ===== *)
theory Sd_Card
  imports Mmc_Disk
begin

text \<open>
  The card driver against a card. The hardware below the ports is not part of the repository; this
  theory gives the parameter \<open>ports\<close> of theory Hw one concrete value, an SD card of high capacity
  in SPI mode that answers the commands of initialisation and reading as the SD specification
  documents them, with two timers that run down as they are read, a serial port that is always
  free, the bytes \<open>host\<close> that the host and the joystick show at their ports, and the byte last
  written to the status port. On it mmc.c is proved to be a disk in the sense of theory Volume: disk_initialize
  finds the card, and disk_read delivers its sectors, one or many, through command packets, data
  tokens and DMA transfers.
\<close>

section \<open>The card\<close>

record card =
  store_of :: "DWORD \<Rightarrow> BYTE list"
  chip_sel :: BYTE
  rx :: BYTE
  cmd_in :: "BYTE list"
  outq :: "BYTE list"
  next_blk :: "DWORD option"
  tim1 :: BYTE
  tim2 :: BYTE
  host :: "WORD \<Rightarrow> BYTE"
  status_out :: BYTE

definition be32 :: "BYTE \<Rightarrow> BYTE \<Rightarrow> BYTE \<Rightarrow> BYTE \<Rightarrow> DWORD" where
  "be32 a b c d = push_bit 24 (ucast a) OR push_bit 16 (ucast b) OR push_bit 8 (ucast c) OR ucast d"

definition data_block :: "card \<Rightarrow> DWORD \<Rightarrow> BYTE list" where
  "data_block c a = 0xFE # store_of c a @ [0, 0]"

definition answer :: "BYTE list \<Rightarrow> card \<Rightarrow> card" where
  "answer q c = (let cmd = q ! 0; arg = be32 (q ! 1) (q ! 2) (q ! 3) (q ! 4) in
     if cmd = CMD0 then c\<lparr>outq := [0x01]\<rparr>
     else if cmd = CMD8 then c\<lparr>outq := [0x01, 0x00, 0x00, q ! 3, q ! 4]\<rparr>
     else if cmd = CMD55 then c\<lparr>outq := [0x01]\<rparr>
     else if cmd = ACMD41 AND 0x7F then c\<lparr>outq := [0x00]\<rparr>
     else if cmd = CMD58 then c\<lparr>outq := [0x00, 0xC0, 0xFF, 0x80, 0x00]\<rparr>
     else if cmd = CMD17 then c\<lparr>outq := [0x00, 0xFF] @ data_block c arg\<rparr>
     else if cmd = CMD18 then c\<lparr>outq := [0x00], next_blk := Some arg\<rparr>
     else if cmd = CMD12 then c\<lparr>outq := [0xFF, 0x00], next_blk := None\<rparr>
     else c\<lparr>outq := [0x04]\<rparr>)"

text \<open>One exchange of bytes: part of a command, or the next byte the card has to send.\<close>

definition exchange :: "BYTE \<Rightarrow> card \<Rightarrow> card" where
  "exchange b c = (
     if cmd_in c \<noteq> [] \<or> b \<noteq> 0xFF then
       let q = cmd_in c @ [b] in
       if length q = 6 then answer q (c\<lparr>cmd_in := [], rx := 0xFF\<rparr>) else c\<lparr>cmd_in := q, rx := 0xFF\<rparr>
     else case outq c of
       x # xs \<Rightarrow> c\<lparr>rx := x, outq := xs\<rparr>
     | [] \<Rightarrow> (case next_blk c of
         None \<Rightarrow> c\<lparr>rx := 0xFF\<rparr>
       | Some a \<Rightarrow> c\<lparr>rx := 0xFF, outq := data_block c a, next_blk := Some (a + 1)\<rparr>))"

definition tick_down :: "BYTE \<Rightarrow> BYTE" where
  "tick_down t = (if t = 0 then 0 else t - 1)"

definition sd_rd :: "WORD \<Rightarrow> card \<Rightarrow> BYTE \<times> card" where
  "sd_rd a c = (
     if a = SPDR then (rx c, c)
     else if a = MMC_A then (chip_sel c, c)
     else if a = TIMER_1 then (tim1 c, c\<lparr>tim1 := tick_down (tim1 c)\<rparr>)
     else if a = TIMER_2 then (tim2 c, c\<lparr>tim2 := tick_down (tim2 c)\<rparr>)
     else if a = SERIAL_CTL then (0, c)
     else (host c a, c))"

definition sd_wr :: "WORD \<Rightarrow> BYTE \<Rightarrow> card \<Rightarrow> card" where
  "sd_wr a v c = (
     if a = SPDR then exchange v c
     else if a = MMC_A then
       (if v AND MMC_DAT3 \<noteq> 0 then c\<lparr>chip_sel := v, cmd_in := [], outq := [], next_blk := None\<rparr>
        else c\<lparr>chip_sel := v\<rparr>)
     else if a = TIMER_1 then c\<lparr>tim1 := v\<rparr>
     else if a = TIMER_2 then c\<lparr>tim2 := v\<rparr>
     else if a = SLAVE_STATUS then c\<lparr>status_out := v\<rparr>
     else c)"

definition sd_ports :: "card ports" where
  "sd_ports = \<lparr>port_rd = sd_rd, port_wr = sd_wr\<rparr>"

lemma sd_ports_simps [simp]: "port_rd sd_ports = sd_rd" "port_wr sd_ports = sd_wr"
  by (simp_all add: sd_ports_def)

section \<open>Exchanges\<close>

lemma port_distinct [simp]:
  "SPDR \<noteq> MMC_A" "SPDR \<noteq> TIMER_1" "SPDR \<noteq> TIMER_2" "MMC_A \<noteq> SPDR" "MMC_A \<noteq> TIMER_1" "MMC_A \<noteq> TIMER_2"
  "TIMER_1 \<noteq> SPDR" "TIMER_1 \<noteq> MMC_A" "TIMER_1 \<noteq> TIMER_2" "TIMER_2 \<noteq> SPDR" "TIMER_2 \<noteq> MMC_A" "TIMER_2 \<noteq> TIMER_1"
  "DMAMSB \<noteq> SPDR" "DMAMSB \<noteq> MMC_A" "DMAMSB \<noteq> TIMER_1" "DMAMSB \<noteq> TIMER_2"
  "DMALSB \<noteq> SPDR" "DMALSB \<noteq> MMC_A" "DMALSB \<noteq> TIMER_1" "DMALSB \<noteq> TIMER_2"
  "SPSR \<noteq> SPDR" "SPSR \<noteq> MMC_A" "SPSR \<noteq> TIMER_1" "SPSR \<noteq> TIMER_2"
  by (simp_all add: port_defs)

lemma sd_spi [simp]: "rcvr_spi sd_ports c = (rx (exchange 0xFF c), exchange 0xFF c)"
  by (simp add: rcvr_spi_def sd_rd_def sd_wr_def)

lemma sd_xmit [simp]: "xmit_spi sd_ports b c = exchange b c"
  by (simp add: xmit_spi_def sd_wr_def)

lemma sd_dma [simp]: "sd_wr DMAMSB v c = c" "sd_wr DMALSB v c = c" "sd_wr SPSR v c = c"
  by (simp_all add: sd_wr_def port_defs)

lemma sd_timer [simp]:
  "sd_wr TIMER_1 v c = c\<lparr>tim1 := v\<rparr>" "sd_wr TIMER_2 v c = c\<lparr>tim2 := v\<rparr>"
  "sd_rd TIMER_1 c = (tim1 c, c\<lparr>tim1 := tick_down (tim1 c)\<rparr>)"
  "sd_rd TIMER_2 c = (tim2 c, c\<lparr>tim2 := tick_down (tim2 c)\<rparr>)"
  by (simp_all add: sd_wr_def sd_rd_def)

lemma exchange_out:
  "cmd_in c = [] \<Longrightarrow> outq c = x # xs \<Longrightarrow> exchange 0xFF c = c\<lparr>rx := x, outq := xs\<rparr>"
  by (simp add: exchange_def)

lemma exchange_idle:
  "cmd_in c = [] \<Longrightarrow> outq c = [] \<Longrightarrow> next_blk c = None \<Longrightarrow> exchange 0xFF c = c\<lparr>rx := 0xFF\<rparr>"
  by (simp add: exchange_def)

lemma exchange_stream:
  "cmd_in c = [] \<Longrightarrow> outq c = [] \<Longrightarrow> next_blk c = Some a \<Longrightarrow>
   exchange 0xFF c = c\<lparr>rx := 0xFF, outq := data_block c a, next_blk := Some (a + 1)\<rparr>"
  by (simp add: exchange_def)

lemma rcvr_n_out:
  "cmd_in c = [] \<Longrightarrow> outq c = xs @ ys \<Longrightarrow>
   \<exists>x. rcvr_n sd_ports (length xs) c = (xs, c\<lparr>rx := x, outq := ys\<rparr>)"
proof (induction xs arbitrary: c)
  case Nil
  then show ?case by (intro exI [of _ "rx c"]) simp
next
  case (Cons a xs)
  let ?c = "c\<lparr>rx := a, outq := xs @ ys\<rparr>"
  have "exchange 0xFF c = ?c" using Cons.prems by (simp add: exchange_out)
  moreover obtain x where "rcvr_n sd_ports (length xs) ?c = (xs, ?c\<lparr>rx := x, outq := ys\<rparr>)"
    using Cons.IH [of ?c] Cons.prems by auto
  ultimately show ?case by (intro exI [of _ x]) simp
qed

section \<open>Commands\<close>

text \<open>A selected card with nothing to say, as DESELECT and SELECT leave it.\<close>

definition quiet :: "card \<Rightarrow> bool" where
  "quiet c \<longleftrightarrow> cmd_in c = [] \<and> outq c = [] \<and> next_blk c = None"

lemma deselect_select: "quiet (SELECT sd_ports (DESELECT sd_ports c))
    \<and> store_of (SELECT sd_ports (DESELECT sd_ports c)) = store_of c
    \<and> tim1 (SELECT sd_ports (DESELECT sd_ports c)) = tim1 c"
proof -
  have "(v OR MMC_DAT3) AND MMC_DAT3 = MMC_DAT3" "(v AND NOT MMC_DAT3) AND MMC_DAT3 = 0" for v :: BYTE
    by (rule bit_word_eqI; auto simp: bit_simps)+
  moreover have "MMC_DAT3 \<noteq> 0" by (simp add: MMC_DAT3_def)
  ultimately show ?thesis
    by (simp add: SELECT_def DESELECT_def sd_rd_def sd_wr_def quiet_def)
qed

lemma wait_ready_quiet:
  "quiet c \<Longrightarrow> wait_ready sd_ports c = Some (0xFF, c\<lparr>tim2 := 50, rx := 0xFF\<rparr>)"
  by (simp add: wait_ready_def wait_loop.simps exchange_idle quiet_def)

lemma xmit_packet:
  assumes "quiet c" and "a \<noteq> 0xFF"
  shows "xmit_all sd_ports [a, b, b', b'', b3, b4] c = answer [a, b, b', b'', b3, b4] (c\<lparr>rx := 0xFF\<rparr>)"
proof -
  have "xmit_all sd_ports [a, b, b', b'', b3, b4] c
      = answer [a, b, b', b'', b3, b4] (c\<lparr>cmd_in := [], rx := 0xFF\<rparr>)"
    using assms by (simp add: exchange_def quiet_def Let_def)
  also have "c\<lparr>cmd_in := [], rx := 0xFF\<rparr> = c\<lparr>rx := 0xFF\<rparr>"
    using assms(1) by (cases c) (simp add: quiet_def)
  finally show ?thesis .
qed

lemma resp_loop_first:
  assumes "cmd_in c = []" and "outq c = x # xs" and "x AND 0x80 = 0"
  shows "resp_loop sd_ports 10 c = (x, c\<lparr>rx := x, outq := xs\<rparr>)"
proof -
  have ten: "(10 :: nat) = Suc 9" by simp
  show ?thesis
    unfolding ten resp_loop.simps using assms by (simp add: exchange_out)
qed

text \<open>The command packet carries the argument: the card decodes what the driver encoded.\<close>

lemma be32_packet:
  "be32 (ucast (drop_bit 24 arg)) (ucast (drop_bit 16 arg)) (ucast (drop_bit 8 arg)) (ucast arg) = arg"
proof (rule bit_word_eqI)
  fix n
  assume "n < LENGTH(32)"
  then consider "n < 8" | "8 \<le> n" "n < 16" | "16 \<le> n" "n < 24" | "24 \<le> n" "n < 32"
    by fastforce
  then show "bit (be32 (ucast (drop_bit 24 arg)) (ucast (drop_bit 16 arg)) (ucast (drop_bit 8 arg)) (ucast arg)) n
      = bit arg n"
    by cases (auto simp: be32_def bit_simps)
qed

lemma send_packet_answer:
  assumes "cmd \<noteq> 0xFF" and "cmd \<noteq> CMD12"
    and "outq (answer (cmd_packet cmd arg) c') = x # xs" and "x AND 0x80 = 0"
    and "c' = (SELECT sd_ports (DESELECT sd_ports c))\<lparr>tim2 := 50, rx := 0xFF\<rparr>"
  shows "send_packet sd_ports cmd arg c = Some (x, (answer (cmd_packet cmd arg) c')\<lparr>rx := x, outq := xs\<rparr>)"
proof -
  let ?c = "SELECT sd_ports (DESELECT sd_ports c)"
  have q: "quiet ?c" using deselect_select by blast
  then have q': "quiet c'" using assms(5) by (simp add: quiet_def)
  have "cmd_in (answer (cmd_packet cmd arg) c') = []"
    using q' by (simp add: answer_def Let_def quiet_def)
  then show ?thesis
    using assms wait_ready_quiet [OF q] xmit_packet [OF q' assms(1)] resp_loop_first
    unfolding send_packet_def cmd_packet_def by simp
qed

lemma store_of_answer [simp]: "store_of (answer q c) = store_of c"
  by (simp add: answer_def Let_def)

lemma store_of_exchange [simp]: "store_of (exchange b c) = store_of c"
  by (simp add: exchange_def Let_def split: list.split option.split)

lemma store_of_release: "store_of (release_spi sd_ports c) = store_of c"
  by (simp add: release_spi_def DESELECT_def sd_rd_def sd_wr_def)

text \<open>The two read commands and the stop command, for any card state before them.\<close>

lemma cmd_distinct [simp]:
  "CMD17 AND 0x80 = 0" "CMD18 AND 0x80 = 0" "CMD12 AND 0x80 = 0" "CMD17 \<noteq> 0xFF" "CMD18 \<noteq> 0xFF" "CMD12 \<noteq> 0xFF"
  "CMD17 \<noteq> CMD12" "CMD18 \<noteq> CMD12"
  by (simp_all add: cmd_defs)

lemma answer_read:
  "answer (cmd_packet CMD17 arg) c = c\<lparr>outq := [0x00, 0xFF] @ data_block c arg\<rparr>"
  "answer (cmd_packet CMD18 arg) c = c\<lparr>outq := [0x00], next_blk := Some arg\<rparr>"
  by (simp_all add: answer_def cmd_packet_def be32_packet cmd_defs)

lemma send_CMD17:
  "\<exists>c'. send_cmd sd_ports CMD17 arg c = Some (0, c') \<and> cmd_in c' = []
     \<and> outq c' = 0xFF # data_block c arg \<and> store_of c' = store_of c"
proof -
  let ?c = "(SELECT sd_ports (DESELECT sd_ports c))\<lparr>tim2 := 50, rx := 0xFF\<rparr>"
  have q: "cmd_in ?c = []" "store_of ?c = store_of c" using deselect_select [of c] by (simp_all add: quiet_def)
  have "outq (answer (cmd_packet CMD17 arg) ?c) = 0 # 0xFF # data_block ?c arg" by (simp add: answer_read)
  from send_packet_answer [OF _ _ this _ refl] q show ?thesis
    by (simp add: send_cmd_def answer_read data_block_def)
qed

lemma send_CMD18:
  "\<exists>c'. send_cmd sd_ports CMD18 arg c = Some (0, c') \<and> cmd_in c' = []
     \<and> outq c' = [] \<and> next_blk c' = Some arg \<and> store_of c' = store_of c"
proof -
  let ?c = "(SELECT sd_ports (DESELECT sd_ports c))\<lparr>tim2 := 50, rx := 0xFF\<rparr>"
  have q: "cmd_in ?c = []" "store_of ?c = store_of c" using deselect_select [of c] by (simp_all add: quiet_def)
  have "outq (answer (cmd_packet CMD18 arg) ?c) = 0 # []" by (simp add: answer_read)
  from send_packet_answer [OF _ _ this _ refl] q show ?thesis
    by (simp add: send_cmd_def answer_read)
qed

lemma send_CMD12:
  "\<exists>r c'. send_cmd sd_ports CMD12 0 c = Some (r, c') \<and> store_of c' = store_of c"
proof -
  let ?c = "SELECT sd_ports (DESELECT sd_ports c)"
  have q: "quiet ?c" "store_of ?c = store_of c" using deselect_select by blast+
  have r: "store_of (snd (resp_loop sd_ports n c)) = store_of c" for n c
    by (induction n arbitrary: c) auto
  have x: "store_of (xmit_all sd_ports bs c) = store_of c" for bs c
    by (induction bs arbitrary: c) auto
  show ?thesis
    using wait_ready_quiet [OF q(1)] q(2)
    by (simp add: send_cmd_def send_packet_def prod_eq_iff r x)
qed

section \<open>Blocks\<close>

lemma rcvr_datablock_card:
  assumes "exchange 0xFF (c\<lparr>tim1 := 10\<rparr>) = c1" and "rx c1 = 0xFF" and "cmd_in c1 = []" and "tim1 c1 \<noteq> 0"
    and "outq c1 = 0xFE # bs @ [0, 0]" and "length bs = 512"
  shows "\<exists>c'. rcvr_datablock sd_ports buff 512 c = Some (True, bs, c') \<and> cmd_in c' = []
    \<and> outq c' = [] \<and> next_blk c' = next_blk c1 \<and> store_of c' = store_of c1"
proof -
  let ?c2 = "c1\<lparr>tim1 := tick_down (tim1 c1), rx := 0xFE, outq := bs @ [0, 0]\<rparr>"
  have e2: "exchange 0xFF (c1\<lparr>tim1 := tick_down (tim1 c1)\<rparr>) = ?c2"
    using assms by (subst exchange_out [of _ "0xFE" "bs @ [0, 0]"]) simp_all
  have t: "token_loop sd_ports (c\<lparr>tim1 := 10\<rparr>) = Some (0xFE, ?c2)"
    using assms(1,2,4) e2 by (simp add: token_loop.simps [of _ "c\<lparr>tim1 := 10\<rparr>"] token_loop.simps [of _ "c1\<lparr>tim1 := tick_down (tim1 c1)\<rparr>"])
  obtain x where x: "rcvr_n sd_ports 512 ?c2 = (bs, ?c2\<lparr>rx := x, outq := [0, 0]\<rparr>)"
    using rcvr_n_out [of ?c2 bs "[0, 0]"] assms(3,6) by auto
  have n: "512 * unat (drop_bit 4 (ucast (push_bit 4 (512 div 512 :: WORD)) :: BYTE) AND 7) = 512"
    by code_simp
  have d: "dma_to_ram sd_ports (ucast (push_bit 4 (512 div 512 :: WORD))) ?c2 = (bs, ?c2\<lparr>rx := x, outq := [0, 0]\<rparr>)"
    unfolding dma_to_ram_def n using x by simp
  show ?thesis
    using assms(3) t d by (simp add: rcvr_datablock_def exchange_out)
qed

lemma read_blocks_card:
  assumes "cmd_in c = []" and "outq c = []" and "next_blk c = Some a" and "\<And>s. length (store_of c s) = 512"
  shows "\<exists>c'. read_blocks sd_ports buff n c = Some (0, sectors (store_of c) a n, c') \<and> store_of c' = store_of c"
  using assms
proof (induction n arbitrary: c a buff)
  case 0
  then show ?case by (simp add: sectors_def)
next
  case (Suc n)
  let ?c1 = "c\<lparr>tim1 := 10, rx := 0xFF, outq := data_block c a, next_blk := Some (a + 1)\<rparr>"
  have "exchange 0xFF (c\<lparr>tim1 := 10\<rparr>) = ?c1"
    using Suc.prems by (simp add: exchange_stream data_block_def)
  from rcvr_datablock_card [OF this, of "store_of c a" buff] Suc.prems obtain c2
    where b: "rcvr_datablock sd_ports buff 512 c = Some (True, store_of c a, c2)"
      and c2: "cmd_in c2 = []" "outq c2 = []" "next_blk c2 = Some (a + 1)" "store_of c2 = store_of c"
    by (auto simp: data_block_def)
  from Suc.IH [OF c2(1-3), of "buff + 512"] c2(4) Suc.prems(4) obtain c3
    where r: "read_blocks sd_ports (buff + 512) n c2 = Some (0, sectors (store_of c) (a + 1) n, c3)"
      and c3: "store_of c3 = store_of c" by auto
  have "map (\<lambda>i. store_of c (a + of_nat i)) [0..<Suc n]
      = store_of c a # map (\<lambda>i. store_of c (a + 1 + of_nat i)) [0..<n]"
    by (simp add: upt_conv_Cons map_Suc_upt [symmetric] add.assoc comp_def del: upt_Suc)
  then have "sectors (store_of c) a (Suc n) = store_of c a @ sectors (store_of c) (a + 1) n"
    by (simp only: sectors_def concat.simps)
  with b r c3 show ?case by simp
qed

text \<open>disk_read on a card of block addresses.\<close>

lemma disk_read_card:
  assumes "Stat s AND STA_NOINIT = 0" and "CardType s AND 8 \<noteq> 0" and "cnt \<noteq> 0"
    and len: "\<And>x. length (store_of (hw s) x) = 512"
  shows "\<exists>h. disk_read sd_ports 0 buff sect cnt s = Some (RES_OK, sectors (store_of (hw s)) sect (unat cnt), s\<lparr>hw := h\<rparr>)
    \<and> store_of h = store_of (hw s)"
proof (cases "cnt = 1")
  case True
  obtain c1 where s1: "send_cmd sd_ports CMD17 sect (hw s) = Some (0, c1)"
      and c1: "cmd_in c1 = []" "outq c1 = 0xFF # data_block (hw s) sect" "store_of c1 = store_of (hw s)"
    using send_CMD17 by blast
  have "exchange 0xFF (c1\<lparr>tim1 := 10\<rparr>) = c1\<lparr>tim1 := 10, rx := 0xFF, outq := data_block (hw s) sect\<rparr>"
    using c1 by (simp add: exchange_out)
  from rcvr_datablock_card [OF this, of "store_of (hw s) sect" buff] c1 len obtain c2
    where "rcvr_datablock sd_ports buff 512 c1 = Some (True, store_of (hw s) sect, c2)"
      and "store_of c2 = store_of (hw s)"
    by (auto simp: data_block_def)
  with assms s1 True show ?thesis
    by (auto simp: disk_read_def card_address_def Let_def store_of_release)
next
  case False
  obtain c1 where s1: "send_cmd sd_ports CMD18 sect (hw s) = Some (0, c1)"
      and c1: "cmd_in c1 = []" "outq c1 = []" "next_blk c1 = Some sect" "store_of c1 = store_of (hw s)"
    using send_CMD18 by blast
  obtain c2 where r: "read_blocks sd_ports buff (unat cnt) c1 = Some (0, sectors (store_of (hw s)) sect (unat cnt), c2)"
      and c2: "store_of c2 = store_of (hw s)"
    using read_blocks_card [OF c1(1-3)] c1(4) len by metis
  obtain q c3 where "send_cmd sd_ports CMD12 0 c2 = Some (q, c3)" "store_of c3 = store_of c2"
    using send_CMD12 by blast
  with assms s1 r c2 False show ?thesis
    by (auto simp: disk_read_def card_address_def Let_def store_of_release)
qed

section \<open>The driver and the card are a disk\<close>

definition card_img :: "card mmc \<Rightarrow> DWORD \<Rightarrow> BYTE list" where
  "card_img s = (if CardType s AND 8 \<noteq> 0 then store_of (hw s) else (\<lambda>_. []))"

lemma card_readable: "readable card_img s \<Longrightarrow> CardType s AND 8 \<noteq> 0 \<and> (\<forall>x. length (store_of (hw s) x) = 512)"
  by (auto simp: readable_def card_img_def split: if_splits)

lemma disk_read_readable:
  assumes "readable card_img s" and "disk_read sd_ports 0 adr sect cnt s = Some (r, bs, s')"
  shows "card_img s' = card_img s \<and> (r = RES_OK \<longrightarrow> bs = sectors (card_img s) sect (unat cnt))"
proof -
  have c: "CardType s AND 8 \<noteq> 0" and len: "length (store_of (hw s) x) = 512" for x
    using card_readable [OF assms(1)] by simp_all
  show ?thesis
  proof (cases "cnt = 0 \<or> Stat s AND STA_NOINIT \<noteq> 0")
    case True
    with assms(2) show ?thesis by (auto simp: disk_read_def split: if_splits)
  next
    case False
    then have "Stat s AND STA_NOINIT = 0" "cnt \<noteq> 0" by simp_all
    from disk_read_card [OF this(1) c this(2) len, of adr sect] obtain h
      where "disk_read sd_ports 0 adr sect cnt s = Some (RES_OK, sectors (store_of (hw s)) sect (unat cnt), s\<lparr>hw := h\<rparr>)"
        "store_of h = store_of (hw s)" by blast
    with assms(2) c show ?thesis
      by (auto simp: card_img_def)
  qed
qed

interpretation sd: live_disk "mmc_io sd_ports csd_adr csd ro win" card_img for csd_adr csd ro win
proof unfold_locales
  fix d adr sect cnt bs d' r
  let ?e = "mmc_io sd_ports csd_adr csd ro win"
  assume rd: "readable card_img d"
  show "d_read ?e 0 adr sect cnt d = Some (RES_OK, bs, d') \<Longrightarrow> bs = sectors (card_img d) sect (unat cnt)"
    using disk_read_readable [OF rd] by auto
  show "d_read ?e 0 adr sect cnt d = Some (r, bs, d') \<Longrightarrow> card_img d' = card_img d"
    using disk_read_readable [OF rd] by auto
  show "d_status ?e 0 d AND STA_NOINIT = 0 \<Longrightarrow> cnt \<noteq> 0 \<Longrightarrow>
      \<exists>bs d'. d_read ?e 0 adr sect cnt d = Some (RES_OK, bs, d')"
    using disk_read_card [of d] card_readable [OF rd] by (auto simp: disk_status_def) (metis)
qed

section \<open>Initialisation finds the card\<close>

lemma send_packet_card:
  assumes "cmd \<noteq> 0xFF" and "cmd \<noteq> CMD12" and "x AND 0x80 = 0"
    and "\<And>c'. outq (answer (cmd_packet cmd arg) c') = x # xs"
    and "\<And>c'. cmd_in (answer (cmd_packet cmd arg) c') = cmd_in c' \<and> tim1 (answer (cmd_packet cmd arg) c') = tim1 c'"
  shows "\<exists>c'. send_packet sd_ports cmd arg c = Some (x, c') \<and> cmd_in c' = [] \<and> outq c' = xs
    \<and> store_of c' = store_of c \<and> tim1 c' = tim1 c"
proof -
  let ?c = "(SELECT sd_ports (DESELECT sd_ports c))\<lparr>tim2 := 50, rx := 0xFF\<rparr>"
  have "cmd_in ?c = []" "store_of ?c = store_of c" "tim1 ?c = tim1 c"
    using deselect_select [of c] by (simp_all add: quiet_def)
  with send_packet_answer [OF assms(1,2) assms(4) assms(3) refl, of c] assms(5) show ?thesis by simp
qed

lemma rcvr_4:
  assumes "cmd_in c = []" and "outq c = [a, b, d, f]"
  shows "\<exists>x. rcvr_n sd_ports 4 c = ([a, b, d, f], c\<lparr>rx := x, outq := []\<rparr>)"
proof -
  have "length [a, b, d, f] = 4" by simp
  with rcvr_n_out [of c "[a, b, d, f]" "[]"] assms show ?thesis by (metis append_Nil2)
qed

lemma init_sdhc_card:
  assumes "cmd_in c = []" and "outq c = [0x00, 0x00, 0x01, 0xAA]" and "tim1 c = 100"
  shows "\<exists>c'. init_sdhc sd_ports c = Some (12, c') \<and> store_of c' = store_of c"
proof -
  obtain x where r1: "rcvr_n sd_ports 4 c = ([0x00, 0x00, 0x01, 0xAA], c\<lparr>rx := x, outq := []\<rparr>)"
    using rcvr_4 [OF assms(1,2)] by blast
  let ?c1 = "c\<lparr>rx := x, outq := [], tim1 := 99\<rparr>"
  obtain c2 where s55: "send_packet sd_ports CMD55 0 ?c1 = Some (1, c2)" "store_of c2 = store_of c" "tim1 c2 = 99"
    using send_packet_card [of CMD55 1 0 "[]" ?c1] by (auto simp: answer_def cmd_packet_def cmd_defs)
  obtain c3 where s41: "send_packet sd_ports (ACMD41 AND 0x7F) (push_bit 30 1) c2 = Some (0, c3)"
      "store_of c3 = store_of c" "tim1 c3 = 99"
    using send_packet_card [of "ACMD41 AND 0x7F" 0 "push_bit 30 1" "[]" c2] s55
    by (auto simp: answer_def cmd_packet_def cmd_defs)
  have "ACMD41 AND 0x80 \<noteq> 0" by (simp add: cmd_defs)
  with s55 s41 have s: "send_cmd sd_ports ACMD41 (push_bit 30 1) ?c1 = Some (0, c3)"
    by (simp add: send_cmd_def)
  have li: "leave_idle sd_ports ACMD41 (push_bit 30 1) (c\<lparr>rx := x, outq := []\<rparr>) = Some c3"
    using assms(3) s by (subst leave_idle.simps) (simp add: tick_down_def)
  let ?c3 = "c3\<lparr>tim1 := 98\<rparr>"
  obtain c4 where s58: "send_packet sd_ports CMD58 0 ?c3 = Some (0, c4)" "cmd_in c4 = []"
      "outq c4 = [0xC0, 0xFF, 0x80, 0x00]" "store_of c4 = store_of c"
    using send_packet_card [of CMD58 0 0 "[0xC0, 0xFF, 0x80, 0x00]" ?c3] s41
    by (auto simp: answer_def cmd_packet_def cmd_defs)
  obtain y where r2: "rcvr_n sd_ports 4 c4 = ([0xC0, 0xFF, 0x80, 0x00], c4\<lparr>rx := y, outq := []\<rparr>)"
    using rcvr_4 [OF s58(2,3)] by blast
  have s: "send_cmd sd_ports CMD58 0 ?c3 = Some (0, c4)" using s58(1) by (simp add: send_cmd_def cmd_defs)
  have t: "tick_down 99 = 98" by (simp add: tick_down_def)
  show ?thesis
    unfolding init_sdhc_def r1 prod.case using li s41(3) s r2 s58(4) t by simp
qed

lemma disk_initialize_card:
  assumes "Stat s AND STA_NODISK = 0"
  shows "\<exists>h. disk_initialize sd_ports 0 s = Some (Stat s AND NOT STA_NOINIT,
      s\<lparr>CardType := 12, hw := h, Stat := Stat s AND NOT STA_NOINIT\<rparr>) \<and> store_of h = store_of (hw s)"
proof -
  have st: "store_of (snd (rcvr_n sd_ports n c)) = store_of c" for n c
    by (induction n arbitrary: c) (auto split: prod.split, metis snd_conv store_of_exchange)
  let ?c = "snd (rcvr_n sd_ports 10 (hw s))"
  obtain c1 where s0: "send_packet sd_ports CMD0 0 ?c = Some (1, c1)" "store_of c1 = store_of (hw s)"
    using send_packet_card [of CMD0 1 0 "[]" ?c] st [of 10 "hw s"]
    by (auto simp: answer_def cmd_packet_def cmd_defs)
  let ?c1 = "c1\<lparr>tim1 := 100\<rparr>"
  obtain c2 where s8: "send_packet sd_ports CMD8 0x1AA ?c1 = Some (1, c2)" "cmd_in c2 = []"
      "outq c2 = [0x00, 0x00, 0x01, 0xAA]" "store_of c2 = store_of (hw s)" "tim1 c2 = 100"
    using send_packet_card [of CMD8 1 "0x1AA" "[0x00, 0x00, 0x01, 0xAA]" ?c1] s0
    by (auto simp: answer_def cmd_packet_def cmd_defs)
  obtain c3 where i: "init_sdhc sd_ports c2 = Some (12, c3)" "store_of c3 = store_of (hw s)"
    using init_sdhc_card [OF s8(2,3,5)] s8(4) by auto
  have "CMD0 AND 0x80 = 0" "CMD8 AND 0x80 = 0" by (simp_all add: cmd_defs)
  then have "init_card sd_ports ?c = Some (12, c3)"
    using s0 s8 i by (simp add: init_card_def send_cmd_def)
  with assms i(2) show ?thesis
    by (intro exI [of _ "release_spi sd_ports c3"]) (simp add: disk_initialize_def Let_def store_of_release)
qed

end
