(* ===== verification/Fdd_Reading.thy ===== *)
theory Fdd_Reading
  imports Fddimage Tff_Seeking Sd_Card
begin

text \<open>
  The floppy image over the FAT module. Locale \<open>image_file\<close> states what fddimage.c relies on: a
  file that can be positioned and read. The FAT module provides it over every live disk, and so
  over the SD card of theory Sd_Card.
\<close>

section \<open>Positions\<close>

definition fdd_position :: "nat \<Rightarrow> nat \<Rightarrow> nat \<Rightarrow> nat" where
  "fdd_position side track sector = ((2 * track + (1 - side)) * 5 + (sector - 1)) * 1024"

lemma calc_offset_value:
  assumes "cur_side fdd \<le> 1" and "1 \<le> cur_sector fdd"
  shows "unat (calc_offset fdd)
    = fdd_position (unat (cur_side fdd)) (unat (cur_track fdd)) (unat (cur_sector fdd))"
proof -
  let ?s = "unat (cur_side fdd)" and ?t = "unat (cur_track fdd)" and ?n = "unat (cur_sector fdd)"
  have s: "?s \<le> 1" and n: "1 \<le> ?n" using assms by (simp_all add: word_le_nat_alt)
  have b: "?t < 256" "?n < 256" by (rule BYTE_less)+
  have w1: "unat (1 - ucast (cur_side fdd) :: WORD) = 1 - ?s"
    using s by (subst unat_sub) (simp_all add: word_le_nat_alt unat_ucast_up)
  have w2: "unat (FDD_NSIDES * ucast (cur_track fdd)) = 2 * ?t"
    using b(1) by (simp del: BYTE_less add: FDD_NSIDES_def unat_word_ariths unat_ucast_up)
  define W where "W = FDD_NSIDES * ucast (cur_track fdd) + (1 - ucast (cur_side fdd))"
  have w: "unat W = 2 * ?t + (1 - ?s)"
    unfolding W_def using b(1) by (subst unat_plus_less) (simp_all del: BYTE_less add: w1 w2)
  have d1: "unat (ucast W * ucast FDD_NSECTORS :: DWORD) = (2 * ?t + (1 - ?s)) * 5"
    using b(1) by (simp del: BYTE_less add: unat_word_ariths unat_ucast_up w FDD_NSECTORS_def)
  have u: "unat (ucast (cur_sector fdd) - 1 :: WORD) = ?n - 1"
    using n by (subst unat_sub) (simp_all add: word_le_nat_alt unat_ucast_up)
  then have "\<not> bit (unat (ucast (cur_sector fdd) - 1 :: WORD)) 15"
    using b(2) by (simp del: BYTE_less add: bit_iff_odd)
  then have "\<not> bit (ucast (cur_sector fdd) - 1 :: WORD) 15"
    by (simp add: bit_unsigned_iff)
  then have "(scast (ucast (cur_sector fdd) - 1 :: WORD) :: DWORD) = ucast (ucast (cur_sector fdd) - 1 :: WORD)"
  proof (intro bit_word_eqI)
    fix n
    show "bit (scast (ucast (cur_sector fdd) - 1 :: WORD) :: DWORD) n = bit (ucast (ucast (cur_sector fdd) - 1 :: WORD) :: DWORD) n"
      if "n < LENGTH(32)" "\<not> bit (ucast (cur_sector fdd) - 1 :: WORD) 15"
      using that bit_imp_le_length [of "ucast (cur_sector fdd) - 1 :: WORD" n]
      by (cases "n \<le> 15") (auto simp: bit_simps min_def le_Suc_eq)
  qed
  then have sc: "unat (scast (ucast (cur_sector fdd) - 1 :: WORD) :: DWORD) = ?n - 1"
    by (simp add: unat_ucast_up u)
  define X where "X = ucast W * ucast FDD_NSECTORS + (scast (ucast (cur_sector fdd) - 1 :: WORD) :: DWORD)"
  have "unat X = (2 * ?t + (1 - ?s)) * 5 + (?n - 1)"
    unfolding X_def using b by (subst unat_plus_less) (simp_all del: BYTE_less add: d1 sc)
  moreover have "calc_offset fdd = X * ucast FDD_SECTOR_SIZE"
    by (simp add: calc_offset_def Let_def X_def W_def)
  ultimately show ?thesis
    using b by (simp del: BYTE_less add: fdd_position_def FDD_SECTOR_SIZE_def unat_word_ariths)
qed

text \<open>Two sectors of a disk of 5 sectors a track share no position.\<close>

lemma fdd_position_inj:
  assumes "fdd_position s t n = fdd_position s' t' n'" and "s \<le> 1" "s' \<le> 1"
    and "1 \<le> n" "n \<le> 5" "1 \<le> n'" "n' \<le> 5"
  shows "s = s' \<and> t = t' \<and> n = n'"
proof -
  let ?a = "2 * t + (1 - s)" and ?a' = "2 * t' + (1 - s')"
  have e: "?a * 5 + (n - 1) = ?a' * 5 + (n' - 1)"
    using assms(1) by (simp add: fdd_position_def)
  have "?a = (?a * 5 + (n - 1)) div 5" using assms(5) by simp
  also have "\<dots> = ?a'" using assms(7) unfolding e by simp
  finally have a: "?a = ?a'" .
  have "n - 1 = n' - 1" using e unfolding a by simp
  then have "n = n'" using assms(4,6) by linarith
  with a assms(2,3) show ?thesis by presburger
qed

section \<open>The interface\<close>

locale image_file =
  fixes e :: "'d fsenv" and is_open :: "FIL \<Rightarrow> 'd tff \<Rightarrow> bool" and content :: "FIL \<Rightarrow> 'd tff \<Rightarrow> BYTE list"
  assumes seek_ok: "is_open fp s \<Longrightarrow> \<exists>fp' s'. f_lseek e fp ofs s = Some (FR_OK, fp', s') \<and> is_open fp' s'
      \<and> content fp' s' = content fp s \<and> unat (fptr fp') = min (unat ofs) (length (content fp s))"
    and read_ok: "is_open fp s \<Longrightarrow> f_lseek e fp ofs s = Some (FR_OK, fp', s') \<Longrightarrow> unat btr \<le> length buff \<Longrightarrow>
      \<exists>fp'' br s''. f_read e fp' adr buff btr s' = Some (FR_OK, fp'',
          store 0 (take (unat btr) (drop (unat (fptr fp')) (content fp' s'))) buff, br, s'')
        \<and> is_open fp'' s'' \<and> content fp'' s'' = content fp s"
begin

lemma readsector:
  assumes "is_open file s" and "length buff = 1024"
    and "cur_side fdd \<le> 1" and "1 \<le> cur_sector fdd"
    and "fdd_position (unat (cur_side fdd)) (unat (cur_track fdd)) (unat (cur_sector fdd)) + 1024
      \<le> length (content file s)"
  shows "\<exists>file' s'. fdd_readsector e fdd file buff s = Some (FR_OK, file',
      take 1024 (drop (fdd_position (unat (cur_side fdd)) (unat (cur_track fdd)) (unat (cur_sector fdd)))
        (content file s)), s') \<and> is_open file' s' \<and> content file' s' = content file s"
proof -
  let ?o = "fdd_position (unat (cur_side fdd)) (unat (cur_track fdd)) (unat (cur_sector fdd))"
  have o: "unat (calc_offset fdd) = ?o" by (rule calc_offset_value [OF assms(3,4)])
  obtain f1 s1 where l: "f_lseek e file (calc_offset fdd) s = Some (FR_OK, f1, s1)"
      and f1: "content f1 s1 = content file s" "unat (fptr f1) = ?o"
    using seek_ok [OF assms(1), of "calc_offset fdd"] o assms(5) by auto
  have "unat FDD_SECTOR_SIZE = 1024" by (simp add: FDD_SECTOR_SIZE_def)
  with read_ok [OF assms(1) l, of FDD_SECTOR_SIZE buff "fd_buffer fdd"] assms(2,5) f1 l show ?thesis
    by (auto simp: fdd_readsector_def store_all)
qed

end

text \<open>The FAT module provides the interface.\<close>

definition image_open :: "'d fsenv \<Rightarrow> ('d \<Rightarrow> DWORD \<Rightarrow> BYTE list) \<Rightarrow> CLUST list \<Rightarrow> FIL \<Rightarrow> 'd tff \<Rightarrow> bool" where
  "image_open e im cs fp s \<longleftrightarrow> open_on e im cs fp s \<and> flag fp AND FA_READ \<noteq> 0 \<and> ready_disk e s"

definition image_bytes :: "('d \<Rightarrow> DWORD \<Rightarrow> BYTE list) \<Rightarrow> CLUST list \<Rightarrow> FIL \<Rightarrow> 'd tff \<Rightarrow> BYTE list" where
  "image_bytes im cs fp s = file_bytes (im (disk s)) (cur_fs s) cs fp"

lemma length_image_bytes:
  "open_on e im cs fp s \<Longrightarrow> length (image_bytes im cs fp s) = unat (fsize fp)"
  by (simp add: image_bytes_def file_bytes_def open_on_def file_on_def length_file_data cached_length)

context live_disk begin

lemma image_seek:
  assumes "image_open e img cs fp s"
  shows "\<exists>fp' s'. f_lseek e fp ofs s = Some (FR_OK, fp', s') \<and> image_open e img cs fp' s'
    \<and> reading_file e img cs fp' s' \<and> image_bytes img cs fp' s' = image_bytes img cs fp s
    \<and> unat (fptr fp') = min (unat ofs) (length (image_bytes img cs fp s))"
proof -
  have o: "open_on e img cs fp s" and r: "ready_disk e s" and fl: "flag fp AND FA_READ \<noteq> 0"
    using assms by (simp_all add: image_open_def)
  obtain fp' s' where l: "f_lseek e fp ofs s = Some (FR_OK, fp', s')"
    using f_lseek_lives [OF o r] by blast
  from f_lseek_seeks [OF o r l] have k: "kept e img s s'" and sf: "same_file fp fp'"
    and ok: "open_on e img cs fp' s'" "flag fp' = flag fp" "pos_ok (cur_fs s') cs fp'" "fptr fp' = min ofs (fsize fp)"
    by auto
  have "unat (fptr fp') = min (unat ofs) (unat (fsize fp))"
    using ok(4) by (simp add: min_def word_le_nat_alt)
  moreover have "fptr fp' \<le> fsize fp'" using ok(4) sf by (simp add: same_file_def)
  ultimately show ?thesis
    using l ok fl r ready_disk_kept [OF k] file_bytes_kept [OF k sf] length_image_bytes [OF o]
    by (auto simp: image_open_def reading_file_def image_bytes_def)
qed

lemma image_read:
  assumes "image_open e img cs fp s" and "f_lseek e fp ofs s = Some (FR_OK, fp', s')" and "unat btr \<le> length buff"
  shows "\<exists>fp'' br s''. f_read e fp' adr buff btr s' = Some (FR_OK, fp'',
      store 0 (take (unat btr) (drop (unat (fptr fp')) (image_bytes img cs fp' s'))) buff, br, s'')
    \<and> image_open e img cs fp'' s'' \<and> image_bytes img cs fp'' s'' = image_bytes img cs fp s"
proof -
  have i: "image_open e img cs fp' s'" and rf: "reading_file e img cs fp' s'"
    and b: "image_bytes img cs fp' s' = image_bytes img cs fp s"
    using image_seek [OF assms(1), of ofs] assms(2) by auto
  have r: "ready_disk e s'" using i by (simp add: image_open_def)
  obtain fp'' buff' br s'' where f: "f_read e fp' adr buff btr s' = Some (FR_OK, fp'', buff', br, s'')"
    using f_read_lives [OF rf r] by blast
  from f_read_reads [OF rf r assms(3) f] have k: "kept e img s' s''" and sf: "same_file fp' fp''"
    and "buff' = store 0 (take (unat btr) (drop (unat (fptr fp')) (image_bytes img cs fp' s'))) buff"
    and "reading_file e img cs fp'' s''"
    by (auto simp: image_bytes_def)
  with f ready_disk_kept [OF k] r file_bytes_kept [OF k sf] b show ?thesis
    by (simp add: image_open_def reading_file_def image_bytes_def)
qed

end

sublocale live_disk \<subseteq> image: image_file e "image_open e img cs" "image_bytes img cs" for cs
proof unfold_locales
  fix fp s ofs fp' s' btr and buff :: "BYTE list" and adr
  show "image_open e img cs fp s \<Longrightarrow> \<exists>fp' s'. f_lseek e fp ofs s = Some (FR_OK, fp', s') \<and> image_open e img cs fp' s'
      \<and> image_bytes img cs fp' s' = image_bytes img cs fp s
      \<and> unat (fptr fp') = min (unat ofs) (length (image_bytes img cs fp s))"
    using image_seek by blast
  show "image_open e img cs fp s \<Longrightarrow> f_lseek e fp ofs s = Some (FR_OK, fp', s') \<Longrightarrow> unat btr \<le> length buff \<Longrightarrow>
      \<exists>fp'' br s''. f_read e fp' adr buff btr s' = Some (FR_OK, fp'',
          store 0 (take (unat btr) (drop (unat (fptr fp')) (image_bytes img cs fp' s'))) buff, br, s'')
        \<and> image_open e img cs fp'' s'' \<and> image_bytes img cs fp'' s'' = image_bytes img cs fp s"
    by (rule image_read)
qed

interpretation sdf: image_file "mmc_io sd_ports csd_adr csd ro win"
  "image_open (mmc_io sd_ports csd_adr csd ro win) card_img cs" "image_bytes card_img cs"
  for csd_adr csd ro win cs
  by (rule sd.image.image_file_axioms)

end
