(* ===== verification/Sector_Request.thy ===== *)
theory Sector_Request
  imports Slave_Props Fdd_Reading
begin

text \<open>
  A read request of the host, from end to end: the request handler over the floppy image, the FAT
  module, the card driver and the card. On the card of theory Sd_Card the request is answered
  with the right bytes in the sector buffer and the right byte at the status port.
\<close>

section \<open>The ports of the card's board\<close>

definition card_board :: "card fboard \<Rightarrow> bool" where
  "card_board b \<longleftrightarrow> ports b = sd_ports \<and> (\<exists>csd_adr csd ro win. fsenv b = mmc_io sd_ports csd_adr csd ro win)"

lemma port_others [simp]:
  "SERIAL_TxD \<noteq> SPDR" "SERIAL_TxD \<noteq> MMC_A" "SERIAL_TxD \<noteq> TIMER_1" "SERIAL_TxD \<noteq> TIMER_2" "SERIAL_TxD \<noteq> SLAVE_STATUS"
  "SERIAL_CTL \<noteq> SPDR" "SERIAL_CTL \<noteq> MMC_A" "SERIAL_CTL \<noteq> TIMER_1" "SERIAL_CTL \<noteq> TIMER_2"
  "SLAVE_STATUS \<noteq> SPDR" "SLAVE_STATUS \<noteq> MMC_A" "SLAVE_STATUS \<noteq> TIMER_1" "SLAVE_STATUS \<noteq> TIMER_2"
  "MASTER_TRACK \<noteq> SPDR" "MASTER_TRACK \<noteq> MMC_A" "MASTER_TRACK \<noteq> TIMER_1" "MASTER_TRACK \<noteq> TIMER_2" "MASTER_TRACK \<noteq> SERIAL_CTL"
  "MASTER_SECTOR \<noteq> SPDR" "MASTER_SECTOR \<noteq> MMC_A" "MASTER_SECTOR \<noteq> TIMER_1" "MASTER_SECTOR \<noteq> TIMER_2" "MASTER_SECTOR \<noteq> SERIAL_CTL"
  by (simp_all add: port_defs)

lemma sd_serial [simp]: "ser_wait sd_ports c = Some c" "sd_wr SERIAL_TxD v c = c"
  by (subst ser_wait.simps) (simp_all add: sd_rd_def sd_wr_def)

lemma sd_ser [simp]:
  "ser_putc sd_ports v c = Some c" "ser_nl sd_ports c = Some c" "print_hex sd_ports v c = Some c"
  by (simp_all add: ser_putc_def ser_nl_def print_hex_def)

lemma sd_puts [simp]: "ser_puts sd_ports s c = Some c"
  by (induction s) simp_all

lemma set_hw_same [simp]: "set_hw (get_hw w) w = w"
  by (simp add: set_hw_def get_hw_def)

lemma board_output [simp]:
  assumes "card_board b"
  shows "vputs b t w = Some w" "vputc b c w = Some w" "vputh b c w = Some w" "vnl b w = Some w"
    "vposition b w = Some w"
  using assms by (simp_all add: card_board_def output_defs vposition_def io_def)

lemma brd_ports [simp]: "ports (brd b) = ports b"
  by (simp add: brd_def board.truncate_def)

lemma board_host:
  assumes "card_board b"
  shows "rd (brd b) MASTER_TRACK w = (host (get_hw w) MASTER_TRACK, w)"
    "rd (brd b) MASTER_SECTOR w = (host (get_hw w) MASTER_SECTOR, w)"
  using assms by (simp_all add: rd_def card_board_def sd_rd_def)

lemma board_status:
  assumes "card_board b"
  shows "set_status b v w = set_hw ((get_hw w)\<lparr>status_out := v\<rparr>) w"
  using assms by (simp add: set_status_def wr_def card_board_def sd_wr_def)

section \<open>The image file survives port accesses\<close>

definition image_in :: "card fboard \<Rightarrow> CLUST list \<Rightarrow> card fworld \<Rightarrow> bool" where
  "image_in b cs w \<longleftrightarrow> image_open (fsenv b) card_img cs (file1 w) (tf (ph w))"

definition image_of :: "CLUST list \<Rightarrow> card fworld \<Rightarrow> BYTE list" where
  "image_of cs w = image_bytes card_img cs (file1 w) (tf (ph w))"

lemma image_disk:
  assumes "store_of h = store_of (hw (disk s))"
  shows "image_open (mmc_io sd_ports a c ro win) card_img cs fp (s\<lparr>disk := (disk s)\<lparr>hw := h\<rparr>\<rparr>)
      = image_open (mmc_io sd_ports a c ro win) card_img cs fp s"
    and "image_bytes card_img cs fp (s\<lparr>disk := (disk s)\<lparr>hw := h\<rparr>\<rparr>) = image_bytes card_img cs fp s"
proof -
  have "card_img ((disk s)\<lparr>hw := h\<rparr>) = card_img (disk s)" using assms by (simp add: card_img_def)
  then show "image_open (mmc_io sd_ports a c ro win) card_img cs fp (s\<lparr>disk := (disk s)\<lparr>hw := h\<rparr>\<rparr>)
      = image_open (mmc_io sd_ports a c ro win) card_img cs fp s"
    "image_bytes card_img cs fp (s\<lparr>disk := (disk s)\<lparr>hw := h\<rparr>\<rparr>) = image_bytes card_img cs fp s"
    by (simp_all add: image_open_def open_on_def cached_def readable_def ready_disk_def disk_status_def image_bytes_def)
qed

lemma image_set_hw:
  assumes "card_board b" and "store_of h = store_of (get_hw w)"
  shows "image_in b cs (set_hw h w) = image_in b cs w" "image_of cs (set_hw h w) = image_of cs w"
  using assms image_disk [of h "tf (ph w)"]
  by (auto simp: image_in_def image_of_def card_board_def set_hw_def get_hw_def)

section \<open>The request\<close>

lemma request_read_card:
  assumes b: "card_board b" and i: "image_in b cs w" and l: "length (buffer w) = 1024"
    and d: "cmd AND 2 = 0"
    and n: "1 \<le> host (get_hw w) MASTER_SECTOR"
    and p: "pos = fdd_position (unat (1 AND cmd)) (unat (host (get_hw w) MASTER_TRACK)) (unat (host (get_hw w) MASTER_SECTOR))"
    and fit: "pos + 1024 \<le> length (image_of cs w)"
  shows "\<exists>w'. request_read b cmd w = Some (fresult_code FR_OK, 0, w')
    \<and> buffer w' = take 1024 (drop pos (image_of cs w))
    \<and> status_out (get_hw w') = CPU_STATUS_COMPLETE OR CPU_STATUS_SUCCESS
    \<and> image_in b cs w' \<and> image_of cs w' = image_of cs w"
proof -
  define w1 where "w1 = on_scr (\<lambda>o'. osd_puts TXT_MENU_BUSY (osd_gotoxy 0 7 o')) (set_status b CPU_STATUS_BUSY w)"
  have m: "menu_busy (brd b) 1 (set_status b CPU_STATUS_BUSY w) = Some w1"
    by (simp add: menu_busy_def busy_text_def w1_def)
  have g: "get_hw w1 = (get_hw w)\<lparr>status_out := CPU_STATUS_BUSY\<rparr>" "file1 w1 = file1 w" "buffer w1 = buffer w"
    by (simp_all add: w1_def board_status [OF b] get_hw_def set_hw_def on_scr_def)
  have "image_in b cs (set_status b CPU_STATUS_BUSY w)" "image_of cs (set_status b CPU_STATUS_BUSY w) = image_of cs w"
    using i by (simp_all add: board_status [OF b] image_set_hw [OF b])
  then have i1: "image_in b cs w1" "image_of cs w1 = image_of cs w"
    by (simp_all add: w1_def image_in_def image_of_def on_scr_def)
  define w2 where "w2 = seek_request b cmd w1"
  have w2: "file1 w2 = file1 w1" "ph w2 = ph w1" "buffer w2 = buffer w1"
      "cur_side (fddimage w2) = 1 AND cmd" "cur_track (fddimage w2) = host (get_hw w) MASTER_TRACK"
      "cur_sector (fddimage w2) = host (get_hw w) MASTER_SECTOR"
    by (simp_all add: w2_def seek_request_def board_host [OF b] fdd_seek_def Let_def g)
  have i2: "image_in b cs w2" "image_of cs w2 = image_of cs w"
    using i1 w2 by (simp_all add: image_in_def image_of_def)
  have s1: "1 AND cmd \<le> (1 :: BYTE)" by (rule word_and_le2)
  obtain a c ro win where e: "fsenv b = mmc_io sd_ports a c ro win" using b by (auto simp: card_board_def)
  have "\<exists>file' s'. fdd_readsector (fsenv b) (fddimage w2) (file1 w2) (buffer w2) (tf (ph w2)) = Some (FR_OK, file',
      take 1024 (drop (fdd_position (unat (cur_side (fddimage w2))) (unat (cur_track (fddimage w2))) (unat (cur_sector (fddimage w2))))
        (image_bytes card_img cs (file1 w2) (tf (ph w2)))), s')
      \<and> image_open (fsenv b) card_img cs file' s'
      \<and> image_bytes card_img cs file' s' = image_bytes card_img cs (file1 w2) (tf (ph w2))"
    unfolding e
  proof (rule sd.image.readsector)
    show "image_open (mmc_io sd_ports a c ro win) card_img cs (file1 w2) (tf (ph w2))"
      using i2(1) by (simp add: image_in_def e)
  qed (use l n s1 fit p i2(2) in \<open>simp_all add: w2 g image_of_def\<close>)
  then obtain file' s' where r: "fdd_readsector (fsenv b) (fddimage w2) (file1 w2) (buffer w2) (tf (ph w2))
        = Some (FR_OK, file', take 1024 (drop pos (image_of cs w)), s')"
      and i3: "image_open (fsenv b) card_img cs file' s'" "image_bytes card_img cs file' s' = image_of cs w"
    using i2(2) by (auto simp: w2 p image_of_def)
  define w3 where "w3 = w2\<lparr>file1 := file', buffer := take 1024 (drop pos (image_of cs w)), ph := (ph w2)\<lparr>tf := s'\<rparr>\<rparr>"
  have i4: "image_in b cs w3" "image_of cs w3 = image_of cs w"
    using i3 by (simp_all add: w3_def image_in_def image_of_def)
  have oi: "on_image (fdd_readsector (fsenv b)) w2 = Some (0, w3)"
    by (simp add: on_image_def r w3_def)
  have "request_read b cmd w = Some (0, 0, set_status b (final_status True 0) w3)"
    using b d m oi by (simp add: request_read_def Let_def w2_def [symmetric])
  moreover have "final_status True 0 = CPU_STATUS_COMPLETE OR CPU_STATUS_SUCCESS"
    by (simp add: final_status_def)
  ultimately show ?thesis
    using i4 image_set_hw [OF b, of "(get_hw w3)\<lparr>status_out := final_status True 0\<rparr>" w3 cs]
    by (simp add: board_status [OF b]) (simp add: w3_def get_hw_def set_hw_def)
qed

end
