(* ===== verification/Main_C.thy ===== *)
theory Main_C
  imports Slave
begin

text \<open>main.c: the start of the firmware and two helpers. get_fattime is in theory Tff_Write.\<close>

definition print_result :: "'h fboard \<Rightarrow> DRESULT \<Rightarrow> 'h fworld \<Rightarrow> 'h fworld option" where
  "print_result b result w = (
     if dresult_code result = 0 then Some w
     else do {
       w \<leftarrow> io (ser_puts (ports b) (bytes_of '' :( '')) w;
       w \<leftarrow> io (print_hex (ports b) (dresult_code result)) w;
       io (ser_nl (ports b)) w })"

definition fill_filename :: "BYTE list \<Rightarrow> BYTE list \<Rightarrow> BYTE list" where
  "fill_filename buf fn = strncpy (store 0 (replicate 12 0) buf) fn 12"

text \<open>main up to its call of thrall, which does not return.\<close>

definition main_start :: "'h fboard \<Rightarrow> 'h fworld \<Rightarrow> 'h fworld option" where
  "main_start b w = do {
     let w = wr (brd b) GREEN_LEDS 0xC3 (set_status b 0 w);
     w \<leftarrow> io (ser_puts (ports b) (bytes_of ''@'')) w;
     w \<leftarrow> io (delay2 (ports b) 10) w;
     w \<leftarrow> io (ser_nl (ports b)) w;
     w \<leftarrow> io (ser_puts (ports b) cnotice1) w;
     w \<leftarrow> io (ser_nl (ports b)) w;
     io (ser_puts (ports b) cnotice2) w }"

end
