(* ===== verification/Tff_Admin.thy ===== *)
theory Tff_Admin
  imports Tff_Write
begin

text \<open>
  The functions of tff.c that change the directory tree, compiled in when _FS_MINIMIZE is 0 and
  the module is built with writing: counting free clusters, deleting, creating directories,
  changing attributes and renaming.
\<close>

section \<open>Free clusters\<close>

partial_function (option) count_fat12 :: "'d fsenv \<Rightarrow> CLUST \<Rightarrow> DWORD \<Rightarrow> 'd tff \<Rightarrow> (DWORD \<times> 'd tff) option" where
  "count_fat12 e clust n s = do {
     (v, s) \<leftarrow> get_cluster e clust s;
     let n = (if v = 0 then n + 1 else n);
     let clust = clust + 1;
     if clust < max_clust (cur_fs s) then count_fat12 e clust n s else Some (n, s) }"

text \<open>
  The FAT16 loop: \<open>f\<close> counts entries and wraps at 256, when the next sector is loaded; \<open>p\<close> is
  the offset of the entry.
\<close>

partial_function (option) count_fat16 ::
  "'d fsenv \<Rightarrow> CLUST \<Rightarrow> DWORD \<Rightarrow> BYTE \<Rightarrow> nat \<Rightarrow> DWORD \<Rightarrow> 'd tff \<Rightarrow> (bool \<times> DWORD \<times> 'd tff) option" where
  "count_fat16 e clust sect f p n s = do {
     (ok, sect, p, s) \<leftarrow> (if f = 0 then do {
         (ok, s) \<leftarrow> move_window e sect s;
         Some (ok, sect + 1, 0, s) }
       else Some (True, sect, p, s));
     if \<not> ok then Some (False, n, s)
     else let n = (if LD_WORD (fs__win s) p = 0 then n + 1 else n); clust = clust - 1 in
       if clust \<noteq> 0 then count_fat16 e clust sect (f + 1) (p + 2) n s else Some (True, n, s) }"

definition f_getfree :: "'d fsenv \<Rightarrow> BYTE list \<Rightarrow> 'd tff \<Rightarrow> (FRESULT \<times> DWORD \<times> ptr \<times> 'd tff) option" where
  "f_getfree e drv s = do {
     (res, _, s) \<leftarrow> auto_mount e drv False s;
     if res \<noteq> FR_OK then Some (res, 0, NULL, s)
     else let fs = cur_fs s in
       if free_clust fs \<le> max_clust fs - 2 then Some (FR_OK, ucast (free_clust fs), FatFs s, s)
       else do {
         (ok, n, s) \<leftarrow> (if fs_type fs = FS_FAT12 then do {
             (n, s) \<leftarrow> count_fat12 e 2 0 s;
             Some (True, n, s) }
           else count_fat16 e (max_clust fs) (fatbase fs) 0 0 0 s);
         if \<not> ok then Some (FR_RW_ERROR, 0, FatFs s, s)
         else Some (FR_OK, n, FatFs s, upd_fs (\<lambda>f. f\<lparr>free_clust := ucast n\<rparr>) s) } }"

section \<open>Deleting\<close>

text \<open>The scan of f_unlink over a sub-directory: \<open>Hit\<close> when an entry is left in it.\<close>

partial_function (option) dir_nonempty :: "'d fsenv \<Rightarrow> DIR \<Rightarrow> 'd tff \<Rightarrow> (search \<times> 'd tff) option" where
  "dir_nonempty e dirobj s = do {
     (ok, s) \<leftarrow> move_window e (dj_sect dirobj) s;
     if \<not> ok then Some (Disk_Failure, s)
     else let i = entry_ofs dirobj; sdir = entry_at i s in
       if sdir ! 0 = 0 then Some (Miss, s)
       else if sdir ! 0 \<noteq> 0xE5 \<and> sdir ! DIR_Attr AND AM_VOL = 0 then Some (Hit i, s)
       else do {
         (more, dirobj, s) \<leftarrow> next_dir_entry e dirobj s;
         if more then dir_nonempty e dirobj s else Some (Miss, s) } }"

definition unlink_entry :: "'d fsenv \<Rightarrow> nat \<Rightarrow> DWORD \<Rightarrow> CLUST \<Rightarrow> 'd tff \<Rightarrow> (FRESULT \<times> 'd tff) option" where
  "unlink_entry e i dsect dclust s = do {
     (ok, s) \<leftarrow> move_window e dsect s;
     if \<not> ok then Some (FR_RW_ERROR, s)
     else do {
       (ok, s) \<leftarrow> remove_chain e dclust (set_dirty (set_win i 0xE5 s));
       if \<not> ok then Some (FR_RW_ERROR, s) else sync e s } }"

definition f_unlink :: "'d fsenv \<Rightarrow> BYTE list \<Rightarrow> DIR \<Rightarrow> 'd tff \<Rightarrow> (FRESULT \<times> 'd tff) option" where
  "f_unlink e path dirobj s = do {
     (res, path, s) \<leftarrow> auto_mount e path True s;
     if res \<noteq> FR_OK then Some (res, s)
     else do {
       (res, dirobj, _, dir, s) \<leftarrow> trace_path e dirobj (replicate 12 0) path s;
       if res \<noteq> FR_OK then Some (res, s)
       else case dir of
         None \<Rightarrow> Some (FR_INVALID_NAME, s)
       | Some i \<Rightarrow>
           let attr = fs__win s ! (i + DIR_Attr); dsect = winsect (cur_fs s);
               dclust = LD_WORD (fs__win s) (i + DIR_FstClusLO) in
           if attr AND AM_RDO \<noteq> 0 then Some (FR_DENIED, s)
           else do {
             (hit, s) \<leftarrow> (if attr AND AM_DIR \<noteq> 0 then
                 dir_nonempty e (dirobj\<lparr>dj_clust := dclust, dj_sect := clust2sect dclust s, dj_index := 2\<rparr>) s
               else Some (Miss, s));
             case hit of
               Disk_Failure \<Rightarrow> Some (FR_RW_ERROR, s)
             | Hit _ \<Rightarrow> Some (FR_DENIED, s)
             | Miss \<Rightarrow> unlink_entry e i dsect dclust s } } }"

section \<open>Creating a directory\<close>

text \<open>The table of a new directory, written to the window: the entries \<open>.\<close> and \<open>..\<close>.\<close>

definition dot_entries :: "CLUST \<Rightarrow> CLUST \<Rightarrow> 'd tff \<Rightarrow> 'd tff" where
  "dot_entries dclust pclust s = (let
       s = win_put 0 (replicate 11 0x20) s; s = set_win 0 0x2E s; s = set_win DIR_Attr AM_DIR s;
       s = win_dword DIR_WrtTime get_fattime s;
       s = win_put 32 (take 32 (fs__win s)) s; s = set_win 33 0x2E s;
       s = win_word DIR_FstClusLO dclust s; s = win_word (32 + DIR_FstClusLO) pclust s in
     set_dirty s)"

definition mkdir_table :: "'d fsenv \<Rightarrow> CLUST \<Rightarrow> CLUST \<Rightarrow> 'd tff \<Rightarrow> (bool \<times> 'd tff) option" where
  "mkdir_table e dclust pclust s = (let dsect = clust2sect dclust s in do {
     (ok, s) \<leftarrow> move_window e dsect s;
     if \<not> ok then Some (False, s)
     else do {
       (ok, s) \<leftarrow> clear_sectors e (unat (sects_clust (cur_fs s)) - 1) (dsect + 1)
                    (s\<lparr>fs__win := replicate 512 0\<rparr>);
       if \<not> ok then Some (False, s) else Some (True, dot_entries dclust pclust s) } })"

definition mkdir_entry :: "'d fsenv \<Rightarrow> nat \<Rightarrow> BYTE list \<Rightarrow> CLUST \<Rightarrow> DWORD \<Rightarrow> 'd tff \<Rightarrow> (FRESULT \<times> 'd tff) option" where
  "mkdir_entry e i fn dclust sect s = do {
     (ok, s) \<leftarrow> move_window e sect s;
     if \<not> ok then Some (FR_RW_ERROR, s)
     else let s = win_put i (replicate 32 0) s; s = win_put i (take 11 fn) s;
            s = set_win (i + DIR_NTres) (fn ! 11) s; s = set_win (i + DIR_Attr) AM_DIR s;
            s = win_dword (i + DIR_WrtTime) get_fattime s;
            s = win_word (i + DIR_FstClusLO) dclust s in
       sync e s }"

definition f_mkdir :: "'d fsenv \<Rightarrow> BYTE list \<Rightarrow> DIR \<Rightarrow> 'd tff \<Rightarrow> (FRESULT \<times> 'd tff) option" where
  "f_mkdir e path dirobj s = do {
     (res, path, s) \<leftarrow> auto_mount e path True s;
     if res \<noteq> FR_OK then Some (res, s)
     else do {
       (res, dirobj, fn, _, s) \<leftarrow> trace_path e dirobj (replicate 12 0) path s;
       if res = FR_OK then Some (FR_EXIST, s)
       else if res \<noteq> FR_NO_FILE then Some (res, s)
       else do {
         (res, dirobj, i, s) \<leftarrow> reserve_direntry e dirobj s;
         if res \<noteq> FR_OK then Some (res, s)
         else let sect = winsect (cur_fs s) in do {
           (dclust, s) \<leftarrow> create_chain e 0 s;
           if dclust = 1 then Some (FR_RW_ERROR, s)
           else if clust2sect dclust s = 0 then Some (FR_DENIED, s)
           else do {
             (ok, s) \<leftarrow> mkdir_table e dclust (sclust dirobj) s;
             if \<not> ok then Some (FR_RW_ERROR, s) else mkdir_entry e i fn dclust sect s } } } } }"

section \<open>Attributes and names\<close>

definition f_chmod :: "'d fsenv \<Rightarrow> BYTE list \<Rightarrow> BYTE \<Rightarrow> BYTE \<Rightarrow> DIR \<Rightarrow> 'd tff \<Rightarrow> (FRESULT \<times> 'd tff) option" where
  "f_chmod e path value msk dirobj s = do {
     (res, path, s) \<leftarrow> auto_mount e path True s;
     if res \<noteq> FR_OK then Some (res, s)
     else do {
       (res, _, _, dir, s) \<leftarrow> trace_path e dirobj (replicate 12 0) path s;
       if res \<noteq> FR_OK then Some (res, s)
       else case dir of
         None \<Rightarrow> Some (FR_INVALID_NAME, s)
       | Some i \<Rightarrow>
           let msk = msk AND (AM_RDO OR AM_HID OR AM_SYS OR AM_ARC); a = fs__win s ! (i + DIR_Attr) in
           sync e (set_win (i + DIR_Attr) ((value AND msk) OR (a AND NOT msk)) s) } }"

definition rename_entry :: "'d fsenv \<Rightarrow> nat \<Rightarrow> DWORD \<Rightarrow> BYTE list \<Rightarrow> BYTE list \<Rightarrow> nat \<Rightarrow> 'd tff \<Rightarrow> (FRESULT \<times> 'd tff) option" where
  "rename_entry e i_old sect_old direntry fn i_new s = (let
       s = win_put (i_new + DIR_Attr) direntry s; s = win_put i_new (take 11 fn) s;
       s = set_win (i_new + DIR_NTres) (fn ! 11) s in do {
     (ok, s) \<leftarrow> move_window e sect_old (set_dirty s);
     if \<not> ok then Some (FR_RW_ERROR, s) else sync e (set_win i_old 0xE5 s) })"

definition f_rename :: "'d fsenv \<Rightarrow> BYTE list \<Rightarrow> BYTE list \<Rightarrow> DIR \<Rightarrow> 'd tff \<Rightarrow> (FRESULT \<times> 'd tff) option" where
  "f_rename e path_old path_new dirobj s = do {
     (res, path_old, s) \<leftarrow> auto_mount e path_old True s;
     if res \<noteq> FR_OK then Some (res, s)
     else do {
       (res, dirobj, _, dir_old, s) \<leftarrow> trace_path e dirobj (replicate 12 0) path_old s;
       if res \<noteq> FR_OK then Some (res, s)
       else case dir_old of
         None \<Rightarrow> Some (FR_NO_FILE, s)
       | Some i_old \<Rightarrow>
           let sect_old = winsect (cur_fs s); direntry = take 21 (drop (i_old + 11) (fs__win s)) in do {
           (res, dirobj, fn, _, s) \<leftarrow> trace_path e dirobj (replicate 12 0) path_new s;
           if res = FR_OK then Some (FR_EXIST, s)
           else if res \<noteq> FR_NO_FILE then Some (res, s)
           else do {
             (res, _, i_new, s) \<leftarrow> reserve_direntry e dirobj s;
             if res \<noteq> FR_OK then Some (res, s)
             else rename_entry e i_old sect_old direntry fn i_new s } } } }"

end
