(* ===== verification/Example_Card.thy ===== *)
theory Example_Card
  imports Fdd_Reading
begin

text \<open>
  A small card with a FAT12 volume and one file of two clusters, on which the hypotheses of the
  theorems hold: the FAT in sector 1 links cluster 2 to cluster 3, whose sectors are 3 and 4.
\<close>

definition ex_store :: "DWORD \<Rightarrow> BYTE list" where
  "ex_store s = (if s = 1 then [0xF8, 0xFF, 0xFF, 0x03, 0xF0, 0xFF] @ replicate 506 0
     else if s = 3 then replicate 512 0xAA else if s = 4 then replicate 512 0xBB else replicate 512 0)"

definition ex_card :: card where
  "ex_card = \<lparr>store_of = ex_store, chip_sel = 0, rx = 0, cmd_in = [], outq = [], next_blk = None, tim1 = 0, tim2 = 0,
     host = (\<lambda>a. if a = MASTER_SECTOR then 1 else 0), status_out = 0\<rparr>"

definition ex_disk :: "card mmc" where
  "ex_disk = \<lparr>Stat = 0, CardType = 12, hw = ex_card\<rparr>"

definition ex_fs :: FATFS where
  "ex_fs = FATFS_zero\<lparr>fs_id := 1, n_rootdir := 16, fatbase := 1, dirbase := 2, database := 3,
     sects_fat := 1, max_clust := 63, fs_type := FS_FAT12, sects_clust := 1, n_fats := 1\<rparr>"

definition ex_tff :: "card mmc tff" where
  "ex_tff = \<lparr>FatFs = 0x1000, fsid = 1, fs__win = replicate 512 0, fsobj = (\<lambda>_. ex_fs), disk = ex_disk\<rparr>"

definition ex_file :: FIL where
  "ex_file = \<lparr>fl_id = 1, flag = FA_READ, sect_clust = 1, fl_fs = 0x1000, fptr = 0, fsize = 1024,
     org_clust = 2, curr_clust = 0, curr_sect = 0, dir_sect = 2, dir_ptr = 0\<rparr>"

definition ex_env :: "card mmc fsenv" where
  "ex_env = mmc_io sd_ports 0 [] True 0x2000"

lemma ex_simps [simp]:
  "cur_fs ex_tff = ex_fs" "FatFs ex_tff = 0x1000" "disk ex_tff = ex_disk" "card_img ex_disk = ex_store"
  by (simp_all add: ex_tff_def cur_fs_def ex_disk_def ex_card_def card_img_def)

lemma length_ex_store: "length (ex_store s) = 512"
  by (simp add: ex_store_def)

lemma ex_cached: "cached card_img ex_tff"
  by (simp add: cached_def readable_def length_ex_store) (simp add: ex_tff_def ex_fs_def FATFS_zero_def)

lemma ex_vol_ok: "vol_ok ex_fs"
  by (simp add: vol_ok_def ex_fs_def FATFS_zero_def spc_def FS_FAT12_def)

lemma ex_ready: "ready_disk ex_env ex_tff"
  by (simp add: ready_disk_def ex_env_def disk_status_def ex_disk_def)

lemma ex_fat: "fat_entry ex_store ex_fs 2 = 3" "fat_entry ex_store ex_fs 3 = 0xFFF"
  by code_simp+

lemma ex_data_clust: "data_clust ex_fs 2" "data_clust ex_fs 3"
  by (simp_all add: data_clust_def ex_fs_def FATFS_zero_def)

lemma ex_file_on: "file_on ex_store 0x1000 ex_fs [2, 3] ex_file"
  by (simp add: file_on_def ex_vol_ok ex_fat ex_data_clust ex_file_def) (simp add: spc_def ex_fs_def FATFS_zero_def)

lemma ex_open_on: "open_on ex_env card_img [2, 3] ex_file ex_tff"
  by (simp add: open_on_def ex_cached ex_file_on)
    (simp add: ex_fs_def ex_file_def ex_env_def FATFS_zero_def NULL_def FA_READ_def FA__ERROR_def FA_WRITE_def)

lemma ex_reading_file: "reading_file ex_env card_img [2, 3] ex_file ex_tff"
  by (simp add: reading_file_def ex_open_on pos_ok_def) (simp add: ex_file_def FA_READ_def)

lemma ex_image_open: "image_open ex_env card_img [2, 3] ex_file ex_tff"
  by (simp add: image_open_def ex_open_on ex_ready) (simp add: ex_file_def FA_READ_def)

lemma ex_bytes: "image_bytes card_img [2, 3] ex_file ex_tff = replicate 512 0xAA @ replicate 512 0xBB"
proof -
  have s: "spc ex_fs = 1" by (simp add: spc_def ex_fs_def FATFS_zero_def)
  have c: "clust_sect ex_fs 2 = 3" "clust_sect ex_fs 3 = 4"
    by (simp_all add: clust_sect_def ex_fs_def FATFS_zero_def)
  have f: "fsize ex_file = 1024" by (simp add: ex_file_def)
  have e: "ex_store 3 = replicate 512 0xAA" "ex_store 4 = replicate 512 0xBB"
    by (simp_all add: ex_store_def)
  have "[0..<2] = [0, 1 :: nat]" by (simp add: upt_rec)
  then show ?thesis
    by (simp add: image_bytes_def file_bytes_def file_data_def file_sect_def s c f e)
qed

lemma ex_live: "live_disk ex_env card_img"
  unfolding ex_env_def by (rule sd.live_disk_axioms)

lemma ex_sector_disk: "sector_disk ex_env card_img"
  by (rule live_disk.axioms(1) [OF ex_live])

end
