(* ===== verification/Example_World.thy ===== *)
theory Example_World
  imports Example_Card Sector_Request
begin

text \<open>The firmware's whole state on the card of theory Example_Card, with the image file open.\<close>

definition ex_image :: FDDImage where
  "ex_image = \<lparr>nsides = 2, ntracks = 1, nsectors = 5, sectorsize = 1024, cur_side = 1, cur_sector = 1,
     cur_track = 0, fd_file = 0x3000, fd_offset = 0, ready = 0, fd_buffer = 0x4000\<rparr>"

definition ex_dir :: DIR where
  "ex_dir = \<lparr>dj_id = 0, dj_index = 0, dj_fs = NULL, sclust = 0, dj_clust = 0, dj_sect = 0\<rparr>"

definition ex_menu :: menu where
  "ex_menu = \<lparr>fsel_index = 0, fsel_pagestart = 0, fsel_redraw = 0, fsel_hasnextpage = 0, joy_status = 0,
     state = STATE_MENU, menu_x = 0, menu_y = 0, menu_selected = 0, osdcmd = 0, inactivity = 0, dude_seqno = 0\<rparr>"

definition ex_world :: "card fworld" where
  "ex_world = \<lparr>
     ph = \<lparr>tf = ex_tff, dir = ex_dir,
       finfo = \<lparr>fi_size = 0, fdate = 0, ftime = 0, fattrib = 0, fname = replicate 13 0\<rparr>,
       ptrfile = ptrfile_init\<rparr>,
     scr = \<lparr>osd_x = 0, osd_y = 0, inv = 0, dmem = replicate 256 32\<rparr>, mnu = ex_menu,
     fdderr = 0, fddimage = ex_image, file1 = ex_file, buffer = replicate 1024 0, leds = 1, bdelay = 128\<rparr>"

text \<open>The variable \<open>result\<close> of slave has no initial value; here it is 0.\<close>

definition ex_board :: "card fboard" where
  "ex_board = \<lparr>ports = sd_ports, fsenv = ex_env, page0 = [0], fatfs = 0x1000, file1_adr = 0x3000,
     buffer_adr = 0x4000, stack_dir = ex_dir, stack_result = 0, stack_t1 = 0\<rparr>"

lemma ex_card_board: "card_board ex_board"
  by (auto simp: card_board_def ex_board_def ex_env_def)

lemma ex_image_in: "image_in ex_board [2, 3] ex_world"
  using ex_image_open by (simp add: image_in_def ex_board_def ex_world_def)

lemma ex_image_of: "image_of [2, 3] ex_world = replicate 512 0xAA @ replicate 512 0xBB"
  using ex_bytes by (simp add: image_of_def ex_world_def)

lemma ex_menu_inv: "menu_inv ex_world"
proof -
  have "length ptrfile_init = 26" by code_simp
  then show ?thesis
    by (simp add: menu_inv_def ex_world_def osd_ok_def DISPLAY_RAMSIZE_def ex_menu_def)
qed

lemma ex_page0: "strlen (page0 ex_board) \<le> 10" "strlen (page0 (brd ex_board)) \<le> 10"
  by (simp_all add: ex_board_def strlen_def cstr_def)

lemma ex_host [simp]: "host (get_hw ex_world) MASTER_SECTOR = 1" "host (get_hw ex_world) MASTER_TRACK = 0"
  by (simp_all add: get_hw_def ex_world_def ex_tff_def ex_disk_def ex_card_def) (simp add: port_defs)

lemma ex_buffer [simp]: "length (buffer ex_world) = 1024"
  by (simp add: ex_world_def)

end
