(* ===== verification/Tff_Lookup.thy ===== *)
theory Tff_Lookup
  imports Fdd_Reading Tff_Write
begin

text \<open>
  Directories and paths of a volume: what the directory functions of tff.c find, stated over the
  entries the medium holds. A directory is given by the list of its clusters; the empty list is
  the root directory, which lies in sectors of its own.
\<close>

section \<open>Directories as lists of entries\<close>

definition dir_len :: "FATFS \<Rightarrow> CLUST list \<Rightarrow> nat" where
  "dir_len fs cs = (if cs = [] then unat (n_rootdir fs) div 16 else length cs * spc fs)"

definition dir_sector :: "FATFS \<Rightarrow> CLUST list \<Rightarrow> nat \<Rightarrow> DWORD" where
  "dir_sector fs cs k = (if cs = [] then dirbase fs + of_nat k else file_sect fs cs k)"

definition dir_entry :: "(DWORD \<Rightarrow> BYTE list) \<Rightarrow> FATFS \<Rightarrow> CLUST list \<Rightarrow> nat \<Rightarrow> BYTE list" where
  "dir_entry im fs cs i = take 32 (drop (i mod 16 * 32) (im (dir_sector fs cs (i div 16))))"

definition dir_entries :: "(DWORD \<Rightarrow> BYTE list) \<Rightarrow> FATFS \<Rightarrow> CLUST list \<Rightarrow> BYTE list list" where
  "dir_entries im fs cs = map (dir_entry im fs cs) [0..<16 * dir_len fs cs]"

text \<open>
  A directory the module can walk: it has whole sectors of 16 entries, fewer than 65536 entries,
  and either the root's sectors lie on the medium or the chain of clusters ends. The module tells
  the end of a cluster by masking, which is right for clusters of a power of two of sectors.
\<close>

definition dir_ok :: "(DWORD \<Rightarrow> BYTE list) \<Rightarrow> FATFS \<Rightarrow> CLUST list \<Rightarrow> bool" where
  "dir_ok im fs cs \<longleftrightarrow> 0 < dir_len fs cs \<and> 16 * dir_len fs cs < 2 ^ 16
     \<and> (if cs = [] then 16 dvd unat (n_rootdir fs) \<and> 0 < unat (dirbase fs)
          \<and> unat (dirbase fs) + dir_len fs cs \<le> 2 ^ 32
        else chain (fat_entry im fs) (data_clust fs) cs
          \<and> \<not> data_clust fs (fat_entry im fs (last cs)) \<and> (\<exists>k<8. spc fs = 2 ^ k))"

text \<open>A directory object that stands at entry \<open>i\<close>.\<close>

definition dir_pos :: "FATFS \<Rightarrow> CLUST list \<Rightarrow> nat \<Rightarrow> DIR \<Rightarrow> bool" where
  "dir_pos fs cs i d \<longleftrightarrow> i < 16 * dir_len fs cs \<and> dj_index d = of_nat i
     \<and> dj_sect d = dir_sector fs cs (i div 16)
     \<and> dj_clust d = (if cs = [] then 0 else cs ! (i div 16 div spc fs))"

definition same_dir :: "DIR \<Rightarrow> DIR \<Rightarrow> bool" where
  "same_dir d d' \<longleftrightarrow> dj_fs d' = dj_fs d \<and> dj_id d' = dj_id d \<and> sclust d' = sclust d"

lemma same_dir_refl [simp]: "same_dir d d"
  by (simp add: same_dir_def)

lemma same_dir_trans [trans]: "same_dir a b \<Longrightarrow> same_dir b c \<Longrightarrow> same_dir a c"
  by (simp add: same_dir_def)

lemma dir_cong:
  assumes "geometry fs = geometry fs'"
  shows "dir_len fs cs = dir_len fs' cs" "dir_sector fs cs = dir_sector fs' cs"
    "dir_entry im fs cs = dir_entry im fs' cs" "dir_entries im fs cs = dir_entries im fs' cs"
    "dir_ok im fs cs = dir_ok im fs' cs" "dir_pos fs cs i d = dir_pos fs' cs i d"
proof -
  have L: "dir_len fs = dir_len fs'" and S: "dir_sector fs = dir_sector fs'"
    by (simp_all add: dir_len_def dir_sector_def fun_eq_iff geometry_fields [OF assms] geometry_cong [OF assms])
  show l: "dir_len fs cs = dir_len fs' cs" and s: "dir_sector fs cs = dir_sector fs' cs"
    by (simp_all add: L S)
  show e: "dir_entry im fs cs = dir_entry im fs' cs"
    by (simp add: dir_entry_def fun_eq_iff s)
  show "dir_entries im fs cs = dir_entries im fs' cs" by (simp add: dir_entries_def e l)
  show "dir_ok im fs cs = dir_ok im fs' cs"
    by (simp add: dir_ok_def L geometry_fields [OF assms] geometry_cong [OF assms])
  show "dir_pos fs cs i d = dir_pos fs' cs i d"
    by (simp add: dir_pos_def l s geometry_cong [OF assms])
qed

lemmas kept_dir = kept_geometry [THEN dir_cong(3)] kept_geometry [THEN dir_cong(4)]
  kept_geometry [THEN dir_cong(5)] kept_geometry [THEN dir_cong(6)] kept_geometry [THEN dir_cong(2)]
  kept_geometry [THEN dir_cong(1)]

lemma length_dir_entries [simp]: "length (dir_entries im fs cs) = 16 * dir_len fs cs"
  by (simp add: dir_entries_def)

lemma dir_entries_nth: "i < 16 * dir_len fs cs \<Longrightarrow> dir_entries im fs cs ! i = dir_entry im fs cs i"
  by (simp add: dir_entries_def)

section \<open>Word arithmetic of the entry index\<close>

lemma word_and_15: "(w :: WORD) AND 15 = take_bit 4 w"
  by (simp add: take_bit_eq_mask mask_eq_exp_minus_1)

lemma unat_and_15: "unat ((w :: WORD) AND 15) = unat w mod 16"
  by (simp add: word_and_15 unsigned_take_bit_eq take_bit_nat_def)

lemma and_15_zero: "(w :: WORD) AND 15 = 0 \<longleftrightarrow> unat w mod 16 = 0"
  by (simp flip: unat_and_15 add: unat_eq_0)

lemma and_cluster_mask:
  assumes "unat (c :: BYTE) = 2 ^ k" and "k < 8"
  shows "(w :: WORD) AND (ucast c - 1) = 0 \<longleftrightarrow> unat w mod unat c = 0"
proof -
  have "unat (ucast c :: WORD) = unat c" by (simp add: unat_ucast_up)
  also have "\<dots> = unat (of_nat (2 ^ k) :: WORD)"
    using assms power_strict_increasing [of k 16 "2 :: nat"] by (subst unat_of_nat_less) simp_all
  also have "(of_nat (2 ^ k) :: WORD) = 2 ^ k" by simp
  finally have "(ucast c :: WORD) = 2 ^ k" by (simp only: word_unat_eq_iff)
  then have "w AND (ucast c - 1) = take_bit k w" by (simp add: take_bit_eq_mask mask_eq_exp_minus_1)
  then have "unat (w AND (ucast c - 1)) = unat w mod 2 ^ k"
    by (simp add: unsigned_take_bit_eq take_bit_nat_def)
  then show ?thesis using assms(1) by (simp flip: unat_eq_0)
qed

section \<open>Moving to the next entry\<close>

context live_disk begin

lemma next_dir_entry_live:
  assumes c: "cached img s" and v: "vol_ok (cur_fs s)" and rdy: "ready_disk e s"
    and dok: "dir_ok (img (disk s)) (cur_fs s) cs" and pos: "dir_pos (cur_fs s) cs i d"
  shows "\<exists>d' s'. next_dir_entry e d s = Some (Suc i < 16 * dir_len (cur_fs s) cs, d', s')
    \<and> cached img s' \<and> kept e img s s' \<and> same_dir d d'
    \<and> (Suc i < 16 * dir_len (cur_fs s) cs \<longrightarrow> dir_pos (cur_fs s) cs (Suc i) d')"
proof -
  let ?fs = "cur_fs s" and ?N = "16 * dir_len (cur_fs s) cs" and ?S = "spc (cur_fs s)"
  let ?k = "Suc i div 16"
  define x where "x = dj_index d + 1"
  note nd = next_dir_entry_def [of e d s, unfolded Let_def, folded x_def]
  have i: "i < ?N" "?N < 2 ^ 16" using pos dok by (simp_all add: dir_pos_def dir_ok_def)
  have idx: "of_nat (Suc i) = x" using pos by (simp add: dir_pos_def x_def)
  have at: "dj_sect d = dir_sector ?fs cs (i div 16)" "dj_clust d = (if cs = [] then 0 else cs ! (i div 16 div ?S))"
    using pos by (simp_all add: dir_pos_def)
  have ui: "unat x = Suc i" unfolding idx [symmetric] by (rule unat_of_nat_less) (use i in simp)
  have z15: "x AND 15 = 0 \<longleftrightarrow> Suc i mod 16 = 0" by (simp only: and_15_zero ui)
  show ?thesis
  proof (cases "Suc i mod 16 = 0")
    case False
    then have "?k = i div 16" by (simp add: div_Suc)
    moreover have "Suc i < ?N" using i(1) False by (metis Suc_lessI mod_mult_self1_is_0)
    ultimately show ?thesis
      using at c z15 False idx by (simp add: nd dir_pos_def same_dir_def)
  next
    case True
    then have k: "?k = Suc (i div 16)" "16 * ?k = Suc i"
      using div_Suc [of i 16] mult_div_mod_eq [of 16 "Suc i"] by simp_all
    show ?thesis
    proof (cases "cs = []")
      case root: True
      then have "dvd": "unat (n_rootdir ?fs) = ?N" using dok by (simp add: dir_ok_def dir_len_def)
      have "n_rootdir ?fs \<le> x \<longleftrightarrow> \<not> Suc i < ?N"
        by (simp only: word_le_nat_alt ui "dvd") linarith
      then show ?thesis
        using at c z15 True root idx k(1)
        by (simp add: nd dir_pos_def same_dir_def dir_sector_def)
    next
      case sub: False
      then have N: "?N = 16 * (length cs * ?S)" and pow: "\<exists>n<8. ?S = 2 ^ n"
        and ch: "chain (fat_entry (img (disk s)) ?fs) (data_clust ?fs) cs"
        and fin: "\<not> data_clust ?fs (fat_entry (img (disk s)) ?fs (last cs))"
        using dok by (simp_all add: dir_ok_def dir_len_def)
      then have S: "0 < ?S" by auto
      let ?j = "i div 16 div ?S"
      have j: "?j < length cs" using i(1) N by (simp add: less_mult_imp_div_less)
      note nth = chain_nth [OF ch j]
      have cl: "dj_clust d = cs ! ?j" "dj_clust d \<noteq> 0"
        using pos sub nth by (auto simp: dir_pos_def data_clust_def)
      obtain n where n: "n < 8" "?S = 2 ^ n" using pow by blast
      have "unat (x div 16) = ?k" by (simp only: unat_div ui) simp
      then have m: "x div 16 AND (ucast (sects_clust ?fs) - 1) = 0 \<longleftrightarrow> ?k mod ?S = 0"
        using and_cluster_mask [of "sects_clust ?fs" n] n by (simp add: spc_def)
      show ?thesis
      proof (cases "?k mod ?S = 0")
        case mid: False
        then have last: "i div 16 mod ?S + 1 < ?S"
          using succ_div_mod(2) [OF S, of "i div 16"] k(1) by auto
        then have "?k div ?S = ?j" using succ_div_mod(1) [OF S] k(1) by auto
        moreover have "file_sect ?fs cs ?k = file_sect ?fs cs (i div 16) + 1"
          using file_sect_add [of "i div 16" ?fs 1 cs] last k(1) by simp
        moreover have "Suc i < ?N"
          using i(1) k(2) mid N by (metis Suc_lessI mod_mult_self2_is_0 mult_cancel_left zero_neq_numeral)
        ultimately show ?thesis
          using at(1) c z15 True sub m mid cl idx
          by (simp add: nd dir_pos_def same_dir_def dir_sector_def)
      next
        case fresh: True
        then have "\<not> i div 16 mod ?S + 1 < ?S"
          using succ_div_mod(1) [OF S, of "i div 16"] k(1) by auto
        then have kj: "?k div ?S = Suc ?j" using succ_div_mod(2) [OF S] k(1) by auto
        then have more: "Suc i < ?N \<longleftrightarrow> Suc ?j < length cs"
          using fresh k(2) N S by (metis mult_less_cancel1 mult_less_cancel2 div_mult_mod_eq add.right_neutral zero_less_numeral)
        let ?c = "fat_entry (img (disk s)) ?fs (cs ! ?j)"
        obtain s' where g: "get_cluster e (cs ! ?j) s = Some (?c, s')"
          using get_cluster_live [OF c v _ conjunct1 [OF nth]] rdy by (auto simp: ready_disk_def)
        note gc = get_cluster_cached [OF c v g]
        then have kp: "kept e img s s'" by simp
        have dc: "data_clust ?fs ?c \<longleftrightarrow> Suc ?j < length cs"
        proof (cases "Suc ?j < length cs")
          case True
          with nth chain_nth [OF ch True] show ?thesis by simp
        next
          case False
          then have "cs ! ?j = last cs" using j sub by (metis Suc_lessI diff_Suc_1 last_conv_nth)
          with fin False show ?thesis by simp
        qed
        have c': "?c = cs ! Suc ?j" if "Suc ?j < length cs" using nth that by simp
        show ?thesis
        proof (cases "Suc i < ?N")
          case goes: True
          then have j1: "Suc ?j < length cs" using more by simp
          then have d': "data_clust (cur_fs s') ?c" using dc kept_cong(4) [OF kp] by simp
          then have "clust2sect ?c s' = file_sect ?fs cs ?k"
            using c' [OF j1] kj fresh kept_cong(3) [OF kp] by (simp add: clust2sect_data file_sect_def)
          then show ?thesis
            using at(1) gc z15 True sub m fresh cl idx g d' c' [OF j1] kj goes
            by (simp add: nd dir_pos_def same_dir_def dir_sector_def clust_bad)
        next
          case stops: False
          then have "\<not> data_clust (cur_fs s') ?c" using dc more kept_cong(4) [OF kp] by simp
          then show ?thesis
            using at(1) gc z15 True sub m fresh cl g stops
            by (simp add: nd same_dir_def clust_bad)
        qed
      qed
    qed
  qed
qed

end

section \<open>Finding a name\<close>

text \<open>
  The entry a name finds: the first one in use, before the end mark, that has the name and is no
  volume label. The index counts on from \<open>i\<close>.
\<close>

definition hits :: "BYTE list \<Rightarrow> BYTE list \<Rightarrow> bool" where
  "hits fn ent \<longleftrightarrow> ent ! 0 \<noteq> 0xE5 \<and> ent ! DIR_Attr AND AM_VOL = 0 \<and> take 11 ent = take 11 fn"

fun lookup :: "BYTE list \<Rightarrow> BYTE list list \<Rightarrow> nat \<Rightarrow> nat option" where
  "lookup fn [] i = None"
| "lookup fn (ent # ents) i = (if ent ! 0 = 0 then None else if hits fn ent then Some i
     else lookup fn ents (Suc i))"

definition find_entry :: "(DWORD \<Rightarrow> BYTE list) \<Rightarrow> FATFS \<Rightarrow> CLUST list \<Rightarrow> nat \<Rightarrow> BYTE list \<Rightarrow> nat option" where
  "find_entry im fs cs i fn = lookup fn (drop i (dir_entries im fs cs)) i"

lemma find_entry_step:
  assumes "i < 16 * dir_len fs cs"
  shows "find_entry im fs cs i fn = (let ent = dir_entry im fs cs i in
    if ent ! 0 = 0 then None else if hits fn ent then Some i else find_entry im fs cs (Suc i) fn)"
proof -
  have "drop i (dir_entries im fs cs) = dir_entry im fs cs i # drop (Suc i) (dir_entries im fs cs)"
    using assms by (simp add: dir_entries_nth flip: Cons_nth_drop_Suc)
  then show ?thesis by (simp add: find_entry_def)
qed

lemma find_entry_end: "16 * dir_len fs cs \<le> i \<Longrightarrow> find_entry im fs cs i fn = None"
  by (simp add: find_entry_def)

lemma kept_find: "kept e im s s' \<Longrightarrow> find_entry im' (cur_fs s') cs i fn = find_entry im' (cur_fs s) cs i fn"
  by (simp add: find_entry_def kept_dir)

lemma dir_sector_nz:
  assumes "vol_ok fs" and "dir_ok im fs cs" and "k < dir_len fs cs"
  shows "dir_sector fs cs k \<noteq> 0"
proof (cases "cs = []")
  case True
  have "k < 2 ^ 12" using assms(2,3) by (simp add: dir_ok_def)
  then have "unat (of_nat k :: DWORD) = k" by (intro unat_of_nat_less) simp
  with True assms have "unat (dirbase fs + of_nat k) = unat (dirbase fs) + k"
    by (subst unat_plus_less) (auto simp: dir_ok_def)
  with True assms(2) show ?thesis by (auto simp: dir_ok_def dir_sector_def)
next
  case False
  with assms have ch: "chain (fat_entry im fs) (data_clust fs) cs" and k: "k < length cs * spc fs"
    by (simp_all add: dir_ok_def dir_len_def)
  then have "k div spc fs < length cs" "0 < spc fs"
    by (simp_all add: less_mult_imp_div_less) (cases "spc fs = 0"; simp)
  with chain_nth [OF ch] data_sect_nz [OF assms(1), of "cs ! (k div spc fs)" "k mod spc fs"] False
  show ?thesis by (simp add: dir_sector_def file_sect_def)
qed

lemma dir_pos_ofs: "dir_ok im fs cs \<Longrightarrow> dir_pos fs cs i d \<Longrightarrow> entry_ofs d = i mod 16 * 32"
proof -
  assume a: "dir_ok im fs cs" "dir_pos fs cs i d"
  then have "i < 2 ^ LENGTH(16)" by (simp add: dir_ok_def dir_pos_def)
  then have "unat (dj_index d) = i" using a(2) by (simp add: dir_pos_def unat_of_nat_less)
  then show ?thesis by (simp add: entry_ofs_def unat_and_15)
qed

context live_disk begin

lemma dir_search_live:
  assumes "cached img s" and "vol_ok (cur_fs s)" and "ready_disk e s"
    and "dir_ok (img (disk s)) (cur_fs s) cs" and "dir_pos (cur_fs s) cs i d"
  shows "\<exists>r d' s'. dir_search e fn d s = Some (r, d', s') \<and> cached img s' \<and> kept e img s s' \<and> same_dir d d'
    \<and> (case find_entry (img (disk s)) (cur_fs s) cs i fn of None \<Rightarrow> r = Miss
       | Some j \<Rightarrow> r = Hit (j mod 16 * 32) \<and> j < 16 * dir_len (cur_fs s) cs
           \<and> fs__win s' = img (disk s) (dir_sector (cur_fs s) cs (j div 16)))"
  using assms
proof (induction "16 * dir_len (cur_fs s) cs - i" arbitrary: i d s rule: less_induct)
  case less
  note c = less.prems(1) and v = less.prems(2) and rdy = less.prems(3) and dok = less.prems(4) and pos = less.prems(5)
  let ?fs = "cur_fs s" and ?im = "img (disk s)"
  have i: "i < 16 * dir_len ?fs cs" and sec: "dj_sect d = dir_sector ?fs cs (i div 16)"
    using pos by (simp_all add: dir_pos_def)
  have nz: "dj_sect d \<noteq> 0" unfolding sec by (rule dir_sector_nz [OF v dok]) (use i in simp)
  obtain s1 where m: "move_window e (dj_sect d) s = Some (True, s1)"
    using move_window_live [OF c] rdy by (auto simp: ready_disk_def)
  from move_window_cached [OF c nz m]
  have s1: "cached img s1" "kept e img s s1" "fs__win s1 = ?im (dj_sect d)" by simp_all
  let ?ent = "dir_entry ?im ?fs cs i"
  have ent: "entry_at (i mod 16 * 32) s1 = ?ent"
    by (simp add: entry_at_def s1(3) sec dir_entry_def)
  have unf: "dir_search e fn d s = (if ?ent ! 0 = 0 then Some (Miss, d, s1)
      else if hits fn ?ent then Some (Hit (i mod 16 * 32), d, s1)
      else do { (more, d, s) \<leftarrow> next_dir_entry e d s1;
                if \<not> more then Some (Miss, d, s) else dir_search e fn d s })"
    by (subst dir_search.simps) (simp add: m ent Let_def hits_def dir_pos_ofs [OF dok pos])
  note fe = find_entry_step [OF i, of ?im fn, unfolded Let_def]
  consider "?ent ! 0 = 0" | "?ent ! 0 \<noteq> 0" "hits fn ?ent" | "?ent ! 0 \<noteq> 0" "\<not> hits fn ?ent" by blast
  then show ?case
  proof cases
    case 3
    have s1': "vol_ok (cur_fs s1)" "ready_disk e s1" "dir_ok (img (disk s1)) (cur_fs s1) cs" "dir_pos (cur_fs s1) cs i d"
      using v rdy dok pos s1(2)
      by (simp_all add: kept_cong [OF s1(2)] ready_disk_kept [OF s1(2)] kept_dir [OF s1(2)] keptD [OF s1(2)])
    from next_dir_entry_live [OF s1(1) s1'] obtain d2 s2 where
      n: "next_dir_entry e d s1 = Some (Suc i < 16 * dir_len ?fs cs, d2, s2)"
      and s2: "cached img s2" "kept e img s1 s2" "same_dir d d2"
      and p2: "Suc i < 16 * dir_len ?fs cs \<Longrightarrow> dir_pos (cur_fs s1) cs (Suc i) d2"
      by (auto simp: kept_dir [OF s1(2)])
    have k2: "kept e img s s2" using s1(2) s2(2) by (rule kept_trans)
    show ?thesis
    proof (cases "Suc i < 16 * dir_len ?fs cs")
      case False
      with 3 unf n s2 k2 fe find_entry_end [of ?fs cs "Suc i" ?im fn] show ?thesis by simp
    next
      case True
      have s2': "vol_ok (cur_fs s2)" "ready_disk e s2" "dir_ok (img (disk s2)) (cur_fs s2) cs" "dir_pos (cur_fs s2) cs (Suc i) d2"
        using v rdy dok p2 [OF True] k2 s2(2)
        by (simp_all add: kept_cong [OF k2] ready_disk_kept [OF k2] kept_dir [OF k2] keptD [OF k2] kept_dir [OF s1(2)])
      have "16 * dir_len (cur_fs s2) cs - Suc i < 16 * dir_len ?fs cs - i" using i by (simp add: kept_dir [OF k2])
      from less.hyps [OF this s2(1) s2', unfolded kept_find [OF k2] kept_dir [OF k2] keptD(3) [OF k2]] obtain r d' s' where
        "dir_search e fn d2 s2 = Some (r, d', s')" "cached img s'" "kept e img s2 s'" "same_dir d2 d'"
        "case find_entry ?im ?fs cs (Suc i) fn of None \<Rightarrow> r = Miss
         | Some j \<Rightarrow> r = Hit (j mod 16 * 32) \<and> j < 16 * dir_len ?fs cs \<and> fs__win s' = ?im (dir_sector ?fs cs (j div 16))"
        by blast
      with 3 unf n fe True kept_trans [OF k2] same_dir_trans [OF s2(3)] show ?thesis by auto
    qed
  qed (use unf fe s1 i sec in simp_all)
qed

end

section \<open>Paths\<close>

text \<open>
  What a path leads to from entry \<open>i\<close> of the directory with clusters \<open>cs\<close>: an error, or an entry
  \<open>j\<close> of a directory. Every segment but the last has to name a directory; its own entries start
  behind the two for itself and its parent.
\<close>

inductive resolves :: "(DWORD \<Rightarrow> BYTE list) \<Rightarrow> FATFS \<Rightarrow> CLUST list \<Rightarrow> nat \<Rightarrow> BYTE list \<Rightarrow> FRESULT + CLUST list \<times> nat \<Rightarrow> bool"
  for im fs where
  bad_name: "make_dirfile path = (1, path', fn) \<Longrightarrow> resolves im fs cs i path (Inl FR_INVALID_NAME)"
| no_entry: "make_dirfile path = (ds, path', fn) \<Longrightarrow> ds \<noteq> 1 \<Longrightarrow> find_entry im fs cs i fn = None \<Longrightarrow>
    resolves im fs cs i path (Inl (if ds = 0 then FR_NO_FILE else FR_NO_PATH))"
| entry: "make_dirfile path = (0, path', fn) \<Longrightarrow> find_entry im fs cs i fn = Some j \<Longrightarrow>
    resolves im fs cs i path (Inr (cs, j))"
| no_dir: "make_dirfile path = (ds, path', fn) \<Longrightarrow> ds \<noteq> 0 \<Longrightarrow> ds \<noteq> 1 \<Longrightarrow> find_entry im fs cs i fn = Some j \<Longrightarrow>
    dir_entry im fs cs j ! DIR_Attr AND AM_DIR = 0 \<Longrightarrow> resolves im fs cs i path (Inl FR_NO_PATH)"
| down: "make_dirfile path = (ds, path', fn) \<Longrightarrow> ds \<noteq> 0 \<Longrightarrow> ds \<noteq> 1 \<Longrightarrow> find_entry im fs cs i fn = Some j \<Longrightarrow>
    dir_entry im fs cs j ! DIR_Attr AND AM_DIR \<noteq> 0 \<Longrightarrow>
    LD_WORD (dir_entry im fs cs j) DIR_FstClusLO = hd ds' \<Longrightarrow> ds' \<noteq> [] \<Longrightarrow> dir_ok im fs ds' \<Longrightarrow>
    resolves im fs ds' 2 path' res \<Longrightarrow> resolves im fs cs i path res"

lemma resolves_error: "resolves im fs cs i path (Inl x) \<Longrightarrow> x \<noteq> FR_OK"
  by (induction "Inl x :: FRESULT + CLUST list \<times> nat" rule: resolves.induct)
    (auto split: if_splits)

lemma resolves_path_end: "resolves im fs cs i path res \<Longrightarrow> path_end path \<Longrightarrow> res = Inl FR_INVALID_NAME"
  by (cases path; erule resolves.cases) (auto simp: path_end_def make_dirfile_def)

lemma dir_pos_first:
  assumes "dir_ok im (cur_fs s) (c # cs)"
  shows "dir_pos (cur_fs s) (c # cs) 2 (d\<lparr>dj_clust := c, sclust := c, dj_sect := clust2sect c s, dj_index := 2\<rparr>)"
proof -
  have "data_clust (cur_fs s) c"
    using assms by (cases cs) (simp_all add: dir_ok_def)
  then show ?thesis
    using assms by (simp add: dir_pos_def dir_ok_def dir_sector_def file_sect_def clust2sect_data)
qed

text \<open>The state while a path is traced: the object of the volume but for the sector in its window.\<close>

definition tracing :: "'d fsenv \<Rightarrow> ('d \<Rightarrow> DWORD \<Rightarrow> BYTE list) \<Rightarrow> (DWORD \<Rightarrow> BYTE list) \<Rightarrow> FATFS \<Rightarrow> 'd tff \<Rightarrow> bool" where
  "tracing e img im fs s \<longleftrightarrow> im = img (disk s) \<and> geometry fs = geometry (cur_fs s) \<and> cached img s
     \<and> vol_ok fs \<and> ready_disk e s"

lemma tracing_kept: "tracing e img im fs s \<Longrightarrow> kept e img s s' \<Longrightarrow> cached img s' \<Longrightarrow> tracing e img im fs s'"
  using kept_geometry [of e img s s'] ready_disk_kept [of e img s s'] keptD(3) [of e img s s']
  by (simp add: tracing_def)

context live_disk begin

lemma dir_search_tracing:
  assumes "tracing e img im fs s" and "dir_ok im fs cs" and "dir_pos fs cs i d"
  shows "\<exists>r d' s'. dir_search e fn d s = Some (r, d', s') \<and> tracing e img im fs s' \<and> kept e img s s' \<and> dj_fs d' = dj_fs d
    \<and> (case find_entry im fs cs i fn of None \<Rightarrow> r = Miss
       | Some j \<Rightarrow> r = Hit (j mod 16 * 32) \<and> j < 16 * dir_len fs cs \<and> fs__win s' = im (dir_sector fs cs (j div 16))
           \<and> entry_at (j mod 16 * 32) s' = dir_entry im fs cs j)"
proof -
  have im: "im = img (disk s)" and g: "geometry fs = geometry (cur_fs s)"
    and s: "cached img s" "vol_ok fs" "ready_disk e s"
    using assms(1) by (simp_all add: tracing_def)
  have f: "find_entry im fs cs i fn = find_entry im (cur_fs s) cs i fn" by (simp add: find_entry_def dir_cong [OF g])
  from dir_search_live [of s cs i d fn] s assms(2,3) obtain r d' s' where
    "dir_search e fn d s = Some (r, d', s')" "cached img s'" "same_dir d d'" and k: "kept e img s s'" and
    "case find_entry im fs cs i fn of None \<Rightarrow> r = Miss
       | Some j \<Rightarrow> r = Hit (j mod 16 * 32) \<and> j < 16 * dir_len fs cs \<and> fs__win s' = im (dir_sector fs cs (j div 16))"
    unfolding im f [unfolded im] dir_cong [OF g] geometry_cong(1) [OF g] by blast
  then show ?thesis
    using tracing_kept [OF assms(1) k]
    by (intro exI [of _ r] exI [of _ d'] exI [of _ s']) (auto simp: entry_at_def dir_entry_def same_dir_def split: option.splits)
qed

lemma trace_segments_live:
  assumes "resolves im fs cs i path res"
    and "tracing e img im fs s" and "dir_ok im fs cs" and "dir_pos fs cs i d"
  shows "\<exists>r d' fn p s'. trace_segments e path d s = Some (r, d', fn, p, s') \<and> tracing e img im fs s' \<and> kept e img s s' \<and> dj_fs d' = dj_fs d
    \<and> (case res of Inl x \<Rightarrow> r = x | Inr (ds, j) \<Rightarrow> r = FR_OK \<and> p = Some (j mod 16 * 32)
         \<and> j < 16 * dir_len fs ds \<and> fs__win s' = im (dir_sector fs ds (j div 16)))"
  using assms
proof (induction arbitrary: d s rule: resolves.induct)
  case (bad_name path path' fn cs i)
  then show ?case by (subst trace_segments.simps) simp
next
  case (no_entry path ds path' fn cs i)
  from dir_search_tracing [of im fs s cs i d fn] no_entry show ?case
    by (subst trace_segments.simps) auto
next
  case (entry path path' fn cs i j)
  from dir_search_tracing [of im fs s cs i d fn] entry show ?case
    by (subst trace_segments.simps) auto
next
  case (no_dir path ds path' fn cs i j)
  from dir_search_tracing [of im fs s cs i d fn] no_dir show ?case
    by (subst trace_segments.simps) (auto simp: Let_def)
next
  case (down path ds path' fn cs i j ds' res)
  from dir_search_tracing [of im fs s cs i d fn] down obtain d1 s1 where
    h: "dir_search e fn d s = Some (Hit (j mod 16 * 32), d1, s1)" "tracing e img im fs s1" "dj_fs d1 = dj_fs d" and k: "kept e img s s1"
       and ent: "entry_at (j mod 16 * 32) s1 = dir_entry im fs cs j"
    by auto
  obtain c rest where ds': "ds' = c # rest" using down.hyps(7) by (cases ds') auto
  let ?d = "d1\<lparr>dj_clust := c, sclust := c, dj_sect := clust2sect c s1, dj_index := 2\<rparr>"
  have g: "geometry (cur_fs s1) = geometry fs" using h(2) by (simp add: tracing_def)
  have "dir_pos (cur_fs s1) (c # rest) 2 ?d"
    using down.hyps(8) by (intro dir_pos_first [of im]) (simp add: dir_cong [OF g] ds')
  then have "dir_pos fs ds' 2 ?d" by (simp add: dir_cong [OF g] ds')
  from down.IH [OF h(2) down.hyps(8) this] obtain r d' fn' p s' where
    t: "trace_segments e path' ?d s1 = Some (r, d', fn', p, s')" "tracing e img im fs s'" "kept e img s1 s'" "dj_fs d' = dj_fs d"
      "case res of Inl x \<Rightarrow> r = x | Inr (ds, j) \<Rightarrow> r = FR_OK \<and> p = Some (j mod 16 * 32)
         \<and> j < 16 * dir_len fs ds \<and> fs__win s' = im (dir_sector fs ds (j div 16))"
    using h(3) by auto
  have "trace_segments e path d s = Some (r, d', fn', p, s')"
    using down.hyps h(1) ent t(1) ds' by (subst trace_segments.simps) (simp add: Let_def)
  with t kept_trans [OF k t(3)] show ?case by blast
qed

end

section \<open>Opening a file\<close>

text \<open>A mounted volume: a registered object of known type over a disk that is ready.\<close>

definition mounted :: "'d fsenv \<Rightarrow> ('d \<Rightarrow> DWORD \<Rightarrow> BYTE list) \<Rightarrow> 'd tff \<Rightarrow> bool" where
  "mounted e im s \<longleftrightarrow> cached im s \<and> vol_ok (cur_fs s) \<and> ready_disk e s \<and> FatFs s \<noteq> NULL
     \<and> dir_ok (im (disk s)) (cur_fs s) []"

lemma auto_mount_mounted:
  assumes "mounted e im s"
  shows "auto_mount e path False s = Some (FR_OK, strip_path path, s)"
proof -
  have "fs_type (cur_fs s) \<noteq> 0" "d_status e 0 (disk s) AND STA_NOINIT = 0"
    using assms by (auto simp: mounted_def vol_ok_def FS_FAT12_def FS_FAT16_def ready_disk_def)
  with assms show ?thesis by (simp add: auto_mount_def mounted_def Let_def)
qed

lemma mounted_tracing: "mounted e im s \<Longrightarrow> tracing e im (im (disk s)) (cur_fs s) s"
  by (simp add: mounted_def tracing_def)

lemma mounted_kept:
  assumes "mounted e im s" and k: "kept e im s s'" and "cached im s'"
  shows "mounted e im s'"
  using assms by (simp add: mounted_def kept_cong [OF k] ready_disk_kept [OF k] keptD [OF k] kept_dir [OF k])

lemma LD_take_drop:
  assumes "k + 4 \<le> n"
  shows "LD_WORD (take n (drop i w)) k = LD_WORD (drop i w) k" "LD_DWORD (take n (drop i w)) k = LD_DWORD (drop i w) k"
  using assms by (simp_all add: LD_WORD_def LD_DWORD_def)

lemma LD_drop:
  assumes "i + k + 4 \<le> length w"
  shows "LD_WORD (drop i w) k = LD_WORD w (i + k)" "LD_DWORD (drop i w) k = LD_DWORD w (i + k)"
  using assms by (simp_all add: LD_WORD_def LD_DWORD_def add.assoc)

text \<open>The fields of an entry, in the entry and in the window that holds it.\<close>

lemma entry_fields:
  assumes "length w = 512" and "ent = take 32 (drop (j mod 16 * 32) w)"
  shows "w ! (j mod 16 * 32 + DIR_Attr) = ent ! DIR_Attr"
    "LD_WORD w (j mod 16 * 32 + DIR_FstClusLO) = LD_WORD ent DIR_FstClusLO"
    "LD_DWORD w (j mod 16 * 32 + DIR_FileSize) = LD_DWORD ent DIR_FileSize"
proof -
  have "j mod 16 < 16" by simp
  then have j: "j mod 16 * 32 \<le> 480" by linarith
  then show "w ! (j mod 16 * 32 + DIR_Attr) = ent ! DIR_Attr"
    "LD_WORD w (j mod 16 * 32 + DIR_FstClusLO) = LD_WORD ent DIR_FstClusLO"
    "LD_DWORD w (j mod 16 * 32 + DIR_FileSize) = LD_DWORD ent DIR_FileSize"
    using assms by (simp_all add: LD_take_drop LD_drop DIR_Attr_def DIR_FstClusLO_def DIR_FileSize_def)
qed

text \<open>What f_open for reading makes of a resolved path.\<close>

definition opened :: "(DWORD \<Rightarrow> BYTE list) \<Rightarrow> FATFS \<Rightarrow> ptr \<Rightarrow> FRESULT + CLUST list \<times> nat \<Rightarrow> FRESULT \<Rightarrow> FIL \<Rightarrow> bool" where
  "opened im fs p res r fp \<longleftrightarrow> (case res of
     Inl x \<Rightarrow> r = x \<and> fl_fs fp = NULL
   | Inr (ds, j) \<Rightarrow> let ent = dir_entry im fs ds j in
       if ent ! DIR_Attr AND AM_DIR \<noteq> 0 then r = FR_NO_FILE \<and> fl_fs fp = NULL
       else r = FR_OK \<and> fl_fs fp = p \<and> fl_id fp = fs_id fs \<and> flag fp = FA_READ \<and> fptr fp = 0 \<and> sect_clust fp = 1
         \<and> org_clust fp = LD_WORD ent DIR_FstClusLO \<and> fsize fp = LD_DWORD ent DIR_FileSize)"

context live_disk begin

lemma trace_path_live:
  assumes "mounted e img s" and "resolves (img (disk s)) (cur_fs s) [] 0 path res" and "\<not> path_end path"
  shows "\<exists>r d' fn' p s'. trace_path e d fn path s = Some (r, d', fn', p, s') \<and> mounted e img s' \<and> kept e img s s' \<and> dj_fs d' = FatFs s
    \<and> (case res of Inl x \<Rightarrow> r = x | Inr (ds, j) \<Rightarrow> r = FR_OK \<and> p = Some (j mod 16 * 32)
         \<and> j < 16 * dir_len (cur_fs s) ds \<and> fs__win s' = img (disk s) (dir_sector (cur_fs s) ds (j div 16)))"
proof -
  let ?d = "d\<lparr>dj_clust := 0, sclust := 0, dj_sect := dirbase (cur_fs s), dj_index := 0, dj_fs := FatFs s\<rparr>"
  have dok: "dir_ok (img (disk s)) (cur_fs s) []" using assms(1) by (simp add: mounted_def)
  then have "dir_pos (cur_fs s) [] 0 ?d" by (simp add: dir_pos_def dir_ok_def dir_sector_def)
  from trace_segments_live [OF assms(2) mounted_tracing [OF assms(1)] dok this] assms(3) show ?thesis
    using mounted_kept [OF assms(1)] by (fastforce simp: trace_path_def Let_def tracing_def)
qed

lemma f_open_live:
  assumes m: "mounted e img s" and "resolves (img (disk s)) (cur_fs s) [] 0 (strip_path path) res"
    and pe: "\<not> path_end (strip_path path)"
  shows "\<exists>r fp' s'. f_open e fp path FA_READ d s = Some (r, fp', s') \<and> mounted e img s' \<and> kept e img s s'
    \<and> opened (img (disk s)) (cur_fs s) (FatFs s) res r fp'"
proof -
  let ?fs = "cur_fs s" and ?im = "img (disk s)"
  from trace_path_live [OF m assms(2) pe, of d "replicate 12 0"] obtain r d' fn' p s' where
    t: "trace_path e d (replicate 12 0) (strip_path path) s = Some (r, d', fn', p, s')"
    and s': "mounted e img s'" "kept e img s s'"
    and c: "case res of Inl x \<Rightarrow> r = x | Inr (ds, j) \<Rightarrow> r = FR_OK \<and> p = Some (j mod 16 * 32)
         \<and> j < 16 * dir_len ?fs ds \<and> fs__win s' = ?im (dir_sector ?fs ds (j div 16))"
    by blast
  have modes: "FA_READ AND (FA_READ OR FA_WRITE OR (FA_CREATE_ALWAYS OR FA_OPEN_ALWAYS OR FA_CREATE_NEW)) = FA_READ"
    "FA_READ AND (FA_WRITE OR (FA_CREATE_ALWAYS OR FA_OPEN_ALWAYS OR FA_CREATE_NEW)) = 0"
    "FA_READ AND (FA_CREATE_ALWAYS OR FA_OPEN_ALWAYS OR FA_CREATE_NEW) = 0" "FA_READ AND FA_WRITE = 0"
    by (simp_all add: FA_READ_def FA_WRITE_def FA_CREATE_ALWAYS_def FA_OPEN_ALWAYS_def FA_CREATE_NEW_def)
  have o: "f_open e fp path FA_READ d s = (if r \<noteq> FR_OK then Some (r, fp\<lparr>fl_fs := NULL\<rparr>, s')
      else case p of None \<Rightarrow> Some (FR_NO_FILE, fp\<lparr>fl_fs := NULL\<rparr>, s')
      | Some i \<Rightarrow> if fs__win s' ! (i + DIR_Attr) AND AM_DIR \<noteq> 0 then Some (FR_NO_FILE, fp\<lparr>fl_fs := NULL\<rparr>, s')
          else Some (FR_OK, open_file e FA_READ i (fp\<lparr>fl_fs := NULL\<rparr>) s', s'))"
    unfolding f_open_def Let_def
    by (simp add: modes auto_mount_mounted [OF m] t split: option.splits)
  show ?thesis
  proof (cases res)
    case (Inl x)
    then have "r \<noteq> FR_OK" using c assms(2) resolves_error by auto
    with Inl c o s' show ?thesis by (simp add: opened_def)
  next
    case (Inr dj)
    obtain ds j where dj: "dj = (ds, j)" by (cases dj)
    have "length (fs__win s') = 512" using s'(1) by (simp add: mounted_def cached_def)
    note ef = entry_fields [OF this refl, of j]
    have ent: "dir_entry ?im ?fs ds j = take 32 (drop (j mod 16 * 32) (fs__win s'))"
      using c Inr dj by (simp add: dir_entry_def)
    show ?thesis
      using o c Inr dj s' ef
      by (simp add: opened_def ent Let_def open_file_def keptD [OF s'(2)] kept_fields [OF s'(2)])
  qed
qed

end

text \<open>The opened file is the image file the floppy reads, when the entry has a chain for its size.\<close>

definition file_entry :: "(DWORD \<Rightarrow> BYTE list) \<Rightarrow> FATFS \<Rightarrow> CLUST list \<Rightarrow> BYTE list \<Rightarrow> bool" where
  "file_entry im fs cs ent \<longleftrightarrow> ent ! DIR_Attr AND AM_DIR = 0 \<and> cs \<noteq> [] \<and> LD_WORD ent DIR_FstClusLO = hd cs
     \<and> chain (fat_entry im fs) (data_clust fs) cs
     \<and> unat (LD_DWORD ent DIR_FileSize) \<le> 512 * (length cs * spc fs)"

lemma opened_image:
  assumes "opened (im (disk s)) (cur_fs s) (FatFs s) (Inr (ds, j)) r fp"
    and "file_entry (im (disk s)) (cur_fs s) cs (dir_entry (im (disk s)) (cur_fs s) ds j)"
    and "mounted e im s'" and k: "kept e im s s'"
  shows "r = FR_OK \<and> image_open e im cs fp s' \<and> fptr fp = 0
    \<and> image_bytes im cs fp s' = take (unat (LD_DWORD (dir_entry (im (disk s)) (cur_fs s) ds j) DIR_FileSize))
        (file_data (im (disk s)) (cur_fs s) cs)"
proof -
  have "FA_READ AND FA__ERROR = 0" "FA_READ AND FA_WRITE = 0" "FA_READ AND FA_READ \<noteq> 0"
    by (simp_all add: FA_READ_def FA__ERROR_def FA_WRITE_def)
  with assms show ?thesis
    by (simp add: opened_def file_entry_def Let_def image_open_def open_on_def file_on_def mounted_def
        image_bytes_def file_bytes_def keptD [OF k] kept_fields [OF k] kept_cong [OF k])
qed

end
