(* ===== verification/Tff_Mounting.thy ===== *)
theory Tff_Mounting
  imports Tff_Lookup
begin

text \<open>
  Mounting a volume: what auto_mount makes of the boot sector of a medium, with the arithmetic of
  the FAT specification in natural numbers as the reference. Locale \<open>mountable_disk\<close> adds to a live
  disk that its initialisation finds the medium; the card driver provides it.
\<close>

section \<open>The volume of a medium\<close>

text \<open>What a sector is: the start of a FAT volume (0), another boot record (1), or neither (2).\<close>

definition boot_kind :: "BYTE list \<Rightarrow> BYTE" where
  "boot_kind b = (if LD_WORD b BS_55AA \<noteq> 0xAA55 then 2
     else if take 3 (drop BS_FilSysType b) = bytes_of ''FAT'' then 0 else 1)"

definition find_volume :: "(DWORD \<Rightarrow> BYTE list) \<Rightarrow> DWORD option" where
  "find_volume m = (
     if boot_kind (m 0) = 0 then Some 0
     else let base = LD_DWORD (m 0) (MBR_Table + 8) in
       if boot_kind (m 0) = 1 \<and> m 0 ! (MBR_Table + 4) \<noteq> 0 \<and> boot_kind (m base) = 0 then Some base
       else None)"

text \<open>The parameters of a volume, as the specification computes them from the boot sector.\<close>

definition fat_size :: "BYTE list \<Rightarrow> nat" where
  "fat_size b = (if LD_WORD b BPB_FATSz16 = 0 then unat (LD_DWORD b BPB_FATSz32) else unat (LD_WORD b BPB_FATSz16))"

definition total_sectors :: "BYTE list \<Rightarrow> nat" where
  "total_sectors b = (if LD_WORD b BPB_TotSec16 = 0 then unat (LD_DWORD b BPB_TotSec32) else unat (LD_WORD b BPB_TotSec16))"

definition reserved :: "BYTE list \<Rightarrow> nat" where
  "reserved b = unat (LD_WORD b BPB_RsvdSecCnt)"

definition root_sectors :: "BYTE list \<Rightarrow> nat" where
  "root_sectors b = unat (LD_WORD b BPB_RootEntCnt) div 16"

definition fats_sectors :: "BYTE list \<Rightarrow> nat" where
  "fats_sectors b = fat_size b * unat (b ! BPB_NumFATs)"

definition cluster_count :: "BYTE list \<Rightarrow> nat" where
  "cluster_count b = (total_sectors b - reserved b - fats_sectors b - root_sectors b) div unat (b ! BPB_SecPerClus)"

text \<open>
  A boot sector of a FAT12 or FAT16 volume of the module: reserved sectors, a root directory of
  whole sectors, clusters of at least one sector, room for everything it announces, clusters
  enough for 16 bits, and sector numbers that stay in 32 bits.
\<close>

definition bpb_ok :: "DWORD \<Rightarrow> BYTE list \<Rightarrow> bool" where
  "bpb_ok base b \<longleftrightarrow> b ! BPB_SecPerClus \<noteq> 0 \<and> 0 < reserved b
     \<and> 0 < root_sectors b \<and> 16 dvd unat (LD_WORD b BPB_RootEntCnt)
     \<and> reserved b + fats_sectors b + root_sectors b \<le> total_sectors b
     \<and> cluster_count b + 2 \<le> 0xFFF7 \<and> unat base + total_sectors b + 512 \<le> 2 ^ 32"

text \<open>The object the module has to build for it.\<close>

definition volume_fs :: "DWORD \<Rightarrow> BYTE list \<Rightarrow> WORD \<Rightarrow> FATFS" where
  "volume_fs base b i = FATFS_zero\<lparr>fs_id := i, n_rootdir := LD_WORD b BPB_RootEntCnt,
     fatbase := of_nat (unat base + reserved b),
     dirbase := of_nat (unat base + reserved b + fats_sectors b),
     database := of_nat (unat base + reserved b + fats_sectors b + root_sectors b),
     sects_fat := of_nat (fat_size b), max_clust := of_nat (cluster_count b + 2), free_clust := 0xFFFF,
     fs_type := (if cluster_count b + 2 > 0xFF7 then FS_FAT16 else FS_FAT12),
     sects_clust := b ! BPB_SecPerClus, n_fats := b ! BPB_NumFATs\<rparr>"

section \<open>The module's arithmetic\<close>

lemma upd_fs_upd_fs: "upd_fs f (upd_fs g s) = upd_fs (\<lambda>x. f (g x)) s"
  by (simp add: upd_fs_def)

lemma upd_fs_fsid: "upd_fs f (s\<lparr>fsid := i\<rparr>) = (upd_fs f s)\<lparr>fsid := i\<rparr>"
  by (simp add: upd_fs_def)

lemma upd_fs_cong: "f (cur_fs s) = g (cur_fs s) \<Longrightarrow> upd_fs f s = upd_fs g s"
  by (simp add: upd_fs_def cur_fs_def)

lemma ucast_nat: "(ucast (w :: 'a::len word) :: DWORD) = of_nat (unat w)"
  by (simp add: unsigned_def of_nat_nat)

lemma ucast_down_nat: "(ucast (of_nat n :: DWORD) :: WORD) = of_nat n"
proof -
  have "n mod 2 ^ 32 mod 2 ^ 16 = n mod (2 ^ 16 :: nat)"
    by (rule mod_mod_cancel) (simp add: le_imp_power_dvd)
  then show ?thesis
    by (simp add: word_unat_eq_iff unsigned_ucast_eq unat_of_nat take_bit_nat_def)
qed

lemma ucast_zero: "(ucast (w :: WORD) :: DWORD) = 0 \<longleftrightarrow> w = 0"
  by (simp add: word_unat_eq_iff unat_ucast_up)

lemma unat_of_nat32: "n < 2 ^ 32 \<Longrightarrow> unat (of_nat n :: DWORD) = n"
  by (rule unat_of_nat_less) simp

lemma bpb_words:
  assumes "bpb_ok base b"
  defines "maxclust \<equiv> udiv32 (of_nat (total_sectors b) - of_nat (reserved b) - of_nat (fats_sectors b)
        - of_nat (root_sectors b)) (of_nat (unat (b ! BPB_SecPerClus))) + 2"
  shows "maxclust = of_nat (cluster_count b + 2)" "unat maxclust = cluster_count b + 2"
proof -
  let ?x = "total_sectors b - reserved b - fats_sectors b - root_sectors b" and ?c = "unat (b ! BPB_SecPerClus)"
  have le: "reserved b + fats_sectors b + root_sectors b \<le> total_sectors b" and t: "total_sectors b < 2 ^ 32"
    and c0: "0 < ?c" and cc: "cluster_count b + 2 < 2 ^ 32" "cluster_count b < 2 ^ 32"
    using assms(1) by (auto simp: bpb_ok_def unat_gt_0)
  have c: "?c < 2 ^ 32" by (rule less_trans [OF BYTE_less]) simp
  have "of_nat (total_sectors b) - of_nat (reserved b) - of_nat (fats_sectors b) - of_nat (root_sectors b) = (of_nat ?x :: DWORD)"
    using le by (simp add: of_nat_diff)
  moreover have "(of_nat ?c :: DWORD) \<noteq> 0" using c0 unat_of_nat32 [OF c] by (metis unat_0 less_irrefl)
  moreover have "?x < 2 ^ 32" using t by (simp add: less_imp_diff_less)
  ultimately have "unat (udiv32 (of_nat (total_sectors b) - of_nat (reserved b) - of_nat (fats_sectors b)
        - of_nat (root_sectors b)) (of_nat ?c)) = cluster_count b"
    by (simp only: udiv32_def if_False unat_div unat_of_nat32 c cluster_count_def)
  then have "udiv32 (of_nat (total_sectors b) - of_nat (reserved b) - of_nat (fats_sectors b)
        - of_nat (root_sectors b)) (of_nat ?c) = of_nat (cluster_count b)"
    using cc by (simp only: word_unat_eq_iff unat_of_nat32)
  then show m: "maxclust = of_nat (cluster_count b + 2)" by (simp add: maxclust_def)
  show "unat maxclust = cluster_count b + 2" unfolding m by (rule unat_of_nat32 [OF cc(1)])
qed

lemma init_fs_volume:
  assumes "bpb_ok base (fs__win s)" and "cur_fs s = FATFS_zero"
  shows "init_fs base s = (FR_OK, (upd_fs (\<lambda>_. volume_fs base (fs__win s) (fsid s + 1)) s)\<lparr>fsid := fsid s + 1\<rparr>)"
proof -
  define b where "b = fs__win s"
  note mc = bpb_words [OF assms(1), folded b_def]
  have f0: "(if (ucast (LD_WORD b BPB_FATSz16) :: DWORD) = 0 then LD_DWORD b BPB_FATSz32 else ucast (LD_WORD b BPB_FATSz16))
      = of_nat (fat_size b)"
    by (simp add: fat_size_def ucast_zero flip: ucast_nat)
  have t0: "(if (ucast (LD_WORD b BPB_TotSec16) :: DWORD) = 0 then LD_DWORD b BPB_TotSec32 else ucast (LD_WORD b BPB_TotSec16))
      = of_nat (total_sectors b)"
    by (simp add: total_sectors_def ucast_zero flip: ucast_nat)
  have r0: "(ucast (LD_WORD b BPB_RsvdSecCnt) :: DWORD) = of_nat (reserved b)"
    by (simp only: reserved_def ucast_nat)
  have n0: "(ucast (LD_WORD b BPB_RootEntCnt div 16) :: DWORD) = of_nat (root_sectors b)"
    by (simp only: root_sectors_def ucast_nat unat_div) simp
  have s0: "of_nat (fat_size b) * (ucast (b ! BPB_NumFATs) :: DWORD) = of_nat (fats_sectors b)"
    by (simp only: fats_sectors_def ucast_nat of_nat_mult)
  define M where "M = (of_nat (cluster_count b + 2) :: DWORD)"
  have M: "udiv32 (of_nat (total_sectors b) - of_nat (reserved b) - of_nat (fats_sectors b) - of_nat (root_sectors b))
      (ucast (b ! BPB_SecPerClus)) + 2 = M" "unat M = cluster_count b + 2"
    using mc by (simp_all only: M_def ucast_nat)
  have lim: "cluster_count b + 2 \<le> 0xFFF7" using assms(1) by (simp add: bpb_ok_def b_def)
  have cmp: "\<not> 0xFFF7 < M" "0xFF7 < M \<longleftrightarrow> 0xFF7 < cluster_count b + 2"
    using lim by (simp_all only: word_less_nat_alt M(2)) simp_all
  have down: "(ucast M :: WORD) = of_nat (cluster_count b + 2)" by (simp only: M_def ucast_down_nat)
  show ?thesis
    using assms(2)
    unfolding init_fs_def Let_def b_def [symmetric] f0 t0 r0
    by (simp add: n0 s0 M cmp down ucast_down_nat upd_fs_upd_fs upd_fs_fsid del: of_nat_add)
      (intro conjI impI arg_cong [where f = "fsid_update (\<lambda>_. fsid s + 1)"] upd_fs_cong; simp add: volume_fs_def)
qed

section \<open>The object is that of a readable volume\<close>

lemma cluster_sectors:
  assumes "bpb_ok base b"
  shows "reserved b + fats_sectors b + root_sectors b + cluster_count b * unat (b ! BPB_SecPerClus) \<le> total_sectors b"
proof -
  have "cluster_count b * unat (b ! BPB_SecPerClus) \<le> total_sectors b - reserved b - fats_sectors b - root_sectors b"
    unfolding cluster_count_def by (rule div_times_less_eq_dividend)
  moreover have "reserved b + fats_sectors b + root_sectors b \<le> total_sectors b"
    using assms by (simp add: bpb_ok_def)
  ultimately show ?thesis by linarith
qed

lemma volume_fs_ok:
  assumes "bpb_ok base b"
  shows "vol_ok (volume_fs base b i)" "dir_ok im (volume_fs base b i) []"
proof -
  let ?n = "unat base" and ?c = "unat (b ! BPB_SecPerClus)"
  have bp: "?n + total_sectors b + 512 \<le> 2 ^ 32" "cluster_count b + 2 \<le> 0xFFF7" "0 < reserved b" "0 < root_sectors b"
    "16 dvd unat (LD_WORD b BPB_RootEntCnt)" "b ! BPB_SecPerClus \<noteq> 0"
    using assms by (simp_all add: bpb_ok_def)
  note cs = cluster_sectors [OF assms]
  have c: "?c < 256" by (rule BYTE_less)
  have v: "fatbase (volume_fs base b i) = of_nat (?n + reserved b)"
    "dirbase (volume_fs base b i) = of_nat (?n + reserved b + fats_sectors b)"
    "database (volume_fs base b i) = of_nat (?n + reserved b + fats_sectors b + root_sectors b)"
    "max_clust (volume_fs base b i) = of_nat (cluster_count b + 2)"
    by (simp_all add: volume_fs_def)
  have u: "unat (fatbase (volume_fs base b i)) = ?n + reserved b"
    "unat (dirbase (volume_fs base b i)) = ?n + reserved b + fats_sectors b"
    "unat (database (volume_fs base b i)) = ?n + reserved b + fats_sectors b + root_sectors b"
    by (simp_all only: v) (rule unat_of_nat32, use bp cs in linarith)+
  have m: "unat (max_clust (volume_fs base b i)) = cluster_count b + 2"
    unfolding v by (rule unat_of_nat_less) (use bp(2) in simp)
  have f: "spc (volume_fs base b i) = ?c" "sects_clust (volume_fs base b i) = b ! BPB_SecPerClus"
    "fs_type (volume_fs base b i) = FS_FAT12 \<or> fs_type (volume_fs base b i) = FS_FAT16"
    "n_rootdir (volume_fs base b i) = LD_WORD b BPB_RootEntCnt"
    by (simp_all add: volume_fs_def spc_def)
  have "(cluster_count b + 2) * ?c \<le> cluster_count b * ?c + 512" using c by (simp del: BYTE_less add: algebra_simps)
  then show "vol_ok (volume_fs base b i)"
    unfolding vol_ok_def u m f(1,2) using f(3) bp cs by (intro conjI) linarith+
  have "unat (LD_WORD b BPB_RootEntCnt) < 4096 * 16" by (rule less_le_trans [OF WORD_less]) simp
  then have "root_sectors b < 4096" unfolding root_sectors_def by (rule less_mult_imp_div_less)
  then show "dir_ok im (volume_fs base b i) []"
    using bp cs by (simp add: dir_ok_def dir_len_def u f flip: root_sectors_def)
qed

section \<open>Mounting\<close>

locale mountable_disk = live_disk e img
  for e :: "'d fsenv" and img :: "'d \<Rightarrow> DWORD \<Rightarrow> BYTE list" +
  fixes holds :: "(DWORD \<Rightarrow> BYTE list) \<Rightarrow> 'd \<Rightarrow> bool"
  assumes init_holds: "holds m d \<Longrightarrow> \<exists>st d'. d_initialize e 0 d = Some (st, d') \<and> st AND STA_NOINIT = 0
      \<and> d_status e 0 d' AND STA_NOINIT = 0 \<and> readable img d' \<and> img d' = m"

text \<open>A state with a disk that has been initialised, before the object is set up.\<close>

definition fresh :: "'d fsenv \<Rightarrow> ('d \<Rightarrow> DWORD \<Rightarrow> BYTE list) \<Rightarrow> (DWORD \<Rightarrow> BYTE list) \<Rightarrow> 'd tff \<Rightarrow> bool" where
  "fresh e im m s \<longleftrightarrow> readable im (disk s) \<and> im (disk s) = m \<and> ready_disk e s \<and> length (fs__win s) = 512
     \<and> cur_fs s = FATFS_zero"

definition mount_same :: "'d tff \<Rightarrow> 'd tff \<Rightarrow> bool" where
  "mount_same s s' \<longleftrightarrow> FatFs s' = FatFs s \<and> fsid s' = fsid s \<and> (\<forall>p. p \<noteq> FatFs s \<longrightarrow> fsobj s' p = fsobj s p)"

lemma mount_same_trans: "mount_same a b \<Longrightarrow> mount_same b c \<Longrightarrow> mount_same a c"
  by (simp add: mount_same_def)

context live_disk begin

lemma check_fs_live:
  assumes "fresh e img m s"
  shows "\<exists>s'. check_fs e sect s = Some (boot_kind (m sect), s') \<and> fresh e img m s' \<and> mount_same s s' \<and> fs__win s' = m sect"
proof -
  have r: "readable img (disk s)" and im: "img (disk s) = m" and st: "d_status e 0 (disk s) AND STA_NOINIT = 0"
    and w: "length (fs__win s) = 512"
    using assms by (simp_all add: fresh_def ready_disk_def)
  obtain bs d where rd: "d_read e 0 (win_adr e) sect 1 (disk s) = Some (RES_OK, bs, d)"
    using read_live [OF r st, of 1 "win_adr e" sect] by auto
  have bs: "bs = m sect" using read_img [OF r rd] im by simp
  have "length (m sect) = 512" using readable_length [OF r] im by simp
  then have win: "store 0 bs (fs__win s) = m sect" using bs w by (simp add: store_all)
  have "readable img d" "img d = m" "d_status e 0 d = d_status e 0 (disk s)"
    using r read_keeps [OF r rd] im read_status [OF rd] by (simp_all add: readable_def)
  then show ?thesis
    using rd win \<open>length (m sect) = 512\<close> assms
    by (simp add: check_fs_def Let_def boot_kind_def fresh_def mount_same_def ready_disk_def st)
qed

lemma find_fat_live:
  assumes "fresh e img m s"
  shows "\<exists>k base s'. find_fat e s = Some (k, base, s') \<and> fresh e img m s' \<and> mount_same s s'
    \<and> (case find_volume m of None \<Rightarrow> k \<noteq> 0 | Some v \<Rightarrow> k = 0 \<and> base = v \<and> fs__win s' = m v)"
proof -
  from check_fs_live [OF assms, of 0] obtain s1 where
    c1: "check_fs e 0 s = Some (boot_kind (m 0), s1)" "fresh e img m s1" "mount_same s s1" "fs__win s1 = m 0"
    by blast
  show ?thesis
  proof (cases "boot_kind (m 0) = 1 \<and> m 0 ! (MBR_Table + 4) \<noteq> 0")
    case False
    with c1 show ?thesis by (auto simp: find_fat_def find_volume_def Let_def)
  next
    case True
    let ?b = "LD_DWORD (m 0) (MBR_Table + 8)"
    from check_fs_live [OF c1(2), of ?b] obtain s2 where
      c2: "check_fs e ?b s1 = Some (boot_kind (m ?b), s2)" "fresh e img m s2" "mount_same s1 s2" "fs__win s2 = m ?b"
      by blast
    with True c1 mount_same_trans [OF c1(3) c2(3)] show ?thesis
      by (auto simp: find_fat_def find_volume_def Let_def)
  qed
qed

end

text \<open>What a mount yields: the volume's object, or the error for a medium without one.\<close>

definition mount_result :: "'d fsenv \<Rightarrow> ('d \<Rightarrow> DWORD \<Rightarrow> BYTE list) \<Rightarrow> (DWORD \<Rightarrow> BYTE list) \<Rightarrow> WORD \<Rightarrow> FRESULT \<Rightarrow> 'd tff \<Rightarrow> bool" where
  "mount_result e im m i r s' \<longleftrightarrow> (case find_volume m of
     None \<Rightarrow> r = FR_NO_FILESYSTEM \<and> fs_type (cur_fs s') = 0
   | Some base \<Rightarrow>
       if LD_WORD (m base) BPB_BytsPerSec \<noteq> 512 then r = FR_NO_FILESYSTEM \<and> fs_type (cur_fs s') = 0
       else r = FR_OK \<and> mounted e im s' \<and> im (disk s') = m \<and> cur_fs s' = volume_fs base (m base) (i + 1))"

definition volume_fits :: "(DWORD \<Rightarrow> BYTE list) \<Rightarrow> bool" where
  "volume_fits m \<longleftrightarrow> (case find_volume m of None \<Rightarrow> True
     | Some base \<Rightarrow> LD_WORD (m base) BPB_BytsPerSec = 512 \<longrightarrow> bpb_ok base (m base))"

context mountable_disk begin

lemma mount_drive_mounts:
  assumes h: "holds m (disk s)" and p: "FatFs s \<noteq> NULL" and w: "length (fs__win s) = 512" and fit: "volume_fits m"
  shows "\<exists>r s'. mount_drive e False s = Some (r, s') \<and> mount_result e img m (fsid s) r s'
    \<and> FatFs s' = FatFs s \<and> (\<forall>q. q \<noteq> FatFs s \<longrightarrow> fsobj s' q = fsobj s q)"
proof -
  obtain st d where i: "d_initialize e 0 (disk s) = Some (st, d)" "st AND STA_NOINIT = 0"
      "d_status e 0 d AND STA_NOINIT = 0" "readable img d" "img d = m"
    using init_holds [OF h] by blast
  define s0 where "s0 = (upd_fs (\<lambda>_. FATFS_zero) s)\<lparr>disk := d\<rparr>"
  have f0: "fresh e img m s0" and same0: "mount_same s s0"
    using i w by (simp_all add: s0_def fresh_def ready_disk_def mount_same_def upd_fs_other)
  from find_fat_live [OF f0] obtain k base s1 where
    ff: "find_fat e s0 = Some (k, base, s1)" "fresh e img m s1" "mount_same s0 s1"
      "case find_volume m of None \<Rightarrow> k \<noteq> 0 | Some v \<Rightarrow> k = 0 \<and> base = v \<and> fs__win s1 = m v"
    by blast
  have same: "mount_same s s1" by (rule mount_same_trans [OF same0 ff(3)])
  have md: "mount_drive e False s = (if k \<noteq> 0 \<or> LD_WORD (fs__win s1) BPB_BytsPerSec \<noteq> 512
      then Some (FR_NO_FILESYSTEM, s1) else Some (init_fs base s1))"
    using i ff(1) by (simp add: mount_drive_def Let_def s0_def)
  have z: "cur_fs s1 = FATFS_zero" using ff(2) by (simp add: fresh_def)
  show ?thesis
  proof (cases "k \<noteq> 0 \<or> LD_WORD (fs__win s1) BPB_BytsPerSec \<noteq> 512")
    case True
    then show ?thesis
      using md ff(4) same z by (auto simp: mount_result_def mount_same_def FATFS_zero_def split: option.splits)
  next
    case False
    then have v: "find_volume m = Some base" and win: "fs__win s1 = m base"
      using ff(4) by (auto split: option.splits)
    then have b: "bpb_ok base (fs__win s1)" using fit False by (simp add: volume_fits_def)
    note i = init_fs_volume [OF b z]
    let ?s = "(upd_fs (\<lambda>_. volume_fs base (fs__win s1) (fsid s1 + 1)) s1)\<lparr>fsid := fsid s1 + 1\<rparr>"
    have ids: "fsid s1 = fsid s" "FatFs s1 = FatFs s" using same by (simp_all add: mount_same_def)
    have "winflag (volume_fs base (m base) (fsid s + 1)) = 0" "winsect (volume_fs base (m base) (fsid s + 1)) = 0"
      by (simp_all add: volume_fs_def FATFS_zero_def)
    then have "mounted e img ?s"
      using volume_fs_ok [OF b] ff(2) p by (simp add: mounted_def cached_def fresh_def ready_disk_def ids win)
    then show ?thesis
      using md False i v win ff(2) same ids
      by (simp add: mount_result_def fresh_def mount_same_def upd_fs_other)
  qed
qed

lemma auto_mount_mounts:
  assumes "holds m (disk s)" and "FatFs s \<noteq> NULL" and "length (fs__win s) = 512" and "volume_fits m"
    and "fs_type (cur_fs s) = 0"
  shows "\<exists>r s'. auto_mount e path False s = Some (r, strip_path path, s') \<and> mount_result e img m (fsid s) r s'
    \<and> FatFs s' = FatFs s \<and> (\<forall>q. q \<noteq> FatFs s \<longrightarrow> fsobj s' q = fsobj s q)"
  using mount_drive_mounts [OF assms(1-4)] assms(2,5) by (auto simp: auto_mount_def Let_def)

text \<open>The first f_open mounts the volume and goes on as on a mounted one.\<close>

lemma f_open_mounts:
  assumes "auto_mount e path False s = Some (FR_OK, strip_path path, s1)" and "mounted e img s1"
  shows "f_open e fp path FA_READ d s = f_open e fp path FA_READ d s1"
proof -
  have modes: "FA_READ AND (FA_READ OR FA_WRITE OR (FA_CREATE_ALWAYS OR FA_OPEN_ALWAYS OR FA_CREATE_NEW)) = FA_READ"
    "FA_READ AND (FA_WRITE OR (FA_CREATE_ALWAYS OR FA_OPEN_ALWAYS OR FA_CREATE_NEW)) = 0"
    by (simp_all add: FA_READ_def FA_WRITE_def FA_CREATE_ALWAYS_def FA_OPEN_ALWAYS_def FA_CREATE_NEW_def)
  show ?thesis
    unfolding f_open_def Let_def by (simp add: modes assms(1) auto_mount_mounted [OF assms(2)])
qed

end

text \<open>The card driver is such a disk: initialisation finds a card in any state of its protocol.\<close>

definition card_holds :: "(DWORD \<Rightarrow> BYTE list) \<Rightarrow> card mmc \<Rightarrow> bool" where
  "card_holds m d \<longleftrightarrow> Stat d AND STA_NODISK = 0 \<and> store_of (hw d) = m \<and> (\<forall>x. length (m x) = 512)"

interpretation sdm: mountable_disk "mmc_io sd_ports csd_adr csd ro win" card_img card_holds for csd_adr csd ro win
proof unfold_locales
  fix m d
  assume h: "card_holds m d"
  have z: "(Stat d AND NOT STA_NOINIT) AND STA_NOINIT = 0"
    by (rule bit_word_eqI) (auto simp: bit_simps)
  obtain h where "disk_initialize sd_ports 0 d = Some (Stat d AND NOT STA_NOINIT,
      d\<lparr>CardType := 12, hw := h, Stat := Stat d AND NOT STA_NOINIT\<rparr>)" "store_of h = store_of (hw d)"
    using disk_initialize_card [of d] h by (auto simp: card_holds_def)
  with h z show "\<exists>st d'. d_initialize (mmc_io sd_ports csd_adr csd ro win) 0 d = Some (st, d') \<and> st AND STA_NOINIT = 0
      \<and> d_status (mmc_io sd_ports csd_adr csd ro win) 0 d' AND STA_NOINIT = 0 \<and> readable card_img d' \<and> card_img d' = m"
    by (simp add: card_holds_def disk_status_def readable_def card_img_def)
qed

end
