(* ===== verification/Philes_Listing.thy ===== *)
theory Philes_Listing
  imports Tff_Lookup Philes
begin

text \<open>
  Listing the image files: f_readdir returns the next entry in use of a directory, and
  philes_nextfile the next that is an image, over the entries the medium holds.
\<close>

section \<open>The entries a listing shows\<close>

text \<open>A name of entries in use that is not empty, and one whose last four bytes are .FDD.\<close>

definition in_use :: "BYTE list \<Rightarrow> bool" where
  "in_use ent \<longleftrightarrow> ent ! 0 \<noteq> 0xE5 \<and> ent ! DIR_Attr AND AM_VOL = 0 \<and> fname (get_fileinfo ent) ! 0 \<noteq> 0"

definition is_image :: "BYTE list \<Rightarrow> bool" where
  "is_image ent \<longleftrightarrow> in_use ent \<and> ent ! DIR_Attr AND AM_DIR = 0
     \<and> (let n = cstr (fname (get_fileinfo ent)) in drop (length n - 4) n = bytes_of ''.FDD'')"

text \<open>The first entry from \<open>i\<close> on with a property, before the end mark.\<close>

fun next_entry :: "(BYTE list \<Rightarrow> bool) \<Rightarrow> BYTE list list \<Rightarrow> nat \<Rightarrow> nat option" where
  "next_entry P [] i = None"
| "next_entry P (ent # ents) i = (if ent ! 0 = 0 then None else if P ent then Some i
     else next_entry P ents (Suc i))"

definition find_next :: "(BYTE list \<Rightarrow> bool) \<Rightarrow> (DWORD \<Rightarrow> BYTE list) \<Rightarrow> FATFS \<Rightarrow> CLUST list \<Rightarrow> nat \<Rightarrow> nat option" where
  "find_next P im fs cs i = next_entry P (drop i (dir_entries im fs cs)) i"

lemma find_next_step:
  assumes "i < 16 * dir_len fs cs"
  shows "find_next P im fs cs i = (let ent = dir_entry im fs cs i in
    if ent ! 0 = 0 then None else if P ent then Some i else find_next P im fs cs (Suc i))"
proof -
  have "drop i (dir_entries im fs cs) = dir_entry im fs cs i # drop (Suc i) (dir_entries im fs cs)"
    using assms by (simp add: dir_entries_nth flip: Cons_nth_drop_Suc)
  then show ?thesis by (simp add: find_next_def)
qed

lemma find_next_end: "16 * dir_len fs cs \<le> i \<Longrightarrow> find_next P im fs cs i = None"
  by (simp add: find_next_def)

lemma find_next_stronger:
  assumes "\<And>ent. Q ent \<Longrightarrow> P ent"
  shows "find_next Q im fs cs i = (case find_next P im fs cs i of None \<Rightarrow> None
    | Some k \<Rightarrow> if Q (dir_entry im fs cs k) then Some k else find_next Q im fs cs (Suc k))"
proof (induction "16 * dir_len fs cs - i" arbitrary: i rule: less_induct)
  case less
  show ?case
  proof (cases "i < 16 * dir_len fs cs")
    case True
    then have "16 * dir_len fs cs - Suc i < 16 * dir_len fs cs - i" by simp
    from less [OF this] assms find_next_step [OF True, of P im] find_next_step [OF True, of Q im] show ?thesis
      by (auto simp: Let_def)
  qed (simp add: find_next_end)
qed

lemma find_next_found:
  "find_next P im fs cs i = Some k \<Longrightarrow> P (dir_entry im fs cs k) \<and> i \<le> k \<and> k < 16 * dir_len fs cs"
proof (induction "16 * dir_len fs cs - i" arbitrary: i rule: less_induct)
  case less
  show ?case
  proof (cases "i < 16 * dir_len fs cs")
    case True
    then have "16 * dir_len fs cs - Suc i < 16 * dir_len fs cs - i" by simp
    from less.hyps [OF this] less.prems True show ?thesis
      by (auto simp: find_next_step [OF True] Let_def split: if_splits)
  qed (use less.prems in \<open>simp add: find_next_end\<close>)
qed

lemma endsWith_image: "endsWith n (bytes_of ''.FDD'') \<longleftrightarrow> drop (length (cstr n) - 4) (cstr n) = bytes_of ''.FDD''"
proof -
  have s: "cstr (bytes_of ''.FDD'') = bytes_of ''.FDD''" by code_simp
  have l: "length (bytes_of ''.FDD'') = 4" by simp
  have "(\<exists>stem. xs = stem @ ys) \<longleftrightarrow> drop (length xs - length ys) xs = ys" for xs ys :: "BYTE list"
    using append_take_drop_id [of "length xs - length ys" xs] by (metis append_eq_conv_conj length_append add_diff_cancel_right')
  then show ?thesis unfolding endsWith_iff s l [symmetric] .
qed

lemma is_image_philes:
  "in_use ent \<Longrightarrow> is_image ent \<longleftrightarrow> fattrib (get_fileinfo ent) AND AM_DIR = 0
     \<and> endsWith (fname (get_fileinfo ent)) (bytes_of ''.FDD'')"
  by (simp add: is_image_def endsWith_image Let_def get_fileinfo_def [of ent, THEN arg_cong [where f = fattrib]])

section \<open>f_readdir\<close>

text \<open>A directory object that has read the entries before \<open>i\<close>.\<close>

definition listing :: "FATFS \<Rightarrow> CLUST list \<Rightarrow> nat \<Rightarrow> DIR \<Rightarrow> bool" where
  "listing fs cs i d \<longleftrightarrow> i \<le> 16 * dir_len fs cs
     \<and> (if i = 16 * dir_len fs cs then dj_sect d = 0 else dir_pos fs cs i d)"

context live_disk begin

lemma next_dir_entry_tracing:
  assumes "tracing e img im fs s" and "dir_ok im fs cs" and "dir_pos fs cs i d"
  shows "\<exists>d' s'. next_dir_entry e d s = Some (Suc i < 16 * dir_len fs cs, d', s')
    \<and> tracing e img im fs s' \<and> kept e img s s' \<and> same_dir d d'
    \<and> (Suc i < 16 * dir_len fs cs \<longrightarrow> dir_pos fs cs (Suc i) d')"
proof -
  have im: "im = img (disk s)" and g: "geometry fs = geometry (cur_fs s)"
    and s: "cached img s" "vol_ok fs" "ready_disk e s"
    using assms(1) by (simp_all add: tracing_def)
  from next_dir_entry_live [of s cs i d] s assms(2,3) show ?thesis
    unfolding im dir_cong [OF g] geometry_cong(1) [OF g]
    using tracing_kept [OF assms(1)] unfolding im by blast
qed

lemma window_tracing:
  assumes "tracing e img im fs s" and "dir_ok im fs cs" and "dir_pos fs cs i d"
  shows "\<exists>s'. move_window e (dj_sect d) s = Some (True, s') \<and> tracing e img im fs s' \<and> kept e img s s'
    \<and> entry_at (entry_ofs d) s' = dir_entry im fs cs i"
proof -
  have im: "im = img (disk s)" and c: "cached img s" and v: "vol_ok fs" and r: "ready_disk e s"
    using assms(1) by (simp_all add: tracing_def)
  have sec: "dj_sect d = dir_sector fs cs (i div 16)" and i: "i < 16 * dir_len fs cs"
    using assms(3) by (simp_all add: dir_pos_def)
  have nz: "dj_sect d \<noteq> 0" unfolding sec by (rule dir_sector_nz [OF v assms(2)]) (use i in simp)
  obtain s' where m: "move_window e (dj_sect d) s = Some (True, s')"
    using move_window_live [OF c] r by (auto simp: ready_disk_def)
  from move_window_cached [OF c nz m] tracing_kept [OF assms(1)] m show ?thesis
    by (auto simp: im entry_at_def dir_entry_def sec dir_pos_ofs [OF assms(2,3)] intro!: exI [of _ s'])
qed

lemma readdir_loop_live:
  assumes "tracing e img im fs s" and "dir_ok im fs cs" and "listing fs cs i d" and "fname fi ! 0 = 0"
  shows "\<exists>d' fi' s'. readdir_loop e d fi s = Some (FR_OK, d', fi', s') \<and> tracing e img im fs s' \<and> kept e img s s' \<and> same_dir d d'
    \<and> (case find_next in_use im fs cs i of
         None \<Rightarrow> fname fi' ! 0 = 0 \<and> (\<exists>j. listing fs cs j d' \<and> find_next in_use im fs cs j = None)
       | Some k \<Rightarrow> fi' = get_fileinfo (dir_entry im fs cs k) \<and> k < 16 * dir_len fs cs \<and> listing fs cs (Suc k) d')"
  using assms
proof (induction "16 * dir_len fs cs - i" arbitrary: i d fi s rule: less_induct)
  case less
  note t = less.prems(1) and dok = less.prems(2)
  show ?case
  proof (cases "i = 16 * dir_len fs cs")
    case True
    then have "dj_sect d = 0" using less.prems(3) by (simp add: listing_def)
    then show ?thesis
      using True less.prems by (subst readdir_loop.simps) (auto simp: find_next_end intro!: exI [of _ i])
  next
    case False
    then have i: "i < 16 * dir_len fs cs" and pos: "dir_pos fs cs i d"
      using less.prems(3) by (auto simp: listing_def)
    have v: "vol_ok fs" using t by (simp add: tracing_def)
    have nz: "dj_sect d \<noteq> 0"
      using dir_sector_nz [OF v dok, of "i div 16"] i pos by (simp add: dir_pos_def)
    let ?ent = "dir_entry im fs cs i"
    obtain s1 where m: "move_window e (dj_sect d) s = Some (True, s1)" and t1: "tracing e img im fs s1"
        and k1: "kept e img s s1" and ent: "entry_at (entry_ofs d) s1 = ?ent"
      using window_tracing [OF t dok pos] by blast
    note fn = find_next_step [OF i, of in_use im, unfolded Let_def]
    show ?thesis
    proof (cases "?ent ! 0 = 0")
      case True
      then show ?thesis
        using m t1 k1 ent nz fn less.prems by (subst readdir_loop.simps) (auto simp: Let_def)
    next
      case used: False
      define fi1 where "fi1 = (if ?ent ! 0 \<noteq> 0xE5 \<and> ?ent ! DIR_Attr AND AM_VOL = 0 then get_fileinfo ?ent else fi)"
      have iu: "fname fi1 ! 0 \<noteq> 0 \<longleftrightarrow> in_use ?ent" using less.prems(4) by (auto simp: fi1_def in_use_def)
      obtain d2 s2 where n: "next_dir_entry e d s1 = Some (Suc i < 16 * dir_len fs cs, d2, s2)"
          and t2: "tracing e img im fs s2" and k2: "kept e img s1 s2" and sd: "same_dir d d2"
          and p2: "Suc i < 16 * dir_len fs cs \<longrightarrow> dir_pos fs cs (Suc i) d2"
        using next_dir_entry_tracing [OF t1 dok pos] by blast
      define d3 where "d3 = (if Suc i < 16 * dir_len fs cs then d2 else d2\<lparr>dj_sect := 0\<rparr>)"
      have l3: "listing fs cs (Suc i) d3" and sd3: "same_dir d d3"
        using i p2 sd by (auto simp: listing_def d3_def same_dir_def)
      have k: "kept e img s s2" by (rule kept_trans [OF k1 k2])
      have unf: "readdir_loop e d fi s = (if fname fi1 ! 0 \<noteq> 0 then Some (FR_OK, d3, fi1, s2) else readdir_loop e d3 fi1 s2)"
        by (subst readdir_loop.simps) (simp add: nz m ent used n Let_def fi1_def d3_def)
      show ?thesis
      proof (cases "in_use ?ent")
        case True
        then have "fi1 = get_fileinfo ?ent" by (simp add: fi1_def in_use_def)
        with True show ?thesis using unf iu fn used t2 k l3 sd3 i by simp
      next
        case False
        then have z: "fname fi1 ! 0 = 0" using iu by blast
        have "16 * dir_len fs cs - Suc i < 16 * dir_len fs cs - i" using i by simp
        from less.hyps [OF this t2 dok l3 z] obtain d' fi' s' where
          r: "readdir_loop e d3 fi1 s2 = Some (FR_OK, d', fi', s')" "tracing e img im fs s'" "kept e img s2 s'" "same_dir d3 d'"
            "case find_next in_use im fs cs (Suc i) of
               None \<Rightarrow> fname fi' ! 0 = 0 \<and> (\<exists>j. listing fs cs j d' \<and> find_next in_use im fs cs j = None)
             | Some k \<Rightarrow> fi' = get_fileinfo (dir_entry im fs cs k) \<and> k < 16 * dir_len fs cs \<and> listing fs cs (Suc k) d'"
          by blast
        have "find_next in_use im fs cs i = find_next in_use im fs cs (Suc i)" using fn used False by simp
        with r unf z kept_trans [OF k r(3)] same_dir_trans [OF sd3 r(4)] show ?thesis by simp
      qed
    qed
  qed
qed

end

section \<open>philes_nextfile\<close>

text \<open>The state of a listing of the directory \<open>cs\<close> between two calls.\<close>

definition listing_at :: "'d fsenv \<Rightarrow> ('d \<Rightarrow> DWORD \<Rightarrow> BYTE list) \<Rightarrow> (DWORD \<Rightarrow> BYTE list) \<Rightarrow> FATFS \<Rightarrow> CLUST list \<Rightarrow> nat \<Rightarrow> 'd philes \<Rightarrow> bool" where
  "listing_at e img im fs cs i s \<longleftrightarrow> tracing e img im fs (tf s) \<and> dir_ok im fs cs \<and> listing fs cs i (dir s)
     \<and> dj_fs (dir s) = FatFs (tf s) \<and> dj_id (dir s) = fs_id fs \<and> FatFs (tf s) \<noteq> NULL"

definition same_listing :: "'d philes \<Rightarrow> 'd philes \<Rightarrow> bool" where
  "same_listing s s' \<longleftrightarrow> ptrfile s' = ptrfile s \<and> FatFs (tf s') = FatFs (tf s)"

context live_disk begin

lemma f_readdir_live:
  assumes l: "listing_at e img im fs cs i s"
  shows "\<exists>d fi t. f_readdir e (dir s) (finfo s) (tf s) = Some (FR_OK, d, fi, t)
    \<and> (case find_next in_use im fs cs i of
         None \<Rightarrow> fname fi ! 0 = 0 \<and> (\<exists>j. find_next in_use im fs cs j = None
           \<and> listing_at e img im fs cs j (s\<lparr>dir := d, finfo := fi, tf := t\<rparr>))
       | Some k \<Rightarrow> fi = get_fileinfo (dir_entry im fs cs k) \<and> k < 16 * dir_len fs cs
           \<and> listing_at e img im fs cs (Suc k) (s\<lparr>dir := d, finfo := fi, tf := t\<rparr>))
    \<and> FatFs t = FatFs (tf s)"
proof -
  have t: "tracing e img im fs (tf s)" and dok: "dir_ok im fs cs" and ls: "listing fs cs i (dir s)"
    and ids: "dj_fs (dir s) = FatFs (tf s)" "dj_id (dir s) = fs_id fs" "FatFs (tf s) \<noteq> NULL"
    using l by (simp_all add: listing_at_def)
  have g: "geometry fs = geometry (cur_fs (tf s))" and rdy: "ready_disk e (tf s)" using t by (simp_all add: tracing_def)
  have val: "validate e (dj_fs (dir s)) (dj_id (dir s)) (tf s) = FR_OK"
    using ids rdy geometry_fields(1) [OF g] by (simp add: validate_def ready_disk_def cur_fs_def)
  let ?fi = "(finfo s)\<lparr>fname := store 0 [0] (fname (finfo s))\<rparr>"
  have "fname ?fi ! 0 = 0" by (simp add: store_def)
  from readdir_loop_live [OF t dok ls this] obtain d fi t' where
    r: "readdir_loop e (dir s) ?fi (tf s) = Some (FR_OK, d, fi, t')" "tracing e img im fs t'" "kept e img (tf s) t'" "same_dir (dir s) d"
      "case find_next in_use im fs cs i of
         None \<Rightarrow> fname fi ! 0 = 0 \<and> (\<exists>j. listing fs cs j d \<and> find_next in_use im fs cs j = None)
       | Some k \<Rightarrow> fi = get_fileinfo (dir_entry im fs cs k) \<and> k < 16 * dir_len fs cs \<and> listing fs cs (Suc k) d"
    by blast
  have "f_readdir e (dir s) (finfo s) (tf s) = Some (FR_OK, d, fi, t')"
    by (simp add: f_readdir_def val r(1))
  moreover have "listing_at e img im fs cs j (s\<lparr>dir := d, finfo := fi, tf := t'\<rparr>)" if "listing fs cs j d" for j
    using r(2,4) dok that ids keptD(1) [OF r(3)] by (simp add: listing_at_def same_dir_def)
  ultimately show ?thesis using r(5) keptD(1) [OF r(3)] by (auto split: option.splits)
qed

lemma philes_nextfile_live:
  assumes "listing_at e img im fs cs i s"
  shows "\<exists>r m s'. philes_nextfile e filename terminate s = Some (r, m, s') \<and> same_listing s s'
    \<and> (case find_next is_image im fs cs i of
         None \<Rightarrow> r = FR_NO_FILE \<and> m = filename
           \<and> (\<exists>j. find_next is_image im fs cs j = None \<and> listing_at e img im fs cs j s')
       | Some k \<Rightarrow> r = FR_OK \<and> listing_at e img im fs cs (Suc k) s'
           \<and> m = map_option (\<lambda>b. if terminate then strncpy b (fname (get_fileinfo (dir_entry im fs cs k))) 12
                              else strxcpy b (fname (get_fileinfo (dir_entry im fs cs k)))) filename)"
  using assms
proof (induction "16 * dir_len fs cs - i" arbitrary: i s rule: less_induct)
  case less
  let ?P = "find_next in_use im fs cs i"
  have fn: "find_next is_image im fs cs j = (case find_next in_use im fs cs j of None \<Rightarrow> None
      | Some k \<Rightarrow> if is_image (dir_entry im fs cs k) then Some k else find_next is_image im fs cs (Suc k))" for j
    by (rule find_next_stronger) (simp add: is_image_def)
  obtain d fi t where rd: "f_readdir e (dir s) (finfo s) (tf s) = Some (FR_OK, d, fi, t)"
    and c: "case ?P of
         None \<Rightarrow> fname fi ! 0 = 0 \<and> (\<exists>j. find_next in_use im fs cs j = None
           \<and> listing_at e img im fs cs j (s\<lparr>dir := d, finfo := fi, tf := t\<rparr>))
       | Some k \<Rightarrow> fi = get_fileinfo (dir_entry im fs cs k) \<and> k < 16 * dir_len fs cs
           \<and> listing_at e img im fs cs (Suc k) (s\<lparr>dir := d, finfo := fi, tf := t\<rparr>)"
    and ft: "FatFs t = FatFs (tf s)"
    using f_readdir_live [OF less.prems] by blast
  let ?s = "s\<lparr>dir := d, finfo := fi, tf := t\<rparr>"
  show ?case
  proof (cases ?P)
    case None
    then have "philes_nextfile e filename terminate s = Some (FR_NO_FILE, filename, ?s)"
      using c by (subst philes_nextfile.simps) (simp add: rd)
    moreover from None c obtain j where "find_next in_use im fs cs j = None" "listing_at e img im fs cs j ?s" by auto
    ultimately show ?thesis using fn [of i] fn [of j] None ft by (auto simp: same_listing_def)
  next
    case (Some k)
    let ?ent = "dir_entry im fs cs k"
    have fi: "fi = get_fileinfo ?ent" and k: "k < 16 * dir_len fs cs" and l: "listing_at e img im fs cs (Suc k) ?s"
      using c unfolding Some option.case by blast+
    have iu: "in_use ?ent" and ik: "i \<le> k" using find_next_found [OF Some] by auto
    have nz: "fname fi ! 0 \<noteq> 0" using iu fi by (simp add: in_use_def)
    show ?thesis
    proof (cases "is_image ?ent")
      case True
      then have "philes_nextfile e filename terminate s = Some (FR_OK,
          map_option (\<lambda>b. if terminate then strncpy b (fname fi) 12 else strxcpy b (fname fi)) filename, ?s)"
        using nz is_image_philes [OF iu] fi by (subst philes_nextfile.simps) (cases terminate; simp add: rd)
      moreover have "same_listing s ?s" using ft by (simp add: same_listing_def)
      moreover have "find_next is_image im fs cs i = Some k" using fn [of i] Some True by simp
      ultimately show ?thesis using l by (simp only: option.case fi [symmetric]) blast
    next
      case False
      then have pn: "philes_nextfile e filename terminate s = philes_nextfile e filename terminate ?s"
        using nz is_image_philes [OF iu] fi by (subst philes_nextfile.simps) (auto simp: rd)
      have "16 * dir_len fs cs - Suc k < 16 * dir_len fs cs - i" using k ik by simp
      from less.hyps [OF this l] obtain r m s' where h: "philes_nextfile e filename terminate ?s = Some (r, m, s')" "same_listing ?s s'"
        "case find_next is_image im fs cs (Suc k) of
           None \<Rightarrow> r = FR_NO_FILE \<and> m = filename
             \<and> (\<exists>j. find_next is_image im fs cs j = None \<and> listing_at e img im fs cs j s')
         | Some k \<Rightarrow> r = FR_OK \<and> listing_at e img im fs cs (Suc k) s'
             \<and> m = map_option (\<lambda>b. if terminate then strncpy b (fname (get_fileinfo (dir_entry im fs cs k))) 12
                                else strxcpy b (fname (get_fileinfo (dir_entry im fs cs k)))) filename"
        by blast
      have "find_next is_image im fs cs i = find_next is_image im fs cs (Suc k)" using fn [of i] Some False by simp
      moreover have "same_listing s s'" using h(2) ft by (simp add: same_listing_def)
      ultimately show ?thesis using pn h(1,3) by simp
    qed
  qed
qed

end

section \<open>philes_opendir\<close>

text \<open>A path that leads to a directory with the clusters \<open>cs\<close>.\<close>

definition leads_to_dir :: "(DWORD \<Rightarrow> BYTE list) \<Rightarrow> FATFS \<Rightarrow> BYTE list \<Rightarrow> CLUST list \<Rightarrow> FRESULT + CLUST list \<times> nat \<Rightarrow> bool" where
  "leads_to_dir im fs path cs res \<longleftrightarrow> (case res of Inl x \<Rightarrow> False | Inr (ds, j) \<Rightarrow>
     resolves im fs [] 0 path res \<and> dir_entry im fs ds j ! DIR_Attr AND AM_DIR \<noteq> 0
     \<and> LD_WORD (dir_entry im fs ds j) DIR_FstClusLO = hd cs \<and> cs \<noteq> [] \<and> dir_ok im fs cs)"

context live_disk begin

lemma f_opendir_live:
  assumes m: "mounted e img s" and l: "leads_to_dir (img (disk s)) (cur_fs s) (strip_path path) cs res"
  shows "\<exists>d' s'. f_opendir e d path s = Some (FR_OK, d', s') \<and> mounted e img s' \<and> kept e img s s'
    \<and> listing (cur_fs s) cs 2 d' \<and> dj_fs d' = FatFs s \<and> dj_id d' = fs_id (cur_fs s)"
proof -
  let ?im = "img (disk s)" and ?fs = "cur_fs s"
  obtain ds j where res: "res = Inr (ds, j)" using l by (auto simp: leads_to_dir_def split: sum.splits)
  let ?ent = "dir_entry ?im ?fs ds j"
  have r: "resolves ?im ?fs [] 0 (strip_path path) (Inr (ds, j))" and a: "?ent ! DIR_Attr AND AM_DIR \<noteq> 0"
    and c: "LD_WORD ?ent DIR_FstClusLO = hd cs" "cs \<noteq> []" "dir_ok ?im ?fs cs"
    using l by (simp_all add: leads_to_dir_def res)
  have pe: "\<not> path_end (strip_path path)" using resolves_path_end [OF r] by auto
  from trace_path_live [OF m r pe, of d "replicate 12 0"] obtain d1 fn' s1 where
    t: "trace_path e d (replicate 12 0) (strip_path path) s = Some (FR_OK, d1, fn', Some (j mod 16 * 32), s1)"
      "mounted e img s1" "kept e img s s1" "dj_fs d1 = FatFs s" "fs__win s1 = ?im (dir_sector ?fs ds (j div 16))"
    by auto
  have ent: "entry_at (j mod 16 * 32) s1 = ?ent" by (simp add: entry_at_def dir_entry_def t(5))
  obtain x rest where cs: "cs = x # rest" using c(2) by (cases cs) auto
  let ?d = "d1\<lparr>dj_clust := x, dj_sect := clust2sect x s1, dj_index := 2, dj_id := fs_id (cur_fs s1)\<rparr>"
  have "dir_pos (cur_fs s1) (x # rest) 2 (d1\<lparr>dj_clust := x, sclust := x, dj_sect := clust2sect x s1, dj_index := 2\<rparr>)"
    by (rule dir_pos_first [of ?im]) (use c(3) cs in \<open>simp add: kept_dir [OF t(3)]\<close>)
  then have "dir_pos ?fs cs 2 ?d" by (simp add: cs dir_pos_def kept_dir [OF t(3)] kept_cong [OF t(3)])
  then have "listing ?fs cs 2 ?d" by (auto simp: listing_def dir_pos_def)
  moreover have "f_opendir e d path s = Some (FR_OK, ?d, s1)"
    using a c(1) by (simp add: f_opendir_def auto_mount_mounted [OF m] t(1) ent Let_def cs)
  ultimately show ?thesis using t kept_fields(1) [OF t(3)] by simp
qed

lemma philes_opendir_live:
  assumes m: "mounted e img (tf s)"
    and l: "leads_to_dir (img (disk (tf s))) (cur_fs (tf s)) (strip_path ((ptrfile s)[9 := 0])) cs res"
  shows "\<exists>s'. philes_opendir e s = Some (FR_OK, s')
    \<and> listing_at e img (img (disk (tf s))) (cur_fs (tf s)) cs 2 s' \<and> ptrfile s' = (ptrfile s)[9 := 0x2F]"
proof -
  obtain d' t where o: "f_opendir e (dir s) ((ptrfile s)[9 := 0]) (tf s) = Some (FR_OK, d', t)" "mounted e img t"
      and k: "kept e img (tf s) t" and d: "listing (cur_fs (tf s)) cs 2 d'" "dj_fs d' = FatFs (tf s)"
      "dj_id d' = fs_id (cur_fs (tf s))"
    using f_opendir_live [OF m l] by blast
  have "dir_ok (img (disk (tf s))) (cur_fs (tf s)) cs" using l by (auto simp: leads_to_dir_def split: sum.splits)
  moreover have "tracing e img (img (disk (tf s))) (cur_fs (tf s)) t"
    using tracing_kept [OF mounted_tracing [OF m] k] o(2) by (simp add: mounted_def)
  ultimately show ?thesis
    using o d m keptD(1) [OF k] by (simp add: philes_opendir_def listing_at_def Let_def mounted_def)
qed

text \<open>
  The whole listing: calls of philes_nextfile until one does not return FR_OK, with the names they
  put into a string of 12 bytes; \<open>n\<close> bounds the number of calls.
\<close>

end

fun list_names :: "'d fsenv \<Rightarrow> nat \<Rightarrow> 'd philes \<Rightarrow> (BYTE list list \<times> bool) option" where
  "list_names e 0 s = Some ([], False)"
| "list_names e (Suc n) s = do {
     (r, m, s) \<leftarrow> philes_nextfile e (Some (replicate 12 0)) True s;
     if r \<noteq> FR_OK then Some ([], True)
     else do { (ns, fin) \<leftarrow> list_names e n s; Some (the m # ns, fin) } }"

text \<open>The images of a directory: the names of its image entries before the end mark, in order.\<close>

definition image_names :: "BYTE list list \<Rightarrow> BYTE list list" where
  "image_names ents = map (\<lambda>ent. strncpy (replicate 12 0) (fname (get_fileinfo ent)) 12)
     (filter is_image (takeWhile (\<lambda>ent. ent ! 0 \<noteq> 0) ents))"

lemma image_names_next:
  "image_names (drop i (dir_entries im fs cs)) = (case find_next is_image im fs cs i of None \<Rightarrow> []
     | Some k \<Rightarrow> strncpy (replicate 12 0) (fname (get_fileinfo (dir_entry im fs cs k))) 12
         # image_names (drop (Suc k) (dir_entries im fs cs)))"
proof (induction "16 * dir_len fs cs - i" arbitrary: i rule: less_induct)
  case less
  show ?case
  proof (cases "i < 16 * dir_len fs cs")
    case True
    then have "16 * dir_len fs cs - Suc i < 16 * dir_len fs cs - i" by simp
    note IH = less [OF this]
    have "drop i (dir_entries im fs cs) = dir_entry im fs cs i # drop (Suc i) (dir_entries im fs cs)"
      using True by (simp add: dir_entries_nth flip: Cons_nth_drop_Suc)
    then have "image_names (drop i (dir_entries im fs cs)) = (let ent = dir_entry im fs cs i in
        if ent ! 0 = 0 then [] else if is_image ent
        then strncpy (replicate 12 0) (fname (get_fileinfo ent)) 12 # image_names (drop (Suc i) (dir_entries im fs cs))
        else image_names (drop (Suc i) (dir_entries im fs cs)))"
      by (simp add: image_names_def Let_def)
    with IH show ?thesis by (simp add: find_next_step [OF True] Let_def)
  qed (simp add: find_next_end image_names_def)
qed

context live_disk begin

lemma list_names_live:
  assumes "listing_at e img im fs cs i s" and "length (image_names (drop i (dir_entries im fs cs))) < n"
  shows "list_names e n s = Some (image_names (drop i (dir_entries im fs cs)), True)"
  using assms
proof (induction n arbitrary: i s)
  case (Suc n)
  obtain r m s' where p: "philes_nextfile e (Some (replicate 12 0)) True s = Some (r, m, s')"
    and c: "case find_next is_image im fs cs i of
         None \<Rightarrow> r = FR_NO_FILE \<and> m = Some (replicate 12 0)
           \<and> (\<exists>j. find_next is_image im fs cs j = None \<and> listing_at e img im fs cs j s')
       | Some k \<Rightarrow> r = FR_OK \<and> listing_at e img im fs cs (Suc k) s'
           \<and> m = map_option (\<lambda>b. if True then strncpy b (fname (get_fileinfo (dir_entry im fs cs k))) 12
                              else strxcpy b (fname (get_fileinfo (dir_entry im fs cs k)))) (Some (replicate 12 0))"
    using philes_nextfile_live [OF Suc.prems(1), of "Some (replicate 12 0)" True] by blast
  note nx = image_names_next [of i im fs cs]
  show ?case
  proof (cases "find_next is_image im fs cs i")
    case None
    with c nx p show ?thesis by simp
  next
    case (Some k)
    then have "list_names e n s' = Some (image_names (drop (Suc k) (dir_entries im fs cs)), True)"
      using c nx Suc.prems(2) by (intro Suc.IH) simp_all
    with Some c nx p show ?thesis by simp
  qed
qed simp

end

end
