(* ===== verification/Example_Volume.thy ===== *)
theory Example_Volume
  imports Example_Card Tff_Mounting Philes_Listing
begin

text \<open>
  A card with a whole FAT12 volume: the boot sector, the FAT, the root directory with a directory
  VECTOR06, and in it an image A.FDD of two clusters. Its geometry is that of theory Example_Card.
\<close>

definition vol_boot :: "BYTE list" where
  "vol_boot = [0xEB, 0x3C, 0x90] @ bytes_of ''MSDOS5.0'' @ [0x00, 0x02, 0x01, 0x01, 0x00, 0x01, 0x10, 0x00, 0x40, 0x00, 0xF8, 0x01, 0x00]
     @ replicate 30 0 @ bytes_of ''FAT12   '' @ replicate 448 0 @ [0x55, 0xAA]"

definition vol_fat :: "BYTE list" where
  "vol_fat = [0xF8, 0xFF, 0xFF, 0x03, 0xF0, 0xFF, 0xFF, 0x0F] @ replicate 504 0"

definition vol_entry :: "string \<Rightarrow> BYTE \<Rightarrow> BYTE \<Rightarrow> BYTE list \<Rightarrow> BYTE list" where
  "vol_entry name attr clust sz = bytes_of name @ [attr] @ replicate 14 0 @ [clust, 0] @ sz"

definition vol_root :: "BYTE list" where
  "vol_root = vol_entry ''VECTOR06   '' 0x10 4 [0, 0, 0, 0] @ replicate 480 0"

definition vol_dir :: "BYTE list" where
  "vol_dir = vol_entry ''.          '' 0x10 4 [0, 0, 0, 0] @ vol_entry ''..         '' 0x10 0 [0, 0, 0, 0]
     @ vol_entry ''A       FDD'' 0x20 2 [0, 4, 0, 0] @ replicate 416 0"

definition vol_store :: "DWORD \<Rightarrow> BYTE list" where
  "vol_store s = (if s = 0 then vol_boot else if s = 1 then vol_fat else if s = 2 then vol_root
     else if s = 3 then replicate 512 0xAA else if s = 4 then replicate 512 0xBB
     else if s = 5 then vol_dir else replicate 512 0)"

definition vol_path :: "BYTE list" where
  "vol_path = bytes_of ''/VECTOR06/A.FDD'' @ [0]"

definition vol_fs :: FATFS where
  "vol_fs = volume_fs 0 vol_boot 2"

definition vol_tff :: "card mmc tff" where
  "vol_tff = \<lparr>FatFs = 0x1000, fsid = 1, fs__win = replicate 512 0, fsobj = (\<lambda>_. FATFS_zero),
     disk = mmc_init (ex_card\<lparr>store_of := vol_store\<rparr>)\<rparr>"

lemma vol_lengths: "length vol_boot = 512" "length vol_fat = 512" "length vol_root = 512" "length vol_dir = 512"
  by (simp_all add: vol_boot_def vol_fat_def vol_root_def vol_dir_def vol_entry_def)

lemma length_vol_store: "length (vol_store x) = 512"
  by (simp add: vol_store_def vol_lengths)

lemma vol_find: "find_volume vol_store = Some 0"
  by code_simp

lemma vol_fields:
  "LD_WORD vol_boot BPB_BytsPerSec = 512" "LD_WORD vol_boot BPB_FATSz16 = 1" "vol_boot ! BPB_NumFATs = 1"
  "LD_WORD vol_boot BPB_RsvdSecCnt = 1" "vol_boot ! BPB_SecPerClus = 1" "LD_WORD vol_boot BPB_RootEntCnt = 16"
  "LD_WORD vol_boot BPB_TotSec16 = 64"
  by code_simp+

lemma vol_store_0: "vol_store 0 = vol_boot"
  by (simp add: vol_store_def)

lemma vol_bytes_per_sector: "LD_WORD (vol_store 0) BPB_BytsPerSec = 512"
  by (simp add: vol_store_0 vol_fields)

lemma vol_numbers:
  "fat_size vol_boot = 1" "total_sectors vol_boot = 64" "reserved vol_boot = 1" "root_sectors vol_boot = 1"
  "fats_sectors vol_boot = 1" "cluster_count vol_boot = 61"
  by (simp_all add: fat_size_def total_sectors_def reserved_def root_sectors_def fats_sectors_def cluster_count_def vol_fields)

lemma vol_bpb: "bpb_ok 0 (vol_store 0)"
  by (simp add: bpb_ok_def vol_store_0 vol_fields vol_numbers)

lemma vol_fs_eval: "vol_fs = ex_fs\<lparr>fs_id := 2, free_clust := 0xFFFF\<rparr>"
  by (simp add: vol_fs_def volume_fs_def vol_fields vol_numbers ex_fs_def)

lemma vol_fits: "volume_fits vol_store"
  by (simp add: volume_fits_def vol_find vol_bpb)

lemma vol_fat_entries:
  "fat_entry vol_store vol_fs 2 = 3" "fat_entry vol_store vol_fs 3 = 0xFFF" "fat_entry vol_store vol_fs 4 = 0xFFF"
  unfolding vol_fs_eval by code_simp+

lemma vol_spc: "spc vol_fs = 1" "dir_len vol_fs [] = 1"
  by (simp_all add: vol_fs_eval spc_def dir_len_def ex_fs_def FATFS_zero_def)

lemma vol_data_clust: "data_clust vol_fs c \<longleftrightarrow> 2 \<le> c \<and> c < 63"
  by (simp add: data_clust_def vol_fs_eval ex_fs_def FATFS_zero_def)

lemma vol_sectors: "dir_sector vol_fs [] 0 = 2" "dir_sector vol_fs [4] 0 = 5" "file_sect vol_fs [2, 3] 0 = 3"
  "file_sect vol_fs [2, 3] (Suc 0) = 4"
  by (simp_all add: dir_sector_def file_sect_def clust_sect_def vol_spc) (simp_all add: vol_fs_eval ex_fs_def FATFS_zero_def)

lemma vol_dir_ok: "dir_ok vol_store vol_fs [4]"
  by (simp add: dir_ok_def dir_len_def vol_spc vol_fat_entries vol_data_clust exI [of _ 0])

lemma vol_names:
  "make_dirfile (strip_path vol_path) = (0x2F, bytes_of ''A.FDD'' @ [0], bytes_of ''VECTOR06   '' @ [0])"
  "make_dirfile (bytes_of ''A.FDD'' @ [0]) = (0, [], bytes_of ''A       FDD'' @ [0])"
  by code_simp+

lemma vol_entries:
  "dir_entry vol_store vol_fs [] 0 = vol_entry ''VECTOR06   '' 0x10 4 [0, 0, 0, 0]"
  "dir_entry vol_store vol_fs [4] 2 = vol_entry ''A       FDD'' 0x20 2 [0, 4, 0, 0]"
  by (simp_all add: dir_entry_def vol_sectors)
    (simp_all add: vol_store_def vol_root_def vol_dir_def vol_entry_def)

lemma vol_hits:
  "find_entry vol_store vol_fs [] 0 (bytes_of ''VECTOR06   '' @ [0]) = Some 0"
  "find_entry vol_store vol_fs [4] 2 (bytes_of ''A       FDD'' @ [0]) = Some 2"
proof -
  have h: "vol_entry ''VECTOR06   '' 0x10 4 [0, 0, 0, 0] ! 0 \<noteq> 0" "vol_entry ''A       FDD'' 0x20 2 [0, 4, 0, 0] ! 0 \<noteq> 0"
    "hits (bytes_of ''VECTOR06   '' @ [0]) (vol_entry ''VECTOR06   '' 0x10 4 [0, 0, 0, 0])"
    "hits (bytes_of ''A       FDD'' @ [0]) (vol_entry ''A       FDD'' 0x20 2 [0, 4, 0, 0])"
    by code_simp+
  show "find_entry vol_store vol_fs [] 0 (bytes_of ''VECTOR06   '' @ [0]) = Some 0"
    by (subst find_entry_step) (simp_all add: vol_spc vol_entries h)
  show "find_entry vol_store vol_fs [4] 2 (bytes_of ''A       FDD'' @ [0]) = Some 2"
    by (subst find_entry_step) (simp_all add: dir_len_def vol_spc vol_entries h)
qed

lemma vol_resolves: "resolves vol_store vol_fs [] 0 (strip_path vol_path) (Inr ([4], 2))"
proof -
  have "vol_entry ''VECTOR06   '' 0x10 4 [0, 0, 0, 0] ! DIR_Attr AND AM_DIR \<noteq> 0"
    "LD_WORD (vol_entry ''VECTOR06   '' 0x10 4 [0, 0, 0, 0]) DIR_FstClusLO = 4"
    by code_simp+
  then show ?thesis
    by (intro resolves.down [OF vol_names(1) _ _ vol_hits(1), where ds' = "[4]"] resolves.entry [OF vol_names(2) vol_hits(2)])
      (simp_all add: vol_entries vol_dir_ok)
qed

lemma vol_file_entry: "file_entry vol_store vol_fs [2, 3] (dir_entry vol_store vol_fs [4] 2)"
proof -
  have "vol_entry ''A       FDD'' 0x20 2 [0, 4, 0, 0] ! DIR_Attr AND AM_DIR = 0"
    "LD_WORD (vol_entry ''A       FDD'' 0x20 2 [0, 4, 0, 0]) DIR_FstClusLO = 2"
    "LD_DWORD (vol_entry ''A       FDD'' 0x20 2 [0, 4, 0, 0]) DIR_FileSize = 1024"
    by code_simp+
  then show ?thesis by (simp add: file_entry_def vol_entries vol_fat_entries vol_data_clust vol_spc)
qed

lemma vol_holds: "card_holds vol_store (disk vol_tff)" "FatFs vol_tff \<noteq> NULL" "length (fs__win vol_tff) = 512"
  "fs_type (cur_fs vol_tff) = 0" "fsid vol_tff = 1" "\<not> path_end (strip_path vol_path)"
  by (simp_all add: card_holds_def vol_tff_def mmc_init_def STA_NOINIT_def STA_NODISK_def length_vol_store NULL_def
      cur_fs_def FATFS_zero_def) (code_simp)

section \<open>The mounted volume and its directory of images\<close>

definition vol_mounted :: "card mmc tff" where
  "vol_mounted = \<lparr>FatFs = 0x1000, fsid = 2, fs__win = replicate 512 0, fsobj = (\<lambda>_. vol_fs),
     disk = \<lparr>Stat = 0, CardType = 12, hw = ex_card\<lparr>store_of := vol_store\<rparr>\<rparr>\<rparr>"

definition vol_philes :: "card mmc philes" where
  "vol_philes = \<lparr>tf = vol_mounted, dir = \<lparr>dj_id = 0, dj_index = 0, dj_fs = NULL, sclust = 0, dj_clust = 0, dj_sect = 0\<rparr>,
     finfo = \<lparr>fi_size = 0, fdate = 0, ftime = 0, fattrib = 0, fname = replicate 13 0\<rparr>, ptrfile = ptrfile_init\<rparr>"

lemma vol_mounted_simps [simp]:
  "cur_fs vol_mounted = vol_fs" "card_img (disk vol_mounted) = vol_store" "tf vol_philes = vol_mounted"
  "ptrfile vol_philes = ptrfile_init"
  by (simp_all add: vol_mounted_def cur_fs_def card_img_def vol_philes_def)

lemma vol_is_mounted: "mounted ex_env card_img vol_mounted"
proof -
  have "winsect vol_fs = 0" "winflag vol_fs = 0" by (simp_all add: vol_fs_eval ex_fs_def FATFS_zero_def)
  then show ?thesis
    using volume_fs_ok [OF vol_bpb, where i = 2, unfolded vol_store_0] vol_fs_def
    by (simp add: mounted_def cached_def readable_def length_vol_store vol_store_0)
      (simp add: vol_mounted_def ready_disk_def ex_env_def disk_status_def NULL_def)
qed

lemma vol_dir_path:
  "leads_to_dir vol_store vol_fs (strip_path (ptrfile_init[9 := 0])) [4] (Inr ([], 0))"
proof -
  have "make_dirfile (strip_path (ptrfile_init[9 := 0]))
      = (0, drop 10 ptrfile_init, bytes_of ''VECTOR06   '' @ [0])"
    by code_simp
  from resolves.entry [OF this vol_hits(1)]
  have "resolves vol_store vol_fs [] 0 (strip_path (ptrfile_init[9 := 0])) (Inr ([], 0))" .
  moreover have "vol_entry ''VECTOR06   '' 0x10 4 [0, 0, 0, 0] ! DIR_Attr AND AM_DIR \<noteq> 0"
    "LD_WORD (vol_entry ''VECTOR06   '' 0x10 4 [0, 0, 0, 0]) DIR_FstClusLO = 4"
    by code_simp+
  ultimately show ?thesis by (simp add: leads_to_dir_def vol_entries vol_dir_ok)
qed

lemma vol_images: "image_names (drop 2 (dir_entries vol_store vol_fs [4])) = [bytes_of ''A.FDD'' @ replicate 7 0]"
proof -
  have l: "2 < 16 * dir_len vol_fs [4]" "3 < 16 * dir_len vol_fs [4]" by (simp_all add: dir_len_def vol_spc)
  have "dir_entry vol_store vol_fs [4] 3 ! 0 = 0"
    by (simp add: dir_entry_def vol_sectors) (simp add: vol_store_def vol_dir_def vol_entry_def)
  then have n: "find_next is_image vol_store vol_fs [4] 3 = None" by (simp add: find_next_step [OF l(2)] Let_def)
  have "vol_entry ''A       FDD'' 0x20 2 [0, 4, 0, 0] ! 0 \<noteq> 0" "is_image (vol_entry ''A       FDD'' 0x20 2 [0, 4, 0, 0])"
    by code_simp+
  then have "find_next is_image vol_store vol_fs [4] 2 = Some 2"
    by (simp add: find_next_step [OF l(1)] Let_def vol_entries)
  moreover have "strncpy (replicate 12 0) (fname (get_fileinfo (vol_entry ''A       FDD'' 0x20 2 [0, 4, 0, 0]))) 12
      = bytes_of ''A.FDD'' @ replicate 7 0"
    by code_simp
  ultimately show ?thesis
    using n by (simp add: image_names_next [where i = 2] image_names_next [where i = 3] vol_entries)
qed

end
