(* ===== verification/Mmc_Liveness.thy ===== *)
theory Mmc_Liveness
  imports Sd_Card
begin

text \<open>
  No call of the card driver hangs. The driver waits for the card in loops that only a timer
  ends. Locale \<open>timed_ports\<close> states what it relies on: a timer counts down on its own, so that
  looking at it often enough shows zero, whatever else is done, unless it is started again.
\<close>

section \<open>The timers\<close>

text \<open>\<open>rank1\<close> and \<open>rank2\<close> bound how often TIMER_1 and TIMER_2 can still be read as running.\<close>

locale timed_ports =
  fixes p :: "'h ports" and rank1 rank2 :: "'h \<Rightarrow> nat"
  assumes rd1: "port_rd p a h = (v, h') \<Longrightarrow> rank1 h' \<le> rank1 h"
    and rd2: "port_rd p a h = (v, h') \<Longrightarrow> rank2 h' \<le> rank2 h"
    and wr1: "a \<noteq> TIMER_1 \<Longrightarrow> rank1 (port_wr p a v h) \<le> rank1 h"
    and wr2: "a \<noteq> TIMER_2 \<Longrightarrow> rank2 (port_wr p a v h) \<le> rank2 h"
    and down1: "port_rd p TIMER_1 h = (t, h') \<Longrightarrow> t \<noteq> 0 \<Longrightarrow> rank1 h' < rank1 h"
    and down2: "port_rd p TIMER_2 h = (t, h') \<Longrightarrow> t \<noteq> 0 \<Longrightarrow> rank2 h' < rank2 h"

text \<open>A run ends in a result with \<open>Q\<close>.\<close>

definition ends :: "('a \<Rightarrow> bool) \<Rightarrow> 'a option \<Rightarrow> bool" where
  "ends Q m \<longleftrightarrow> (\<exists>x. m = Some x \<and> Q x)"

lemma endsE: "ends Q m \<Longrightarrow> \<exists>x. m = Some x"
  by (auto simp: ends_def)

lemma ends_Some: "Q x \<Longrightarrow> ends Q (Some x)"
  by (simp add: ends_def)

lemma ends_bind: "ends R m \<Longrightarrow> (\<And>x. R x \<Longrightarrow> ends Q (f x)) \<Longrightarrow> ends Q (m \<bind> f)"
  by (auto simp: ends_def)

lemma ends_bind2: "ends R m \<Longrightarrow> (\<And>x y. R (x, y) \<Longrightarrow> ends Q (f x y)) \<Longrightarrow> ends Q (m \<bind> (\<lambda>(x, y). f x y))"
  by (auto simp: ends_def)

lemma ends_bind3:
  "ends R m \<Longrightarrow> (\<And>x y z. R (x, y, z) \<Longrightarrow> ends Q (f x y z)) \<Longrightarrow> ends Q (m \<bind> (\<lambda>(x, y, z). f x y z))"
  by (auto simp: ends_def)

lemma ends_if: "(c \<Longrightarrow> ends Q x) \<Longrightarrow> (\<not> c \<Longrightarrow> ends Q y) \<Longrightarrow> ends Q (if c then x else y)"
  by simp

lemma ends_mono: "ends R m \<Longrightarrow> (\<And>x. R x \<Longrightarrow> Q x) \<Longrightarrow> ends Q m"
  by (auto simp: ends_def)

section \<open>The waits end\<close>

context timed_ports begin

lemma spi1: "rank1 (snd (rcvr_spi p h)) \<le> rank1 h"
proof -
  have "rank1 (snd (port_rd p SPDR (port_wr p SPDR 0xFF h))) \<le> rank1 (port_wr p SPDR 0xFF h)"
    by (rule rd1 [OF prod.collapse [symmetric]])
  also have "\<dots> \<le> rank1 h" by (rule wr1) simp
  finally show ?thesis by (simp add: rcvr_spi_def)
qed

lemma spi2: "rank2 (snd (rcvr_spi p h)) \<le> rank2 h"
proof -
  have "rank2 (snd (port_rd p SPDR (port_wr p SPDR 0xFF h))) \<le> rank2 (port_wr p SPDR 0xFF h)"
    by (rule rd2 [OF prod.collapse [symmetric]])
  also have "\<dots> \<le> rank2 h" by (rule wr2) simp
  finally show ?thesis by (simp add: rcvr_spi_def)
qed

lemma select1: "rank1 (SELECT p h) \<le> rank1 h" "rank1 (DESELECT p h) \<le> rank1 h"
proof -
  have "rank1 (port_wr p MMC_A v (snd (port_rd p MMC_A h))) \<le> rank1 h" for v
  proof -
    have "rank1 (port_wr p MMC_A v (snd (port_rd p MMC_A h))) \<le> rank1 (snd (port_rd p MMC_A h))"
      by (rule wr1) simp
    also have "\<dots> \<le> rank1 h" by (rule rd1 [OF prod.collapse [symmetric]])
    finally show ?thesis .
  qed
  then show "rank1 (SELECT p h) \<le> rank1 h" "rank1 (DESELECT p h) \<le> rank1 h"
    by (simp_all add: SELECT_def DESELECT_def case_prod_beta)
qed

lemma xmit1: "rank1 (xmit_all p bs h) \<le> rank1 h"
proof (induction bs arbitrary: h)
  case (Cons b bs)
  have "rank1 (xmit_spi p b h) \<le> rank1 h" unfolding xmit_spi_def by (rule wr1) simp
  with Cons [of "xmit_spi p b h"] show ?case by simp
qed simp

lemma resp1: "rank1 (snd (resp_loop p n h)) \<le> rank1 h"
proof (induction n arbitrary: h)
  case (Suc n)
  show ?case
    using Suc [of "snd (rcvr_spi p h)"] spi1 [of h] by (auto simp: case_prod_beta)
qed (simp add: spi1)

lemma wait_loop_ends: "ends (\<lambda>y. rank1 (snd y) \<le> rank1 h) (wait_loop p h)"
proof (induction "rank2 h" arbitrary: h rule: less_induct)
  case less
  obtain b h1 where s: "rcvr_spi p h = (b, h1)" by (rule prod.exhaust)
  obtain t h2 where r: "port_rd p TIMER_2 h1 = (t, h2)" by (rule prod.exhaust)
  have h1: "rank1 h1 \<le> rank1 h" "rank2 h1 \<le> rank2 h" using s spi1 [of h] spi2 [of h] by simp_all
  have h2: "rank1 h2 \<le> rank1 h1" by (rule rd1 [OF r])
  have "ends (\<lambda>y. rank1 (snd y) \<le> rank1 h2) (wait_loop p h2)" if "t \<noteq> 0"
    using down2 [OF r that] h1 by (intro less) simp
  then show ?case
    using s r h1 h2 by (subst wait_loop.simps) (auto intro!: ends_Some elim!: ends_mono)
qed

lemma wait_ready_ends: "ends (\<lambda>y. rank1 (snd y) \<le> rank1 h) (wait_ready p h)"
proof -
  have "rank1 (port_wr p TIMER_2 50 h) \<le> rank1 h" by (rule wr1) simp
  with spi1 [of "port_wr p TIMER_2 50 h"] show ?thesis
    unfolding wait_ready_def by (intro ends_mono [OF wait_loop_ends]) simp
qed

lemma send_packet_ends: "ends (\<lambda>y. rank1 (snd y) \<le> rank1 h) (send_packet p cmd arg h)"
proof -
  have "rank1 (SELECT p (DESELECT p h)) \<le> rank1 h" using select1 order_trans by blast
  note ready = ends_mono [OF wait_ready_ends, of "SELECT p (DESELECT p h)" "\<lambda>y. rank1 (snd y) \<le> rank1 h"]
  have tail: "rank1 (snd (resp_loop p 10 (if c then snd (rcvr_spi p (xmit_all p bs h1)) else xmit_all p bs h1))) \<le> rank1 h"
    if "rank1 h1 \<le> rank1 h" for h1 c bs
    using that xmit1 [of bs h1] spi1 [of "xmit_all p bs h1"]
      resp1 [of 10 "if c then snd (rcvr_spi p (xmit_all p bs h1)) else xmit_all p bs h1"] by (auto split: if_splits)
  show ?thesis
    unfolding send_packet_def Let_def
    using \<open>rank1 (SELECT p (DESELECT p h)) \<le> rank1 h\<close>
    by (intro ends_bind2 [OF ready] ends_if ends_Some) (simp_all add: tail)
qed

lemma send_cmd_ends: "ends (\<lambda>y. rank1 (snd y) \<le> rank1 h) (send_cmd p cmd arg h)"
  unfolding send_cmd_def
  by (intro ends_if ends_bind2 [OF send_packet_ends] ends_Some send_packet_ends ends_mono [OF send_packet_ends]) auto

lemma token_loop_ends: "ends (\<lambda>_. True) (token_loop p h)"
proof (induction "rank1 h" arbitrary: h rule: less_induct)
  case less
  obtain b h1 where s: "rcvr_spi p h = (b, h1)" by (rule prod.exhaust)
  obtain t h2 where r: "port_rd p TIMER_1 h1 = (t, h2)" by (rule prod.exhaust)
  have "ends (\<lambda>_. True) (token_loop p h2)" if "t \<noteq> 0"
    using down1 [OF r that] s spi1 [of h] by (intro less) simp
  then show ?case using s r by (subst token_loop.simps) (auto intro: ends_Some)
qed

lemma leave_idle_ends: "ends (\<lambda>_. True) (leave_idle p cmd arg h)"
proof (induction "rank1 h" arbitrary: h rule: less_induct)
  case less
  obtain t h1 where r: "port_rd p TIMER_1 h = (t, h1)" by (rule prod.exhaust)
  have "ends (\<lambda>_. True) (leave_idle p cmd arg h2)" if "t \<noteq> 0" "rank1 h2 \<le> rank1 h1" for h2
    using down1 [OF r that(1)] that(2) by (intro less) simp
  then show ?case
    using r by (subst leave_idle.simps)
      (auto intro!: ends_if ends_Some ends_bind2 [OF send_cmd_ends])
qed

section \<open>The driver's calls end\<close>

lemmas cmd_ends = ends_mono [OF send_cmd_ends, where Q = "\<lambda>_. True", simplified]

lemma rcvr_datablock_ends: "ends (\<lambda>_. True) (rcvr_datablock p buff btr h)"
  unfolding rcvr_datablock_def Let_def
  by (intro ends_bind2 [OF token_loop_ends] ends_if) (auto intro: ends_Some split: prod.split)

lemma xmit_datablock_ends: "ends (\<lambda>_. True) (xmit_datablock p buff mem token h)"
  unfolding xmit_datablock_def Let_def
  by (intro ends_bind2 [OF wait_ready_ends] ends_if) (auto intro: ends_Some split: prod.split)

lemma read_blocks_ends: "ends (\<lambda>_. True) (read_blocks p buff n h)"
  by (induction n arbitrary: buff h)
    (auto intro!: ends_Some ends_bind3 [OF rcvr_datablock_ends] ends_bind3 simp del: split_paired_All)

lemma write_blocks_ends: "ends (\<lambda>_. True) (write_blocks p buff mem n h)"
  by (induction n arbitrary: buff mem h)
    (auto intro!: ends_Some ends_bind2 [OF xmit_datablock_ends])

lemma disk_poll_ends: "ends (\<lambda>_. True) (disk_poll p drv s)"
  unfolding disk_poll_def Let_def
  by (intro ends_if ends_Some ends_bind2 [OF cmd_ends]) (auto intro: ends_Some split: prod.split)

lemma init_card_ends: "ends (\<lambda>_. True) (init_card p h)"
proof -
  have "ends (\<lambda>_. True) (init_sdhc p h)" for h
    unfolding init_sdhc_def case_prod_beta
    by (intro ends_if ends_bind [OF leave_idle_ends] ends_bind [OF cmd_ends] ends_Some TrueI)
  moreover have "ends (\<lambda>_. True) (init_sdsc p h)" for h
    unfolding init_sdsc_def case_prod_beta Let_def
    by (intro ends_if ends_bind [OF leave_idle_ends] ends_bind [OF cmd_ends] ends_Some TrueI)
  ultimately show ?thesis
    unfolding init_card_def case_prod_beta
    by (intro ends_if ends_bind [OF cmd_ends] ends_Some TrueI)
qed

lemma power_off_ends: "ends (\<lambda>_. True) (power_off p s)"
  unfolding power_off_def case_prod_beta by (intro ends_bind [OF wait_ready_ends] ends_Some TrueI)

lemma disk_initialize_ends: "ends (\<lambda>_. True) (disk_initialize p drv s)"
  unfolding disk_initialize_def case_prod_beta Let_def
  by (intro ends_if ends_bind [OF init_card_ends] ends_bind [where R = "\<lambda>_. True"] power_off_ends ends_Some TrueI)

lemma disk_read_ends: "ends (\<lambda>_. True) (disk_read p drv adr sect cnt s)"
  unfolding disk_read_def case_prod_beta Let_def
  by (intro ends_if ends_bind [where R = "\<lambda>_. True"] cmd_ends rcvr_datablock_ends read_blocks_ends ends_Some TrueI)

lemma disk_write_ends: "ends (\<lambda>_. True) (disk_write p drv adr mem sect cnt s)"
  unfolding disk_write_def case_prod_beta Let_def
  by (intro ends_if ends_bind [where R = "\<lambda>_. True"] cmd_ends xmit_datablock_ends write_blocks_ends ends_Some TrueI)

lemma disk_ioctl_ends: "ends (\<lambda>_. True) (disk_ioctl p a csd drv ctrl adr mem s)"
proof -
  have b: "ends (\<lambda>_. True) (cmd_block p cmd r2 adr mem btr h)" for cmd r2 adr mem btr h
    unfolding cmd_block_def case_prod_beta
    by (intro ends_if ends_bind [where R = "\<lambda>_. True"] cmd_ends rcvr_datablock_ends ends_Some TrueI)
  have w: "ends (\<lambda>_. True) (wait_ready p h)" for h by (rule ends_mono [OF wait_ready_ends]) simp
  show ?thesis
    unfolding disk_ioctl_def ioctl_request_def ioctl_block_size_def block_result_def ioctl_power_def case_prod_beta Let_def
    by (intro ends_if ends_bind [where R = "\<lambda>_. True"] b w cmd_ends power_off_ends ends_Some TrueI)
qed

end

section \<open>The card's timers\<close>

lemma tim_exchange [simp]: "tim1 (exchange b c) = tim1 c" "tim2 (exchange b c) = tim2 c"
  by (simp_all add: exchange_def answer_def Let_def split: list.split option.split)

interpretation sd_timers: timed_ports sd_ports "\<lambda>c. unat (tim1 c)" "\<lambda>c. unat (tim2 c)"
proof -
  have t: "unat (tick_down t) \<le> unat t" "t \<noteq> 0 \<Longrightarrow> unat (tick_down t) < unat t" for t :: BYTE
    by (auto simp: tick_down_def unat_minus_one unat_gt_0 [symmetric])
  show "timed_ports sd_ports (\<lambda>c. unat (tim1 c)) (\<lambda>c. unat (tim2 c))"
    by unfold_locales (auto simp: sd_rd_def sd_wr_def t split: if_splits)
qed

end
