(* ===== verification/Nes_Packet.thy ===== *)
theory Nes_Packet
  imports Prelude
begin

text \<open>
  dbgpacket.h and dbgpacket.cpp of the NES debugger (src/u8_nes/sw/src): the packets the debugger
  sends to the FPGA over the serial line. An object of a class derived from DbgPacket is its
  class and the bytes of \<open>m_pData\<close>; the virtual functions dispatch on the class. A pointer to
  bytes is the function from an offset to the byte there, so that reading behind the end of an
  array is reading whatever lies there. The factory CreateObjFromString parses the hexadecimal
  text of the raw debug dialog.
\<close>

section \<open>Types\<close>

type_synonym USHORT = "16 word"
type_synonym UINT = "32 word"
type_synonym TCHAR = "16 word"

text \<open>Memory behind a pointer, by offset.\<close>

type_synonym bytes_at = "nat \<Rightarrow> BYTE"

datatype DbgPacketOpCode =
    DbgPacketOpCodeEcho | DbgPacketOpCodeCpuMemRd | DbgPacketOpCodeCpuMemWr
  | DbgPacketOpCodeDbgHlt | DbgPacketOpCodeDbgRun | DbgPacketOpCodeCpuRegRd
  | DbgPacketOpCodeCpuRegWr | DbgPacketOpCodeQueryHlt | DbgPacketOpCodeQueryErrCode
  | DbgPacketOpCodePpuMemRd | DbgPacketOpCodePpuMemWr | DbgPacketOpCodePpuDisable
  | DbgPacketOpCodeCartSetCfg

fun opcode :: "DbgPacketOpCode \<Rightarrow> BYTE" where
  "opcode DbgPacketOpCodeEcho = 0x00"
| "opcode DbgPacketOpCodeCpuMemRd = 0x01"
| "opcode DbgPacketOpCodeCpuMemWr = 0x02"
| "opcode DbgPacketOpCodeDbgHlt = 0x03"
| "opcode DbgPacketOpCodeDbgRun = 0x04"
| "opcode DbgPacketOpCodeCpuRegRd = 0x05"
| "opcode DbgPacketOpCodeCpuRegWr = 0x06"
| "opcode DbgPacketOpCodeQueryHlt = 0x07"
| "opcode DbgPacketOpCodeQueryErrCode = 0x08"
| "opcode DbgPacketOpCodePpuMemRd = 0x09"
| "opcode DbgPacketOpCodePpuMemWr = 0x0A"
| "opcode DbgPacketOpCodePpuDisable = 0x0B"
| "opcode DbgPacketOpCodeCartSetCfg = 0x0C"

datatype CpuReg = CpuRegPcl | CpuRegPch | CpuRegAc | CpuRegX | CpuRegY | CpuRegP | CpuRegS

fun cpureg_code :: "CpuReg \<Rightarrow> UINT" where
  "cpureg_code CpuRegPcl = 0x00"
| "cpureg_code CpuRegPch = 0x01"
| "cpureg_code CpuRegAc = 0x02"
| "cpureg_code CpuRegX = 0x03"
| "cpureg_code CpuRegY = 0x04"
| "cpureg_code CpuRegP = 0x05"
| "cpureg_code CpuRegS = 0x06"

text \<open>The classes derived from DbgPacket, and an object: its class and its data.\<close>

datatype packet_class =
    EchoClass | CpuMemRdClass | CpuMemWrClass | DbgHltClass | DbgRunClass | CpuRegRdClass
  | CpuRegWrClass | QueryHltClass | PpuMemRdClass | PpuMemWrClass | PpuDisableClass | CartSetCfgClass

record DbgPacket =
  m_class :: packet_class
  m_pData :: "BYTE list"

definition packet :: "packet_class \<Rightarrow> BYTE list \<Rightarrow> DbgPacket" where
  "packet c bs = \<lparr>m_class = c, m_pData = bs\<rparr>"

text \<open>A 16-bit value as the little-endian processor stores it and reads it back.\<close>

definition ushort_bytes :: "USHORT \<Rightarrow> BYTE list" where
  "ushort_bytes v = [ucast v, ucast (drop_bit 8 v)]"

definition ushort_at :: "bytes_at \<Rightarrow> nat \<Rightarrow> USHORT" where
  "ushort_at p i = ucast (p i) OR push_bit 8 (ucast (p (i + 1)))"

text \<open>The bytes \<open>p[0] ... p[n - 1]\<close>, as the copying loops of the constructors take them.\<close>

definition copied :: "bytes_at \<Rightarrow> USHORT \<Rightarrow> BYTE list" where
  "copied p n = map p [0..<unat n]"

section \<open>The constructors\<close>

definition EchoPacket :: "bytes_at \<Rightarrow> USHORT \<Rightarrow> DbgPacket" where
  "EchoPacket pEchoData numBytes = packet EchoClass
     (opcode DbgPacketOpCodeEcho # ushort_bytes numBytes @ copied pEchoData numBytes)"

definition CpuMemRdPacket :: "USHORT \<Rightarrow> USHORT \<Rightarrow> DbgPacket" where
  "CpuMemRdPacket addr numBytes = packet CpuMemRdClass
     (opcode DbgPacketOpCodeCpuMemRd # ushort_bytes addr @ ushort_bytes numBytes)"

definition CpuMemWrPacket :: "USHORT \<Rightarrow> USHORT \<Rightarrow> bytes_at \<Rightarrow> DbgPacket" where
  "CpuMemWrPacket addr numBytes pData = packet CpuMemWrClass
     (opcode DbgPacketOpCodeCpuMemWr # ushort_bytes addr @ ushort_bytes numBytes @ copied pData numBytes)"

definition DbgHltPacket :: DbgPacket where
  "DbgHltPacket = packet DbgHltClass [opcode DbgPacketOpCodeDbgHlt]"

definition DbgRunPacket :: DbgPacket where
  "DbgRunPacket = packet DbgRunClass [opcode DbgPacketOpCodeDbgRun]"

text \<open>The register number is an enumeration in the source; a caller may cast any number to it.\<close>

definition CpuRegRdPacket :: "UINT \<Rightarrow> DbgPacket" where
  "CpuRegRdPacket reg = packet CpuRegRdClass [opcode DbgPacketOpCodeCpuRegRd, ucast reg]"

definition CpuRegWrPacket :: "UINT \<Rightarrow> BYTE \<Rightarrow> DbgPacket" where
  "CpuRegWrPacket reg val = packet CpuRegWrClass [opcode DbgPacketOpCodeCpuRegWr, ucast reg, val]"

definition QueryHltPacket :: DbgPacket where
  "QueryHltPacket = packet QueryHltClass [opcode DbgPacketOpCodeQueryHlt]"

definition PpuMemRdPacket :: "USHORT \<Rightarrow> USHORT \<Rightarrow> DbgPacket" where
  "PpuMemRdPacket addr numBytes = packet PpuMemRdClass
     (opcode DbgPacketOpCodePpuMemRd # ushort_bytes addr @ ushort_bytes numBytes)"

definition PpuMemWrPacket :: "USHORT \<Rightarrow> USHORT \<Rightarrow> bytes_at \<Rightarrow> DbgPacket" where
  "PpuMemWrPacket addr numBytes pData = packet PpuMemWrClass
     (opcode DbgPacketOpCodePpuMemWr # ushort_bytes addr @ ushort_bytes numBytes @ copied pData numBytes)"

definition PpuDisablePacket :: DbgPacket where
  "PpuDisablePacket = packet PpuDisableClass [opcode DbgPacketOpCodePpuDisable]"

definition CartSetCfgPacket :: "bytes_at \<Rightarrow> DbgPacket" where
  "CartSetCfgPacket pINesHeader = packet CartSetCfgClass
     [opcode DbgPacketOpCodeCartSetCfg, pINesHeader 4, pINesHeader 5, pINesHeader 6,
      pINesHeader 7, pINesHeader 8]"

section \<open>The virtual functions\<close>

text \<open>The 16-bit field of \<open>m_pData\<close> at offset \<open>i\<close>.\<close>

definition data_ushort :: "DbgPacket \<Rightarrow> nat \<Rightarrow> USHORT" where
  "data_ushort p i = ushort_at (\<lambda>k. m_pData p ! k) i"

text \<open>The function of each class, then the dispatch.\<close>

definition EchoPacket_SizeInBytes :: "DbgPacket \<Rightarrow> UINT" where
  "EchoPacket_SizeInBytes p = 1 + 2 + ucast (data_ushort p 1)"

definition EchoPacket_ReturnBytesExpected :: "DbgPacket \<Rightarrow> UINT" where
  "EchoPacket_ReturnBytesExpected p = ucast (data_ushort p 1)"

definition CpuMemRdPacket_SizeInBytes :: "DbgPacket \<Rightarrow> UINT" where
  "CpuMemRdPacket_SizeInBytes p = 1 + 2 + 2"

definition CpuMemRdPacket_ReturnBytesExpected :: "DbgPacket \<Rightarrow> UINT" where
  "CpuMemRdPacket_ReturnBytesExpected p = ucast (data_ushort p 3)"

definition CpuMemWrPacket_SizeInBytes :: "DbgPacket \<Rightarrow> UINT" where
  "CpuMemWrPacket_SizeInBytes p = 1 + 2 + 2 + ucast (data_ushort p 3)"

definition CpuMemWrPacket_ReturnBytesExpected :: "DbgPacket \<Rightarrow> UINT" where
  "CpuMemWrPacket_ReturnBytesExpected p = 0"

definition DbgHltPacket_SizeInBytes :: "DbgPacket \<Rightarrow> UINT" where
  "DbgHltPacket_SizeInBytes p = 1"

definition DbgHltPacket_ReturnBytesExpected :: "DbgPacket \<Rightarrow> UINT" where
  "DbgHltPacket_ReturnBytesExpected p = 0"

definition DbgRunPacket_SizeInBytes :: "DbgPacket \<Rightarrow> UINT" where
  "DbgRunPacket_SizeInBytes p = 1"

definition DbgRunPacket_ReturnBytesExpected :: "DbgPacket \<Rightarrow> UINT" where
  "DbgRunPacket_ReturnBytesExpected p = 0"

definition CpuRegRdPacket_SizeInBytes :: "DbgPacket \<Rightarrow> UINT" where
  "CpuRegRdPacket_SizeInBytes p = 1 + 1"

definition CpuRegRdPacket_ReturnBytesExpected :: "DbgPacket \<Rightarrow> UINT" where
  "CpuRegRdPacket_ReturnBytesExpected p = 1"

definition CpuRegWrPacket_SizeInBytes :: "DbgPacket \<Rightarrow> UINT" where
  "CpuRegWrPacket_SizeInBytes p = 1 + 1 + 1"

definition CpuRegWrPacket_ReturnBytesExpected :: "DbgPacket \<Rightarrow> UINT" where
  "CpuRegWrPacket_ReturnBytesExpected p = 0"

definition QueryHltPacket_SizeInBytes :: "DbgPacket \<Rightarrow> UINT" where
  "QueryHltPacket_SizeInBytes p = 1"

definition QueryHltPacket_ReturnBytesExpected :: "DbgPacket \<Rightarrow> UINT" where
  "QueryHltPacket_ReturnBytesExpected p = 1"

definition PpuMemRdPacket_SizeInBytes :: "DbgPacket \<Rightarrow> UINT" where
  "PpuMemRdPacket_SizeInBytes p = 1 + 2 + 2"

definition PpuMemRdPacket_ReturnBytesExpected :: "DbgPacket \<Rightarrow> UINT" where
  "PpuMemRdPacket_ReturnBytesExpected p = ucast (data_ushort p 3)"

definition PpuMemWrPacket_SizeInBytes :: "DbgPacket \<Rightarrow> UINT" where
  "PpuMemWrPacket_SizeInBytes p = 1 + 2 + 2 + ucast (data_ushort p 3)"

definition PpuMemWrPacket_ReturnBytesExpected :: "DbgPacket \<Rightarrow> UINT" where
  "PpuMemWrPacket_ReturnBytesExpected p = 0"

definition PpuDisablePacket_SizeInBytes :: "DbgPacket \<Rightarrow> UINT" where
  "PpuDisablePacket_SizeInBytes p = 1"

definition PpuDisablePacket_ReturnBytesExpected :: "DbgPacket \<Rightarrow> UINT" where
  "PpuDisablePacket_ReturnBytesExpected p = 0"

definition CartSetCfgPacket_SizeInBytes :: "DbgPacket \<Rightarrow> UINT" where
  "CartSetCfgPacket_SizeInBytes p = 1 + 5 * 1"

definition CartSetCfgPacket_ReturnBytesExpected :: "DbgPacket \<Rightarrow> UINT" where
  "CartSetCfgPacket_ReturnBytesExpected p = 0"

definition SizeInBytes :: "DbgPacket \<Rightarrow> UINT" where
  "SizeInBytes p = (case m_class p of
     EchoClass \<Rightarrow> EchoPacket_SizeInBytes p
   | CpuMemRdClass \<Rightarrow> CpuMemRdPacket_SizeInBytes p
   | CpuMemWrClass \<Rightarrow> CpuMemWrPacket_SizeInBytes p
   | DbgHltClass \<Rightarrow> DbgHltPacket_SizeInBytes p
   | DbgRunClass \<Rightarrow> DbgRunPacket_SizeInBytes p
   | CpuRegRdClass \<Rightarrow> CpuRegRdPacket_SizeInBytes p
   | CpuRegWrClass \<Rightarrow> CpuRegWrPacket_SizeInBytes p
   | QueryHltClass \<Rightarrow> QueryHltPacket_SizeInBytes p
   | PpuMemRdClass \<Rightarrow> PpuMemRdPacket_SizeInBytes p
   | PpuMemWrClass \<Rightarrow> PpuMemWrPacket_SizeInBytes p
   | PpuDisableClass \<Rightarrow> PpuDisablePacket_SizeInBytes p
   | CartSetCfgClass \<Rightarrow> CartSetCfgPacket_SizeInBytes p)"

definition ReturnBytesExpected :: "DbgPacket \<Rightarrow> UINT" where
  "ReturnBytesExpected p = (case m_class p of
     EchoClass \<Rightarrow> EchoPacket_ReturnBytesExpected p
   | CpuMemRdClass \<Rightarrow> CpuMemRdPacket_ReturnBytesExpected p
   | CpuMemWrClass \<Rightarrow> CpuMemWrPacket_ReturnBytesExpected p
   | DbgHltClass \<Rightarrow> DbgHltPacket_ReturnBytesExpected p
   | DbgRunClass \<Rightarrow> DbgRunPacket_ReturnBytesExpected p
   | CpuRegRdClass \<Rightarrow> CpuRegRdPacket_ReturnBytesExpected p
   | CpuRegWrClass \<Rightarrow> CpuRegWrPacket_ReturnBytesExpected p
   | QueryHltClass \<Rightarrow> QueryHltPacket_ReturnBytesExpected p
   | PpuMemRdClass \<Rightarrow> PpuMemRdPacket_ReturnBytesExpected p
   | PpuMemWrClass \<Rightarrow> PpuMemWrPacket_ReturnBytesExpected p
   | PpuDisableClass \<Rightarrow> PpuDisablePacket_ReturnBytesExpected p
   | CartSetCfgClass \<Rightarrow> CartSetCfgPacket_ReturnBytesExpected p)"

lemmas SizeInBytes_defs = SizeInBytes_def
  EchoPacket_SizeInBytes_def
  CpuMemRdPacket_SizeInBytes_def
  CpuMemWrPacket_SizeInBytes_def
  DbgHltPacket_SizeInBytes_def
  DbgRunPacket_SizeInBytes_def
  CpuRegRdPacket_SizeInBytes_def
  CpuRegWrPacket_SizeInBytes_def
  QueryHltPacket_SizeInBytes_def
  PpuMemRdPacket_SizeInBytes_def
  PpuMemWrPacket_SizeInBytes_def
  PpuDisablePacket_SizeInBytes_def
  CartSetCfgPacket_SizeInBytes_def

lemmas ReturnBytes_defs = ReturnBytesExpected_def
  EchoPacket_ReturnBytesExpected_def
  CpuMemRdPacket_ReturnBytesExpected_def
  CpuMemWrPacket_ReturnBytesExpected_def
  DbgHltPacket_ReturnBytesExpected_def
  DbgRunPacket_ReturnBytesExpected_def
  CpuRegRdPacket_ReturnBytesExpected_def
  CpuRegWrPacket_ReturnBytesExpected_def
  QueryHltPacket_ReturnBytesExpected_def
  PpuMemRdPacket_ReturnBytesExpected_def
  PpuMemWrPacket_ReturnBytesExpected_def
  PpuDisablePacket_ReturnBytesExpected_def
  CartSetCfgPacket_ReturnBytesExpected_def

section \<open>The factory\<close>

text \<open>
  A character is cut to a byte before it is tested. The result is None for a character that
  makes the factory fail, \<open>Some None\<close> for a space, which is skipped.
\<close>

definition hex_nibble :: "TCHAR \<Rightarrow> BYTE option option" where
  "hex_nibble c = (let input = ucast c :: BYTE in
     if 0x30 \<le> input \<and> input \<le> 0x39 then Some (Some (input - 0x30))
     else if 0x61 \<le> input \<and> input \<le> 0x66 then Some (Some (input - 0x61 + 0xA))
     else if 0x41 \<le> input \<and> input \<le> 0x46 then Some (Some (input - 0x41 + 0xA))
     else if input = 0x20 then Some None
     else None)"

text \<open>
  The conversion loop: success, the number of nibbles and the raw data. \<open>raw\<close> is the memory from
  the address of \<open>pRawData\<close> on: before the loop what the allocator left there.
\<close>

fun convert :: "TCHAR list \<Rightarrow> nat \<Rightarrow> bytes_at \<Rightarrow> bool \<times> nat \<times> bytes_at" where
  "convert [] nibbleIdx raw = (True, nibbleIdx, raw)"
| "convert (c # cs) nibbleIdx raw = (case hex_nibble c of
     None \<Rightarrow> (False, nibbleIdx, raw)
   | Some None \<Rightarrow> convert cs nibbleIdx raw
   | Some (Some nibble) \<Rightarrow> convert cs (nibbleIdx + 1)
       (raw(nibbleIdx div 2 := if odd nibbleIdx then raw (nibbleIdx div 2) OR nibble
                               else push_bit 4 nibble)))"

definition CreateObjFromString :: "bytes_at \<Rightarrow> TCHAR list \<Rightarrow> DbgPacket option" where
  "CreateObjFromString heap pString = (case convert pString 0 heap of (success, nibbleIdx, raw) \<Rightarrow>
     let success = (if odd nibbleIdx then False else success) in
     if success then
       (if raw 0 = opcode DbgPacketOpCodeEcho then
          Some (EchoPacket (\<lambda>i. raw (3 + i)) (ushort_at raw 1))
        else if raw 0 = opcode DbgPacketOpCodeCpuMemRd then
          Some (CpuMemRdPacket (ushort_at raw 1) (ushort_at raw 3))
        else if raw 0 = opcode DbgPacketOpCodeCpuMemWr then
          Some (CpuMemWrPacket (ushort_at raw 1) (ushort_at raw 3) (\<lambda>i. raw (5 + i)))
        else None)
     else None)"

end
