(* ===== verification/Nes_Serial.thy ===== *)
theory Nes_Serial
  imports Nes_Packet
begin

text \<open>
  serialcomm.cpp of the NES debugger: the serial line to the FPGA. The functions of the operating
  system it calls are a record over the state of the line; WriteFile is given the bytes it is to
  write and reports how many it wrote, ReadFile is given a number of bytes and delivers those it
  read before its timeout, both with their BOOL result. In the release build, which is modelled,
  assert only evaluates its argument.
\<close>

section \<open>The operating system\<close>

record 's serial_api =
  CreateFile :: "'s \<Rightarrow> bool \<times> 's"
  GetCommState :: "'s \<Rightarrow> bool \<times> 's"
  SetCommState :: "'s \<Rightarrow> bool \<times> 's"
  SetCommTimeouts :: "'s \<Rightarrow> bool \<times> 's"
  WriteFile :: "BYTE list \<Rightarrow> 's \<Rightarrow> bool \<times> DWORD \<times> 's"
  ReadFile :: "UINT \<Rightarrow> 's \<Rightarrow> bool \<times> BYTE list \<times> 's"

section \<open>Data\<close>

definition SendData :: "'s serial_api \<Rightarrow> bytes_at \<Rightarrow> UINT \<Rightarrow> 's \<Rightarrow> bool \<times> 's" where
  "SendData api pData numBytes s = (case WriteFile api (map pData [0..<unat numBytes]) s of
     (ret, bytesWritten, s) \<Rightarrow> (if bytesWritten \<noteq> numBytes then False else ret, s))"

text \<open>The buffer is given with what it holds before; the bytes read replace its beginning.\<close>

definition ReceiveData :: "'s serial_api \<Rightarrow> BYTE list \<Rightarrow> UINT \<Rightarrow> 's \<Rightarrow> bool \<times> BYTE list \<times> 's" where
  "ReceiveData api buf numBytes s = (case ReadFile api numBytes s of
     (ret, bs, s) \<Rightarrow> (if of_nat (length bs) \<noteq> numBytes then False else ret, store 0 bs buf, s))"

text \<open>Sending a packet object, as all callers do it.\<close>

definition SendPacket :: "'s serial_api \<Rightarrow> DbgPacket \<Rightarrow> 's \<Rightarrow> bool \<times> 's" where
  "SendPacket api p s = SendData api (\<lambda>i. m_pData p ! i) (SizeInBytes p) s"

text \<open>Receiving the answer to a packet into a new array, which holds \<open>heap\<close> before.\<close>

definition receive_answer :: "'s serial_api \<Rightarrow> bytes_at \<Rightarrow> DbgPacket \<Rightarrow> 's \<Rightarrow> BYTE list \<times> 's" where
  "receive_answer api heap p s = (let bytesToReceive = ReturnBytesExpected p in
     case ReceiveData api (map heap [0..<unat bytesToReceive]) bytesToReceive s of
       (_, pReceivedData, s) \<Rightarrow> (pReceivedData, s))"

section \<open>Opening the line\<close>

datatype init_result =
  InitOk | PortError | GetStateError | SetStateError | TimeoutsError | NotConnected

text \<open>The line is open: an echo packet verifies that the FPGA answers.\<close>

definition init_echo :: "'s serial_api \<Rightarrow> bytes_at \<Rightarrow> 's \<Rightarrow> init_result \<times> 's" where
  "init_echo api heap s = (
     let pInitString = bytes_of ''NES'' @ [0];
         initEchoPkt = EchoPacket (\<lambda>i. pInitString ! i) (of_nat (length pInitString));
         (_, s) = SendPacket api initEchoPkt s;
         (pOutString, s) = receive_answer api heap initEchoPkt s in
     (if cstr pInitString \<noteq> cstr pOutString then NotConnected else InitOk, s))"

definition Init :: "'s serial_api \<Rightarrow> bytes_at \<Rightarrow> 's \<Rightarrow> init_result \<times> 's" where
  "Init api heap s = (case CreateFile api s of (ok, s) \<Rightarrow>
     if \<not> ok then (PortError, s)
     else case GetCommState api s of (ok, s) \<Rightarrow>
       if \<not> ok then (GetStateError, s)
       else case SetCommState api s of (ok, s) \<Rightarrow>
         if \<not> ok then (SetStateError, s)
         else case SetCommTimeouts api s of (ok, s) \<Rightarrow>
           if \<not> ok then (TimeoutsError, s) else init_echo api heap s)"

end
