(* ===== verification/Nes_Debug.thy ===== *)
theory Nes_Debug
  imports Nes_Serial
begin

text \<open>
  nesdbg.cpp of the NES debugger: loading a ROM image in the iNES format into the FPGA, and the
  raw debug dialog, which parses a packet from text, sends it and prints the answer. What the
  dialogs do on the screen is not modelled: the file the user chose and what reading it gave are
  parameters, the messages shown are results, the progress bar is left out.
\<close>

section \<open>Loading a ROM\<close>

text \<open>The outcome of the file dialog, of opening and of reading the file.\<close>

datatype rom_source =
  NotChosen | NotOpened | NotRead | RomData "BYTE list"

datatype rom_message =
  OpenFailed | ReadFailed | InvalidHeader | TooManyBanks | BadMirroring | BadMapper

definition FileDataBufferSize :: nat where
  "FileDataBufferSize = 0x100000"

text \<open>The buffer of the file's data: ReadFile fills its beginning, the rest is as allocated.\<close>

definition file_buffer :: "bytes_at \<Rightarrow> BYTE list \<Rightarrow> bytes_at" where
  "file_buffer heap bs = (let bs = take FileDataBufferSize bs in
     (\<lambda>i. if i < length bs then bs ! i else heap i))"

text \<open>The checks of the header; each one that fails shows its message.\<close>

definition rom_checks :: "bytes_at \<Rightarrow> rom_message list" where
  "rom_checks pFileData =
     (if pFileData 0 \<noteq> 0x4E \<or> pFileData 1 \<noteq> 0x45 \<or> pFileData 2 \<noteq> 0x53 \<or> pFileData 3 \<noteq> 0x1A
      then [InvalidHeader] else [])
   @ (if pFileData 4 > 2 \<or> pFileData 5 > 1 then [TooManyBanks] else [])
   @ (if pFileData 6 AND 0x08 \<noteq> 0 then [BadMirroring] else [])
   @ (if drop_bit 4 (pFileData 6 AND 0xF0) OR (pFileData 7 AND 0xF0) \<noteq> 0 then [BadMapper] else [])"

definition transferBlockSize :: nat where
  "transferBlockSize = 0x400"

definition prgRomDataSize :: "bytes_at \<Rightarrow> nat" where
  "prgRomDataSize pFileData = unat (pFileData 4) * 0x4000"

definition chrRomDataSize :: "bytes_at \<Rightarrow> nat" where
  "chrRomDataSize pFileData = unat (pFileData 5) * 0x2000"

text \<open>The packets that copy the program and the pictures, block by block.\<close>

definition prg_packet :: "bytes_at \<Rightarrow> nat \<Rightarrow> DbgPacket" where
  "prg_packet pFileData i = (let prgRomOffset = transferBlockSize * i in
     CpuMemWrPacket (of_nat (0x8000 + prgRomOffset)) (of_nat transferBlockSize)
       (\<lambda>k. pFileData (16 + prgRomOffset + k)))"

definition chr_packet :: "bytes_at \<Rightarrow> nat \<Rightarrow> DbgPacket" where
  "chr_packet pFileData i = (let chrRomOffset = transferBlockSize * i in
     PpuMemWrPacket (of_nat chrRomOffset) (of_nat transferBlockSize)
       (\<lambda>k. pFileData (16 + prgRomDataSize pFileData + chrRomOffset + k)))"

text \<open>
  All packets of a load, in order: halt, picture unit off, configuration, program, pictures, the
  program counter from the reset vector at the end of the program, run. (The positions of the
  reset vector do not go below 0: with no program bank they lie in the header.)
\<close>

definition rom_packets :: "bytes_at \<Rightarrow> DbgPacket list" where
  "rom_packets pFileData =
     [DbgHltPacket, PpuDisablePacket, CartSetCfgPacket pFileData]
   @ map (prg_packet pFileData) [0..<prgRomDataSize pFileData div transferBlockSize]
   @ map (chr_packet pFileData) [0..<chrRomDataSize pFileData div transferBlockSize]
   @ [CpuRegWrPacket (cpureg_code CpuRegPcl) (pFileData (16 + prgRomDataSize pFileData - 4)),
      CpuRegWrPacket (cpureg_code CpuRegPch) (pFileData (16 + prgRomDataSize pFileData - 3)),
      DbgRunPacket]"

text \<open>Packets are sent one after the other; the results of SendData are not looked at.\<close>

fun SendPackets :: "'s serial_api \<Rightarrow> DbgPacket list \<Rightarrow> 's \<Rightarrow> 's" where
  "SendPackets api [] s = s"
| "SendPackets api (p # ps) s = SendPackets api ps (snd (SendPacket api p s))"

definition LoadRom :: "'s serial_api \<Rightarrow> bytes_at \<Rightarrow> rom_source \<Rightarrow> 's \<Rightarrow> rom_message list \<times> 's" where
  "LoadRom api heap src s = (case src of
     NotChosen \<Rightarrow> ([], s)
   | NotOpened \<Rightarrow> ([OpenFailed], s)
   | NotRead \<Rightarrow> ([ReadFailed], s)
   | RomData bs \<Rightarrow> (let pFileData = file_buffer heap bs; msgs = rom_checks pFileData in
       if msgs = [] then ([], SendPackets api (rom_packets pFileData) s) else (msgs, s)))"

section \<open>The raw debug dialog\<close>

definition hex_digit :: "BYTE \<Rightarrow> TCHAR" where
  "hex_digit n = (if n > 9 then 0x41 + (ucast n - 0xA) else 0x30 + ucast n)"

text \<open>The text of the received bytes: two digits and a space for each.\<close>

definition hex_text :: "BYTE list \<Rightarrow> TCHAR list" where
  "hex_text bs = concat (map (\<lambda>b. [hex_digit (drop_bit 4 b), hex_digit (b AND 0xF), 0x20]) bs)"

text \<open>The send button: the output text, or None for the message about invalid data.\<close>

definition raw_send ::
  "'s serial_api \<Rightarrow> bytes_at \<Rightarrow> bytes_at \<Rightarrow> TCHAR list \<Rightarrow> 's \<Rightarrow> TCHAR list option \<times> 's" where
  "raw_send api heap1 heap2 pInput s = (case CreateObjFromString heap1 pInput of
     None \<Rightarrow> (None, s)
   | Some p \<Rightarrow> (let (_, s) = SendPacket api p s; (pReceivedData, s) = receive_answer api heap2 p s in
       (Some (hex_text pReceivedData), s)))"

end
