(* ===== verification/Nes_Script.thy ===== *)
theory Nes_Script
  imports Nes_Serial
begin

text \<open>
  scriptmgr.cpp and scriptmgrdlg.cpp of the NES debugger: the functions that test scripts call,
  and the tally of a run of scripts. The Lua interpreter is not part of the repository: what the
  functions ask it about their arguments is a record, and what they push is their result. A
  number is given as the integer part of the double lua_tonumber returns; the casts of the
  source are the conversions of that integer (C++ leaves a number out of the range of the type
  undefined). Arguments that do not have the expected types end a function without a result.
\<close>

section \<open>Arguments and results\<close>

record lua_args =
  lua_isnumber :: "nat \<Rightarrow> bool"
  lua_istable :: "nat \<Rightarrow> bool"
  lua_isstring :: "nat \<Rightarrow> bool"
  lua_tonumber :: "nat \<Rightarrow> int"
  lua_rawgeti :: "nat \<Rightarrow> nat \<Rightarrow> int"
  lua_tostring :: "nat \<Rightarrow> BYTE list"

datatype lua_result = Nothing | Table "int list" | Number int

text \<open>The elements 1 to n of a table argument, as the loops copy them into an array of bytes.\<close>

definition table_bytes :: "lua_args \<Rightarrow> nat \<Rightarrow> USHORT \<Rightarrow> BYTE list" where
  "table_bytes a arg n = map (\<lambda>i. ucast (word_of_int (lua_rawgeti a arg i) :: UINT)) [1..<Suc (unat n)]"

text \<open>The table of the received bytes.\<close>

definition push_table :: "BYTE list \<Rightarrow> lua_result" where
  "push_table bs = Table (map uint bs)"

section \<open>The functions of the nesdbg library\<close>

type_synonym 's lua_fun = "'s serial_api \<Rightarrow> bytes_at \<Rightarrow> lua_args \<Rightarrow> 's \<Rightarrow> lua_result \<times> 's"

text \<open>Send a packet and return its answer as a table.\<close>

definition ask_table :: "'s serial_api \<Rightarrow> bytes_at \<Rightarrow> DbgPacket \<Rightarrow> 's \<Rightarrow> lua_result \<times> 's" where
  "ask_table api heap p s = (let (_, s) = SendPacket api p s; (pReceivedData, s) = receive_answer api heap p s in
     (push_table pReceivedData, s))"

definition LuaEcho :: "'s lua_fun" where
  "LuaEcho api heap a s = (
     if \<not> lua_isnumber a 1 \<or> \<not> lua_istable a 2 then (Nothing, s)
     else let numBytes = word_of_int (lua_tonumber a 1); pEchoData = table_bytes a 2 numBytes in
       ask_table api heap (EchoPacket (\<lambda>i. pEchoData ! i) numBytes) s)"

definition LuaCpuMemRd :: "'s lua_fun" where
  "LuaCpuMemRd api heap a s = (
     if \<not> lua_isnumber a 1 \<or> \<not> lua_isnumber a 2 then (Nothing, s)
     else ask_table api heap (CpuMemRdPacket (word_of_int (lua_tonumber a 1)) (word_of_int (lua_tonumber a 2))) s)"

definition LuaCpuMemWr :: "'s lua_fun" where
  "LuaCpuMemWr api heap a s = (
     if \<not> lua_isnumber a 1 \<or> \<not> lua_isnumber a 2 \<or> \<not> lua_istable a 3 then (Nothing, s)
     else let addr = word_of_int (lua_tonumber a 1); numBytes = word_of_int (lua_tonumber a 2);
            pData = table_bytes a 3 numBytes in
       (Nothing, snd (SendPacket api (CpuMemWrPacket addr numBytes (\<lambda>i. pData ! i)) s)))"

definition LuaDbgHlt :: "'s lua_fun" where
  "LuaDbgHlt api heap a s = (Nothing, snd (SendPacket api DbgHltPacket s))"

definition LuaDbgRun :: "'s lua_fun" where
  "LuaDbgRun api heap a s = (Nothing, snd (SendPacket api DbgRunPacket s))"

definition LuaCpuRegRd :: "'s lua_fun" where
  "LuaCpuRegRd api heap a s = (
     if \<not> lua_isnumber a 1 then (Nothing, s)
     else let p = CpuRegRdPacket (word_of_int (lua_tonumber a 1)); (_, s) = SendPacket api p s;
            (pReceivedData, s) = receive_answer api heap p s in
       (Number (uint (pReceivedData ! 0)), s))"

definition LuaCpuRegWr :: "'s lua_fun" where
  "LuaCpuRegWr api heap a s = (
     if \<not> lua_isnumber a 1 \<or> \<not> lua_isnumber a 2 then (Nothing, s)
     else (Nothing, snd (SendPacket api
       (CpuRegWrPacket (word_of_int (lua_tonumber a 1)) (word_of_int (lua_tonumber a 2))) s)))"

text \<open>Query until the CPU is halted; one array receives every answer.\<close>

partial_function (option) wait_hlt_loop :: "'s serial_api \<Rightarrow> BYTE list \<Rightarrow> 's \<Rightarrow> 's option" where
  "wait_hlt_loop api buf s = (case SendPacket api QueryHltPacket s of (_, s) \<Rightarrow>
     case ReceiveData api buf (ReturnBytesExpected QueryHltPacket) s of (_, buf, s) \<Rightarrow>
       if buf ! 0 = 0 then wait_hlt_loop api buf s else Some s)"

definition LuaWaitForHlt :: "'s serial_api \<Rightarrow> bytes_at \<Rightarrow> lua_args \<Rightarrow> 's \<Rightarrow> (lua_result \<times> 's) option" where
  "LuaWaitForHlt api heap a s = do {
     s \<leftarrow> wait_hlt_loop api [heap 0] s;
     Some (Nothing, s) }"

text \<open>
  Loading an assembled program: what opening and reading the file gave is a parameter, None for
  a file that cannot be opened, \<open>Some None\<close> for one that cannot be read.
\<close>

definition AsmFileDataBufferSize :: nat where
  "AsmFileDataBufferSize = 0x10000"

definition LuaLoadAsm ::
  "'s serial_api \<Rightarrow> bytes_at \<Rightarrow> lua_args \<Rightarrow> (BYTE list \<Rightarrow> BYTE list option option) \<Rightarrow> 's \<Rightarrow> lua_result \<times> 's" where
  "LuaLoadAsm api heap a files s = (
     if \<not> lua_isstring a 1 then (Nothing, s)
     else (case files (bytes_of ''../asm/prg/'' @ lua_tostring a 1) of
         Some (Some content) \<Rightarrow>
           (let bs = take AsmFileDataBufferSize content;
                pFileData = (\<lambda>i. if i < length bs then bs ! i else heap i);
                startPc = ucast (pFileData 0) OR push_bit 8 (ucast (pFileData 1)) :: USHORT;
                p = CpuMemWrPacket startPc (of_nat (length bs) - 2) (\<lambda>i. pFileData (2 + i)) in
             (Number (uint startPc), snd (SendPacket api p s)))
       | _ \<Rightarrow> (Number 0, s)))"

definition LuaPpuMemRd :: "'s lua_fun" where
  "LuaPpuMemRd api heap a s = (
     if \<not> lua_isnumber a 1 \<or> \<not> lua_isnumber a 2 then (Nothing, s)
     else ask_table api heap (PpuMemRdPacket (word_of_int (lua_tonumber a 1)) (word_of_int (lua_tonumber a 2))) s)"

definition LuaPpuMemWr :: "'s lua_fun" where
  "LuaPpuMemWr api heap a s = (
     if \<not> lua_isnumber a 1 \<or> \<not> lua_isnumber a 2 \<or> \<not> lua_istable a 3 then (Nothing, s)
     else let addr = word_of_int (lua_tonumber a 1); numBytes = word_of_int (lua_tonumber a 2);
            pData = table_bytes a 3 numBytes in
       (Nothing, snd (SendPacket api (PpuMemWrPacket addr numBytes (\<lambda>i. pData ! i)) s)))"

section \<open>Runs of scripts\<close>

datatype ScriptResult = SCRIPT_RESULT_PASS | SCRIPT_RESULT_FAIL | SCRIPT_RESULT_ERROR

fun script_code :: "ScriptResult \<Rightarrow> UINT" where
  "script_code SCRIPT_RESULT_PASS = 0"
| "script_code SCRIPT_RESULT_FAIL = 1"
| "script_code SCRIPT_RESULT_ERROR = 2"

text \<open>
  The result of a script: what it left on the stack, cast to the enumeration (which then may hold
  a number that is none of its values), or an error when the interpreter reports one.
\<close>

definition ExecuteScript :: "int option \<Rightarrow> UINT" where
  "ExecuteScript ret = (case ret of
     Some v \<Rightarrow> word_of_int v
   | None \<Rightarrow> script_code SCRIPT_RESULT_ERROR)"

text \<open>The three counters after each selected script.\<close>

fun tally :: "UINT list \<Rightarrow> UINT \<times> UINT \<times> UINT \<Rightarrow> UINT \<times> UINT \<times> UINT" where
  "tally [] (passCnt, failCnt, errorCnt) = (passCnt, failCnt, errorCnt)"
| "tally (result # rs) (passCnt, failCnt, errorCnt) = tally rs (
     if result = script_code SCRIPT_RESULT_PASS then (passCnt + 1, failCnt, errorCnt)
     else if result = script_code SCRIPT_RESULT_FAIL then (passCnt, failCnt + 1, errorCnt)
     else (passCnt, failCnt, errorCnt + 1))"

end
