(* ===== verification/Nes_Hci.thy ===== *)
theory Nes_Hci
  imports Nes_Packet
begin

text \<open>
  The other end of the serial line: the debug block of the FPGA (src/u8_nes/hw/src/hci/hci.v), as
  the step function of its always block, one call for a cycle of the clock. Non-blocking updates
  become the fields of the next state, registered outputs (the byte for the UART and its write
  enable) take effect in the cycle after. The UART's two queues are lists; whether the transmit
  queue is full, a break of the CPU and parity errors are inputs of a cycle. What hangs on the
  buses (memories, CPU registers) is a record of functions over a state of any type, given the
  configuration of the cartridge, which is a wire from this block; reads have no effect on it.
\<close>

section \<open>The buses\<close>

record 'm nes_bus =
  cpu_rd :: "40 word \<Rightarrow> WORD \<Rightarrow> 'm \<Rightarrow> BYTE"
  cpu_wr :: "40 word \<Rightarrow> WORD \<Rightarrow> BYTE \<Rightarrow> 'm \<Rightarrow> 'm"
  dbgreg_rd :: "4 word \<Rightarrow> 'm \<Rightarrow> BYTE"
  dbgreg_wr :: "4 word \<Rightarrow> BYTE \<Rightarrow> 'm \<Rightarrow> 'm"
  vram_rd :: "40 word \<Rightarrow> WORD \<Rightarrow> 'm \<Rightarrow> BYTE"
  vram_wr :: "40 word \<Rightarrow> WORD \<Rightarrow> BYTE \<Rightarrow> 'm \<Rightarrow> 'm"

section \<open>The state\<close>

datatype hci_state =
    S_DISABLED | S_DECODE | S_ECHO_STG_0 | S_ECHO_STG_1 | S_CPU_MEM_RD_STG_0 | S_CPU_MEM_RD_STG_1
  | S_CPU_MEM_WR_STG_0 | S_CPU_MEM_WR_STG_1 | S_CPU_REG_RD | S_CPU_REG_WR_STG_0 | S_CPU_REG_WR_STG_1
  | S_QUERY_ERR_CODE | S_PPU_MEM_RD_STG_0 | S_PPU_MEM_RD_STG_1 | S_PPU_MEM_WR_STG_0 | S_PPU_MEM_WR_STG_1
  | S_PPU_DISABLE | S_CART_SET_CFG_STG_0 | S_CART_SET_CFG_STG_1

record 'm hci =
  q_state :: hci_state
  q_decode_cnt :: "3 word"
  q_execute_cnt :: "17 word"
  q_addr :: WORD
  q_err_code :: "2 word"
  q_cart_cfg :: "40 word"
  q_tx_data :: BYTE
  q_wr_en :: bool
  rx_fifo :: "BYTE list"
  tx_fifo :: "BYTE list"
  mach :: 'm

text \<open>The inputs of a cycle that are not part of the state.\<close>

record hci_in =
  brk :: bool
  tx_full :: bool
  parity_err :: bool

definition OP_DBG_BRK :: BYTE where
  "OP_DBG_BRK = 0x03"

definition OP_QUERY_DBG_BRK :: BYTE where
  "OP_QUERY_DBG_BRK = 0x07"

definition DBG_UART_PARITY_ERR :: nat where
  "DBG_UART_PARITY_ERR = 0"

definition DBG_UNKNOWN_OPCODE :: nat where
  "DBG_UNKNOWN_OPCODE = 1"

section \<open>Parts of a cycle\<close>

text \<open>What every cycle starts from: the UART takes the registered byte, the defaults are set.\<close>

definition tick_defaults :: "hci_in \<Rightarrow> 'm hci \<Rightarrow> 'm hci" where
  "tick_defaults i h = h\<lparr>
     tx_fifo := (if q_wr_en h then tx_fifo h @ [q_tx_data h] else tx_fifo h),
     q_tx_data := 0, q_wr_en := False,
     q_err_code := (if parity_err i then set_bit DBG_UART_PARITY_ERR (q_err_code h) else q_err_code h)\<rparr>"

definition send :: "BYTE \<Rightarrow> 'm hci \<Rightarrow> 'm hci" where
  "send v h = h\<lparr>q_tx_data := v, q_wr_en := True\<rparr>"

definition pop :: "'m hci \<Rightarrow> 'm hci" where
  "pop h = h\<lparr>rx_fifo := tl (rx_fifo h)\<rparr>"

text \<open>The stage an opcode leads to, or None when decoding it needs no stage of its own.\<close>

definition decode :: "BYTE \<Rightarrow> hci_state option" where
  "decode op = (
     if op = opcode DbgPacketOpCodeEcho then Some S_ECHO_STG_0
     else if op = opcode DbgPacketOpCodeCpuMemRd then Some S_CPU_MEM_RD_STG_0
     else if op = opcode DbgPacketOpCodeCpuMemWr then Some S_CPU_MEM_WR_STG_0
     else if op = opcode DbgPacketOpCodeCpuRegRd then Some S_CPU_REG_RD
     else if op = opcode DbgPacketOpCodeCpuRegWr then Some S_CPU_REG_WR_STG_0
     else if op = opcode DbgPacketOpCodeQueryErrCode then Some S_QUERY_ERR_CODE
     else if op = opcode DbgPacketOpCodePpuMemRd then Some S_PPU_MEM_RD_STG_0
     else if op = opcode DbgPacketOpCodePpuMemWr then Some S_PPU_MEM_WR_STG_0
     else if op = opcode DbgPacketOpCodePpuDisable then Some S_PPU_DISABLE
     else if op = opcode DbgPacketOpCodeCartSetCfg then Some S_CART_SET_CFG_STG_0
     else None)"

definition decode_step :: "BYTE \<Rightarrow> 'm hci \<Rightarrow> 'm hci" where
  "decode_step op h = (case decode op of
     Some st \<Rightarrow> h\<lparr>q_state := st\<rparr>
   | None \<Rightarrow>
       if op = OP_DBG_BRK then h
       else if op = opcode DbgPacketOpCodeDbgRun then h\<lparr>q_state := S_DISABLED\<rparr>
       else if op = OP_QUERY_DBG_BRK then send 1 h
       else h\<lparr>q_err_code := set_bit DBG_UNKNOWN_OPCODE (q_err_code h)\<rparr>)"

text \<open>
  The byte just read becomes the low or the high half of a 16-bit field. The decode stages of the
  packets with an address and a count read four bytes; when the count is not 0 they go on to the
  execute stage. The count of a read packet is doubled: two cycles for a byte.
\<close>

definition hi_lo :: "BYTE \<Rightarrow> WORD \<Rightarrow> WORD" where
  "hi_lo b old = push_bit 8 (ucast b) OR (old AND 0xFF)"

definition count_hi :: "BYTE \<Rightarrow> 17 word \<Rightarrow> 17 word" where
  "count_hi b old = push_bit 8 (ucast b) OR (old AND 0xFF)"

definition addr_count_step :: "bool \<Rightarrow> hci_state \<Rightarrow> BYTE \<Rightarrow> 'm hci \<Rightarrow> 'm hci" where
  "addr_count_step doubled st b h = (let n = q_decode_cnt h; h = h\<lparr>q_decode_cnt := n + 1\<rparr> in
     if n = 0 then h\<lparr>q_addr := ucast b\<rparr>
     else if n = 1 then h\<lparr>q_addr := hi_lo b (q_addr h)\<rparr>
     else if n = 2 then h\<lparr>q_execute_cnt := ucast b\<rparr>
     else let cnt = count_hi b (q_execute_cnt h); cnt = (if doubled then push_bit 1 cnt else cnt) in
       h\<lparr>q_execute_cnt := cnt, q_state := if cnt \<noteq> 0 then st else S_DECODE\<rparr>)"

definition count_down :: "'m hci \<Rightarrow> 'm hci" where
  "count_down h = (let cnt = q_execute_cnt h - 1 in
     h\<lparr>q_execute_cnt := cnt, q_state := if cnt = 0 then S_DECODE else q_state h\<rparr>)"

text \<open>A read stage: a cycle for the memory to answer, then one that sends the byte.\<close>

definition read_step :: "BYTE \<Rightarrow> hci_in \<Rightarrow> 'm hci \<Rightarrow> 'm hci" where
  "read_step v i h = (
     if even (unat (q_execute_cnt h)) then h\<lparr>q_execute_cnt := q_execute_cnt h - 1\<rparr>
     else if tx_full i then h
     else count_down (send v (h\<lparr>q_addr := q_addr h + 1\<rparr>)))"

definition ppu_disable_step :: "'m nes_bus \<Rightarrow> 'm hci \<Rightarrow> 'm hci" where
  "ppu_disable_step bus h = (let n = q_decode_cnt h; a = q_addr h; h = h\<lparr>q_decode_cnt := n + 1\<rparr> in
     if n = 0 then h\<lparr>q_addr := 0x2000\<rparr>
     else if n = 1 then h\<lparr>q_addr := 0, mach := cpu_wr bus (q_cart_cfg h) a 0 (mach h)\<rparr>
     else if n = 2 then h\<lparr>q_addr := 0x2001\<rparr>
     else if n = 3 then h\<lparr>q_addr := 0, mach := cpu_wr bus (q_cart_cfg h) a 0 (mach h)\<rparr>
     else if n = 4 then h\<lparr>q_addr := 0x2002\<rparr>
     else if n = 5 then h\<lparr>q_addr := 0, q_state := S_DECODE\<rparr>
     else h)"

definition cart_step :: "BYTE \<Rightarrow> 'm hci \<Rightarrow> 'm hci" where
  "cart_step b h = (let n = q_execute_cnt h;
       h = h\<lparr>q_cart_cfg := push_bit 8 (q_cart_cfg h) OR ucast b, q_execute_cnt := n - 1\<rparr> in
     if n = 0 then h\<lparr>q_state := S_DECODE\<rparr> else h)"

section \<open>A cycle of the clock\<close>

text \<open>A cycle in which the state waits for a byte and the receive queue has one.\<close>

definition byte_step :: "'m nes_bus \<Rightarrow> hci_in \<Rightarrow> BYTE \<Rightarrow> 'm hci \<Rightarrow> 'm hci" where
  "byte_step bus i b h = (case q_state h of
     S_DISABLED \<Rightarrow> (let h = pop h in
       if b = OP_DBG_BRK then h\<lparr>q_state := S_DECODE\<rparr>
       else if b = OP_QUERY_DBG_BRK then send 0 h else h)
   | S_DECODE \<Rightarrow> decode_step b (pop h\<lparr>q_decode_cnt := 0\<rparr>)
   | S_ECHO_STG_0 \<Rightarrow> (let n = q_decode_cnt h; h = pop h\<lparr>q_decode_cnt := n + 1\<rparr> in
       if n = 0 then h\<lparr>q_execute_cnt := ucast b\<rparr>
       else let cnt = count_hi b (q_execute_cnt h) in
         h\<lparr>q_execute_cnt := cnt, q_state := if cnt \<noteq> 0 then S_ECHO_STG_1 else S_DECODE\<rparr>)
   | S_ECHO_STG_1 \<Rightarrow> count_down (send b (pop h))
   | S_CPU_MEM_RD_STG_0 \<Rightarrow> addr_count_step True S_CPU_MEM_RD_STG_1 b (pop h)
   | S_CPU_MEM_WR_STG_0 \<Rightarrow> addr_count_step False S_CPU_MEM_WR_STG_1 b (pop h)
   | S_CPU_MEM_WR_STG_1 \<Rightarrow>
       count_down (pop h\<lparr>q_addr := q_addr h + 1, mach := cpu_wr bus (q_cart_cfg h) (q_addr h) b (mach h)\<rparr>)
   | S_CPU_REG_RD \<Rightarrow>
       if tx_full i then h else send (dbgreg_rd bus (ucast b) (mach h)) (pop h\<lparr>q_state := S_DECODE\<rparr>)
   | S_CPU_REG_WR_STG_0 \<Rightarrow> pop h\<lparr>q_addr := ucast b, q_state := S_CPU_REG_WR_STG_1\<rparr>
   | S_CPU_REG_WR_STG_1 \<Rightarrow>
       pop h\<lparr>mach := dbgreg_wr bus (ucast (q_addr h)) b (mach h), q_state := S_DECODE\<rparr>
   | S_PPU_MEM_RD_STG_0 \<Rightarrow> addr_count_step True S_PPU_MEM_RD_STG_1 b (pop h)
   | S_PPU_MEM_WR_STG_0 \<Rightarrow> addr_count_step False S_PPU_MEM_WR_STG_1 b (pop h)
   | S_PPU_MEM_WR_STG_1 \<Rightarrow>
       count_down (pop h\<lparr>q_addr := q_addr h + 1, mach := vram_wr bus (q_cart_cfg h) (q_addr h) b (mach h)\<rparr>)
   | S_CART_SET_CFG_STG_1 \<Rightarrow> cart_step b (pop h)
   | _ \<Rightarrow> h)"

text \<open>The states that go on without a byte from the host.\<close>

definition own_step :: "'m nes_bus \<Rightarrow> hci_in \<Rightarrow> 'm hci \<Rightarrow> 'm hci" where
  "own_step bus i h = (case q_state h of
     S_CPU_MEM_RD_STG_1 \<Rightarrow> read_step (cpu_rd bus (q_cart_cfg h) (q_addr h) (mach h)) i h
   | S_QUERY_ERR_CODE \<Rightarrow> if tx_full i then h else send (ucast (q_err_code h)) (h\<lparr>q_state := S_DECODE\<rparr>)
   | S_PPU_MEM_RD_STG_1 \<Rightarrow> read_step (vram_rd bus (q_cart_cfg h) (q_addr h) (mach h)) i h
   | S_PPU_DISABLE \<Rightarrow> ppu_disable_step bus h
   | S_CART_SET_CFG_STG_0 \<Rightarrow> h\<lparr>q_execute_cnt := 4, q_state := S_CART_SET_CFG_STG_1\<rparr>
   | _ \<Rightarrow> h)"

definition hci_clk :: "'m nes_bus \<Rightarrow> hci_in \<Rightarrow> 'm hci \<Rightarrow> 'm hci" where
  "hci_clk bus i h0 = (let h = tick_defaults i h0 in
     if q_state h \<in> {S_CPU_MEM_RD_STG_1, S_QUERY_ERR_CODE, S_PPU_MEM_RD_STG_1, S_PPU_DISABLE, S_CART_SET_CFG_STG_0}
     then own_step bus i h
     else if q_state h = S_DISABLED \<and> brk i then h\<lparr>q_state := S_DECODE\<rparr>
     else (case rx_fifo h of [] \<Rightarrow> h | b # _ \<Rightarrow> byte_step bus i b h))"

end
