(* ===== verification/Nes_Hci_Props.thy ===== *)
theory Nes_Hci_Props
  imports Nes_Hci
begin

text \<open>
  The debug block serves the debugger's packets: what each packet promises (\<open>serve\<close>, the
  specification), and the proof that from its decode stage the clocked state machine of hci.v
  reads exactly the bytes of the packet, sends exactly the promised answer, changes the machine
  behind the buses as promised and is in its decode stage again (or has let the CPU run).
\<close>

section \<open>What a packet promises\<close>

text \<open>Writing consecutive bytes and reading them; addresses wrap around.\<close>

fun write_bytes :: "(WORD \<Rightarrow> BYTE \<Rightarrow> 'm \<Rightarrow> 'm) \<Rightarrow> WORD \<Rightarrow> BYTE list \<Rightarrow> 'm \<Rightarrow> 'm" where
  "write_bytes wr a [] m = m"
| "write_bytes wr a (b # bs) m = write_bytes wr (a + 1) bs (wr a b m)"

definition read_bytes :: "(WORD \<Rightarrow> BYTE) \<Rightarrow> WORD \<Rightarrow> nat \<Rightarrow> BYTE list" where
  "read_bytes rd a n = map (\<lambda>i. rd (a + of_nat i)) [0..<n]"

lemma read_bytes_0 [simp]: "read_bytes rd a 0 = []"
  by (simp add: read_bytes_def)

lemma length_read_bytes [simp]: "length (read_bytes rd a n) = n"
  by (simp add: read_bytes_def)

lemma read_bytes_Suc: "read_bytes rd a (Suc n) = rd a # read_bytes rd (a + 1) n"
  by (simp add: read_bytes_def map_upt_Suc del: upt_Suc) (simp add: add.assoc)

lemma write_bytes_append:
  "write_bytes wr a (xs @ ys) m = write_bytes wr (a + of_nat (length xs)) ys (write_bytes wr a xs m)"
  by (induction xs arbitrary: a m) (simp_all add: add.assoc add.commute)

text \<open>The configuration after the five bytes of a CartSetCfg packet.\<close>

definition cart_cfg_of :: "BYTE list \<Rightarrow> 40 word" where
  "cart_cfg_of bs = foldl (\<lambda>c b. push_bit 8 c OR ucast b) 0 bs"

text \<open>
  The answer, the configuration and the machine after a packet; the first result tells whether
  the block stays active.
\<close>

definition serve ::
  "'m nes_bus \<Rightarrow> DbgPacket \<Rightarrow> 40 word \<Rightarrow> 'm \<Rightarrow> bool \<times> BYTE list \<times> 40 word \<times> 'm" where
  "serve bus p cfg m = (case m_class p of
     EchoClass \<Rightarrow> (True, drop 3 (m_pData p), cfg, m)
   | CpuMemRdClass \<Rightarrow> (True, read_bytes (\<lambda>a. cpu_rd bus cfg a m) (data_ushort p 1) (unat (data_ushort p 3)), cfg, m)
   | CpuMemWrClass \<Rightarrow> (True, [], cfg, write_bytes (cpu_wr bus cfg) (data_ushort p 1) (drop 5 (m_pData p)) m)
   | DbgHltClass \<Rightarrow> (True, [], cfg, m)
   | DbgRunClass \<Rightarrow> (False, [], cfg, m)
   | CpuRegRdClass \<Rightarrow> (True, [dbgreg_rd bus (ucast (m_pData p ! 1)) m], cfg, m)
   | CpuRegWrClass \<Rightarrow> (True, [], cfg, dbgreg_wr bus (ucast (m_pData p ! 1)) (m_pData p ! 2) m)
   | QueryHltClass \<Rightarrow> (True, [1], cfg, m)
   | PpuMemRdClass \<Rightarrow> (True, read_bytes (\<lambda>a. vram_rd bus cfg a m) (data_ushort p 1) (unat (data_ushort p 3)), cfg, m)
   | PpuMemWrClass \<Rightarrow> (True, [], cfg, write_bytes (vram_wr bus cfg) (data_ushort p 1) (drop 5 (m_pData p)) m)
   | PpuDisableClass \<Rightarrow> (True, [], cfg, cpu_wr bus cfg 0x2001 0 (cpu_wr bus cfg 0x2000 0 m))
   | CartSetCfgClass \<Rightarrow> (True, [], cart_cfg_of (drop 1 (m_pData p)), m))"

section \<open>Packets the debugger builds\<close>

text \<open>The shape the constructors give the data of each class.\<close>

inductive well_built :: "DbgPacket \<Rightarrow> bool" where
  "well_built (EchoPacket d n)"
| "well_built (CpuMemRdPacket a n)"
| "well_built (CpuMemWrPacket a n d)"
| "well_built DbgHltPacket"
| "well_built DbgRunPacket"
| "well_built (CpuRegRdPacket r)"
| "well_built (CpuRegWrPacket r v)"
| "well_built QueryHltPacket"
| "well_built (PpuMemRdPacket a n)"
| "well_built (PpuMemWrPacket a n d)"
| "well_built PpuDisablePacket"
| "well_built (CartSetCfgPacket d)"

lemmas packet_defs = EchoPacket_def CpuMemRdPacket_def CpuMemWrPacket_def DbgHltPacket_def
  DbgRunPacket_def CpuRegRdPacket_def CpuRegWrPacket_def QueryHltPacket_def PpuMemRdPacket_def
  PpuMemWrPacket_def PpuDisablePacket_def CartSetCfgPacket_def packet_def

lemma ushort_join: "ucast (ucast v :: BYTE) OR push_bit 8 (ucast (ucast (drop_bit 8 v) :: BYTE)) = (v :: USHORT)"
  by (rule bit_word_eqI) (auto simp: bit_simps)

lemma ushort_at_bytes:
  assumes "p i = ucast v" and "p (i + 1) = ucast (drop_bit 8 v)"
  shows "ushort_at p i = v"
  using assms by (simp add: ushort_at_def ushort_join)

lemma data_ushort_1: "data_ushort \<lparr>m_class = c, m_pData = op # ushort_bytes v @ bs\<rparr> (Suc 0) = v"
  by (simp add: data_ushort_def ushort_at_bytes ushort_bytes_def)

lemma data_ushort_3: "data_ushort \<lparr>m_class = c, m_pData = op # ushort_bytes a @ ushort_bytes v @ bs\<rparr> 3 = v"
  by (simp add: data_ushort_def ushort_at_bytes ushort_bytes_def numeral_3_eq_3)

lemmas data_ushort_fields = data_ushort_1 data_ushort_1 [where bs = "[]", simplified]
  data_ushort_3 data_ushort_3 [where bs = "[]", simplified]

lemma length_ushort_bytes [simp]: "length (ushort_bytes v) = 2"
  by (simp add: ushort_bytes_def)

lemma length_copied [simp]: "length (copied d n) = unat n"
  by (simp add: copied_def)

section \<open>Runs of the clock\<close>

text \<open>
  Cycles in which the transmit queue has room, no parity error arrives and the CPU does not break.
  \<open>leads\<close> relates what holds before to what holds after some number of them.
\<close>

definition quiet_in :: hci_in where
  "quiet_in = \<lparr>brk = False, tx_full = False, parity_err = False\<rparr>"

definition leads :: "'m nes_bus \<Rightarrow> ('m hci \<Rightarrow> bool) \<Rightarrow> ('m hci \<Rightarrow> bool) \<Rightarrow> bool" where
  "leads bus P Q \<longleftrightarrow> (\<forall>h. P h \<longrightarrow> (\<exists>n. Q ((hci_clk bus quiet_in ^^ n) h)))"

lemma leads_refl: "(\<And>h. P h \<Longrightarrow> Q h) \<Longrightarrow> leads bus P Q"
  unfolding leads_def by (metis funpow_0)

lemma leads_step: "(\<And>h. P h \<Longrightarrow> Q (hci_clk bus quiet_in h)) \<Longrightarrow> leads bus P Q"
  unfolding leads_def by (metis funpow_0 funpow_Suc_right o_apply)

lemma leads_trans [trans]:
  assumes "leads bus P Q" and "leads bus Q R"
  shows "leads bus P R"
  unfolding leads_def
proof (intro allI impI)
  fix h
  assume "P h"
  then obtain n where "Q ((hci_clk bus quiet_in ^^ n) h)" using assms(1) by (auto simp: leads_def)
  then obtain k where "R ((hci_clk bus quiet_in ^^ k) ((hci_clk bus quiet_in ^^ n) h))"
    using assms(2) by (auto simp: leads_def)
  then have "R ((hci_clk bus quiet_in ^^ (k + n)) h)" by (simp add: funpow_add)
  then show "\<exists>n. R ((hci_clk bus quiet_in ^^ n) h)" ..
qed

text \<open>All bytes sent so far, the registered one included, and a state with its registers.\<close>

definition sent :: "'m hci \<Rightarrow> BYTE list" where
  "sent h = tx_fifo h @ (if q_wr_en h then [q_tx_data h] else [])"

definition hat ::
  "hci_state \<Rightarrow> 3 word \<Rightarrow> 17 word \<Rightarrow> WORD \<Rightarrow> 2 word \<Rightarrow> 40 word \<Rightarrow> BYTE list \<Rightarrow> BYTE list \<Rightarrow> 'm \<Rightarrow> 'm hci \<Rightarrow> bool" where
  "hat st d e a err cfg rx out m h \<longleftrightarrow> q_state h = st \<and> q_decode_cnt h = d \<and> q_execute_cnt h = e
     \<and> q_addr h = a \<and> q_err_code h = err \<and> q_cart_cfg h = cfg \<and> rx_fifo h = rx \<and> sent h = out \<and> mach h = m"

text \<open>The same without the working registers.\<close>

definition idle :: "hci_state \<Rightarrow> 2 word \<Rightarrow> 40 word \<Rightarrow> BYTE list \<Rightarrow> BYTE list \<Rightarrow> 'm \<Rightarrow> 'm hci \<Rightarrow> bool" where
  "idle st err cfg rx out m h \<longleftrightarrow> q_state h = st \<and> q_err_code h = err \<and> q_cart_cfg h = cfg
     \<and> rx_fifo h = rx \<and> sent h = out \<and> mach h = m"

lemma hat_idle: "hat st d e a err cfg rx out m h \<Longrightarrow> idle st err cfg rx out m h"
  by (simp add: hat_def idle_def)

text \<open>A cycle that consumes a byte, and one that does not, after the defaults of the cycle.\<close>

definition own_states :: "hci_state set" where
  "own_states = {S_CPU_MEM_RD_STG_1, S_QUERY_ERR_CODE, S_PPU_MEM_RD_STG_1, S_PPU_DISABLE, S_CART_SET_CFG_STG_0}"

lemma hat_tick: "hat st d e a err cfg rx out m h \<Longrightarrow>
    hat st d e a err cfg rx out m (tick_defaults quiet_in h) \<and> \<not> q_wr_en (tick_defaults quiet_in h)"
  by (auto simp: hat_def tick_defaults_def quiet_in_def sent_def)

lemma leads_byte:
  assumes "\<And>h. hat st d e a err cfg (b # rx) out m h \<Longrightarrow> \<not> q_wr_en h \<Longrightarrow> Q (byte_step bus quiet_in b h)"
    and "st \<notin> own_states"
  shows "leads bus (hat st d e a err cfg (b # rx) out m) Q"
proof (rule leads_step)
  fix h
  assume "hat st d e a err cfg (b # rx) out m h"
  from hat_tick [OF this] assms(1) [of "tick_defaults quiet_in h"] assms(2)
  show "Q (hci_clk bus quiet_in h)"
    by (simp add: hci_clk_def Let_def hat_def own_states_def) (simp add: quiet_in_def)
qed

lemma leads_own:
  assumes "\<And>h. hat st d e a err cfg rx out m h \<Longrightarrow> \<not> q_wr_en h \<Longrightarrow> Q (own_step bus quiet_in h)"
    and "st \<in> own_states"
  shows "leads bus (hat st d e a err cfg rx out m) Q"
proof (rule leads_step)
  fix h
  assume "hat st d e a err cfg rx out m h"
  from hat_tick [OF this] assms(1) [of "tick_defaults quiet_in h"] assms(2)
  show "Q (hci_clk bus quiet_in h)"
    by (simp add: hci_clk_def Let_def hat_def own_states_def)
qed

lemmas step_simps = hat_def byte_step_def own_step_def own_states_def pop_def send_def sent_def quiet_in_def

lemma idle_hat: "idle st err cfg rx out m h \<longleftrightarrow> (\<exists>d e a. hat st d e a err cfg rx out m h)"
  by (auto simp: hat_def idle_def)

lemma leads_idle:
  assumes "\<And>d e a. leads bus (hat st d e a err cfg rx out m) Q"
  shows "leads bus (idle st err cfg rx out m) Q"
  using assms by (auto simp: leads_def idle_hat)

lemma leads_ex:
  assumes "\<And>x y. leads bus (P x y) Q"
  shows "leads bus (\<lambda>h. \<exists>x y. P x y h) Q"
  using assms by (auto simp: leads_def)

text \<open>Decoding an opcode that has a stage of its own, and one that has none.\<close>

lemma decode_leads:
  assumes "decode op = Some st" and "\<And>e a. leads bus (hat st 0 e a err cfg rest out m) Q"
  shows "leads bus (idle S_DECODE err cfg (op # rest) out m) Q"
proof -
  have "leads bus (idle S_DECODE err cfg (op # rest) out m) (\<lambda>h. \<exists>e a. hat st 0 e a err cfg rest out m h)"
    by (intro leads_idle leads_byte) (simp_all add: step_simps decode_step_def assms)
  also have "leads bus (\<lambda>h. \<exists>e a. hat st 0 e a err cfg rest out m h) Q"
    by (intro leads_ex assms)
  finally show ?thesis .
qed

lemma decode_none:
  "decode (opcode DbgPacketOpCodeDbgHlt) = None" "decode (opcode DbgPacketOpCodeDbgRun) = None"
  "decode (opcode DbgPacketOpCodeQueryHlt) = None"
  by (simp_all add: decode_def)

lemma hlt_leads: "leads bus (idle S_DECODE err cfg (opcode DbgPacketOpCodeDbgHlt # rest) out m) (idle S_DECODE err cfg rest out m)"
  by (intro leads_idle leads_byte)
    (simp_all add: step_simps idle_def decode_step_def decode_none OP_DBG_BRK_def del: opcode.simps, simp)

lemma run_leads: "leads bus (idle S_DECODE err cfg (opcode DbgPacketOpCodeDbgRun # rest) out m) (idle S_DISABLED err cfg rest out m)"
  by (intro leads_idle leads_byte)
    (simp_all add: step_simps idle_def decode_step_def decode_def OP_DBG_BRK_def)

lemma query_leads: "leads bus (idle S_DECODE err cfg (opcode DbgPacketOpCodeQueryHlt # rest) out m) (idle S_DECODE err cfg rest (out @ [1]) m)"
  by (intro leads_idle leads_byte)
    (simp_all add: step_simps idle_def decode_step_def decode_def OP_DBG_BRK_def OP_QUERY_DBG_BRK_def)

subsection \<open>Address and count\<close>

lemma and_FF: "x AND 0xFF = take_bit 8 (x :: 'a :: len word)"
proof -
  have "(0xFF :: 'a word) = mask 8" by (simp add: mask_eq_exp_minus_1)
  then show ?thesis by (simp add: take_bit_eq_mask)
qed

lemma lo_hi: "hi_lo (ucast (drop_bit 8 v)) (ucast (ucast v :: BYTE)) = v"
  unfolding hi_lo_def and_FF by (rule bit_word_eqI) (auto simp: bit_simps)

lemma lo_hi_count: "count_hi (ucast (drop_bit 8 v)) (ucast (ucast v :: BYTE)) = ucast (v :: USHORT)"
  unfolding count_hi_def and_FF by (rule bit_word_eqI) (auto simp: bit_simps dest: bit_imp_le_length)

lemma unat_count: "unat (ucast (v :: USHORT) :: 17 word) = unat v"
  by (rule unat_ucast_up) (simp add: is_up)

lemma unat_count2: "unat (push_bit (Suc 0) (ucast (v :: USHORT)) :: 17 word) = 2 * unat v"
proof -
  have "unat v < 2 ^ 16" using unsigned_less [of v, where 'a = nat] by simp
  then show ?thesis by (simp add: unat_word_ariths unat_count)
qed

lemma count_0: "(ucast (v :: USHORT) :: 17 word) = 0 \<longleftrightarrow> v = 0"
  by (simp add: word_unat_eq_iff unat_count)

lemma count2_0: "(push_bit (Suc 0) (ucast (v :: USHORT)) :: 17 word) = 0 \<longleftrightarrow> v = 0"
  using unat_count2 [of v] by (simp add: word_unat_eq_iff del: push_bit_Suc)

text \<open>Four bytes of address and count lead to the execute stage, or back when the count is 0.\<close>

lemma addr_count_leads:
  assumes "(st0, st1, doubled) \<in> {(S_CPU_MEM_RD_STG_0, S_CPU_MEM_RD_STG_1, True),
      (S_CPU_MEM_WR_STG_0, S_CPU_MEM_WR_STG_1, False), (S_PPU_MEM_RD_STG_0, S_PPU_MEM_RD_STG_1, True),
      (S_PPU_MEM_WR_STG_0, S_PPU_MEM_WR_STG_1, False)}"
  shows "leads bus (hat st0 0 e a err cfg (ushort_bytes ad @ ushort_bytes n @ rest) out m)
    (hat (if n = 0 then S_DECODE else st1) 4 (if doubled then push_bit 1 (ucast n) else ucast n) ad err cfg rest out m)"
proof -
  let ?b = "\<lambda>v. ucast (v :: USHORT) :: BYTE" and ?t = "\<lambda>v. ucast (drop_bit 8 v :: USHORT) :: BYTE"
  have b: "byte_step bus quiet_in b h = addr_count_step doubled st1 b (pop h)" if "q_state h = st0" for b h
    using assms that by (auto simp: byte_step_def)
  have o: "st0 \<notin> own_states" using assms by (auto simp: own_states_def)
  note r = hat_def b addr_count_step_def pop_def sent_def o
  have "leads bus (hat st0 0 e a err cfg (?b ad # ?t ad # ?b n # ?t n # rest) out m)
      (hat st0 1 e (ucast (?b ad)) err cfg (?t ad # ?b n # ?t n # rest) out m)"
    by (rule leads_byte) (simp_all add: r)
  also have "leads bus (hat st0 1 e (ucast (?b ad)) err cfg (?t ad # ?b n # ?t n # rest) out m)
      (hat st0 2 e ad err cfg (?b n # ?t n # rest) out m)"
    by (rule leads_byte) (simp_all add: r lo_hi)
  also have "leads bus (hat st0 2 e ad err cfg (?b n # ?t n # rest) out m)
      (hat st0 3 (ucast (?b n)) ad err cfg (?t n # rest) out m)"
    by (rule leads_byte) (simp_all add: r)
  also have "leads bus (hat st0 3 (ucast (?b n)) ad err cfg (?t n # rest) out m)
      (hat (if n = 0 then S_DECODE else st1) 4 (if doubled then push_bit 1 (ucast n) else ucast n) ad err cfg rest out m)"
    by (rule leads_byte) (simp_all add: r Let_def lo_hi_count count_0 count2_0 del: push_bit_Suc)
  finally show ?thesis by (simp add: ushort_bytes_def)
qed

subsection \<open>The execute stages\<close>

lemma unat_dec: "unat (e :: 17 word) = Suc k \<Longrightarrow> unat (e - 1) = k"
  using unat_minus_one [of e] by force

lemma dec_0: "unat (e :: 17 word) = Suc k \<Longrightarrow> e - 1 = 0 \<longleftrightarrow> k = 0"
  using unat_dec [of e k] by (simp add: word_unat_eq_iff)

lemma count_down_hat:
  assumes "hat st d e a err cfg rx out m h" and "unat e = Suc k"
  shows "hat (if k = 0 then S_DECODE else st) d (e - 1) a err cfg rx out m (count_down h)"
  using assms dec_0 [of e k] by (auto simp: hat_def count_down_def Let_def sent_def)

lemma exec_bytes_leads:
  assumes "\<And>h b. q_state h = st \<Longrightarrow> q_cart_cfg h = cfg \<Longrightarrow> byte_step bus quiet_in b h = count_down (f b (pop h))"
    and "st \<notin> own_states"
    and "\<And>b e a rx out m h. hat st d e a err cfg rx out m h \<Longrightarrow> \<not> q_wr_en h \<Longrightarrow>
        hat st d e (g a) err cfg rx (out @ o1 b) (u a b m) (f b h)"
    and "unat e = length bs" and "bs \<noteq> []"
  shows "leads bus (hat st d e a err cfg (bs @ rest) out m)
    (idle S_DECODE err cfg rest (out @ concat (map o1 bs)) (snd (foldl (\<lambda>(a, m) b. (g a, u a b m)) (a, m) bs)))"
  using assms(4,5)
proof (induction bs arbitrary: e a out m)
  case (Cons b bs)
  let ?st = "if length bs = 0 then S_DECODE else st"
  have e: "unat e = Suc (length bs)" "unat (e - 1) = length bs"
    using Cons.prems(1) unat_dec [of e "length bs"] by simp_all
  have "leads bus (hat st d e a err cfg (b # bs @ rest) out m)
      (hat ?st d (e - 1) (g a) err cfg (bs @ rest) (out @ o1 b) (u a b m))"
  proof (rule leads_byte [OF _ assms(2)])
    fix h
    assume h: "hat st d e a err cfg (b # bs @ rest) out m h" "\<not> q_wr_en h"
    then have "hat st d e a err cfg (bs @ rest) out m (pop h)" "\<not> q_wr_en (pop h)"
      by (simp_all add: hat_def pop_def sent_def)
    from count_down_hat [OF assms(3) [OF this, of b] e(1)] h(1)
    show "hat ?st d (e - 1) (g a) err cfg (bs @ rest) (out @ o1 b) (u a b m) (byte_step bus quiet_in b h)"
      by (simp only: hat_def assms(1))
  qed
  also have "leads bus (hat ?st d (e - 1) (g a) err cfg (bs @ rest) (out @ o1 b) (u a b m))
      (idle S_DECODE err cfg rest (out @ concat (map o1 (b # bs)))
        (snd (foldl (\<lambda>(a, m) b. (g a, u a b m)) (a, m) (b # bs))))"
  proof (cases "bs = []")
    case True
    then show ?thesis by (auto intro: leads_refl hat_idle)
  next
    case False
    with Cons.IH [OF e(2) this, of "g a" "out @ o1 b" "u a b m"] show ?thesis by simp
  qed
  finally show ?case by simp
qed simp

lemma concat_map_Nil: "concat (map (\<lambda>b. []) bs) = []"
  by (induction bs) simp_all

lemma foldl_write_bytes: "snd (foldl (\<lambda>(a, m) b. (a + 1, wr a b m)) (a, m) bs) = write_bytes wr a bs m"
  by (induction bs arbitrary: a m) simp_all

lemma write_leads:
  assumes "st = S_CPU_MEM_WR_STG_1 \<and> wr = cpu_wr bus cfg \<or> st = S_PPU_MEM_WR_STG_1 \<and> wr = vram_wr bus cfg"
    and "unat e = length bs" and "bs \<noteq> []"
  shows "leads bus (hat st d e a err cfg (bs @ rest) out m) (idle S_DECODE err cfg rest out (write_bytes wr a bs m))"
proof -
  let ?f = "\<lambda>b h. h\<lparr>q_addr := q_addr h + 1, mach := wr (q_addr h) b (mach h)\<rparr>"
  have "byte_step bus quiet_in b h = count_down (?f b (pop h))" if "q_state h = st" "q_cart_cfg h = cfg" for h b
    using assms(1) that by (auto simp: byte_step_def pop_def)
  moreover have "st \<notin> own_states" using assms(1) by (auto simp: own_states_def)
  moreover have "hat st d e (a + 1) err cfg rx (out @ []) (wr a b m) (?f b h)"
    if "hat st d e a err cfg rx out m h" for b e a rx out m h
    using that by (auto simp: hat_def sent_def)
  ultimately show ?thesis
    using exec_bytes_leads [of st cfg bus ?f d err "\<lambda>a. a + 1" "\<lambda>b. []" wr e bs a rest out m, OF _ _ _ assms(2,3)]
    by (simp add: foldl_write_bytes concat_map_Nil)
qed

lemma foldl_id: "snd (foldl (\<lambda>(a, m) b. (a, m)) (a, m) bs) = m"
  by (induction bs) simp_all

lemma echo_leads:
  assumes "unat e = length bs" and "bs \<noteq> []"
  shows "leads bus (hat S_ECHO_STG_1 d e a err cfg (bs @ rest) out m) (idle S_DECODE err cfg rest (out @ bs) m)"
proof -
  have "hat S_ECHO_STG_1 d e a err cfg rx (out @ [b]) m (send b h)"
    if "hat S_ECHO_STG_1 d e a err cfg rx out m h" "\<not> q_wr_en h" for b e a rx out m h
    using that by (simp add: hat_def sent_def send_def)
  from exec_bytes_leads [of S_ECHO_STG_1 cfg bus send d err "\<lambda>a. a" "\<lambda>b. [b]" "\<lambda>a b m. m" e bs a rest out m, OF _ _ this assms]
  show ?thesis by (simp add: foldl_id byte_step_def own_states_def)
qed

lemma read_leads:
  assumes "st = S_CPU_MEM_RD_STG_1 \<and> rd = cpu_rd bus cfg \<or> st = S_PPU_MEM_RD_STG_1 \<and> rd = vram_rd bus cfg"
    and "unat e = 2 * n" and "n \<noteq> 0"
  shows "leads bus (hat st d e a err cfg rx out m) (idle S_DECODE err cfg rx (out @ read_bytes (\<lambda>a. rd a m) a n) m)"
  using assms(2,3)
proof (induction n arbitrary: e a out)
  case (Suc n)
  have tx: "tx_full quiet_in = False" by (simp add: quiet_in_def)
  have own: "st \<in> own_states" using assms(1) by (auto simp: own_states_def)
  have o: "own_step bus quiet_in h = read_step (rd (q_addr h) (mach h)) quiet_in h"
    if "q_state h = st" "q_cart_cfg h = cfg" for h
    using assms(1) that by (auto simp: own_step_def)
  have e: "unat (e - 1) = Suc (2 * n)" "unat (e - 1 - 1) = 2 * n" "e - 1 - 1 = 0 \<longleftrightarrow> n = 0"
    using unat_dec [of e "Suc (2 * n)"] unat_dec [of "e - 1" "2 * n"] dec_0 [of "e - 1" "2 * n"] Suc.prems by auto
  have "leads bus (hat st d e a err cfg rx out m) (hat st d (e - 1) a err cfg rx out m)"
    by (rule leads_own [OF _ own]) (use Suc.prems in \<open>simp add: hat_def o read_step_def sent_def\<close>)
  also have "leads bus (hat st d (e - 1) a err cfg rx out m)
      (hat (if n = 0 then S_DECODE else st) d (e - 1 - 1) (a + 1) err cfg rx (out @ [rd a m]) m)"
    by (rule leads_own [OF _ own])
      (use e in \<open>simp add: hat_def o read_step_def sent_def send_def count_down_def Let_def tx\<close>)
  also have "leads bus (hat (if n = 0 then S_DECODE else st) d (e - 1 - 1) (a + 1) err cfg rx (out @ [rd a m]) m)
      (idle S_DECODE err cfg rx (out @ read_bytes (\<lambda>a. rd a m) a (Suc n)) m)"
    using Suc.IH [OF e(2), of "a + 1" "out @ [rd a m]"]
    by (cases "n = 0") (auto simp: read_bytes_Suc intro: leads_refl hat_idle)
  finally show ?case .
qed simp

subsection \<open>Registers, the picture unit and the cartridge\<close>

lemma reg_rd_leads:
  "leads bus (hat S_CPU_REG_RD d e a err cfg (b # rest) out m) (idle S_DECODE err cfg rest (out @ [dbgreg_rd bus (ucast b) m]) m)"
  by (rule leads_byte) (simp_all add: step_simps idle_def)

lemma reg_wr_leads:
  "leads bus (hat S_CPU_REG_WR_STG_0 d e a err cfg (r # v # rest) out m)
    (idle S_DECODE err cfg rest out (dbgreg_wr bus (ucast r) v m))"
proof -
  have "leads bus (hat S_CPU_REG_WR_STG_0 d e a err cfg (r # v # rest) out m)
      (hat S_CPU_REG_WR_STG_1 d e (ucast r) err cfg (v # rest) out m)"
    by (rule leads_byte) (simp_all add: step_simps)
  also have "ucast (ucast r :: WORD) = (ucast r :: 4 word)"
    by (rule bit_word_eqI) (simp add: bit_simps)
  then have "leads bus (hat S_CPU_REG_WR_STG_1 d e (ucast r) err cfg (v # rest) out m)
      (idle S_DECODE err cfg rest out (dbgreg_wr bus (ucast r) v m))"
    by (intro leads_byte) (simp_all add: step_simps idle_def)
  finally show ?thesis .
qed

lemma ppu_disable_leads:
  "leads bus (hat S_PPU_DISABLE 0 e a err cfg rx out m)
    (idle S_DECODE err cfg rx out (cpu_wr bus cfg 0x2001 0 (cpu_wr bus cfg 0x2000 0 m)))"
proof -
  let ?P = "\<lambda>d a m. hat S_PPU_DISABLE d e a err cfg rx out m"
  let ?m = "cpu_wr bus cfg 0x2000 0 m"
  note r = hat_def own_step_def own_states_def ppu_disable_step_def sent_def Let_def
  have "leads bus (?P 0 a m) (?P 1 0x2000 m)" by (rule leads_own) (simp_all add: r)
  also have "leads bus (?P 1 0x2000 m) (?P 2 0 ?m)" by (rule leads_own) (simp_all add: r)
  also have "leads bus (?P 2 0 ?m) (?P 3 0x2001 ?m)" by (rule leads_own) (simp_all add: r)
  also have "leads bus (?P 3 0x2001 ?m) (?P 4 0 (cpu_wr bus cfg 0x2001 0 ?m))" by (rule leads_own) (simp_all add: r)
  also have "leads bus (?P 4 0 (cpu_wr bus cfg 0x2001 0 ?m)) (?P 5 0x2002 (cpu_wr bus cfg 0x2001 0 ?m))"
    by (rule leads_own) (simp_all add: r)
  also have "leads bus (?P 5 0x2002 (cpu_wr bus cfg 0x2001 0 ?m)) (idle S_DECODE err cfg rx out (cpu_wr bus cfg 0x2001 0 ?m))"
    by (rule leads_own) (simp_all add: r idle_def)
  finally show ?thesis .
qed

text \<open>Five bytes shift everything out that the configuration held before.\<close>

lemma cart_cfg_shifts: "foldl (\<lambda>c b. push_bit 8 c OR ucast b) (cfg :: 40 word) [b1, b2, b3, b4, b5] = cart_cfg_of [b1, b2, b3, b4, b5]"
  unfolding cart_cfg_of_def by (rule bit_word_eqI) (auto simp: bit_simps simp del: push_bit_numeral)

lemma cart_leads:
  "leads bus (hat S_CART_SET_CFG_STG_0 d e a err cfg (b1 # b2 # b3 # b4 # b5 # rest) out m)
    (idle S_DECODE err (cart_cfg_of [b1, b2, b3, b4, b5]) rest out m)"
proof -
  let ?sh = "\<lambda>(c :: 40 word) (b :: BYTE). push_bit 8 c OR ucast b"
  let ?P = "\<lambda>e c rx. hat S_CART_SET_CFG_STG_1 d e a err c rx out m"
  note r = hat_def byte_step_def own_states_def cart_step_def sent_def Let_def pop_def
  have "leads bus (hat S_CART_SET_CFG_STG_0 d e a err cfg (b1 # b2 # b3 # b4 # b5 # rest) out m)
      (?P 4 cfg (b1 # b2 # b3 # b4 # b5 # rest))"
    by (rule leads_own) (simp_all add: r own_step_def)
  also have "leads bus \<dots> (?P 3 (?sh cfg b1) (b2 # b3 # b4 # b5 # rest))"
    by (rule leads_byte) (simp_all add: r)
  also have "leads bus \<dots> (?P 2 (?sh (?sh cfg b1) b2) (b3 # b4 # b5 # rest))"
    by (rule leads_byte) (simp_all add: r)
  also have "leads bus \<dots> (?P 1 (?sh (?sh (?sh cfg b1) b2) b3) (b4 # b5 # rest))"
    by (rule leads_byte) (simp_all add: r)
  also have "leads bus \<dots> (?P 0 (?sh (?sh (?sh (?sh cfg b1) b2) b3) b4) (b5 # rest))"
    by (rule leads_byte) (simp_all add: r)
  also have "leads bus \<dots> (idle S_DECODE err (foldl ?sh cfg [b1, b2, b3, b4, b5]) rest out m)"
    by (rule leads_byte) (simp_all add: r idle_def)
  finally show ?thesis unfolding cart_cfg_shifts .
qed

section \<open>A packet is served\<close>

text \<open>The sizes the debugger computes are those of the data and of the promised answer.\<close>

lemma unat_size: "unat (3 + ucast (n :: USHORT) :: UINT) = 3 + unat n"
  "unat (5 + ucast (n :: USHORT) :: UINT) = 5 + unat n"
proof -
  have "3 + unat n < 4294967296" "5 + unat n < 4294967296" using WORD_less [of n] by linarith+
  then show "unat (3 + ucast n :: UINT) = 3 + unat n" "unat (5 + ucast n :: UINT) = 5 + unat n"
    by (simp_all add: unat_word_ariths unat_ucast_up)
qed

lemma packet_size:
  assumes "well_built p"
  shows "unat (SizeInBytes p) = length (m_pData p)"
  using assms
  by cases (simp_all add: SizeInBytes_defs packet_defs data_ushort_fields unat_size)

lemma answer_size:
  assumes "well_built p"
  shows "unat (ReturnBytesExpected p) = length (fst (snd (serve bus p cfg m)))"
  using assms
  by cases (simp_all add: ReturnBytes_defs serve_def packet_defs data_ushort_fields unat_ucast_up)

text \<open>The bytes are served: from the decode stage through all stages of the packet.\<close>

lemma decode_ops:
  "decode 0 = Some S_ECHO_STG_0" "decode 1 = Some S_CPU_MEM_RD_STG_0" "decode 2 = Some S_CPU_MEM_WR_STG_0"
  "decode 5 = Some S_CPU_REG_RD" "decode 6 = Some S_CPU_REG_WR_STG_0" "decode 9 = Some S_PPU_MEM_RD_STG_0"
  "decode 10 = Some S_PPU_MEM_WR_STG_0" "decode 11 = Some S_PPU_DISABLE" "decode 12 = Some S_CART_SET_CFG_STG_0"
  by (simp_all add: decode_def)

lemma copied_Nil: "copied d n = [] \<longleftrightarrow> n = 0"
  by (simp add: copied_def unat_eq_zero)

lemma echo_served:
  "leads bus (idle S_DECODE err cfg (m_pData (EchoPacket d n) @ rest) out m)
    (idle S_DECODE err cfg rest (out @ copied d n) m)"
proof -
  let ?b = "ucast n :: BYTE" and ?t = "ucast (drop_bit 8 n) :: BYTE"
  have "leads bus (hat S_ECHO_STG_0 0 e a err cfg (?b # ?t # copied d n @ rest) out m)
      (idle S_DECODE err cfg rest (out @ copied d n) m)" for e a
  proof -
    have "leads bus (hat S_ECHO_STG_0 0 e a err cfg (?b # ?t # copied d n @ rest) out m)
        (hat S_ECHO_STG_0 1 (ucast ?b) a err cfg (?t # copied d n @ rest) out m)"
      by (rule leads_byte) (simp_all add: step_simps Let_def)
    also have "leads bus \<dots> (hat (if n = 0 then S_DECODE else S_ECHO_STG_1) 2 (ucast n) a err cfg (copied d n @ rest) out m)"
      by (rule leads_byte) (simp_all add: step_simps Let_def lo_hi_count count_0)
    also have "leads bus \<dots> (idle S_DECODE err cfg rest (out @ copied d n) m)"
      by (cases "n = 0") (auto simp: copied_Nil unat_count intro!: echo_leads, auto simp: copied_def intro: leads_refl hat_idle)
    finally show ?thesis .
  qed
  then show ?thesis
    by (simp add: EchoPacket_def packet_def ushort_bytes_def decode_leads [OF decode_ops(1)])
qed

lemma mem_wr_served:
  assumes "op = 2 \<and> st0 = S_CPU_MEM_WR_STG_0 \<and> st1 = S_CPU_MEM_WR_STG_1 \<and> wr = cpu_wr bus cfg
    \<or> op = 10 \<and> st0 = S_PPU_MEM_WR_STG_0 \<and> st1 = S_PPU_MEM_WR_STG_1 \<and> wr = vram_wr bus cfg"
  shows "leads bus (idle S_DECODE err cfg (op # ushort_bytes ad @ ushort_bytes n @ copied d n @ rest) out m)
    (idle S_DECODE err cfg rest out (write_bytes wr ad (copied d n) m))"
proof (rule decode_leads)
  show "decode op = Some st0" using assms by (auto simp: decode_ops)
  fix e a
  have "leads bus (hat st0 0 e a err cfg (ushort_bytes ad @ ushort_bytes n @ copied d n @ rest) out m)
      (hat (if n = 0 then S_DECODE else st1) 4 (ucast n) ad err cfg (copied d n @ rest) out m)"
    using addr_count_leads [of st0 st1 False bus e a err cfg ad n "copied d n @ rest" out m] assms by auto
  also have "leads bus \<dots> (idle S_DECODE err cfg rest out (write_bytes wr ad (copied d n) m))"
  proof (cases "n = 0")
    case True
    then show ?thesis by (auto simp: copied_def intro: leads_refl hat_idle)
  next
    case False
    with assms write_leads [of st1 wr bus cfg "ucast n" "copied d n"] show ?thesis
      by (auto simp: copied_Nil unat_count)
  qed
  finally show "leads bus (hat st0 0 e a err cfg (ushort_bytes ad @ ushort_bytes n @ copied d n @ rest) out m)
      (idle S_DECODE err cfg rest out (write_bytes wr ad (copied d n) m))" .
qed

lemma mem_rd_served:
  assumes "op = 1 \<and> st0 = S_CPU_MEM_RD_STG_0 \<and> st1 = S_CPU_MEM_RD_STG_1 \<and> rd = cpu_rd bus cfg
    \<or> op = 9 \<and> st0 = S_PPU_MEM_RD_STG_0 \<and> st1 = S_PPU_MEM_RD_STG_1 \<and> rd = vram_rd bus cfg"
  shows "leads bus (idle S_DECODE err cfg (op # ushort_bytes ad @ ushort_bytes n @ rest) out m)
    (idle S_DECODE err cfg rest (out @ read_bytes (\<lambda>a. rd a m) ad (unat n)) m)"
proof (rule decode_leads)
  show "decode op = Some st0" using assms by (auto simp: decode_ops)
  fix e a
  have "leads bus (hat st0 0 e a err cfg (ushort_bytes ad @ ushort_bytes n @ rest) out m)
      (hat (if n = 0 then S_DECODE else st1) 4 (push_bit (Suc 0) (ucast n)) ad err cfg rest out m)"
    using addr_count_leads [of st0 st1 True bus e a err cfg ad n rest out m] assms by auto
  also have "leads bus \<dots> (idle S_DECODE err cfg rest (out @ read_bytes (\<lambda>a. rd a m) ad (unat n)) m)"
  proof (cases "n = 0")
    case True
    then show ?thesis by (auto intro: leads_refl hat_idle)
  next
    case False
    with assms read_leads [of st1 rd bus cfg "push_bit (Suc 0) (ucast n)" "unat n", OF _ unat_count2] show ?thesis
      by (auto simp: unat_eq_zero)
  qed
  finally show "leads bus (hat st0 0 e a err cfg (ushort_bytes ad @ ushort_bytes n @ rest) out m)
      (idle S_DECODE err cfg rest (out @ read_bytes (\<lambda>a. rd a m) ad (unat n)) m)" .
qed

text \<open>The device after a packet, as its promise has it.\<close>

definition served ::
  "'m nes_bus \<Rightarrow> DbgPacket \<Rightarrow> 2 word \<Rightarrow> 40 word \<Rightarrow> BYTE list \<Rightarrow> BYTE list \<Rightarrow> 'm \<Rightarrow> 'm hci \<Rightarrow> bool" where
  "served bus p err cfg rest out m = (case serve bus p cfg m of (active, ans, cfg', m') \<Rightarrow>
     idle (if active then S_DECODE else S_DISABLED) err cfg' rest (out @ ans) m')"

theorem packet_served:
  assumes "well_built p"
  shows "leads bus (idle S_DECODE err cfg (m_pData p @ rest) out m) (served bus p err cfg rest out m)"
  using assms
proof cases
  case (1 d n)
  then show ?thesis using echo_served [of bus err cfg d n rest out m]
    by (simp add: served_def serve_def packet_defs ushort_bytes_def)
next
  case (2 a n)
  then show ?thesis using mem_rd_served [of 1 _ _ "cpu_rd bus cfg" bus cfg err a n rest out m]
    by (simp add: served_def serve_def packet_defs data_ushort_fields)
next
  case (3 a n d)
  then show ?thesis using mem_wr_served [of 2 _ _ "cpu_wr bus cfg" bus cfg err a n d rest out m]
    by (simp add: served_def serve_def packet_defs data_ushort_fields)
next
  case 4
  then show ?thesis using hlt_leads [of bus err cfg rest out m] by (simp add: served_def serve_def packet_defs)
next
  case 5
  then show ?thesis using run_leads [of bus err cfg rest out m] by (simp add: served_def serve_def packet_defs)
next
  case (6 r)
  then show ?thesis by (simp add: served_def serve_def packet_defs decode_leads [OF decode_ops(4) reg_rd_leads])
next
  case (7 r v)
  then show ?thesis
    by (simp add: served_def serve_def packet_defs decode_leads [OF decode_ops(5) reg_wr_leads] numeral_2_eq_2)
next
  case 8
  then show ?thesis using query_leads [of bus err cfg rest out m] by (simp add: served_def serve_def packet_defs)
next
  case (9 a n)
  then show ?thesis using mem_rd_served [of 9 _ _ "vram_rd bus cfg" bus cfg err a n rest out m]
    by (simp add: served_def serve_def packet_defs data_ushort_fields)
next
  case (10 a n d)
  then show ?thesis using mem_wr_served [of 10 _ _ "vram_wr bus cfg" bus cfg err a n d rest out m]
    by (simp add: served_def serve_def packet_defs data_ushort_fields)
next
  case 11
  then show ?thesis by (simp add: served_def serve_def packet_defs decode_leads [OF decode_ops(8) ppu_disable_leads])
next
  case (12 d)
  then show ?thesis by (simp add: served_def serve_def packet_defs decode_leads [OF decode_ops(9) cart_leads])
qed

end
