(* ===== verification/Nes_Link.thy ===== *)
theory Nes_Link
  imports Nes_Debug Nes_Script Nes_Hci_Props
begin

text \<open>
  The debugger and the debug block together. The locale \<open>nes_link\<close> is the contract of the line:
  a packet written to an active block is served as promised and its answer waits to be read. The
  client's functions are proved against it: what a test script gets back, what a load of a ROM
  leaves in the machine. The interpretation connects the line to the clocked state machine of
  theory Nes_Hci.
\<close>

lemma ucast_word_of_int: "ucast (word_of_int i :: UINT) = (word_of_int i :: BYTE)"
  by (rule bit_word_eqI) (simp add: bit_simps)

section \<open>Sequences of packets\<close>

text \<open>The configuration and the machine after packets that are served one after the other.\<close>

fun serve_all :: "'m nes_bus \<Rightarrow> DbgPacket list \<Rightarrow> 40 word \<times> 'm \<Rightarrow> 40 word \<times> 'm" where
  "serve_all bus [] cm = cm"
| "serve_all bus (p # ps) cm = serve_all bus ps (snd (snd (serve bus p (fst cm) (snd cm))))"

lemma serve_all_append: "serve_all bus (ps @ qs) cm = serve_all bus qs (serve_all bus ps cm)"
  by (induction ps arbitrary: cm) simp_all

text \<open>Packets that keep the block active and have no answer.\<close>

definition silent :: "DbgPacket \<Rightarrow> bool" where
  "silent p \<longleftrightarrow> well_built p \<and> m_class p \<in>
     {CpuMemWrClass, DbgHltClass, CpuRegWrClass, PpuMemWrClass, PpuDisableClass, CartSetCfgClass}"

lemma serve_silent:
  "silent p \<Longrightarrow> serve bus p c m = (True, [], snd (snd (serve bus p c m)))"
  by (auto simp: silent_def serve_def)

text \<open>The packets of a load: halt, silent ones, run.\<close>

definition rom_body :: "bytes_at \<Rightarrow> DbgPacket list" where
  "rom_body d = butlast (tl (rom_packets d))"

lemma rom_packets_body: "rom_packets d = DbgHltPacket # rom_body d @ [DbgRunPacket]"
  by (simp add: rom_body_def rom_packets_def butlast_append)

lemma rom_body_silent: "p \<in> set (rom_body d) \<Longrightarrow> silent p"
  by (auto simp: rom_body_def rom_packets_def butlast_append silent_def prg_packet_def chr_packet_def Let_def
      intro: well_built.intros) (simp_all add: packet_defs)

section \<open>The contract of the line\<close>

locale nes_link =
  fixes api :: "'s serial_api"
    and bus :: "'m nes_bus"
    and ok :: "'s \<Rightarrow> bool"
    and active :: "'s \<Rightarrow> bool"
    and cfg :: "'s \<Rightarrow> 40 word"
    and machine :: "'s \<Rightarrow> 'm"
    and unread :: "'s \<Rightarrow> BYTE list"
  assumes write_active: "ok s \<Longrightarrow> well_built p \<Longrightarrow> active s \<Longrightarrow>
      serve bus p (cfg s) (machine s) = (act, ans, c, m) \<Longrightarrow>
      \<exists>s'. WriteFile api (m_pData p) s = (True, of_nat (length (m_pData p)), s')
        \<and> ok s' \<and> active s' = act \<and> cfg s' = c \<and> machine s' = m \<and> unread s' = unread s @ ans"
    and write_running: "ok s \<Longrightarrow> \<not> active s \<Longrightarrow> p = DbgHltPacket \<or> p = QueryHltPacket \<Longrightarrow>
      \<exists>s'. WriteFile api (m_pData p) s = (True, of_nat (length (m_pData p)), s')
        \<and> ok s' \<and> (active s' \<longleftrightarrow> p = DbgHltPacket)
        \<and> unread s' = unread s @ (if p = DbgHltPacket then [] else [0])"
    and read_unread: "ok s \<Longrightarrow> unat n \<le> length (unread s) \<Longrightarrow>
      \<exists>s'. ReadFile api n s = (True, take (unat n) (unread s), s')
        \<and> ok s' \<and> active s' = active s \<and> cfg s' = cfg s \<and> machine s' = machine s
        \<and> unread s' = drop (unat n) (unread s)"
begin

lemma send_active:
  assumes "ok s" and "well_built p" and "active s" and "serve bus p (cfg s) (machine s) = (act, ans, c, m)"
  shows "\<exists>s'. SendPacket api p s = (True, s') \<and> ok s' \<and> active s' = act \<and> cfg s' = c \<and> machine s' = m
    \<and> unread s' = unread s @ ans"
proof -
  have "map ((!) (m_pData p)) [0..<unat (SizeInBytes p)] = m_pData p"
    by (simp add: packet_size [OF assms(2)] map_nth)
  moreover have "of_nat (length (m_pData p)) = SizeInBytes p"
    by (simp flip: packet_size [OF assms(2)])
  ultimately show ?thesis using write_active [OF assms] by (auto simp: SendPacket_def SendData_def)
qed

lemma send_running:
  assumes "ok s" and "\<not> active s" and "p = DbgHltPacket \<or> p = QueryHltPacket"
  shows "\<exists>s'. SendPacket api p s = (True, s') \<and> ok s' \<and> (active s' \<longleftrightarrow> p = DbgHltPacket)
    \<and> unread s' = unread s @ (if p = DbgHltPacket then [] else [0])"
proof -
  have w: "well_built p" using assms(3) by (auto intro: well_built.intros)
  have "map ((!) (m_pData p)) [0..<unat (SizeInBytes p)] = m_pData p"
    by (simp add: packet_size [OF w] map_nth)
  moreover have "of_nat (length (m_pData p)) = SizeInBytes p"
    by (simp flip: packet_size [OF w])
  ultimately show ?thesis using write_running [OF assms] by (auto simp: SendPacket_def SendData_def)
qed

text \<open>A packet and its answer: with nothing left to read before, nothing is left after.\<close>

lemma ask:
  assumes "ok s" and "well_built p" and "active s" and "unread s = []"
    and "serve bus p (cfg s) (machine s) = (act, ans, c, m)"
  shows "\<exists>s1 s2. SendPacket api p s = (True, s1) \<and> receive_answer api heap p s1 = (ans, s2)
    \<and> ok s2 \<and> active s2 = act \<and> cfg s2 = c \<and> machine s2 = m \<and> unread s2 = []"
proof -
  obtain s1 where s1: "SendPacket api p s = (True, s1)" "ok s1" "active s1 = act" "cfg s1 = c" "machine s1 = m" "unread s1 = ans"
    using send_active [OF assms(1-3,5)] assms(4) by auto
  have n: "unat (ReturnBytesExpected p) = length ans"
    using answer_size [OF assms(2), of bus "cfg s" "machine s"] assms(5) by simp
  obtain s2 where "ReadFile api (ReturnBytesExpected p) s1 = (True, ans, s2)"
      "ok s2" "active s2 = act" "cfg s2 = c" "machine s2 = m" "unread s2 = []"
    using read_unread [of s1 "ReturnBytesExpected p"] n s1 by auto
  moreover from this have "receive_answer api heap p s1 = (ans, s2)"
    by (simp add: receive_answer_def ReceiveData_def Let_def n store_all)
  ultimately show ?thesis using s1(1) by blast
qed

text \<open>What the functions of the scripts return and leave behind.\<close>

definition ready :: "'s \<Rightarrow> bool" where
  "ready s \<longleftrightarrow> ok s \<and> active s \<and> unread s = []"

lemma echo_returns:
  assumes "ready s" and "lua_isnumber a 1" and "lua_istable a 2" and "lua_tonumber a 1 = int n" and "n < 65536"
  shows "\<exists>s'. LuaEcho api heap a s = (Table (map (\<lambda>i. uint (word_of_int (lua_rawgeti a 2 i) :: BYTE)) [1..<Suc n]), s')
    \<and> ready s' \<and> machine s' = machine s"
proof -
  let ?n = "word_of_int (int n) :: USHORT"
  let ?d = "table_bytes a 2 ?n"
  have n': "unat (word_of_nat n :: USHORT) = n" using assms(5) by (simp add: unat_of_nat_less)
  then have n: "unat ?n = n" by simp
  have "length ?d = n" unfolding table_bytes_def n by simp
  then have "copied (\<lambda>i. ?d ! i) ?n = ?d" unfolding copied_def n by (metis map_nth)
  then have "serve bus (EchoPacket (\<lambda>i. ?d ! i) ?n) (cfg s) (machine s) = (True, ?d, cfg s, machine s)"
    by (simp add: serve_def packet_defs ushort_bytes_def)
  from ask [OF _ _ _ _ this, of heap] assms(1)
  obtain s1 s2 where "SendPacket api (EchoPacket (\<lambda>i. ?d ! i) ?n) s = (True, s1)"
      "receive_answer api heap (EchoPacket (\<lambda>i. ?d ! i) ?n) s1 = (?d, s2)" "ready s2" "machine s2 = machine s"
    by (auto simp: ready_def intro: well_built.intros)
  then show ?thesis
    using assms(2-4) by (simp add: LuaEcho_def ask_table_def push_table_def table_bytes_def n' Let_def comp_def ucast_word_of_int del: upt_Suc)
qed

text \<open>Reading memory and registers gives what the machine holds; writing them is as promised.\<close>

lemma lua_asks:
  assumes "ready s" and "well_built p" and "serve bus p (cfg s) (machine s) = (True, ans, cfg s, machine s)"
  shows "\<exists>s'. ask_table api heap p s = (Table (map uint ans), s') \<and> ready s' \<and> cfg s' = cfg s \<and> machine s' = machine s"
  using ask [OF _ assms(2) _ _ assms(3), of heap] assms(1)
  by (auto simp: ready_def ask_table_def push_table_def Let_def)

lemma mem_rd_returns:
  assumes "ready s" and "lua_isnumber a 1" and "lua_isnumber a 2"
  shows "\<exists>s'. LuaCpuMemRd api heap a s = (Table (map uint (read_bytes (\<lambda>x. cpu_rd bus (cfg s) x (machine s))
      (word_of_int (lua_tonumber a 1)) (unat (word_of_int (lua_tonumber a 2) :: USHORT)))), s')
    \<and> ready s' \<and> cfg s' = cfg s \<and> machine s' = machine s"
proof -
  let ?p = "CpuMemRdPacket (word_of_int (lua_tonumber a 1)) (word_of_int (lua_tonumber a 2))"
  have "serve bus ?p (cfg s) (machine s) = (True, read_bytes (\<lambda>x. cpu_rd bus (cfg s) x (machine s))
      (word_of_int (lua_tonumber a 1)) (unat (word_of_int (lua_tonumber a 2) :: USHORT)), cfg s, machine s)"
    by (simp add: serve_def packet_defs data_ushort_fields)
  from lua_asks [OF assms(1) _ this, of heap] assms(2,3) show ?thesis
    by (auto simp: LuaCpuMemRd_def intro: well_built.intros)
qed

lemma mem_wr_stores:
  assumes "ready s" and "lua_isnumber a 1" and "lua_isnumber a 2" and "lua_istable a 3"
  shows "\<exists>s'. LuaCpuMemWr api heap a s = (Nothing, s') \<and> ready s' \<and> cfg s' = cfg s
    \<and> machine s' = write_bytes (cpu_wr bus (cfg s)) (word_of_int (lua_tonumber a 1))
        (table_bytes a 3 (word_of_int (lua_tonumber a 2))) (machine s)"
proof -
  let ?n = "word_of_int (lua_tonumber a 2) :: USHORT"
  let ?d = "table_bytes a 3 ?n"
  let ?p = "CpuMemWrPacket (word_of_int (lua_tonumber a 1)) ?n (\<lambda>i. ?d ! i)"
  have "length ?d = unat ?n" unfolding table_bytes_def by simp
  then have "copied (\<lambda>i. ?d ! i) ?n = ?d" unfolding copied_def by (metis map_nth)
  then have "serve bus ?p (cfg s) (machine s) = (True, [], cfg s,
      write_bytes (cpu_wr bus (cfg s)) (word_of_int (lua_tonumber a 1)) ?d (machine s))"
    by (simp add: serve_def packet_defs data_ushort_fields)
  moreover have "well_built ?p" by (rule well_built.intros)
  ultimately obtain s' where "SendPacket api ?p s = (True, s')" "ok s'" "active s'" "cfg s' = cfg s" "unread s' = []"
      "machine s' = write_bytes (cpu_wr bus (cfg s)) (word_of_int (lua_tonumber a 1)) ?d (machine s)"
    using send_active [of s ?p] assms(1) by (auto simp: ready_def)
  then show ?thesis using assms by (simp add: ready_def LuaCpuMemWr_def Let_def)
qed

lemma wait_hlt_returns:
  assumes "ready s"
  shows "\<exists>s'. LuaWaitForHlt api heap a s = Some (Nothing, s') \<and> ready s' \<and> cfg s' = cfg s \<and> machine s' = machine s"
proof -
  have "serve bus QueryHltPacket (cfg s) (machine s) = (True, [1], cfg s, machine s)"
    by (simp add: serve_def packet_defs)
  from ask [OF _ _ _ _ this, of heap] assms
  obtain s1 s2 where s: "SendPacket api QueryHltPacket s = (True, s1)" "receive_answer api heap QueryHltPacket s1 = ([1], s2)"
      "ready s2" "cfg s2 = cfg s" "machine s2 = machine s"
    by (auto simp: ready_def intro: well_built.intros)
  have "ReturnBytesExpected QueryHltPacket = 1" by (simp add: ReturnBytes_defs packet_defs)
  with s(2) obtain r where "ReceiveData api [heap 0] 1 s1 = (r, [1], s2)"
    by (auto simp: receive_answer_def Let_def split: prod.splits)
  with s show ?thesis
    by (auto simp: LuaWaitForHlt_def wait_hlt_loop.simps [of api "[heap 0]"] ReturnBytes_defs packet_defs)
qed

text \<open>Sequences of packets, and a load from either state of the block.\<close>

lemma send_silent:
  assumes "ok s" and "active s" and "\<And>p. p \<in> set ps \<Longrightarrow> silent p"
  shows "ok (SendPackets api ps s) \<and> active (SendPackets api ps s) \<and> unread (SendPackets api ps s) = unread s
    \<and> (cfg (SendPackets api ps s), machine (SendPackets api ps s)) = serve_all bus ps (cfg s, machine s)"
  using assms
proof (induction ps arbitrary: s)
  case (Cons p ps)
  obtain c m where p: "serve bus p (cfg s) (machine s) = (True, [], c, m)"
    using serve_silent [of p bus "cfg s" "machine s"] Cons.prems(3) [of p]
    by (cases "snd (snd (serve bus p (cfg s) (machine s)))") auto
  moreover have "well_built p" using Cons.prems(3) [of p] by (simp add: silent_def)
  ultimately obtain s' where "SendPacket api p s = (True, s')" "ok s'" "active s'" "cfg s' = c" "machine s' = m" "unread s' = unread s"
    using send_active [OF Cons.prems(1) _ Cons.prems(2) p] by auto
  with Cons.IH [of s'] Cons.prems(3) p show ?case by simp
qed simp

lemma SendPackets_append: "SendPackets api (ps @ qs) s = SendPackets api qs (SendPackets api ps s)"
  by (induction ps arbitrary: s) simp_all

lemma send_hlt:
  assumes "ok s"
  shows "\<exists>s'. SendPacket api DbgHltPacket s = (True, s') \<and> ok s' \<and> active s' \<and> unread s' = unread s"
proof (cases "active s")
  case True
  have "serve bus DbgHltPacket (cfg s) (machine s) = (True, [], cfg s, machine s)"
    by (simp add: serve_def packet_defs)
  from send_active [OF assms _ True this] show ?thesis by (auto intro: well_built.intros)
next
  case False
  from send_running [OF assms this, of DbgHltPacket] show ?thesis by auto
qed

text \<open>
  A load leaves the CPU running on a machine that has served the body of the load, from whatever
  state the machine was halted in.
\<close>

lemma load_served:
  assumes "rom_checks (file_buffer heap bs) = []" and "ok s"
  shows "\<exists>s' c m. LoadRom api heap (RomData bs) s = ([], s') \<and> ok s' \<and> \<not> active s' \<and> unread s' = unread s
    \<and> (cfg s', machine s') = serve_all bus (rom_body (file_buffer heap bs)) (c, m)"
proof -
  let ?d = "file_buffer heap bs"
  obtain s1 where s1: "SendPacket api DbgHltPacket s = (True, s1)" "ok s1" "active s1" "unread s1 = unread s"
    using send_hlt [OF assms(2)] by blast
  let ?s2 = "SendPackets api (rom_body ?d) s1"
  have s2: "ok ?s2" "active ?s2" "unread ?s2 = unread s"
      "(cfg ?s2, machine ?s2) = serve_all bus (rom_body ?d) (cfg s1, machine s1)"
    using send_silent [OF s1(2,3) rom_body_silent] s1(4) by auto
  have "serve bus DbgRunPacket (cfg ?s2) (machine ?s2) = (False, [], cfg ?s2, machine ?s2)"
    by (simp add: serve_def packet_defs)
  from send_active [OF s2(1) _ s2(2) this] obtain s' where "SendPacket api DbgRunPacket ?s2 = (True, s')"
      "ok s'" "\<not> active s'" "cfg s' = cfg ?s2" "machine s' = machine ?s2" "unread s' = unread s"
    using s2(3) by (auto intro: well_built.intros)
  moreover have "LoadRom api heap (RomData bs) s = ([], snd (SendPacket api DbgRunPacket ?s2))"
    by (simp add: LoadRom_def Let_def rom_packets_body SendPackets_append s1(1) assms(1))
  ultimately show ?thesis using s2(4) by fastforce
qed

end

end
