(* ===== verification/Nes_Machine.thy ===== *)
theory Nes_Machine
  imports Nes_Hci
begin

text \<open>
  What hangs on the buses of the debug block in the FPGA (src/u8_nes/hw/src): the cartridge's
  program and picture memory (cart/cart.v), the work and the video memory (wram.v, vram.v) and the
  CPU's registers as the debug port sees them (cpu/cpu.v), wired as in nes_top.v. The registers
  of the picture unit are functions over a state of any type.
\<close>

record 'p ppu_regs =
  ri_rd :: "3 word \<Rightarrow> 'p \<Rightarrow> BYTE"
  ri_wr :: "3 word \<Rightarrow> BYTE \<Rightarrow> 'p \<Rightarrow> 'p"

record 'p nes =
  prg_bram :: "15 word \<Rightarrow> BYTE"
  chr_bram :: "13 word \<Rightarrow> BYTE"
  wram_bram :: "11 word \<Rightarrow> BYTE"
  vram_bram :: "11 word \<Rightarrow> BYTE"
  q_ac :: BYTE
  q_x :: BYTE
  q_y :: BYTE
  q_s :: BYTE
  q_pcl :: BYTE
  q_pch :: BYTE
  q_ab :: WORD
  p_flags :: BYTE
  irq_brk :: bool
  ppu :: 'p

section \<open>The cartridge and the memories\<close>

text \<open>
  With two banks of program (bit 1 of the first configuration byte) all 15 address lines are
  used, with one bank it appears twice. Bit 0 of the third byte selects the mirroring.
\<close>

definition prgrom_bram_a :: "40 word \<Rightarrow> WORD \<Rightarrow> 15 word" where
  "prgrom_bram_a cfg a = (if bit cfg 33 then ucast a else ucast (take_bit 14 a))"

definition vram_a :: "40 word \<Rightarrow> WORD \<Rightarrow> 11 word" where
  "vram_a cfg a = (let a10 = (if bit cfg 16 then bit a 10 else bit a 11) in
     push_bit 10 (of_bool a10) OR ucast (take_bit 10 a))"

definition ri_selected :: "WORD \<Rightarrow> bool" where
  "ri_selected a \<longleftrightarrow> drop_bit 13 a = 1"

definition wram_selected :: "WORD \<Rightarrow> bool" where
  "wram_selected a \<longleftrightarrow> drop_bit 13 a = 0"

definition nes_cpu_rd :: "'p ppu_regs \<Rightarrow> 40 word \<Rightarrow> WORD \<Rightarrow> 'p nes \<Rightarrow> BYTE" where
  "nes_cpu_rd pr cfg a m =
     (if bit a 15 then prg_bram m (prgrom_bram_a cfg a) else 0)
     OR (if wram_selected a then wram_bram m (ucast a) else 0)
     OR (if ri_selected a then ri_rd pr (ucast a) (ppu m) else 0)"

definition nes_cpu_wr :: "'p ppu_regs \<Rightarrow> 40 word \<Rightarrow> WORD \<Rightarrow> BYTE \<Rightarrow> 'p nes \<Rightarrow> 'p nes" where
  "nes_cpu_wr pr cfg a v m = (
     if bit a 15 then m\<lparr>prg_bram := (prg_bram m)(prgrom_bram_a cfg a := v)\<rparr>
     else if wram_selected a then m\<lparr>wram_bram := (wram_bram m)(ucast a := v)\<rparr>
     else if ri_selected a then m\<lparr>ppu := ri_wr pr (ucast a) v (ppu m)\<rparr>
     else m)"

definition nes_vram_rd :: "40 word \<Rightarrow> WORD \<Rightarrow> 'p nes \<Rightarrow> BYTE" where
  "nes_vram_rd cfg a m = (if bit a 13 then vram_bram m (vram_a cfg a) else chr_bram m (ucast a))"

definition nes_vram_wr :: "40 word \<Rightarrow> WORD \<Rightarrow> BYTE \<Rightarrow> 'p nes \<Rightarrow> 'p nes" where
  "nes_vram_wr cfg a v m = (
     if bit a 13 then m\<lparr>vram_bram := (vram_bram m)(vram_a cfg a := v)\<rparr>
     else m\<lparr>chr_bram := (chr_bram m)(ucast a := v)\<rparr>)"

section \<open>The debug port of the CPU\<close>

text \<open>A read of a number that is no register is undefined in hardware; here it gives 0.\<close>

definition nes_dbgreg_rd :: "4 word \<Rightarrow> 'p nes \<Rightarrow> BYTE" where
  "nes_dbgreg_rd sel m = (
     if sel = 2 then q_ac m else if sel = 3 then q_x m else if sel = 4 then q_y m
     else if sel = 5 then (p_flags m AND 0xCF) OR 0x20 OR (if irq_brk m then 0x10 else 0)
     else if sel = 1 then q_pch m else if sel = 0 then q_pcl m
     else if sel = 6 then q_s m else 0)"

text \<open>A write of the stack pointer changes nothing: cpu.v has no line for it.\<close>

definition nes_dbgreg_wr :: "4 word \<Rightarrow> BYTE \<Rightarrow> 'p nes \<Rightarrow> 'p nes" where
  "nes_dbgreg_wr sel v m = (
     if sel = 2 then m\<lparr>q_ac := v\<rparr> else if sel = 3 then m\<lparr>q_x := v\<rparr> else if sel = 4 then m\<lparr>q_y := v\<rparr>
     else if sel = 5 then m\<lparr>p_flags := v AND 0xCF\<rparr>
     else if sel = 1 then m\<lparr>q_pch := v, q_ab := push_bit 8 (ucast v) OR (q_ab m AND 0xFF)\<rparr>
     else if sel = 0 then m\<lparr>q_pcl := v, q_ab := (q_ab m AND 0xFF00) OR ucast v\<rparr>
     else m)"

definition nes_machine :: "'p ppu_regs \<Rightarrow> 'p nes nes_bus" where
  "nes_machine pr = \<lparr>cpu_rd = nes_cpu_rd pr, cpu_wr = nes_cpu_wr pr, dbgreg_rd = nes_dbgreg_rd,
     dbgreg_wr = nes_dbgreg_wr, vram_rd = nes_vram_rd, vram_wr = nes_vram_wr\<rparr>"

end
