(* ===== verification/Nes_Rom.thy ===== *)
theory Nes_Rom
  imports Nes_Link Nes_Machine
begin

text \<open>
  What a load of a ROM leaves in the machine: the memories behind the buses as regions of cells
  (locale \<open>ram_region\<close>, interpreted on the program memory, the picture memory and the work RAM),
  the blocks of a load as one write, and the state of the machine after the body of a load.
\<close>

section \<open>Regions of memory\<close>

locale ram_region =
  fixes rd :: "WORD \<Rightarrow> 'm \<Rightarrow> BYTE"
    and wr :: "WORD \<Rightarrow> BYTE \<Rightarrow> 'm \<Rightarrow> 'm"
    and cell :: "WORD \<Rightarrow> 'c"
    and inside :: "WORD \<Rightarrow> bool"
  assumes rd_wr: "inside a \<Longrightarrow> inside b \<Longrightarrow> rd b (wr a v m) = (if cell b = cell a then v else rd b m)"
begin

lemma rd_untouched:
  assumes "inside b" and "\<And>i. i < length bs \<Longrightarrow> inside (a + of_nat i) \<and> cell (a + of_nat i) \<noteq> cell b"
  shows "rd b (write_bytes wr a bs m) = rd b m"
  using assms(2)
proof (induction bs arbitrary: a m)
  case (Cons v bs)
  have "inside (a + 1 + of_nat i) \<and> cell (a + 1 + of_nat i) \<noteq> cell b" if "i < length bs" for i
    using Cons.prems [of "Suc i"] that by (simp add: add.assoc)
  with Cons.IH [of "a + 1" "wr a v m"] Cons.prems [of 0] rd_wr [of a b v m] assms(1)
  show ?case by auto
qed simp

lemma rd_written:
  assumes "inside b" and "\<And>i. i < length bs \<Longrightarrow> inside (a + of_nat i)"
    and "j < length bs" and "cell (a + of_nat j) = cell b"
    and "\<And>i. i < length bs \<Longrightarrow> i \<noteq> j \<Longrightarrow> cell (a + of_nat i) \<noteq> cell b"
  shows "rd b (write_bytes wr a bs m) = bs ! j"
  using assms(2-)
proof (induction bs arbitrary: a m j)
  case (Cons v bs)
  have i: "inside (a + 1 + of_nat i)" if "i < length bs" for i
    using Cons.prems(1) [of "Suc i"] that by (simp add: add.assoc)
  show ?case
  proof (cases j)
    case 0
    have "cell (a + 1 + of_nat i) \<noteq> cell b" if "i < length bs" for i
      using Cons.prems(4) [of "Suc i"] that 0 by (simp add: add.assoc)
    with i have "rd b (write_bytes wr (a + 1) bs (wr a v m)) = rd b (wr a v m)"
      using assms(1) by (intro rd_untouched) auto
    with 0 Cons.prems(1) [of 0] Cons.prems(3) rd_wr [of a b v m] assms(1) show ?thesis by simp
  next
    case (Suc k)
    have "cell (a + 1 + of_nat i) \<noteq> cell b" if "i < length bs" "i \<noteq> k" for i
      using Cons.prems(4) [of "Suc i"] that Suc by (simp add: add.assoc)
    with Cons.IH [of "a + 1" k "wr a v m"] i Cons.prems(2,3) Suc show ?thesis by (simp add: add.assoc)
  qed
qed simp

text \<open>Bytes written to different cells are read back.\<close>

lemma read_write:
  assumes "\<And>i. i < length bs \<Longrightarrow> inside (a + of_nat i)"
    and "inj_on (\<lambda>i. cell (a + of_nat i)) {..<length bs}"
  shows "read_bytes (\<lambda>x. rd x (write_bytes wr a bs m)) a (length bs) = bs"
proof (rule nth_equalityI)
  fix j
  assume "j < length (read_bytes (\<lambda>x. rd x (write_bytes wr a bs m)) a (length bs))"
  then have j: "j < length bs" by simp
  have "rd (a + of_nat j) (write_bytes wr a bs m) = bs ! j"
    using assms j by (intro rd_written) (auto simp: inj_on_def)
  with j show "read_bytes (\<lambda>x. rd x (write_bytes wr a bs m)) a (length bs) ! j = bs ! j"
    by (simp add: read_bytes_def)
qed simp

end

text \<open>The program memory, the picture memory and the work RAM.\<close>

lemma drop_bit_13_15: "bit (a :: WORD) 15 \<Longrightarrow> drop_bit 13 a \<noteq> 0 \<and> drop_bit 13 a \<noteq> 1"
proof -
  assume "bit a 15"
  then have "bit (drop_bit 13 a) 2" by (simp add: bit_simps)
  moreover have "\<not> bit (0 :: WORD) 2" "\<not> bit (1 :: WORD) 2" by (simp_all add: bit_1_iff)
  ultimately show ?thesis by metis
qed

interpretation prg: ram_region "nes_cpu_rd pr cfg" "nes_cpu_wr pr cfg"
    "prgrom_bram_a cfg" "\<lambda>a. bit a 15" for pr cfg
  by unfold_locales
    (auto simp: nes_cpu_rd_def nes_cpu_wr_def wram_selected_def ri_selected_def drop_bit_13_15)

interpretation chr: ram_region "nes_vram_rd cfg" "nes_vram_wr cfg"
    "\<lambda>a. ucast a :: 13 word" "\<lambda>a. \<not> bit a 13" for cfg
  by unfold_locales (auto simp: nes_vram_rd_def nes_vram_wr_def)

interpretation ram: ram_region "nes_cpu_rd pr cfg" "nes_cpu_wr pr cfg"
    "\<lambda>a. ucast a :: 11 word" wram_selected for pr cfg
proof unfold_locales
  fix a b v and m :: "'a nes"
  assume "wram_selected a" "wram_selected b"
  then have "\<not> bit a 15" "\<not> bit b 15" "\<not> ri_selected b"
    using drop_bit_13_15 [of a] drop_bit_13_15 [of b] by (auto simp: wram_selected_def ri_selected_def)
  with \<open>wram_selected a\<close> \<open>wram_selected b\<close>
  show "nes_cpu_rd pr cfg b (nes_cpu_wr pr cfg a v m)
      = (if (ucast b :: 11 word) = ucast a then v else nes_cpu_rd pr cfg b m)"
    by (simp add: nes_cpu_rd_def nes_cpu_wr_def)
qed

section \<open>A load as one write\<close>

definition prg_data :: "bytes_at \<Rightarrow> BYTE list" where
  "prg_data d = map (\<lambda>k. d (16 + k)) [0..<prgRomDataSize d]"

definition chr_data :: "bytes_at \<Rightarrow> BYTE list" where
  "chr_data d = map (\<lambda>k. d (16 + prgRomDataSize d + k)) [0..<chrRomDataSize d]"

lemma serve_mem_wr:
  "serve bus (CpuMemWrPacket a n d) c m = (True, [], c, write_bytes (cpu_wr bus c) a (copied d n) m)"
  "serve bus (PpuMemWrPacket a n d) c m = (True, [], c, write_bytes (vram_wr bus c) a (copied d n) m)"
  by (simp_all add: serve_def packet_defs data_ushort_fields)

lemma upt_block: "[0..<n + k] = [0..<n] @ map (\<lambda>i. n + i) [0..<k]"
  by (rule nth_equalityI) (auto simp: nth_append)

text \<open>Blocks of 1024 bytes written one after the other are one write.\<close>

lemma write_blocks_at:
  "serve_all bus (map (prg_packet d) [0..<n]) (c, m)
     = (c, write_bytes (cpu_wr bus c) 0x8000 (map (\<lambda>k. d (16 + k)) [0..<0x400 * n]) m)"
  "serve_all bus (map (chr_packet d) [0..<n]) (c, m)
     = (c, write_bytes (vram_wr bus c) 0 (map (\<lambda>k. d (16 + prgRomDataSize d + k)) [0..<0x400 * n]) m)"
proof (induction n)
  case (Suc n)
  have e: "0x400 * Suc n = 0x400 * n + 0x400" by simp
  have c: "copied f 0x400 = map f [0..<0x400]" for f
    by (simp add: copied_def)
  have u: "[0..<Suc n] = [0..<n] @ [n]" by simp
  { case 1
    show ?case unfolding e upt_block u
      using Suc.IH(1) by (simp add: serve_all_append prg_packet_def transferBlockSize_def Let_def serve_mem_wr
          write_bytes_append c comp_def ac_simps del: upt_Suc)
  next
    case 2
    show ?case unfolding e upt_block u
      using Suc.IH(2) by (simp add: serve_all_append chr_packet_def transferBlockSize_def Let_def serve_mem_wr
          write_bytes_append c comp_def ac_simps del: upt_Suc) }
qed simp_all

section \<open>The machine after the body of a load\<close>

definition pc_of :: "'p nes \<Rightarrow> WORD" where
  "pc_of m = push_bit 8 (ucast (q_pch m)) OR ucast (q_pcl m)"

text \<open>The reset vector in the data of the file.\<close>

definition reset_vector :: "bytes_at \<Rightarrow> WORD" where
  "reset_vector d = push_bit 8 (ucast (d (16 + prgRomDataSize d - 3))) OR ucast (d (16 + prgRomDataSize d - 4))"

definition rom_cfg :: "bytes_at \<Rightarrow> 40 word" where
  "rom_cfg d = cart_cfg_of [d 4, d 5, d 6, d 7, d 8]"

lemma serve_rom_body:
  "serve_all bus (rom_body d) (c, m) = (rom_cfg d,
     dbgreg_wr bus 1 (d (16 + prgRomDataSize d - 3)) (dbgreg_wr bus 0 (d (16 + prgRomDataSize d - 4))
       (write_bytes (vram_wr bus (rom_cfg d)) 0 (chr_data d)
         (write_bytes (cpu_wr bus (rom_cfg d)) 0x8000 (prg_data d)
           (cpu_wr bus c 0x2001 0 (cpu_wr bus c 0x2000 0 m))))))"
proof -
  have p: "0x400 * (prgRomDataSize d div 0x400) = prgRomDataSize d" by (simp add: prgRomDataSize_def)
  have q: "0x400 * (chrRomDataSize d div 0x400) = chrRomDataSize d" by (simp add: chrRomDataSize_def)
  have body: "rom_body d = [PpuDisablePacket, CartSetCfgPacket d]
      @ map (prg_packet d) [0..<prgRomDataSize d div 0x400] @ map (chr_packet d) [0..<chrRomDataSize d div 0x400]
      @ [CpuRegWrPacket 0 (d (16 + prgRomDataSize d - 4)), CpuRegWrPacket 1 (d (16 + prgRomDataSize d - 3))]"
    by (simp add: rom_body_def rom_packets_def butlast_append transferBlockSize_def)
  have first: "serve_all bus [PpuDisablePacket, CartSetCfgPacket d] (c, m)
      = (rom_cfg d, cpu_wr bus c 0x2001 0 (cpu_wr bus c 0x2000 0 m))"
    by (simp add: serve_def packet_defs rom_cfg_def)
  have last: "serve_all bus [CpuRegWrPacket 0 v, CpuRegWrPacket 1 w] (c', m') = (c', dbgreg_wr bus 1 w (dbgreg_wr bus 0 v m'))" for v w c' m'
    by (simp add: serve_def packet_defs)
  show ?thesis
    by (simp only: body serve_all_append first write_blocks_at p q last prg_data_def chr_data_def)
qed

text \<open>What later writes leave alone.\<close>

lemma write_bytes_frame:
  assumes "\<And>a v m. f (wr a v m) = f m"
  shows "f (write_bytes wr a bs m) = f m"
  using assms by (induction bs arbitrary: a m) simp_all

lemma prg_bram_vram: "prg_bram (nes_vram_wr c a v m) = prg_bram m"
  by (simp add: nes_vram_wr_def)

lemma prg_bram_reg: "prg_bram (nes_dbgreg_wr r v m) = prg_bram m"
  by (simp add: nes_dbgreg_wr_def)

lemma chr_bram_cpu: "chr_bram (nes_cpu_wr pr c a v m) = chr_bram m"
  by (simp add: nes_cpu_wr_def)

lemma chr_bram_reg: "chr_bram (nes_dbgreg_wr r v m) = chr_bram m"
  by (simp add: nes_dbgreg_wr_def)

text \<open>The configuration has the number of program banks: bit 33 says that there are two.\<close>

lemma rom_cfg_33: "bit (rom_cfg d) 33 = bit (d 4) 1"
  by (auto simp: rom_cfg_def cart_cfg_of_def bit_simps dest: bit_imp_le_length)

text \<open>Program addresses as offsets, and their cells.\<close>

lemma odd_less_2: "(n :: nat) < 2 \<Longrightarrow> odd n \<longleftrightarrow> 0 < n"
  by (auto simp: less_2_cases_iff)

lemma bit_15: "bit (a :: WORD) 15 \<longleftrightarrow> 0x8000 \<le> unat a"
proof -
  have "bit a 15 \<longleftrightarrow> odd (unat a div 0x8000)"
    using bit_unsigned_iff [where 'a = nat, of a 15] by (simp add: bit_iff_odd [of "unat a"])
  also have "\<dots> \<longleftrightarrow> 0 < unat a div 0x8000"
    by (rule odd_less_2) (use WORD_less [of a] in \<open>simp add: less_mult_imp_div_less\<close>)
  also have "\<dots> \<longleftrightarrow> 0x8000 \<le> unat a" by (simp only: div_greater_zero_iff) simp
  finally show ?thesis .
qed

lemma prg_address:
  assumes "bit (a :: WORD) 15"
  shows "a = 0x8000 + of_nat (unat a - 0x8000)" and "unat a - 0x8000 < 0x8000"
proof -
  have le: "0x8000 \<le> unat a" using assms by (simp add: bit_15)
  then show "unat a - 0x8000 < 0x8000" using WORD_less [of a] by linarith
  have "a = of_nat (0x8000 + (unat a - 0x8000))" using le by simp
  then show "a = 0x8000 + of_nat (unat a - 0x8000)" by (simp only: of_nat_add of_nat_numeral)
qed

lemma unat_prg:
  assumes "i < 0x8000"
  shows "unat (0x8000 + of_nat i :: WORD) = 0x8000 + i"
proof -
  have "(0x8000 + of_nat i :: WORD) = of_nat (0x8000 + i)" by simp
  then show ?thesis using assms by (simp only: unat_of_nat) simp
qed

lemma prg_inside: "i < 0x8000 \<Longrightarrow> bit (0x8000 + of_nat i :: WORD) 15"
  by (simp add: bit_15 unat_prg)

lemma prg_cell:
  assumes "i < 0x8000"
  shows "unat (prgrom_bram_a c (0x8000 + of_nat i)) = (if bit c 33 then i else i mod 0x4000)"
proof -
  have "unat (ucast (0x8000 + of_nat i :: WORD) :: 15 word) = i"
    using assms unat_prg [OF assms] by (simp add: unsigned_ucast_eq take_bit_nat_def)
  moreover have "unat (ucast (take_bit 14 (0x8000 + of_nat i :: WORD)) :: 15 word) = i mod 0x4000"
  proof -
    have "unat (take_bit 14 (0x8000 + of_nat i :: WORD)) = (0x8000 + i) mod 0x4000"
      using unat_prg [OF assms] by (simp add: unsigned_take_bit_eq take_bit_nat_def)
    also have "\<dots> = i mod 0x4000" using mod_mult_self2 [of i "0x4000" 2] by (simp add: add.commute)
    finally show ?thesis by (simp add: unsigned_ucast_eq take_bit_nat_def)
  qed
  ultimately show ?thesis by (simp add: prgrom_bram_a_def)
qed

section \<open>A loaded ROM\<close>

text \<open>
  The machine runs the program of the file: the CPU reads the program at 0x8000 to 0xFFFF (one
  bank twice), the picture unit the pictures at 0 to 0x1FFF, and the program counter is the reset
  vector, as the CPU would fetch it.
\<close>

definition rom_in :: "'p ppu_regs \<Rightarrow> bytes_at \<Rightarrow> 40 word \<Rightarrow> 'p nes \<Rightarrow> bool" where
  "rom_in pr d c m \<longleftrightarrow>
     (\<forall>a. bit a 15 \<longrightarrow> nes_cpu_rd pr c a m = d (16 + (unat a - 0x8000) mod prgRomDataSize d))
   \<and> (\<forall>a. unat a < chrRomDataSize d \<longrightarrow> nes_vram_rd c a m = d (16 + prgRomDataSize d + unat a))
   \<and> pc_of m = push_bit 8 (ucast (nes_cpu_rd pr c 0xFFFD m)) OR ucast (nes_cpu_rd pr c 0xFFFC m)"

lemma length_prg_data [simp]: "length (prg_data d) = prgRomDataSize d"
  by (simp add: prg_data_def)

lemma length_chr_data [simp]: "length (chr_data d) = chrRomDataSize d"
  by (simp add: chr_data_def)

lemma prg_read:
  assumes "bit a 15" and "bit c 33 \<longleftrightarrow> n = 0x8000" and "n = 0x4000 \<or> n = 0x8000" and "length bs = n"
  shows "nes_cpu_rd pr c a (write_bytes (nes_cpu_wr pr c) 0x8000 bs m) = bs ! ((unat a - 0x8000) mod n)"
proof (rule prg.rd_written)
  let ?k = "unat a - 0x8000"
  have k: "?k < 0x8000" "a = 0x8000 + of_nat ?k" using prg_address [OF assms(1)] by auto
  have n: "n \<le> 0x8000" "0 < n" using assms(3) by auto
  show "bit a 15" by (rule assms(1))
  show "bit (0x8000 + of_nat i :: WORD) 15" if "i < length bs" for i
    using that n assms(4) by (intro prg_inside) simp
  show j: "?k mod n < length bs" using n assms(4) by simp
  have ca: "unat (prgrom_bram_a c a) = ?k mod n"
    using prg_cell [OF k(1), of c] k assms(2,3) by (subst k(2)) auto
  have ci: "unat (prgrom_bram_a c (0x8000 + of_nat i)) = i" if "i < n" for i
    using prg_cell [of i c] that n assms(2,3) by auto
  show "prgrom_bram_a c (0x8000 + of_nat (?k mod n)) = prgrom_bram_a c a"
    using ci [of "?k mod n"] n ca by (simp add: word_unat_eq_iff)
  show "prgrom_bram_a c (0x8000 + of_nat i) \<noteq> prgrom_bram_a c a" if "i < length bs" "i \<noteq> ?k mod n" for i
    using ci [of i] that ca assms(4) by (auto simp: word_unat_eq_iff)
qed

lemma unat_13: "unat (a :: WORD) < 0x2000 \<Longrightarrow> \<not> bit a 13 \<and> unat (ucast a :: 13 word) = unat a"
proof
  assume a: "unat a < 0x2000"
  then have "\<not> bit (unat a) 13" by (simp add: bit_iff_odd)
  then show "\<not> bit a 13" by (simp add: bit_unsigned_iff)
  show "unat (ucast a :: 13 word) = unat a" using a by (simp add: unsigned_ucast_eq take_bit_nat_def)
qed

lemma chr_read:
  assumes "unat a < length bs" and "length bs \<le> 0x2000"
  shows "nes_vram_rd c a (write_bytes (nes_vram_wr c) 0 bs m) = bs ! unat a"
proof (rule chr.rd_written)
  have i: "unat (of_nat i :: WORD) = i" if "i < length bs" for i
    using that assms(2) by (intro unat_of_nat_less) simp
  show "\<not> bit a 13" using unat_13 [of a] assms by simp
  show "\<not> bit (0 + of_nat i :: WORD) 13" if "i < length bs" for i
    using unat_13 [of "of_nat i"] i [OF that] that assms(2) by simp
  show "unat a < length bs" by (rule assms(1))
  show "(ucast (0 + of_nat (unat a) :: WORD) :: 13 word) = ucast a" by simp
  show "(ucast (0 + of_nat i :: WORD) :: 13 word) \<noteq> ucast a" if "i < length bs" "i \<noteq> unat a" for i
    using unat_13 [of a] unat_13 [of "of_nat i"] i [OF that(1)] that assms by (auto simp: word_unat_eq_iff)
qed

text \<open>The header the checks accept, with at least one program bank.\<close>

lemma rom_checks_banks:
  assumes "rom_checks d = []"
  shows "unat (d 4) \<le> 2" and "unat (d 5) \<le> 1"
proof -
  have "d 4 \<le> 2" "d 5 \<le> 1" using assms by (auto simp: rom_checks_def not_less split: if_splits)
  then show "unat (d 4) \<le> 2" "unat (d 5) \<le> 1" by (simp_all add: word_le_nat_alt)
qed

lemma prg_banks:
  assumes "unat (d 4) \<le> 2" and "d 4 \<noteq> 0"
  shows "(bit (d 4) 1 \<longleftrightarrow> prgRomDataSize d = 0x8000) \<and> (prgRomDataSize d = 0x4000 \<or> prgRomDataSize d = 0x8000)"
proof -
  have "d 4 = 1 \<or> d 4 = 2"
    using assms by (cases "unat (d 4)"; cases "unat (d 4) - 1") (auto simp: word_unat_eq_iff)
  then show ?thesis by (auto simp: prgRomDataSize_def bit_simps)
qed

lemma pc_after:
  "q_pcl (nes_dbgreg_wr 1 h (nes_dbgreg_wr 0 l m)) = l" "q_pch (nes_dbgreg_wr 1 h (nes_dbgreg_wr 0 l m)) = h"
  by (simp_all add: nes_dbgreg_wr_def)

lemma nes_cpu_rd_prg: "bit a 15 \<Longrightarrow> nes_cpu_rd pr c a m = prg_bram m (prgrom_bram_a c a)"
  by (simp add: nes_cpu_rd_def wram_selected_def ri_selected_def drop_bit_13_15)

lemma nes_vram_rd_chr: "\<not> bit a 13 \<Longrightarrow> nes_vram_rd c a m = chr_bram m (ucast a)"
  by (simp add: nes_vram_rd_def)

theorem rom_body_in:
  assumes "rom_checks d = []" and "d 4 \<noteq> 0"
    and "serve_all (nes_machine pr) (rom_body d) (c0, m0) = (c, m)"
  shows "rom_in pr d c m"
proof -
  let ?m0 = "nes_cpu_wr pr c0 0x2001 0 (nes_cpu_wr pr c0 0x2000 0 m0)"
  let ?m1 = "write_bytes (nes_cpu_wr pr c) 0x8000 (prg_data d) ?m0"
  let ?m2 = "write_bytes (nes_vram_wr c) 0 (chr_data d) ?m1"
  note banks = rom_checks_banks [OF assms(1)]
  note prgs = prg_banks [of d, OF banks(1) assms(2)]
  have c: "c = rom_cfg d" and m: "m = nes_dbgreg_wr 1 (d (16 + prgRomDataSize d - 3))
      (nes_dbgreg_wr 0 (d (16 + prgRomDataSize d - 4)) ?m2)"
    using assms(3) by (auto simp: serve_rom_body nes_machine_def)
  have prg: "nes_cpu_rd pr c a m = d (16 + (unat a - 0x8000) mod prgRomDataSize d)" if "bit a 15" for a
  proof -
    have "prg_bram m = prg_bram ?m1"
      by (simp add: m prg_bram_reg write_bytes_frame [of prg_bram, OF prg_bram_vram])
    then have "nes_cpu_rd pr c a m = nes_cpu_rd pr c a ?m1" by (simp add: nes_cpu_rd_prg that)
    also have "\<dots> = prg_data d ! ((unat a - 0x8000) mod prgRomDataSize d)"
      using prgs by (intro prg_read that) (auto simp: c rom_cfg_33)
    finally show ?thesis using prgs by (auto simp: prg_data_def)
  qed
  have chr: "nes_vram_rd c a m = d (16 + prgRomDataSize d + unat a)" if "unat a < chrRomDataSize d" for a
  proof -
    have l: "chrRomDataSize d \<le> 0x2000" using banks(2) by (simp add: chrRomDataSize_def)
    then have a: "\<not> bit a 13" using unat_13 [of a] that by simp
    have "chr_bram m = chr_bram ?m2" by (simp add: m chr_bram_reg)
    then have "nes_vram_rd c a m = nes_vram_rd c a ?m2" by (simp add: nes_vram_rd_chr a)
    also have "\<dots> = chr_data d ! unat a" using l that by (intro chr_read) auto
    finally show ?thesis using that by (simp add: chr_data_def)
  qed
  have "bit (0xFFFC :: WORD) 15" "bit (0xFFFD :: WORD) 15" by (simp_all add: bit_15)
  then have "nes_cpu_rd pr c 0xFFFC m = d (16 + 0x7FFC mod prgRomDataSize d)"
      "nes_cpu_rd pr c 0xFFFD m = d (16 + 0x7FFD mod prgRomDataSize d)"
    by (simp_all add: prg)
  moreover have "q_pcl m = d (16 + prgRomDataSize d - 4)" "q_pch m = d (16 + prgRomDataSize d - 3)"
    by (simp_all only: m pc_after)
  ultimately have "nes_cpu_rd pr c 0xFFFC m = q_pcl m" "nes_cpu_rd pr c 0xFFFD m = q_pch m"
    using prgs by auto
  with prg chr show ?thesis by (simp add: rom_in_def pc_of_def)
qed

section \<open>The work RAM\<close>

lemma wram_address:
  assumes "x < 0x2000"
  shows "wram_selected (of_nat x)" and "unat (ucast (of_nat x :: WORD) :: 11 word) = x mod 0x800"
proof -
  have u: "unat (of_nat x :: WORD) = x" using assms by (intro unat_of_nat_less) simp
  then show "unat (ucast (of_nat x :: WORD) :: 11 word) = x mod 0x800"
    by (simp add: unsigned_ucast_eq take_bit_nat_def)
  have "unat (drop_bit 13 (of_nat x :: WORD)) = 0"
    unfolding drop_bit_eq_div unat_div u using assms by simp
  then show "wram_selected (of_nat x)" by (simp add: wram_selected_def unat_eq_zero)
qed

lemma mod_apart:
  assumes "(a + i) mod k = (a + j) mod k" and "i < k" and "j < k"
  shows "i = (j :: nat)"
proof -
  have "i mod k = j mod k" using assms(1) by (simp add: mod_add_cong mod_eq_iff_dvd_symdiff_nat mod_add_left_eq)
  then show ?thesis using assms(2,3) by simp
qed

lemma wram_read_write:
  assumes "ad + length bs \<le> 0x2000" and "length bs \<le> 0x800"
  shows "read_bytes (\<lambda>x. nes_cpu_rd pr c x (write_bytes (nes_cpu_wr pr c) (of_nat ad) bs m)) (of_nat ad) (length bs) = bs"
proof (rule ram.read_write)
  have e: "of_nat ad + of_nat i = (of_nat (ad + i) :: WORD)" for i by simp
  show "wram_selected (of_nat ad + of_nat i)" if "i < length bs" for i
    unfolding e using that assms(1) by (intro wram_address) simp
  show "inj_on (\<lambda>i. ucast (of_nat ad + of_nat i :: WORD) :: 11 word) {..<length bs}"
    unfolding e
  proof (rule inj_onI)
    fix i j
    assume ij: "i \<in> {..<length bs}" "j \<in> {..<length bs}"
      and "ucast (of_nat (ad + i) :: WORD) = (ucast (of_nat (ad + j) :: WORD) :: 11 word)"
    then have "unat (ucast (of_nat (ad + i) :: WORD) :: 11 word) = unat (ucast (of_nat (ad + j) :: WORD) :: 11 word)"
      by simp
    then have "(ad + i) mod 0x800 = (ad + j) mod 0x800"
      using ij assms(1) by (subst (asm) (1 2) wram_address(2)) simp_all
    then show "i = j" by (rule mod_apart) (use ij assms(2) in simp_all)
  qed
qed

end
