(* ===== verification/Nes_Wire.thy ===== *)
theory Nes_Wire
  imports Nes_Rom "HOL-Library.While_Combinator"
begin

text \<open>
  The line of the debugger with the clocked block of hci.v at its other end: a write puts its
  bytes into the receive queue and lets the clock run until the block waits for more, a read takes
  bytes from the transmit queue. This is the model on which the contract of theory Nes_Link is
  interpreted, for any machine behind the buses.
\<close>

section \<open>Running until the block waits\<close>

definition waiting :: "'m hci \<Rightarrow> bool" where
  "waiting h \<longleftrightarrow> rx_fifo h = [] \<and> \<not> q_wr_en h \<and> q_state h \<notin> own_states"

definition settle :: "'m nes_bus \<Rightarrow> 'm hci \<Rightarrow> 'm hci option" where
  "settle bus h = while_option (\<lambda>h. \<not> waiting h) (hci_clk bus quiet_in) h"

definition wire_write :: "'m nes_bus \<Rightarrow> BYTE list \<Rightarrow> 'm hci \<Rightarrow> bool \<times> DWORD \<times> 'm hci" where
  "wire_write bus bs h = (case settle bus (h\<lparr>rx_fifo := rx_fifo h @ bs\<rparr>) of
     Some h' \<Rightarrow> (True, of_nat (length bs), h')
   | None \<Rightarrow> (False, 0, h))"

definition wire_read :: "UINT \<Rightarrow> 'm hci \<Rightarrow> bool \<times> BYTE list \<times> 'm hci" where
  "wire_read n h = (True, take (unat n) (tx_fifo h), h\<lparr>tx_fifo := drop (unat n) (tx_fifo h)\<rparr>)"

definition wire_api :: "'m nes_bus \<Rightarrow> 'm hci serial_api" where
  "wire_api bus = \<lparr>CreateFile = (\<lambda>h. (True, h)), GetCommState = (\<lambda>h. (True, h)),
     SetCommState = (\<lambda>h. (True, h)), SetCommTimeouts = (\<lambda>h. (True, h)),
     WriteFile = wire_write bus, ReadFile = wire_read\<rparr>"

text \<open>A waiting block stays as it is.\<close>

lemma waiting_clk: "waiting h \<Longrightarrow> hci_clk bus quiet_in h = h\<lparr>q_tx_data := 0\<rparr>"
  by (cases "q_state h") (auto simp: waiting_def hci_clk_def tick_defaults_def quiet_in_def own_states_def Let_def)

lemma waiting_stays:
  assumes "waiting h"
  shows "\<exists>v. (hci_clk bus quiet_in ^^ n) h = h\<lparr>q_tx_data := v\<rparr>"
proof (induction n)
  case 0
  have "(hci_clk bus quiet_in ^^ 0) h = h\<lparr>q_tx_data := q_tx_data h\<rparr>" by simp
  then show ?case by blast
next
  case (Suc n)
  then obtain v where "(hci_clk bus quiet_in ^^ n) h = h\<lparr>q_tx_data := v\<rparr>" by blast
  moreover have "waiting (h\<lparr>q_tx_data := v\<rparr>)" using assms by (simp add: waiting_def)
  ultimately show ?case using waiting_clk [of "h\<lparr>q_tx_data := v\<rparr>" bus] by auto
qed

lemma idle_waiting:
  assumes "idle st err cfg [] out m h" and "st \<notin> own_states"
  shows "\<exists>h'. hci_clk bus quiet_in h = h' \<and> waiting h' \<and> idle st err cfg [] out m h'"
  using assms
  by (cases st) (auto simp: idle_def waiting_def hci_clk_def tick_defaults_def quiet_in_def own_states_def sent_def Let_def
      split: if_splits)

text \<open>A run that leads to an idle block with an empty queue settles there.\<close>

lemma settle_leads:
  assumes "leads bus P (idle st err cfg [] out m)" and "P h" and "st \<notin> own_states"
  shows "\<exists>h'. settle bus h = Some h' \<and> waiting h' \<and> idle st err cfg [] out m h'"
proof -
  let ?c = "hci_clk bus quiet_in"
  obtain n where n: "idle st err cfg [] out m ((?c ^^ n) h)" using assms(1,2) by (auto simp: leads_def)
  then have w: "waiting ((?c ^^ Suc n) h)" "idle st err cfg [] out m ((?c ^^ Suc n) h)"
    using idle_waiting [OF n assms(3), of bus] by auto
  define k where "k = (LEAST k. waiting ((?c ^^ k) h))"
  have k: "waiting ((?c ^^ k) h)" unfolding k_def by (rule LeastI) (rule w(1))
  have "k \<le> Suc n" unfolding k_def by (rule Least_le) (rule w(1))
  then have "(?c ^^ Suc n) h = (?c ^^ (Suc n - k)) ((?c ^^ k) h)"
    by (metis funpow_add o_apply le_add_diff_inverse2)
  with waiting_stays [OF k, where bus = bus and n = "Suc n - k"] w(2) have "idle st err cfg [] out m ((?c ^^ k) h)"
    using k by (auto simp: idle_def sent_def waiting_def)
  moreover have "settle bus h = Some ((?c ^^ k) h)"
    using k by (auto simp: settle_def while_option_def k_def)
  ultimately show ?thesis using k by blast
qed

section \<open>The contract holds\<close>

definition wire_ok :: "'m hci \<Rightarrow> bool" where
  "wire_ok h \<longleftrightarrow> waiting h \<and> (q_state h = S_DECODE \<or> q_state h = S_DISABLED)"

definition wire_active :: "'m hci \<Rightarrow> bool" where
  "wire_active h \<longleftrightarrow> q_state h = S_DECODE"

text \<open>A block that is not active ignores everything but a halt and the query.\<close>

lemma disabled_leads:
  assumes "p = DbgHltPacket \<or> p = QueryHltPacket"
  shows "leads bus (idle S_DISABLED err cfg (m_pData p @ rest) out m)
    (idle (if p = DbgHltPacket then S_DECODE else S_DISABLED) err cfg rest (out @ (if p = DbgHltPacket then [] else [0])) m)"
  using assms
proof
  assume p: "p = DbgHltPacket"
  show ?thesis unfolding p
    by (intro leads_idle) (simp add: packet_defs,
      intro leads_byte, auto simp: step_simps idle_def OP_DBG_BRK_def Let_def)
next
  assume p: "p = QueryHltPacket"
  show ?thesis unfolding p
    by (intro leads_idle) (simp add: packet_defs,
      intro leads_byte, auto simp: step_simps idle_def OP_DBG_BRK_def OP_QUERY_DBG_BRK_def Let_def)
qed

lemma wire_ok_idle:
  assumes "wire_ok h"
  shows "idle (q_state h) (q_err_code h) (q_cart_cfg h) bs (tx_fifo h) (mach h) (h\<lparr>rx_fifo := rx_fifo h @ bs\<rparr>)"
  using assms by (simp add: wire_ok_def waiting_def idle_def sent_def)

lemma wire_settled:
  assumes "waiting h" and "idle st err cfg [] out m h" and "st = S_DECODE \<or> st = S_DISABLED"
  shows "wire_ok h \<and> q_state h = st \<and> q_cart_cfg h = cfg \<and> mach h = m \<and> tx_fifo h = out"
  using assms by (auto simp: wire_ok_def idle_def sent_def waiting_def)

lemma wire_write_leads:
  assumes "wire_ok h" and "st = S_DECODE \<or> st = S_DISABLED"
    and "leads bus (idle (q_state h) (q_err_code h) (q_cart_cfg h) bs (tx_fifo h) (mach h)) (idle st err cfg [] out m)"
  shows "\<exists>h'. wire_write bus bs h = (True, of_nat (length bs), h') \<and> wire_ok h' \<and> q_state h' = st
    \<and> q_cart_cfg h' = cfg \<and> mach h' = m \<and> tx_fifo h' = out"
proof -
  have "st \<notin> own_states" using assms(2) by (auto simp: own_states_def)
  from settle_leads [OF assms(3) wire_ok_idle [OF assms(1)] this]
  obtain h' where "settle bus (h\<lparr>rx_fifo := rx_fifo h @ bs\<rparr>) = Some h'" and h: "waiting h'" "idle st err cfg [] out m h'" by blast
  with wire_settled [OF h assms(2)] show ?thesis by (simp add: wire_write_def)
qed

interpretation wire: nes_link "wire_api bus" bus wire_ok wire_active q_cart_cfg mach tx_fifo for bus :: "'m nes_bus"
proof unfold_locales
  fix s :: "'m hci" and p act ans c m
  assume s: "wire_ok s" "wire_active s" and p: "well_built p" "serve bus p (q_cart_cfg s) (mach s) = (act, ans, c, m)"
  have "leads bus (idle (q_state s) (q_err_code s) (q_cart_cfg s) (m_pData p) (tx_fifo s) (mach s))
      (idle (if act then S_DECODE else S_DISABLED) (q_err_code s) c [] (tx_fifo s @ ans) m)"
    using packet_served [OF p(1), of bus "q_err_code s" "q_cart_cfg s" "[]" "tx_fifo s" "mach s"] s(2) p(2)
    by (simp add: served_def wire_active_def)
  from wire_write_leads [OF s(1) _ this]
  show "\<exists>s'. WriteFile (wire_api bus) (m_pData p) s = (True, of_nat (length (m_pData p)), s')
      \<and> wire_ok s' \<and> wire_active s' = act \<and> q_cart_cfg s' = c \<and> mach s' = m \<and> tx_fifo s' = tx_fifo s @ ans"
    by (fastforce simp: wire_api_def wire_active_def split: if_splits)
next
  fix s :: "'m hci" and p
  assume s: "wire_ok s" "\<not> wire_active s" and p: "p = DbgHltPacket \<or> p = QueryHltPacket"
  then have "q_state s = S_DISABLED" by (auto simp: wire_ok_def wire_active_def)
  with disabled_leads [OF p, of bus "q_err_code s" "q_cart_cfg s" "[]" "tx_fifo s" "mach s"]
  have "leads bus (idle (q_state s) (q_err_code s) (q_cart_cfg s) (m_pData p) (tx_fifo s) (mach s))
      (idle (if p = DbgHltPacket then S_DECODE else S_DISABLED) (q_err_code s) (q_cart_cfg s) []
        (tx_fifo s @ (if p = DbgHltPacket then [] else [0])) (mach s))"
    by simp
  from wire_write_leads [OF s(1) _ this]
  show "\<exists>s'. WriteFile (wire_api bus) (m_pData p) s = (True, of_nat (length (m_pData p)), s')
      \<and> wire_ok s' \<and> (wire_active s' \<longleftrightarrow> p = DbgHltPacket) \<and> tx_fifo s' = tx_fifo s @ (if p = DbgHltPacket then [] else [0])"
    by (fastforce simp: wire_api_def wire_active_def split: if_splits)
qed (auto simp: wire_api_def wire_read_def wire_ok_def waiting_def wire_active_def)

end
