(* ===== verification/Nes_Packet_Props.thy ===== *)
theory Nes_Packet_Props
  imports Nes_Debug Nes_Hci_Props
begin

text \<open>
  The factory of packets from text: what the raw debug dialog prints it also reads, which texts
  it accepts, how far it writes into its array, and how far it reads behind it.
\<close>

section \<open>Digits\<close>

lemma hex_digits: "list_all (\<lambda>k. hex_nibble (hex_digit (of_nat k)) = Some (Some (of_nat k))) [0..<16]"
  by code_simp

lemma hex_nibble_digit:
  assumes "unat n < 16"
  shows "hex_nibble (hex_digit n) = Some (Some n)"
  using hex_digits assms by (auto simp: list_all_iff dest: bspec [of _ _ "unat n"])

lemma high_nibble: "unat (drop_bit 4 b :: BYTE) < 16"
  using BYTE_less [of b] by (simp add: drop_bit_eq_div unat_div less_mult_imp_div_less)

lemma low_nibble: "unat (b AND 0xF :: BYTE) < 16"
proof -
  have "b AND 0xF \<le> 0xF" by (rule word_and_le1)
  then show ?thesis by (simp add: word_le_nat_alt)
qed

lemma nibbles_join: "push_bit 4 (drop_bit 4 b) OR (b AND 0xF) = (b :: BYTE)"
proof -
  have "(0xF :: BYTE) = mask 4" by (simp add: mask_eq_exp_minus_1)
  then have "b AND 0xF = take_bit 4 b" by (simp add: take_bit_eq_mask)
  then show ?thesis by (simp only:) (rule bit_word_eqI, auto simp: bit_simps)
qed

lemma hex_nibble_space: "hex_nibble 0x20 = Some None"
  by (simp add: hex_nibble_def)

section \<open>What the dialog prints is read back\<close>

text \<open>Memory with the bytes \<open>bs\<close> from offset \<open>k\<close> on.\<close>

definition overlay :: "nat \<Rightarrow> BYTE list \<Rightarrow> bytes_at \<Rightarrow> bytes_at" where
  "overlay k bs raw = (\<lambda>i. if k \<le> i \<and> i < k + length bs then bs ! (i - k) else raw i)"

lemma overlay_Cons: "overlay (Suc k) bs (raw(k := b)) = overlay k (b # bs) raw"
  by (auto simp: overlay_def fun_eq_iff nth_Cons' Suc_diff_Suc)

lemma convert_hex_text:
  "convert (hex_text bs) (2 * k) raw = (True, 2 * (k + length bs), overlay k bs raw)"
proof (induction bs arbitrary: k raw)
  case Nil
  then show ?case by (auto simp: hex_text_def overlay_def fun_eq_iff)
next
  case (Cons b bs)
  have "(raw(k := push_bit 4 (drop_bit 4 b)))(k := push_bit 4 (drop_bit 4 b) OR (b AND 0xF)) = raw(k := b)"
    by (simp add: nibbles_join)
  then have "convert (hex_text (b # bs)) (2 * k) raw = convert (hex_text bs) (2 * Suc k) (raw(k := b))"
    by (simp add: hex_text_def hex_nibble_digit high_nibble low_nibble hex_nibble_space nibbles_join)
  then show ?case using Cons.IH [of "Suc k" "raw(k := b)"] by (simp add: overlay_Cons del: fun_upd_apply)
qed

lemma overlay_nth: "i < length bs \<Longrightarrow> overlay 0 bs raw i = bs ! i"
  by (simp add: overlay_def)

lemma copied_cong: "(\<And>i. i < unat n \<Longrightarrow> d i = d' i) \<Longrightarrow> copied d n = copied d' n"
  by (simp add: copied_def)

lemma ushort_at_overlay:
  "i + 1 < length bs \<Longrightarrow> ushort_at (overlay 0 bs raw) i = ushort_at (\<lambda>k. bs ! k) i"
  by (simp add: ushort_at_def overlay_nth)

text \<open>The factory on text printed from a sequence of bytes.\<close>

lemma create_hex_text:
  "CreateObjFromString heap (hex_text bs) = (let raw = overlay 0 bs heap in
     if raw 0 = 0 then Some (EchoPacket (\<lambda>i. raw (3 + i)) (ushort_at raw 1))
     else if raw 0 = 1 then Some (CpuMemRdPacket (ushort_at raw 1) (ushort_at raw 3))
     else if raw 0 = 2 then Some (CpuMemWrPacket (ushort_at raw 1) (ushort_at raw 3) (\<lambda>i. raw (5 + i)))
     else None)"
  using convert_hex_text [of bs 0 heap] by (simp add: CreateObjFromString_def Let_def)

lemma echo_parsed: "CreateObjFromString heap (hex_text (m_pData (EchoPacket d n))) = Some (EchoPacket d n)"
proof -
  let ?bs = "m_pData (EchoPacket d n)"
  have bs: "?bs = 0 # ushort_bytes n @ copied d n" by (simp add: EchoPacket_def packet_def)
  have "ushort_at (overlay 0 ?bs heap) 1 = n"
    by (subst ushort_at_overlay) (simp_all add: bs ushort_at_bytes ushort_bytes_def)
  moreover have "copied (\<lambda>i. overlay 0 ?bs heap (3 + i)) n = copied d n"
    by (rule copied_cong) (simp add: overlay_nth bs nth_append ushort_bytes_def copied_def)
  moreover have "overlay 0 ?bs heap 0 = 0" by (simp add: overlay_nth bs)
  ultimately show ?thesis by (simp add: create_hex_text Let_def) (simp add: EchoPacket_def)
qed

lemma mem_rd_parsed: "CreateObjFromString heap (hex_text (m_pData (CpuMemRdPacket a n))) = Some (CpuMemRdPacket a n)"
proof -
  let ?bs = "m_pData (CpuMemRdPacket a n)"
  have bs: "?bs = 1 # ushort_bytes a @ ushort_bytes n" by (simp add: CpuMemRdPacket_def packet_def)
  have "ushort_at (overlay 0 ?bs heap) 1 = a" "ushort_at (overlay 0 ?bs heap) 3 = n"
    by (subst ushort_at_overlay; simp add: bs ushort_at_bytes ushort_bytes_def numeral_3_eq_3)+
  moreover have "overlay 0 ?bs heap 0 = 1" by (simp add: overlay_nth bs)
  ultimately show ?thesis by (simp add: create_hex_text Let_def)
qed

lemma mem_wr_parsed: "CreateObjFromString heap (hex_text (m_pData (CpuMemWrPacket a n d))) = Some (CpuMemWrPacket a n d)"
proof -
  let ?bs = "m_pData (CpuMemWrPacket a n d)"
  have bs: "?bs = 2 # ushort_bytes a @ ushort_bytes n @ copied d n" by (simp add: CpuMemWrPacket_def packet_def)
  have "ushort_at (overlay 0 ?bs heap) 1 = a" "ushort_at (overlay 0 ?bs heap) 3 = n"
    by (subst ushort_at_overlay; simp add: bs ushort_at_bytes ushort_bytes_def numeral_3_eq_3)+
  moreover have "copied (\<lambda>i. overlay 0 ?bs heap (5 + i)) n = copied d n"
    by (rule copied_cong) (simp add: overlay_nth bs nth_append ushort_bytes_def copied_def)
  moreover have "overlay 0 ?bs heap 0 = 2" by (simp add: overlay_nth bs)
  ultimately show ?thesis by (simp add: create_hex_text Let_def) (simp add: CpuMemWrPacket_def)
qed

section \<open>What the factory accepts\<close>

text \<open>The digits of a text, and whether it has nothing but digits and spaces.\<close>

definition digit :: "TCHAR \<Rightarrow> bool" where
  "digit c \<longleftrightarrow> (\<exists>n. hex_nibble c = Some (Some n))"

definition digits :: "TCHAR list \<Rightarrow> nat" where
  "digits s = length (filter digit s)"

lemma digits_simps [simp]:
  "digits [] = 0"
  "digits (c # s) = (if digit c then Suc (digits s) else digits s)"
  by (simp_all add: digits_def)

lemma convert_result:
  assumes "convert s k raw = (ok, n, raw')"
  shows "ok \<longleftrightarrow> (\<forall>c\<in>set s. hex_nibble c \<noteq> None)" and "ok \<Longrightarrow> n = k + digits s"
    and "n \<le> k + digits s"
  using assms
  by (induction s k raw rule: convert.induct) (auto simp: digit_def split: option.splits)

lemma create_accepts:
  assumes "CreateObjFromString heap s = Some p"
  shows "(\<forall>c\<in>set s. hex_nibble c \<noteq> None) \<and> even (digits s) \<and> well_built p
    \<and> m_class p \<in> {EchoClass, CpuMemRdClass, CpuMemWrClass}"
proof -
  obtain ok n raw where c: "convert s 0 heap = (ok, n, raw)" by (cases "convert s 0 heap") auto
  from assms have "ok" "even n"
    by (auto simp: CreateObjFromString_def c Let_def split: if_splits)
  with convert_result [OF c] have "\<forall>c\<in>set s. hex_nibble c \<noteq> None" "even (digits s)" by auto
  moreover have "well_built p \<and> m_class p \<in> {EchoClass, CpuMemRdClass, CpuMemWrClass}"
    using assms by (auto simp: CreateObjFromString_def c Let_def split: if_splits
        intro: well_built.intros) (auto simp: packet_defs)
  ultimately show ?thesis by blast
qed

section \<open>Bounds of the array\<close>

text \<open>The loop writes no further than the digits it has seen.\<close>

lemma convert_writes:
  assumes "convert s k raw = (ok, n, raw')" and "k + digits s \<le> 2 * i"
  shows "raw' i = raw i"
  using assms
proof (induction s k raw rule: convert.induct)
  case (2 c cs k raw)
  show ?case
  proof (cases "hex_nibble c")
    case None
    with 2 show ?thesis by simp
  next
    case (Some o')
    then show ?thesis
    proof (cases o')
      case None
      with Some 2 show ?thesis by (simp add: digit_def)
    next
      case (Some v)
      with \<open>hex_nibble c = Some o'\<close> 2(3,4) have d: "k + 1 + digits cs \<le> 2 * i" by (simp add: digit_def)
      then have "k div 2 \<noteq> i" by linarith
      moreover have "convert cs (k + 1) (raw(k div 2 := if odd k then raw (k div 2) OR v else push_bit 4 v)) = (ok, n, raw')"
        using 2(3) \<open>hex_nibble c = Some o'\<close> Some by simp
      ultimately show ?thesis using 2(2) [OF \<open>hex_nibble c = Some o'\<close> Some _ d] by (simp del: fun_upd_apply) simp
    qed
  qed
qed simp

lemma digits_length: "digits s \<le> length s"
  by (simp add: digits_def)

lemma digits_all: "digits s = length s \<Longrightarrow> list_all digit s"
proof (induction s)
  case (Cons c s)
  then show ?case using digits_length [of s] by (cases "digit c") simp_all
qed simp

text \<open>A text of digits only, of odd length, writes one byte behind the array of half its length.\<close>

lemma convert_snoc:
  assumes "convert s k raw = (True, n, raw')"
  shows "convert (s @ [c]) k raw = convert [c] n raw'"
  using assms by (induction s k raw rule: convert.induct) (auto split: option.splits)

lemma convert_overrun:
  assumes "odd (length s)" and "digits s = length s"
  shows "\<exists>v raw'. convert s 0 heap = (True, length s, raw') \<and> raw' (length s div 2) = push_bit 4 v"
proof -
  obtain t c where s: "s = t @ [c]" using assms(1) by (cases s rule: rev_cases) auto
  then have d: "list_all digit t" "digit c" using digits_all [OF assms(2)] by simp_all
  then have "digits t = length t" by (induction t) simp_all
  obtain ok n raw where t: "convert t 0 heap = (ok, n, raw)" by (cases "convert t 0 heap") auto
  have "ok" using convert_result(1) [OF t] d(1) by (auto simp: list_all_iff digit_def)
  with convert_result(2) [OF t] t \<open>digits t = length t\<close> have "convert t 0 heap = (True, length t, raw)" by simp
  from convert_snoc [OF this] d(2) assms(1) show ?thesis by (auto simp: s digit_def)
qed

end
