(* ===== verification/Nes_Claims.thy ===== *)
theory Nes_Claims
  imports Nes_Wire Nes_Packet_Props
begin

text \<open>
  The properties of the NES debugger and of its line to the FPGA, with a small machine on which
  the witnesses apply them: a picture unit without registers, empty memories, a block that waits
  in its decode stage.
\<close>

section \<open>A machine\<close>

definition ex_ppu :: "unit ppu_regs" where
  "ex_ppu = \<lparr>ri_rd = (\<lambda>_ _. 0), ri_wr = (\<lambda>_ _ p. p)\<rparr>"

definition ex_nes :: "unit nes" where
  "ex_nes = \<lparr>prg_bram = (\<lambda>_. 0), chr_bram = (\<lambda>_. 0), wram_bram = (\<lambda>_. 0), vram_bram = (\<lambda>_. 0),
     q_ac = 0, q_x = 0, q_y = 0, q_s = 0xFF, q_pcl = 0, q_pch = 0x80, q_ab = 0x8000, p_flags = 0,
     irq_brk = False, ppu = ()\<rparr>"

definition ex_hci :: "unit nes hci" where
  "ex_hci = \<lparr>q_state = S_DECODE, q_decode_cnt = 0, q_execute_cnt = 0, q_addr = 0, q_err_code = 0,
     q_cart_cfg = 0, q_tx_data = 0, q_wr_en = False, rx_fifo = [], tx_fifo = [], mach = ex_nes\<rparr>"

lemma ex_hci_ok: "wire_ok ex_hci" "wire_active ex_hci" "tx_fifo ex_hci = []"
  by (simp_all add: ex_hci_def wire_ok_def wire_active_def waiting_def own_states_def)

lemma ex_hci_ready: "wire.ready ex_hci"
  by (simp add: wire.ready_def ex_hci_ok)





section \<open>The line and the debug block\<close>



text \<open>
  packet sizes. For every packet the debugger can build, SizeInBytes is the length of its
  data, and ReturnBytesExpected is the length of the answer the debug block sends, so that
  SendData writes the whole packet and ReceiveData waits for exactly what comes.
\<close>

lemma packet_sizes:
  assumes "well_built p"
  shows "unat (SizeInBytes p) = length (m_pData p)
    \<and> unat (ReturnBytesExpected p) = length (fst (snd (serve bus p cfg m)))"
  using packet_size [OF assms] answer_size [OF assms] by simp

lemma packet_sizes_witness:
  "unat (SizeInBytes (EchoPacket (\<lambda>i. of_nat i) 4)) = 7
   \<and> unat (ReturnBytesExpected (EchoPacket (\<lambda>i. of_nat i) 4)) = 4"
proof -
  have "well_built (EchoPacket (\<lambda>i. of_nat i) 4)" by (rule well_built.intros)
  from packet_sizes [OF this, of "nes_machine ex_ppu" 0 ex_nes] show ?thesis
    by (simp add: serve_def EchoPacket_def packet_def)
qed



section \<open>Test scripts\<close>

text \<open>The arguments of the script functions on the witness: numbers and one table.\<close>

definition ex_args :: "int \<Rightarrow> int \<Rightarrow> lua_args" where
  "ex_args x y = \<lparr>lua_isnumber = (\<lambda>i. True), lua_istable = (\<lambda>i. i = 3), lua_isstring = (\<lambda>i. False),
     lua_tonumber = (\<lambda>i. if i = 1 then x else y), lua_rawgeti = (\<lambda>_ i. int i * 100),
     lua_tostring = (\<lambda>_. [])\<rparr>"




text \<open>
  Waiting for a halt ends. When the block is active, so that the CPU is halted, the loop of
  WaitForHlt returns after one query, and the line is ready.
\<close>

lemma wait_for_halt_returns:
  assumes "wire.ready h"
  shows "\<exists>h'. LuaWaitForHlt (wire_api bus) heap a h = Some (Nothing, h') \<and> wire.ready h'"
  using wire.wait_hlt_returns [OF assms, of bus heap a] by blast

lemma wait_for_halt_returns_witness:
  "\<exists>h'. LuaWaitForHlt (wire_api (nes_machine ex_ppu)) (\<lambda>_. 0) (ex_args 0 0) ex_hci = Some (Nothing, h')"
  using wait_for_halt_returns [OF ex_hci_ready, of "nes_machine ex_ppu" "\<lambda>_. 0" "ex_args 0 0"] by blast

text \<open>
  reading register X of a running CPU halts it. The debug block of a running CPU looks at
  every byte it receives and takes the second byte of the packet CpuRegRd for X, which is 3, for
  the opcode of a halt: the CPU stops, and no answer is sent, though the debugger waits for one.
\<close>

lemma reg_read_halts_running_cpu:
  "leads bus (idle S_DISABLED err cfg (m_pData (CpuRegRdPacket (cpureg_code CpuRegX)) @ rest) out m)
     (idle S_DECODE err cfg rest out m) \<and> ReturnBytesExpected (CpuRegRdPacket (cpureg_code CpuRegX)) = 1"
proof
  have "leads bus (idle S_DISABLED err cfg (5 # 3 # rest) out m) (idle S_DISABLED err cfg (3 # rest) out m)"
    by (intro leads_idle leads_byte) (simp_all add: step_simps idle_def OP_DBG_BRK_def OP_QUERY_DBG_BRK_def Let_def)
  also have "leads bus (idle S_DISABLED err cfg (3 # rest) out m) (idle S_DECODE err cfg rest out m)"
    by (intro leads_idle leads_byte) (simp_all add: step_simps idle_def OP_DBG_BRK_def Let_def)
  finally show "leads bus (idle S_DISABLED err cfg (m_pData (CpuRegRdPacket (cpureg_code CpuRegX)) @ rest) out m)
      (idle S_DECODE err cfg rest out m)"
    by (simp add: CpuRegRdPacket_def packet_def)
qed (simp add: ReturnBytes_defs CpuRegRdPacket_def packet_def)

text \<open>
  The tally of a run of scripts. After any list of results every script is counted once:
  the three counters have grown together by the number of scripts, the first by those that
  passed and the second by those that failed.
\<close>

lemma tally_counts:
  assumes "tally rs (p, f, e) = (p', f', e')"
  shows "p' = p + of_nat (count_list rs (script_code SCRIPT_RESULT_PASS))
    \<and> f' = f + of_nat (count_list rs (script_code SCRIPT_RESULT_FAIL))
    \<and> p' + f' + e' = p + f + e + of_nat (length rs)"
  using assms
proof (induction rs arbitrary: p f e)
  case (Cons r rs)
  then show ?case by (auto dest!: Cons.IH simp: ac_simps split: if_splits)
qed simp

lemma tally_counts_witness:
  "tally [0, 1, 2, 0, 7] (0, 0, 0) = (2, 1, 2) \<and> (2 :: UINT) = 0 + of_nat (count_list [0, 1, 2, 0, 7 :: UINT] 0)"
proof -
  have t: "tally [0, 1, 2, 0, 7] (0, 0, 0) = (2, 1, 2)" by simp
  from tally_counts [OF t] t show ?thesis by simp
qed

section \<open>Packets from text\<close>

text \<open>
  Packets round-trip through text. The text the raw debug dialog prints for the bytes of an
  echo, memory read or memory write packet, typed into the dialog, is parsed back to the same
  packet, whatever the heap held in the array of the parser.
\<close>

lemma packet_text_round_trip:
  assumes "p = EchoPacket d n \<or> p = CpuMemRdPacket a n \<or> p = CpuMemWrPacket a n d"
  shows "CreateObjFromString heap (hex_text (m_pData p)) = Some p"
  using assms echo_parsed mem_rd_parsed mem_wr_parsed by auto

lemma packet_text_example:
  "CreateObjFromString (\<lambda>_. 0xCC) (map (\<lambda>c. of_nat (of_char c)) ''01 00 80 FF 00 '') = Some (CpuMemRdPacket 0x8000 255)"
proof -
  have "hex_text (m_pData (CpuMemRdPacket 0x8000 255)) = map (\<lambda>c. of_nat (of_char c)) ''01 00 80 FF 00 ''"
    by code_simp
  with packet_text_round_trip [of "CpuMemRdPacket 0x8000 255" "\<lambda>_. 0" 255 "0x8000" "\<lambda>_. 0xCC"] show ?thesis by simp
qed

text \<open>
  what the factory accepts. When it makes a packet, the text has nothing but hexadecimal
  digits and spaces, an even number of digits, and the packet is one of the three classes it
  knows, as their constructors build them.
\<close>

lemma factory_accepts:
  assumes "CreateObjFromString heap s = Some p"
  shows "(\<forall>c\<in>set s. hex_nibble c \<noteq> None) \<and> even (digits s) \<and> well_built p
    \<and> m_class p \<in> {EchoClass, CpuMemRdClass, CpuMemWrClass}"
  using assms by (rule create_accepts)

lemma factory_accepts_witness:
  "\<exists>p. CreateObjFromString (\<lambda>_. 0) (hex_text [1, 0, 0x80, 4, 0]) = Some p \<and> well_built p"
proof -
  have "CreateObjFromString (\<lambda>_. 0) (hex_text [1, 0, 0x80, 4, 0])
      = Some (CpuMemRdPacket (ushort_at (overlay 0 [1, 0, 0x80, 4, 0] (\<lambda>_. 0)) 1)
          (ushort_at (overlay 0 [1, 0, 0x80, 4, 0] (\<lambda>_. 0)) 3))"
    by (simp add: create_hex_text Let_def overlay_def)
  from factory_accepts [OF this] this show ?thesis by blast
qed

text \<open>
  bounds of the parser's array. The array has half as many bytes as the text has characters.
  A text with an even number of digits, or with a character that is no digit, writes only inside
  it; a text of digits only and of odd length writes one byte behind it before it is rejected.
\<close>

lemma parser_array_bounds:
  "(convert s 0 heap = (ok, n, raw) \<and> digits s \<le> 2 * (length s div 2) \<and> length s div 2 \<le> i \<longrightarrow> raw i = heap i)
   \<and> (odd (length s) \<and> digits s = length s \<longrightarrow>
       (\<exists>v raw'. convert s 0 heap = (True, length s, raw') \<and> raw' (length s div 2) = push_bit 4 v)
       \<and> CreateObjFromString heap s = None)"
proof (intro conjI impI; (elim conjE)?)
  assume "convert s 0 heap = (ok, n, raw)" "digits s \<le> 2 * (length s div 2)" "length s div 2 \<le> i"
  then show "raw i = heap i" by (intro convert_writes [of s 0]) auto
next
  assume o: "odd (length s)" "digits s = length s"
  then show "\<exists>v raw'. convert s 0 heap = (True, length s, raw') \<and> raw' (length s div 2) = push_bit 4 v"
    by (rule convert_overrun)
  then show "CreateObjFromString heap s = None"
    using o(1) by (auto simp: CreateObjFromString_def)
qed

lemma parser_array_bounds_witness:
  "\<exists>v raw'. convert [0x35, 0x41, 0x37] 0 (\<lambda>_. 0) = (True, 3, raw') \<and> raw' 1 = push_bit 4 v"
proof -
  have "digits [0x35, 0x41, 0x37] = length [0x35, 0x41, 0x37 :: TCHAR]"
    by (simp add: digit_def hex_nibble_def)
  with parser_array_bounds [of "[0x35, 0x41, 0x37]" "\<lambda>_. 0"] show ?thesis by (auto simp: numeral_3_eq_3)
qed

text \<open>
  the parser reads behind its array. For a text that stops after the count of an echo
  packet, the factory makes a packet of the claimed size whose data are the bytes of the heap
  behind the text's own, and the dialog sends them.
\<close>

lemma factory_reads_heap:
  "CreateObjFromString heap (hex_text (0 # ushort_bytes n)) = Some (EchoPacket (\<lambda>i. heap (3 + i)) n)"
proof -
  let ?bs = "0 # ushort_bytes n"
  have "ushort_at (overlay 0 ?bs heap) 1 = n"
    by (subst ushort_at_overlay) (simp_all add: ushort_at_bytes ushort_bytes_def)
  moreover have "overlay 0 ?bs heap (3 + i) = heap (3 + i)" for i by (simp add: overlay_def)
  moreover have "overlay 0 ?bs heap 0 = 0" by (simp add: overlay_def)
  ultimately show ?thesis by (simp add: create_hex_text Let_def)
qed

end
