(* ===== verification/Lib_Ctype.thy ===== *)
theory Lib_Ctype
  imports Prelude
begin

text \<open>
  Character classification in the cc65 library: the table __ctype of libsrc/vector/ctype.s with the
  masks of ctype.inc, and the functions isspace, isdigit, isxdigit and tolower, which take an int
  and leave what is outside 0 to 255 (EOF) without any class.
\<close>

type_synonym cint = "16 word"

section \<open>The table\<close>

definition CT_LOWER :: BYTE where "CT_LOWER = 0x01"

definition CT_UPPER :: BYTE where "CT_UPPER = 0x02"

definition CT_DIGIT :: BYTE where "CT_DIGIT = 0x04"

definition CT_XDIGIT :: BYTE where "CT_XDIGIT = 0x08"

definition CT_CTRL :: BYTE where "CT_CTRL = 0x10"

definition CT_SPACE :: BYTE where "CT_SPACE = 0x20"

definition CT_OTHER_WS :: BYTE where "CT_OTHER_WS = 0x40"

definition CT_SPACE_TAB :: BYTE where "CT_SPACE_TAB = 0x80"

definition ctype_table :: "BYTE list" where
  "ctype_table = replicate 9 CT_CTRL @ [CT_CTRL OR CT_OTHER_WS OR CT_SPACE_TAB]
     @ replicate 4 (CT_CTRL OR CT_OTHER_WS) @ replicate 18 CT_CTRL @ [CT_SPACE OR CT_SPACE_TAB]
     @ replicate 15 0 @ replicate 10 (CT_DIGIT OR CT_XDIGIT) @ replicate 7 0
     @ replicate 6 (CT_UPPER OR CT_XDIGIT) @ replicate 20 CT_UPPER @ replicate 6 0
     @ replicate 6 (CT_LOWER OR CT_XDIGIT) @ replicate 20 CT_LOWER @ replicate 4 0 @ [CT_OTHER_WS]
     @ replicate 128 0"

definition ctype :: "BYTE \<Rightarrow> BYTE" where
  "ctype c = ctype_table ! unat c"

section \<open>The functions\<close>

text \<open>The two bytes of an int, in the registers X and A.\<close>

definition hi :: "cint \<Rightarrow> BYTE" where
  "hi c = ucast (drop_bit 8 c)"

definition lo :: "cint \<Rightarrow> BYTE" where
  "lo c = ucast c"

definition isspace :: "cint \<Rightarrow> bool" where
  "isspace c \<longleftrightarrow> hi c = 0 \<and> ctype (lo c) AND (CT_SPACE OR CT_OTHER_WS) \<noteq> 0"

definition isdigit :: "cint \<Rightarrow> bool" where
  "isdigit c \<longleftrightarrow> hi c = 0 \<and> ctype (lo c) AND CT_DIGIT \<noteq> 0"

definition isxdigit :: "cint \<Rightarrow> bool" where
  "isxdigit c \<longleftrightarrow> hi c = 0 \<and> ctype (lo c) AND CT_XDIGIT \<noteq> 0"

definition tolower :: "cint \<Rightarrow> cint" where
  "tolower c = (if hi c \<noteq> 0 then c
     else if ctype (lo c) AND CT_UPPER \<noteq> 0 then ucast (lo c + 0x20) else c)"

section \<open>The classes\<close>

lemma hi_ucast [simp]: "hi (ucast (c :: BYTE)) = 0"
  by (rule bit_word_eqI) (auto simp: hi_def bit_simps dest: bit_imp_le_length)

lemma lo_ucast [simp]: "lo (ucast (c :: BYTE)) = c"
  by (rule bit_word_eqI) (simp add: lo_def bit_simps)

lemma nth_run: "(replicate n x @ ys) ! k = (if k < n then x else ys ! (k - n))"
  by (simp add: nth_append)

lemma nth_run1: "([x] @ ys) ! k = (if k < 1 then x else ys ! (k - 1))"
  by (simp add: nth_append)

lemma ctype_table_nth:
  "k < 256 \<Longrightarrow> ctype_table ! k = (
     if k < 9 then CT_CTRL else if k < 10 then CT_CTRL OR CT_OTHER_WS OR CT_SPACE_TAB
     else if k < 14 then CT_CTRL OR CT_OTHER_WS else if k < 32 then CT_CTRL
     else if k < 33 then CT_SPACE OR CT_SPACE_TAB else if k < 48 then 0
     else if k < 58 then CT_DIGIT OR CT_XDIGIT else if k < 65 then 0
     else if k < 71 then CT_UPPER OR CT_XDIGIT else if k < 91 then CT_UPPER else if k < 97 then 0
     else if k < 103 then CT_LOWER OR CT_XDIGIT else if k < 123 then CT_LOWER else if k < 127 then 0
     else if k < 128 then CT_OTHER_WS else 0)"
  by (simp only: ctype_table_def nth_run nth_run1 nth_replicate diff_diff_left)
    (simp add: less_diff_conv2 cong: if_cong)

definition white :: "BYTE \<Rightarrow> bool" where
  "white c \<longleftrightarrow> c = 0x20 \<or> 9 \<le> c \<and> c \<le> 13 \<or> c = 0x7F"

definition digit_char :: "BYTE \<Rightarrow> bool" where
  "digit_char c \<longleftrightarrow> 0x30 \<le> c \<and> c \<le> 0x39"

definition hex_char :: "BYTE \<Rightarrow> bool" where
  "hex_char c \<longleftrightarrow> digit_char c \<or> 0x41 \<le> c \<and> c \<le> 0x46 \<or> 0x61 \<le> c \<and> c \<le> 0x66"

lemmas ctype_masks = CT_SPACE_def CT_OTHER_WS_def CT_CTRL_def CT_SPACE_TAB_def CT_LOWER_def CT_UPPER_def
  CT_DIGIT_def CT_XDIGIT_def

lemma ctype_unat: "ctype c = ctype_table ! k" if "k = unat c"
  using that by (simp add: ctype_def)

lemma if_class:
  "(if p then a else b :: BYTE) AND m = (if p then a AND m else b AND m)"
  "((if p then a else b :: BYTE) \<noteq> 0) = (p \<and> a \<noteq> 0 \<or> \<not> p \<and> b \<noteq> 0)"
  by simp_all

lemma isspace_nth: "k < 256 \<Longrightarrow> ctype_table ! k AND (CT_SPACE OR CT_OTHER_WS) \<noteq> 0 \<longleftrightarrow> k = 32 \<or> 9 \<le> k \<and> k \<le> 13 \<or> k = 127"
  by (simp only: ctype_table_nth ctype_masks if_class) (simp, linarith)

lemma isdigit_nth: "k < 256 \<Longrightarrow> ctype_table ! k AND CT_DIGIT \<noteq> 0 \<longleftrightarrow> 48 \<le> k \<and> k \<le> 57"
  by (simp only: ctype_table_nth ctype_masks if_class) (simp, linarith)

lemma isxdigit_nth: "k < 256 \<Longrightarrow> ctype_table ! k AND CT_XDIGIT \<noteq> 0 \<longleftrightarrow>
    48 \<le> k \<and> k \<le> 57 \<or> 65 \<le> k \<and> k \<le> 70 \<or> 97 \<le> k \<and> k \<le> 102"
  by (simp only: ctype_table_nth ctype_masks if_class) (simp, linarith)

lemma isupper_nth: "k < 256 \<Longrightarrow> ctype_table ! k AND CT_UPPER \<noteq> 0 \<longleftrightarrow> 65 \<le> k \<and> k \<le> 90"
  by (simp only: ctype_table_nth ctype_masks if_class) (simp, linarith)

lemma isspace_ucast [simp]: "isspace (ucast (c :: BYTE)) = white c"
  using isspace_nth [OF BYTE_less [of c]]
  by (auto simp: isspace_def ctype_def white_def word_le_nat_alt word_unat_eq_iff)

lemma isdigit_ucast [simp]: "isdigit (ucast (c :: BYTE)) = digit_char c"
  using isdigit_nth [OF BYTE_less [of c]] by (simp add: isdigit_def ctype_def digit_char_def word_le_nat_alt)

lemma isxdigit_ucast [simp]: "isxdigit (ucast (c :: BYTE)) = hex_char c"
  using isxdigit_nth [OF BYTE_less [of c]] by (auto simp: isxdigit_def ctype_def hex_char_def digit_char_def word_le_nat_alt)

lemma tolower_ucast:
  "tolower (ucast (c :: BYTE)) = (if 0x41 \<le> c \<and> c \<le> 0x5A then ucast (c + 0x20) else ucast c)"
  using isupper_nth [OF BYTE_less [of c]] by (simp add: tolower_def ctype_def word_le_nat_alt)

section \<open>errno.h\<close>

definition EINVAL :: cint where "EINVAL = 7"

definition ENOSYS :: cint where "ENOSYS = 13"

end
