(* ===== verification/Lib_Time.thy ===== *)
theory Lib_Time
  imports Lib_Ctype "HOL-Library.Signed_Division"
begin

text \<open>
  Time in the cc65 library the firmware is built with: mktime.c, localtime.c, gmtime.c and
  timezone.c. An int has 16 bits and is compared and divided with its sign; time_t has 32 bits.
  A table read outside its bounds gives what the linker put there, which is the parameter \<open>beyond\<close>.
\<close>

section \<open>Data (time.h, mktime.c, timezone.c)\<close>

record tm =
  tm_sec :: cint
  tm_min :: cint
  tm_hour :: cint
  tm_mday :: cint
  tm_mon :: cint
  tm_year :: cint
  tm_wday :: cint
  tm_yday :: cint
  tm_isdst :: cint

record beyond =
  behind_length :: "cint \<Rightarrow> BYTE"
  behind_days :: "cint \<Rightarrow> WORD"

record timezone_info =
  daylight :: BYTE
  tz_seconds :: DWORD
  tzname :: string
  dstname :: string

definition tz_init :: timezone_info where
  "tz_init = \<lparr>daylight = 0, tz_seconds = 0, tzname = ''UTC'', dstname = ''UTC''\<rparr>"

definition JANUARY :: cint where "JANUARY = 0"

definition FEBRUARY :: cint where "FEBRUARY = 1"

definition DECEMBER :: cint where "DECEMBER = 11"

definition JAN_1_1970 :: WORD where "JAN_1_1970 = 4"

definition MonthLength :: "BYTE list" where
  "MonthLength = [31, 28, 31, 30, 31, 30, 31, 31, 30, 31, 30, 31]"

definition MonthDays :: "WORD list" where
  "MonthDays = [0, 31, 59, 90, 120, 151, 181, 212, 243, 273, 304, 334]"

definition month_length :: "beyond \<Rightarrow> cint \<Rightarrow> BYTE" where
  "month_length b i = (if unat i < 12 then MonthLength ! unat i else behind_length b i)"

definition month_days :: "beyond \<Rightarrow> cint \<Rightarrow> WORD" where
  "month_days b i = (if unat i < 12 then MonthDays ! unat i else behind_days b i)"

section \<open>Operations\<close>

text \<open>div of the library: quotient and remainder, truncated towards zero.\<close>

definition div_int :: "cint \<Rightarrow> cint \<Rightarrow> cint \<times> cint" where
  "div_int a b = (word_of_int (sint a sdiv sint b), word_of_int (sint a smod sint b))"

definition IsLeapYear :: "WORD \<Rightarrow> bool" where
  "IsLeapYear year \<longleftrightarrow> year mod 4 = 0 \<and> (year mod 100 \<noteq> 0 \<or> year mod 400 = 0)"

text \<open>The adjustments of mktime before the loop; False for the error exit.\<close>

definition adjust_clock :: "tm \<Rightarrow> bool \<times> tm" where
  "adjust_clock tm = (let
     (q, r) = div_int (tm_sec tm) 60; tm = tm\<lparr>tm_sec := r\<rparr> in
     if tm_min tm + q <s 0 then (False, tm)
     else let (q, r) = div_int (tm_min tm + q) 60; tm = tm\<lparr>tm_min := r\<rparr> in
     if tm_hour tm + q <s 0 then (False, tm)
     else let (q, r) = div_int (tm_hour tm + q) 24; tm = tm\<lparr>tm_hour := r\<rparr> in
     if tm_mday tm + q <s 0 then (False, tm)
     else (True, tm\<lparr>tm_mday := tm_mday tm + q\<rparr>))"

definition adjust_year :: "tm \<Rightarrow> bool \<times> tm" where
  "adjust_year tm = (let (q, r) = div_int (tm_mon tm) 12; tm = tm\<lparr>tm_mon := r\<rparr> in
     if tm_year tm + q <s 0 then (False, tm) else (True, tm\<lparr>tm_year := tm_year tm + q\<rparr>))"

definition max_day :: "beyond \<Rightarrow> tm \<Rightarrow> cint" where
  "max_day b tm = (if tm_mon tm = FEBRUARY \<and> IsLeapYear (tm_year tm + 1900) then 29
     else ucast (month_length b (tm_mon tm)))"

definition next_month :: "cint \<Rightarrow> tm \<Rightarrow> tm" where
  "next_month mx tm = (
     (if tm_mon tm = DECEMBER then tm\<lparr>tm_mon := JANUARY, tm_year := tm_year tm + 1\<rparr>
      else tm\<lparr>tm_mon := tm_mon tm + 1\<rparr>)\<lparr>tm_mday := tm_mday tm - mx\<rparr>)"

partial_function (option) month_loop :: "beyond \<Rightarrow> tm \<Rightarrow> (bool \<times> tm) option" where
  "month_loop b tm = (let r = adjust_year tm in
     if \<not> fst r then Some r
     else let mx = max_day b (snd r) in
       if mx <s tm_mday (snd r) then month_loop b (next_month mx (snd r)) else Some r)"

text \<open>The rest of mktime: the day of the year and of the week, and the seconds.\<close>

definition finish_time :: "beyond \<Rightarrow> tm \<Rightarrow> DWORD \<times> tm" where
  "finish_time b tm = (let
     yday = month_days b (tm_mon tm) + tm_mday tm - 1;
     yday = (if FEBRUARY <s tm_mon tm \<and> IsLeapYear (tm_year tm + 1900) then yday + 1 else yday);
     DayCount = (tm_year tm - 70) * 365 + (tm_year tm - (68 + 1)) div 4 + yday :: WORD;
     tm = tm\<lparr>tm_yday := yday, tm_wday := (JAN_1_1970 + DayCount) mod 7, tm_isdst := 0\<rparr> in
     (ucast DayCount * 86400 + ucast (tm_hour tm) * 3600 + ucast (tm_min tm * 60) + ucast (tm_sec tm), tm))"

definition mktime :: "beyond \<Rightarrow> tm option \<Rightarrow> (DWORD \<times> tm option) option" where
  "mktime b TM = (case TM of None \<Rightarrow> Some (0xFFFFFFFF, None)
   | Some tm \<Rightarrow> (case adjust_clock tm of (ok, tm) \<Rightarrow>
       if \<not> ok then Some (0xFFFFFFFF, Some tm)
       else do {
         (ok, tm) \<leftarrow> month_loop b tm;
         if \<not> ok then Some (0xFFFFFFFF, Some tm)
         else case finish_time b tm of (t, tm) \<Rightarrow> Some (t, Some tm) }))"

text \<open>
  localtime fills its static buffer; the result is the buffer, or None for the null pointer, and
  the buffer afterwards. \<open>timep\<close> is None for a null pointer.
\<close>

definition localtime :: "beyond \<Rightarrow> DWORD option \<Rightarrow> tm \<Rightarrow> (tm option \<times> tm) option" where
  "localtime b timep timebuf = (case timep of None \<Rightarrow> Some (None, timebuf)
   | Some t \<Rightarrow>
       if sint t < 0 then Some (None, timebuf)
       else do {
         (_, r) \<leftarrow> mktime b (Some (timebuf\<lparr>tm_sec := ucast (t mod 3600), tm_min := 0,
           tm_hour := ucast ((t div 3600) mod 24), tm_mday := ucast (t div (3600 * 24) + 1),
           tm_mon := 0, tm_year := 70\<rparr>));
         Some (r, case r of None \<Rightarrow> timebuf | Some tm \<Rightarrow> tm) })"

definition gmtime :: "beyond \<Rightarrow> timezone_info \<Rightarrow> DWORD option \<Rightarrow> tm \<Rightarrow> (tm option \<times> tm) option" where
  "gmtime b tz timep timebuf = (case timep of None \<Rightarrow> Some (None, timebuf)
   | Some t \<Rightarrow> localtime b (Some (t + tz_seconds tz)) timebuf)"

end
