(* ===== verification/Lib_Calendar.thy ===== *)
theory Lib_Calendar
  imports Lib_Time
begin

text \<open>
  The library's time functions against the Gregorian calendar: localtime yields the date and the
  time of day of its argument, and mktime is its inverse.
\<close>

section \<open>The calendar\<close>

definition leap :: "nat \<Rightarrow> bool" where
  "leap y \<longleftrightarrow> y mod 4 = 0 \<and> (y mod 100 \<noteq> 0 \<or> y mod 400 = 0)"

definition days_in :: "nat \<Rightarrow> nat \<Rightarrow> nat" where
  "days_in y m = (if m = 1 \<and> leap y then 29 else [31, 28, 31, 30, 31, 30, 31, 31, 30, 31, 30, 31] ! m)"

definition days_before_month :: "nat \<Rightarrow> nat \<Rightarrow> nat" where
  "days_before_month y m = sum_list (map (days_in y) [0..<m])"

definition year_days :: "nat \<Rightarrow> nat" where
  "year_days y = (if leap y then 366 else 365)"

definition days_before_year :: "nat \<Rightarrow> nat" where
  "days_before_year y = sum_list (map year_days [1970..<y])"

text \<open>The number of a day, counted from 1 January 1970 as day 0.\<close>

definition day_number :: "nat \<Rightarrow> nat \<Rightarrow> nat \<Rightarrow> nat" where
  "day_number y m d = days_before_year y + days_before_month y m + d - 1"

lemma less_12_cases:
  assumes "m < (12 :: nat)"
  obtains "m = 0" | "m = 1" | "m = 2" | "m = 3" | "m = 4" | "m = 5" | "m = 6" | "m = 7" | "m = 8" | "m = 9"
    | "m = 10" | "m = 11"
proof -
  have "m \<in> set [0..<12]" using assms by simp
  then show thesis by (auto simp: upt_rec intro: that)
qed

lemma days_in_bounds: "m < 12 \<Longrightarrow> 28 \<le> days_in y m \<and> days_in y m \<le> 31"
  by (erule less_12_cases) (auto simp: days_in_def)

lemma days_before_month_Suc: "days_before_month y (Suc m) = days_before_month y m + days_in y m"
  by (simp add: days_before_month_def)

lemma days_before_month_12: "days_before_month y 12 = year_days y"
proof -
  have "[0..<12] = [0, 1, 2, 3, 4, 5, 6, 7, 8, 9, 10, 11 :: nat]" by (simp add: upt_rec)
  then show ?thesis by (simp add: days_before_month_def year_days_def days_in_def)
qed

lemma days_before_year_Suc: "1970 \<le> y \<Longrightarrow> days_before_year (Suc y) = days_before_year y + year_days y"
  by (simp add: days_before_year_def)

text \<open>In the years of the library's time every fourth year is a leap year, as mktime counts.\<close>

lemma leap_fourth: "1970 \<le> y \<Longrightarrow> y < 2100 \<Longrightarrow> leap y \<longleftrightarrow> y mod 4 = 0"
proof -
  assume y: "1970 \<le> y" "y < 2100"
  have "y = 2000" if "y mod 100 = 0"
  proof -
    define q where "q = y div 100"
    have "y = 100 * q" using that mult_div_mod_eq [of 100 y] by (simp add: q_def)
    with y have "19 < q" "q < 21" by simp_all
    with \<open>y = 100 * q\<close> show ?thesis by simp
  qed
  then show ?thesis by (cases "y mod 100 = 0") (auto simp: leap_def)
qed

lemma days_before_year_formula:
  assumes "1970 \<le> y" and "y \<le> 2100"
  shows "days_before_year y = (y - 1970) * 365 + (y - 1969) div 4"
  using assms
proof (induction rule: nat_induct_at_least)
  case base
  then show ?case by (simp add: days_before_year_def)
next
  case (Suc y)
  obtain k where k: "y = 1970 + k" using Suc.hyps le_Suc_ex by blast
  have "leap y \<longleftrightarrow> (1970 + k) mod 4 = 0" using Suc leap_fourth [of y] by (simp add: k)
  also have "\<dots> \<longleftrightarrow> (k + 1) mod 4 = 3" by presburger
  finally have "year_days y = 365 + ((k + 2) div 4 - (k + 1) div 4)"
    by (simp add: year_days_def) presburger
  moreover have "(k + 1) div 4 \<le> (k + 2) div 4" by (intro div_le_mono) simp
  moreover note days_before_year_Suc [OF Suc.hyps]
  ultimately show ?case
    using Suc by (simp add: k)
qed

lemma days_before_year_mono: "y \<le> z \<Longrightarrow> 1970 \<le> y \<Longrightarrow> days_before_year y \<le> days_before_year z"
  by (induction z rule: dec_induct) (auto simp: days_before_year_Suc)

section \<open>16-bit arithmetic on small numbers\<close>

lemma sint_small: "n < 2 ^ 15 \<Longrightarrow> sint (of_nat n :: cint) = int n"
  by (simp add: signed_of_nat signed_take_bit_int_eq_self)

lemma unat_small: "n < 2 ^ 16 \<Longrightarrow> unat (of_nat n :: cint) = n"
  by (rule unat_of_nat_less) simp

lemma div_mod_small:
  assumes "n < 2 ^ 16" and "k < 2 ^ 16"
  shows "(of_nat n :: WORD) div of_nat k = of_nat (n div k)" "(of_nat n :: WORD) mod of_nat k = of_nat (n mod k)"
proof -
  have "n div k < 2 ^ 16" "n mod k < 2 ^ 16"
    using assms(1) by (simp_all add: order.strict_trans1 [OF div_le_dividend] order.strict_trans1 [OF mod_less_eq_dividend])
  then show "(of_nat n :: WORD) div of_nat k = of_nat (n div k)" "(of_nat n :: WORD) mod of_nat k = of_nat (n mod k)"
    using assms by (simp_all only: word_unat_eq_iff unat_div unat_mod unat_small)
qed

lemma ucast_small: "n < 2 ^ 16 \<Longrightarrow> (ucast (of_nat n :: WORD) :: DWORD) = of_nat n"
proof -
  assume n: "n < 2 ^ 16"
  then have "unat (of_nat n :: DWORD) = n" by (intro unat_of_nat_less) simp
  with n show ?thesis by (simp only: word_unat_eq_iff unat_ucast_up unat_small) (simp add: unat_ucast_up unat_small)
qed

lemma sless_small: "m < 2 ^ 15 \<Longrightarrow> n < 2 ^ 15 \<Longrightarrow> (of_nat m :: cint) <s of_nat n \<longleftrightarrow> m < n"
  by (simp add: word_sless_alt sint_small)

lemma not_negative: "n < 2 ^ 15 \<Longrightarrow> \<not> (of_nat n :: cint) <s 0"
  by (simp add: word_sless_alt sint_small)

lemma div_small:
  assumes "n < 2 ^ 15" and "0 < k" and "k < 2 ^ 15"
  shows "div_int (of_nat n) (of_nat k) = (of_nat (n div k), of_nat (n mod k))"
proof -
  have "int n sdiv int k = int (n div k)" "int n smod int k = int (n mod k)"
    using assms by (simp_all add: signed_divide_int_def signed_modulo_int_def zdiv_int zmod_int sgn_if)
  then show ?thesis
    using assms by (simp add: div_int_def sint_small)
qed

section \<open>The loop of mktime\<close>

text \<open>A broken-down time whose date fields stand for day \<open>d\<close> of month \<open>m\<close> of year \<open>y\<close>; \<open>d\<close> may run on.\<close>

definition date :: "tm \<Rightarrow> nat \<Rightarrow> nat \<Rightarrow> nat \<Rightarrow> bool" where
  "date tm y m d \<longleftrightarrow> 1970 \<le> y \<and> y < 2100 \<and> m < 12 \<and> 1 \<le> d \<and> d < 2 ^ 15
     \<and> tm_year tm = of_nat (y - 1900) \<and> tm_mon tm = of_nat m \<and> tm_mday tm = of_nat d"

definition same_clock :: "tm \<Rightarrow> tm \<Rightarrow> bool" where
  "same_clock tm tm' \<longleftrightarrow> tm_sec tm' = tm_sec tm \<and> tm_min tm' = tm_min tm \<and> tm_hour tm' = tm_hour tm"

lemma small_eq: "m < 2 ^ 16 \<Longrightarrow> n < 2 ^ 16 \<Longrightarrow> (of_nat m :: cint) = of_nat n \<longleftrightarrow> m = n"
  by (metis unat_small)

lemma full_year: "1970 \<le> y \<Longrightarrow> (of_nat (y - 1900) :: cint) + 1900 = of_nat y"
proof -
  assume "1970 \<le> y"
  then have "(of_nat (y - 1900) :: cint) + of_nat 1900 = of_nat y" by (simp flip: of_nat_add)
  then show ?thesis by simp
qed

lemma leap_year: "y < 2100 \<Longrightarrow> IsLeapYear (of_nat y) = leap y"
proof -
  assume "y < 2100"
  then have "unat (of_nat y :: WORD) = y" by (intro unat_small) simp
  then have "(of_nat y :: WORD) mod of_nat k = 0 \<longleftrightarrow> y mod k = 0" if "k < 2 ^ 16" for k
    by (simp only: word_unat_eq_iff unat_mod unat_small [OF that] unsigned_0)
  from this [of 4] this [of 100] this [of 400] show ?thesis
    by (simp add: IsLeapYear_def leap_def)
qed

lemma adjust_year_date: "date tm y m d \<Longrightarrow> adjust_year tm = (True, tm)"
proof -
  assume d: "date tm y m d"
  then have m: "m < 2 ^ 15" "m div 12 = 0" "m mod 12 = m" and "y < 2100" by (simp_all add: date_def)
  then have y: "y - 1900 < 2 ^ 15" by simp
  have "div_int (tm_mon tm) 12 = (0, tm_mon tm)"
    using div_small [OF m(1), of 12] m d by (simp add: date_def)
  with not_negative [OF y] d show ?thesis by (simp add: adjust_year_def date_def)
qed

lemma max_day_date: "date tm y m d \<Longrightarrow> max_day b tm = of_nat (days_in y m)"
proof -
  assume d: "date tm y m d"
  then have m: "m < 12" and y: "1970 \<le> y" "y < 2100" and tm: "tm_year tm = of_nat (y - 1900)" "tm_mon tm = of_nat m"
    by (simp_all add: date_def)
  have u: "unat (of_nat m :: cint) = m" using m by (intro unat_small) simp
  have "tm_mon tm = FEBRUARY \<longleftrightarrow> m = 1"
    using small_eq [of m 1] m by (simp add: FEBRUARY_def tm)
  moreover have "ucast (month_length b (tm_mon tm)) = (of_nat ([31, 28, 31, 30, 31, 30, 31, 31, 30, 31, 30, 31] ! m) :: cint)"
    using m by (simp add: month_length_def tm u MonthLength_def) (erule less_12_cases; simp)
  moreover have "IsLeapYear (tm_year tm + 1900) = leap y"
    using y by (simp add: tm full_year leap_year)
  ultimately show ?thesis by (simp add: max_day_def days_in_def)
qed

text \<open>The month after \<open>m\<close> of \<open>y\<close>.\<close>

definition month_after :: "nat \<Rightarrow> nat \<Rightarrow> nat \<times> nat" where
  "month_after y m = (if m = 11 then (y + 1, 0) else (y, m + 1))"

lemma day_number_month_after:
  assumes "month_after y m = (y', m')" and "1970 \<le> y" and "m < 12" and "days_in y m < d"
  shows "day_number y' m' (d - days_in y m) = day_number y m d"
proof (cases "m = 11")
  case True
  have "days_before_month y 11 + days_in y 11 = year_days y"
    using days_before_month_Suc [of y 11] days_before_month_12 [of y] by simp
  with True assms show ?thesis
    by (auto simp: month_after_def day_number_def days_before_year_Suc days_before_month_def [of _ 0])
next
  case False
  with assms show ?thesis by (auto simp: month_after_def day_number_def days_before_month_Suc)
qed

lemma day_number_year:
  assumes "1970 \<le> y" and "y \<le> 2100" and "1 \<le> d" and "day_number y m d < 24856"
  shows "y < 2100"
proof (rule ccontr)
  assume "\<not> y < 2100"
  with assms(2) have "y = 2100" by simp
  with days_before_year_formula [of y] assms(3,4) show False by (simp add: day_number_def)
qed

lemma next_month_date:
  assumes "date tm y m d" and "days_in y m < d" and "month_after y m = (y', m')" and "day_number y m d < 24856"
  shows "date (next_month (of_nat (days_in y m)) tm) y' m' (d - days_in y m)"
proof -
  have y: "1970 \<le> y" "y < 2100" "m < 12" using assms(1) by (simp_all add: date_def)
  have y': "y' \<le> 2100" "1970 \<le> y'" "m' < 12" using assms(3) y by (auto simp: month_after_def split: if_splits)
  have "day_number y' m' (d - days_in y m) < 24856"
    using day_number_month_after [OF assms(3) y(1,3) assms(2)] assms(4) by simp
  then have lim: "y' < 2100" using day_number_year [of y' "d - days_in y m" m'] y' assms(2) by simp
  have dec: "(of_nat m :: cint) = DECEMBER \<longleftrightarrow> m = 11"
    using small_eq [of m 11] y(3) by (simp add: DECEMBER_def)
  have "of_nat (y - 1900) + 1 = (of_nat (y + 1 - 1900) :: cint)" using y(1) by (simp add: Suc_diff_le)
  moreover have "of_nat d - of_nat (days_in y m) = (of_nat (d - days_in y m) :: cint)"
    using assms(2) by (simp add: of_nat_diff)
  ultimately show ?thesis
    using assms(1-3) y y' lim dec
    by (auto simp: date_def next_month_def month_after_def JANUARY_def less_imp_diff_less split: if_splits)
qed

lemma month_loop_date:
  assumes "date tm y m d" and "day_number y m d < 24856"
  shows "\<exists>tm' y' m' d'. month_loop b tm = Some (True, tm') \<and> date tm' y' m' d' \<and> d' \<le> days_in y' m'
    \<and> day_number y' m' d' = day_number y m d \<and> same_clock tm tm'"
  using assms
proof (induction d arbitrary: tm y m rule: less_induct)
  case (less d)
  have y: "1970 \<le> y" "m < 12" "d < 2 ^ 15" using less.prems(1) by (simp_all add: date_def)
  have di: "28 \<le> days_in y m" "days_in y m < 2 ^ 15" using days_in_bounds [OF y(2), of y] by simp_all
  have "tm_mday tm = of_nat d" using less.prems(1) by (simp add: date_def)
  then have unf: "month_loop b tm = (if days_in y m < d then month_loop b (next_month (of_nat (days_in y m)) tm) else Some (True, tm))"
    using adjust_year_date [OF less.prems(1)] max_day_date [OF less.prems(1), of b] sless_small [OF di(2) y(3)]
    by (subst month_loop.simps) (simp add: Let_def)
  show ?case
  proof (cases "days_in y m < d")
    case True
    obtain y' m' where a: "month_after y m = (y', m')" by (cases "month_after y m")
    note nd = next_month_date [OF less.prems(1) True a less.prems(2)]
    note dn = day_number_month_after [OF a y(1,2) True]
    have "d - days_in y m < d" using True di by simp
    from less.IH [OF this nd] dn less.prems(2) True unf show ?thesis
      by (fastforce simp: same_clock_def next_month_def)
  next
    case False
    with unf less.prems show ?thesis
      by (intro exI [of _ tm] exI [of _ y] exI [of _ m] exI [of _ d]) (auto simp: same_clock_def)
  qed
qed

section \<open>The whole of mktime and localtime\<close>

text \<open>A broken-down time that stands for \<open>t\<close> seconds after the start of 1970, with every field in range.\<close>

definition calendar_time :: "tm \<Rightarrow> nat \<Rightarrow> bool" where
  "calendar_time tm t \<longleftrightarrow> (\<exists>y m d h mi s. date tm y m d \<and> d \<le> days_in y m
     \<and> tm_hour tm = of_nat h \<and> h < 24 \<and> tm_min tm = of_nat mi \<and> mi < 60 \<and> tm_sec tm = of_nat s \<and> s < 60
     \<and> tm_yday tm = of_nat (days_before_month y m + d - 1) \<and> tm_wday tm = of_nat ((4 + day_number y m d) mod 7)
     \<and> tm_isdst tm = 0 \<and> t = day_number y m d * 86400 + h * 3600 + mi * 60 + s)"

lemma calendar_timeI:
  "date tm y m d \<Longrightarrow> d \<le> days_in y m \<Longrightarrow> tm_hour tm = of_nat h \<Longrightarrow> h < 24 \<Longrightarrow> tm_min tm = of_nat mi \<Longrightarrow> mi < 60
    \<Longrightarrow> tm_sec tm = of_nat s \<Longrightarrow> s < 60 \<Longrightarrow> tm_yday tm = of_nat (days_before_month y m + d - 1)
    \<Longrightarrow> tm_wday tm = of_nat ((4 + day_number y m d) mod 7) \<Longrightarrow> tm_isdst tm = 0
    \<Longrightarrow> t = day_number y m d * 86400 + h * 3600 + mi * 60 + s \<Longrightarrow> calendar_time tm t"
  unfolding calendar_time_def by blast

lemma days_before_month_table:
  assumes "m < 12"
  shows "days_before_month y m = [0, 31, 59, 90, 120, 151, 181, 212, 243, 273, 304, 334] ! m + (if 1 < m \<and> leap y then 1 else 0)"
proof -
  have l: "[0..<2] = [0, 1 :: nat]" "[0..<3] = [0, 1, 2 :: nat]" "[0..<4] = [0, 1, 2, 3 :: nat]"
    "[0..<5] = [0, 1, 2, 3, 4 :: nat]" "[0..<6] = [0, 1, 2, 3, 4, 5 :: nat]" "[0..<7] = [0, 1, 2, 3, 4, 5, 6 :: nat]"
    "[0..<8] = [0, 1, 2, 3, 4, 5, 6, 7 :: nat]" "[0..<9] = [0, 1, 2, 3, 4, 5, 6, 7, 8 :: nat]"
    "[0..<10] = [0, 1, 2, 3, 4, 5, 6, 7, 8, 9 :: nat]" "[0..<11] = [0, 1, 2, 3, 4, 5, 6, 7, 8, 9, 10 :: nat]"
    by (simp_all add: upt_rec)
  from assms show ?thesis
    by (rule less_12_cases) (simp_all add: days_before_month_def l days_in_def)
qed

lemma finish_time_date:
  assumes d: "date tm y m d" and dm: "d \<le> days_in y m" and n: "day_number y m d < 24856"
    and clock: "tm_hour tm = of_nat h" "h < 24" "tm_min tm = of_nat mi" "mi < 60" "tm_sec tm = of_nat s" "s < 60"
  shows "finish_time b tm = (of_nat (day_number y m d * 86400 + h * 3600 + mi * 60 + s),
    tm\<lparr>tm_yday := of_nat (days_before_month y m + d - 1), tm_wday := of_nat ((4 + day_number y m d) mod 7), tm_isdst := 0\<rparr>)"
proof -
  have y: "1970 \<le> y" "y < 2100" and m: "m < 12" and d1: "1 \<le> d" and f: "tm_year tm = of_nat (y - 1900)"
      "tm_mon tm = of_nat m" "tm_mday tm = of_nat d"
    using d by (simp_all add: date_def)
  have u: "unat (of_nat m :: cint) = m" using m by (intro unat_small) simp
  define X where "X = [0, 31, 59, 90, 120, 151, 181, 212, 243, 273, 304, 334 :: nat] ! m"
  have md: "month_days b (of_nat m) = of_nat X"
    using m by (simp add: month_days_def u MonthDays_def X_def) (erule less_12_cases; simp)
  have tab: "days_before_month y m = X + (if 1 < m \<and> leap y then 1 else 0)"
    unfolding X_def by (rule days_before_month_table [OF m])
  have "FEBRUARY <s tm_mon tm \<longleftrightarrow> 1 < m"
    using sless_small [of 1 m] m by (simp add: FEBRUARY_def f)
  moreover have "IsLeapYear (tm_year tm + 1900) = leap y" using y by (simp add: f full_year leap_year)
  ultimately have yd: "(if FEBRUARY <s tm_mon tm \<and> IsLeapYear (tm_year tm + 1900)
      then month_days b (tm_mon tm) + tm_mday tm - 1 + 1 else month_days b (tm_mon tm) + tm_mday tm - 1)
      = of_nat (days_before_month y m + d - 1)"
    using d1 by (simp add: md f tab of_nat_diff)
  have q: "(of_nat (y - 1900) :: WORD) - 70 = of_nat (y - 1970)" "(of_nat (y - 1900) :: WORD) - 69 = of_nat (y - 1969)"
  proof -
    have "(of_nat (y - 1900) :: WORD) = of_nat (y - 1970) + of_nat 70" "(of_nat (y - 1900) :: WORD) = of_nat (y - 1969) + of_nat 69"
      using y(1) by (simp_all flip: of_nat_add)
    then show "(of_nat (y - 1900) :: WORD) - 70 = of_nat (y - 1970)" "(of_nat (y - 1900) :: WORD) - 69 = of_nat (y - 1969)"
      by simp_all
  qed
  have "(of_nat (y - 1969) :: WORD) div 4 = of_nat ((y - 1969) div 4)"
    using div_mod_small(1) [of "y - 1969" 4] y by simp
  then have dc: "(tm_year tm - 70) * 365 + (tm_year tm - (68 + 1)) div 4 + of_nat (days_before_month y m + d - 1)
      = (of_nat (day_number y m d) :: WORD)"
    using d1 y by (simp add: f q day_number_def days_before_year_formula of_nat_diff)
  have wd: "(JAN_1_1970 + of_nat (day_number y m d)) mod 7 = of_nat ((4 + day_number y m d) mod 7)"
    using div_mod_small(2) [of "4 + day_number y m d" 7] n by (simp add: JAN_1_1970_def)
  have uc: "(ucast (tm_hour tm) :: DWORD) = of_nat h" "(ucast (tm_min tm * 60) :: DWORD) = of_nat (mi * 60)"
    "(ucast (tm_sec tm) :: DWORD) = of_nat s" "(ucast (of_nat (day_number y m d) :: WORD) :: DWORD) = of_nat (day_number y m d)"
    using ucast_small [of h] ucast_small [of "mi * 60"] ucast_small [of s] ucast_small [of "day_number y m d"] clock n
    by simp_all
  show ?thesis
    unfolding finish_time_def Let_def yd dc
    by (simp add: wd uc)
qed

lemma adjust_clock_fields:
  assumes "tm_sec tm = of_nat s" "s < 3600" "tm_min tm = of_nat mi" "mi < 60" "s div 60 + mi < 60"
    and "tm_hour tm = of_nat h" "h < 24" "tm_mday tm = of_nat d" "d < 2 ^ 15"
  shows "adjust_clock tm = (True, tm\<lparr>tm_sec := of_nat (s mod 60), tm_min := of_nat (mi + s div 60)\<rparr>)"
proof -
  have "div_int (of_nat s) 60 = (of_nat (s div 60), of_nat (s mod 60))"
    using div_small [of s 60] assms(2) by simp
  moreover have "div_int (of_nat (mi + s div 60)) 60 = (0, of_nat (mi + s div 60))"
    using div_small [of "mi + s div 60" 60] assms(5) by (simp add: add.commute)
  moreover have "div_int (of_nat h) 24 = (0, of_nat h)"
    using div_small [of h 24] assms(7) by simp
  moreover have "\<not> (of_nat (mi + s div 60) :: cint) <s 0" "\<not> (of_nat h :: cint) <s 0" "\<not> (of_nat d :: cint) <s 0"
    using assms by (intro not_negative; simp add: add.commute)+
  ultimately show ?thesis
    using assms by (simp add: adjust_clock_def)
qed

lemma mktime_calendar:
  assumes "calendar_time tm t" and "t < 2 ^ 31"
  shows "mktime b (Some tm) = Some (of_nat t, Some tm)"
proof -
  obtain y m d h mi s where c: "date tm y m d" "d \<le> days_in y m" "tm_hour tm = of_nat h" "h < 24"
      "tm_min tm = of_nat mi" "mi < 60" "tm_sec tm = of_nat s" "s < 60"
      "tm_yday tm = of_nat (days_before_month y m + d - 1)" "tm_wday tm = of_nat ((4 + day_number y m d) mod 7)"
      "tm_isdst tm = 0" and t: "t = day_number y m d * 86400 + h * 3600 + mi * 60 + s"
    using assms(1) unfolding calendar_time_def by blast
  have n: "day_number y m d < 24856" using assms(2) t by simp
  have "adjust_clock tm = (True, tm)"
    using adjust_clock_fields [OF c(7) _ c(5,6) _ c(3,4), of d] c(1,6,8) by (simp add: date_def c)
  moreover have "month_loop b tm = Some (True, tm)"
  proof -
    have m: "m < 12" and dl: "d < 2 ^ 15" and f: "tm_mday tm = of_nat d" using c(1) by (simp_all add: date_def)
    have "days_in y m < 2 ^ 15" using days_in_bounds [OF m, of y] by simp
    with sless_small [OF this dl] adjust_year_date [OF c(1)] max_day_date [OF c(1), of b] c(2) f show ?thesis
      by (subst month_loop.simps) (simp add: Let_def)
  qed
  moreover have "tm\<lparr>tm_yday := of_nat (days_before_month y m + d - 1), tm_wday := of_nat ((4 + day_number y m d) mod 7),
      tm_isdst := 0\<rparr> = tm"
    using c(9-11) by simp
  ultimately show ?thesis
    using finish_time_date [OF c(1,2) n c(3-8), of b] by (simp add: mktime_def t)
qed

lemma ucast_down: "(ucast (w :: DWORD) :: cint) = of_nat (unat w)"
  by (simp add: unsigned_def of_nat_nat)

lemma localtime_fields:
  fixes t :: DWORD
  shows "(ucast (t mod 3600) :: cint) = of_nat (unat t mod 3600)"
    "(ucast ((t div 3600) mod 24) :: cint) = of_nat (unat t div 3600 mod 24)"
    "unat t < 2 ^ 31 \<Longrightarrow> (ucast (t div (3600 * 24) + 1) :: cint) = of_nat (unat t div 86400 + 1)"
proof -
  show "(ucast (t mod 3600) :: cint) = of_nat (unat t mod 3600)"
    "(ucast ((t div 3600) mod 24) :: cint) = of_nat (unat t div 3600 mod 24)"
    by (simp_all only: ucast_down unat_div unat_mod) simp_all
  assume "unat t < 2 ^ 31"
  then have d: "unat t div 86400 < 24856" by (simp add: less_mult_imp_div_less)
  have u: "unat (t div (3600 * 24)) = unat t div 86400" by (simp add: unat_div)
  then have "unat (t div (3600 * 24) + 1) = unat t div 86400 + 1"
    using d by (subst unat_plus_less) simp_all
  then show "(ucast (t div (3600 * 24) + 1) :: cint) = of_nat (unat t div 86400 + 1)"
    by (simp only: ucast_down)
qed

lemma seconds_split:
  "t = t div 86400 * 86400 + t div 3600 mod 24 * 3600 + t mod 3600 div 60 * 60 + t mod 3600 mod (60 :: nat)"
proof -
  have sum: "B * 3600 + R = q * 86400 + r * 3600 + u * 60 + v" if "B = q * 24 + r" "R = u * 60 + v" for B R q r u v :: nat
    using that by simp
  have q: "t div 86400 = t div 3600 div 24" by (simp add: div_mult2_eq [symmetric])
  show ?thesis
    unfolding q using sum [OF div_mult_mod_eq [symmetric] div_mult_mod_eq [symmetric], of "t div 3600" "t mod 3600"]
    by (metis div_mult_mod_eq)
qed

lemma localtime_calendar_time:
  assumes "unat t < 2 ^ 31"
  shows "\<exists>tm. localtime b (Some t) buf = Some (Some tm, tm) \<and> calendar_time tm (unat t)"
proof -
  let ?t = "unat t"
  define tm where "tm = buf\<lparr>tm_sec := of_nat (?t mod 3600), tm_min := 0, tm_hour := of_nat (?t div 3600 mod 24),
    tm_mday := of_nat (?t div 86400 + 1), tm_mon := 0, tm_year := 70\<rparr>"
  define tm1 where "tm1 = tm\<lparr>tm_sec := of_nat (?t mod 3600 mod 60), tm_min := of_nat (?t mod 3600 div 60)\<rparr>"
  have dd: "?t div 86400 < 24856" using assms by (simp add: less_mult_imp_div_less)
  have s: "?t mod 3600 < 3600" "?t mod 3600 div 60 < 60" "?t div 3600 mod 24 < 24"
    by (simp_all add: less_mult_imp_div_less)
  have ac: "adjust_clock tm = (True, tm1)"
    using adjust_clock_fields [of tm "?t mod 3600" 0 "?t div 3600 mod 24" "?t div 86400 + 1"] s dd
    by (simp add: tm_def tm1_def)
  have "date tm1 1970 0 (?t div 86400 + 1)" using dd by (simp add: date_def tm1_def tm_def)
  moreover have "day_number 1970 0 (?t div 86400 + 1) = ?t div 86400"
    by (simp add: day_number_def days_before_year_def days_before_month_def)
  ultimately obtain tm2 y m d where l: "month_loop b tm1 = Some (True, tm2)" and d: "date tm2 y m d" "d \<le> days_in y m"
      "day_number y m d = ?t div 86400" and sc: "same_clock tm1 tm2"
    using month_loop_date [of tm1 1970 0 "?t div 86400 + 1" b] dd by auto
  have cl: "tm_hour tm2 = of_nat (?t div 3600 mod 24)" "tm_min tm2 = of_nat (?t mod 3600 div 60)"
      "tm_sec tm2 = of_nat (?t mod 3600 mod 60)"
    using sc by (simp_all add: same_clock_def tm1_def tm_def)
  have n: "day_number y m d < 24856" using d(3) dd by simp
  note fin = finish_time_date [OF d(1,2) n cl(1) s(3) cl(2) s(2) cl(3), of b]
  let ?tm = "tm2\<lparr>tm_yday := of_nat (days_before_month y m + d - 1), tm_wday := of_nat ((4 + day_number y m d) mod 7), tm_isdst := 0\<rparr>"
  note split = seconds_split [of ?t]
  have ct: "calendar_time ?tm ?t"
  proof (rule calendar_timeI)
    show "date ?tm y m d" using d(1) by (simp add: date_def)
    show "?t = day_number y m d * 86400 + ?t div 3600 mod 24 * 3600 + ?t mod 3600 div 60 * 60 + ?t mod 3600 mod 60"
      unfolding d(3) by (rule split)
  qed (use cl s d(2) in simp_all)
  have "\<not> bit (unat t) 31" using assms by (simp add: bit_iff_odd)
  then have pos: "\<not> sint t < 0" using bit_last_iff [of t] by (simp add: bit_unsigned_iff)
  have "mktime b (Some tm) = (case finish_time b tm2 of (t, tm) \<Rightarrow> Some (t, Some tm))"
    by (simp add: mktime_def ac l)
  also have "\<dots> = Some (of_nat (day_number y m d * 86400 + ?t div 3600 mod 24 * 3600 + ?t mod 3600 div 60 * 60
      + ?t mod 3600 mod 60), Some ?tm)"
    by (simp only: fin case_prod_conv)
  finally have mk: "mktime b (Some tm) = Some (of_nat (day_number y m d * 86400 + ?t div 3600 mod 24 * 3600
      + ?t mod 3600 div 60 * 60 + ?t mod 3600 mod 60), Some ?tm)" .
  have "localtime b (Some t) buf = do { (_, r) \<leftarrow> mktime b (Some tm); Some (r, case r of None \<Rightarrow> buf | Some tm \<Rightarrow> tm) }"
    unfolding localtime_def option.case localtime_fields(1,2) localtime_fields(3) [OF assms] tm_def
    by (simp only: pos if_False)
  also have "\<dots> = Some (Some ?tm, ?tm)" by (simp only: mk) simp
  finally have "localtime b (Some t) buf = Some (Some ?tm, ?tm)" .
  with ct show ?thesis by blast
qed

text \<open>
  C30: the calendar. Before 2038, gmtime (with the default time zone) and localtime give the same
  normalised date and time, the Gregorian calendar's one for that second since 1970, and mktime
  gives the time back and leaves the structure as it is.
\<close>

theorem localtime_round_trip:
  assumes "unat t < 2 ^ 31"
  shows "\<exists>tm. localtime b (Some t) buf = Some (Some tm, tm) \<and> gmtime b tz_init (Some t) buf = Some (Some tm, tm)
    \<and> calendar_time tm (unat t) \<and> mktime b (Some tm) = Some (t, Some tm)"
proof -
  from localtime_calendar_time [OF assms] obtain tm where
    tm: "localtime b (Some t) buf = Some (Some tm, tm)" "calendar_time tm (unat t)" by blast
  moreover have "gmtime b tz_init (Some t) buf = Some (Some tm, tm)"
    using tm(1) by (simp add: gmtime_def tz_init_def)
  ultimately show ?thesis using mktime_calendar [OF tm(2) assms, of b] by (intro exI [of _ tm]) simp
qed

theorem localtime_round_trip_witness:
  "\<forall>b buf. \<exists>tm. localtime b (Some 951782399) buf = Some (Some tm, tm)
    \<and> gmtime b tz_init (Some 951782399) buf = Some (Some tm, tm)
    \<and> calendar_time tm 951782399 \<and> mktime b (Some tm) = Some (951782399, Some tm)"
proof (intro allI)
  fix b buf
  show "\<exists>tm. localtime b (Some 951782399) buf = Some (Some tm, tm)
    \<and> gmtime b tz_init (Some 951782399) buf = Some (Some tm, tm)
    \<and> calendar_time tm 951782399 \<and> mktime b (Some tm) = Some (951782399, Some tm)"
    using localtime_round_trip [of 951782399 b buf] by simp
qed

end
