(* ===== verification/Lib_Sort.thy ===== *)
theory Lib_Sort
  imports Prelude "HOL-Library.Signed_Division"
begin

text \<open>
  Sorting and searching in the cc65 library: qsort.c and bsearch.c. The array is the list of its
  bytes, a position in it an int of 16 bits that counts bytes. The comparison function is a
  parameter that is given the bytes of two elements; only the sign of its result matters.
\<close>

type_synonym comparison = "BYTE list \<Rightarrow> BYTE list \<Rightarrow> 16 word"

text \<open>The element of \<open>sz\<close> bytes at a position, and _swap, which exchanges two.\<close>

definition element :: "BYTE list \<Rightarrow> WORD \<Rightarrow> 16 word \<Rightarrow> BYTE list" where
  "element B sz pos = take (unat sz) (drop (unat pos) B)"

definition swap_elements :: "16 word \<Rightarrow> 16 word \<Rightarrow> WORD \<Rightarrow> BYTE list \<Rightarrow> BYTE list" where
  "swap_elements p q sz B = store (unat q) (element B sz p) (store (unat p) (element B sz q) B)"

section \<open>qsort.c\<close>

text \<open>The two inner loops of QuickSort.\<close>

partial_function (option) scan_up :: "comparison \<Rightarrow> BYTE list \<Rightarrow> WORD \<Rightarrow> 16 word \<Rightarrow> 16 word \<Rightarrow> 16 word \<Rightarrow> 16 word option" where
  "scan_up cmp B sz lo i j = (
     if i <=s j \<and> \<not> cmp (element B sz lo) (element B sz i) <s 0 then scan_up cmp B sz lo (i + sz) j
     else Some i)"

partial_function (option) scan_down :: "comparison \<Rightarrow> BYTE list \<Rightarrow> WORD \<Rightarrow> 16 word \<Rightarrow> 16 word \<Rightarrow> 16 word \<Rightarrow> 16 word option" where
  "scan_down cmp B sz lo i j = (
     if i <=s j \<and> cmp (element B sz lo) (element B sz j) <s 0 then scan_down cmp B sz lo i (j - sz)
     else Some j)"

text \<open>The loop around them: the array and the last value of J.\<close>

partial_function (option) partition_loop ::
  "comparison \<Rightarrow> WORD \<Rightarrow> 16 word \<Rightarrow> 16 word \<Rightarrow> 16 word \<Rightarrow> BYTE list \<Rightarrow> (BYTE list \<times> 16 word) option" where
  "partition_loop cmp sz lo i j B = (
     if i <=s j then do {
       i \<leftarrow> scan_up cmp B sz lo i j;
       j \<leftarrow> scan_down cmp B sz lo i j;
       if i <=s j then partition_loop cmp sz lo (i + sz) (j - sz) (swap_elements i j sz B)
       else partition_loop cmp sz lo i j B }
     else Some (B, j))"

partial_function (option) QuickSort :: "comparison \<Rightarrow> WORD \<Rightarrow> 16 word \<Rightarrow> 16 word \<Rightarrow> BYTE list \<Rightarrow> BYTE list option" where
  "QuickSort cmp sz lo hi B = (
     if lo <s hi then do {
       (B, j) \<leftarrow> partition_loop cmp sz lo (lo + sz) hi B;
       let B = (if j \<noteq> lo then swap_elements j lo sz B else B);
       if j * 2 > hi + lo then do {
         B \<leftarrow> QuickSort cmp sz (j + sz) hi B;
         QuickSort cmp sz lo (j - sz) B }
       else do {
         B \<leftarrow> QuickSort cmp sz lo (j - sz) B;
         QuickSort cmp sz (j + sz) hi B } }
     else Some B)"

definition qsort :: "BYTE list \<Rightarrow> WORD \<Rightarrow> WORD \<Rightarrow> comparison \<Rightarrow> BYTE list option" where
  "qsort base nmemb sz compare = (
     if nmemb > 1 then QuickSort compare sz 0 ((nmemb - 1) * sz) base else Some base)"

section \<open>bsearch.c\<close>

text \<open>The loop: the position of the first and whether an equal element was met.\<close>

partial_function (option) bsearch_loop ::
  "comparison \<Rightarrow> BYTE list \<Rightarrow> BYTE list \<Rightarrow> WORD \<Rightarrow> 16 word \<Rightarrow> 16 word \<Rightarrow> bool \<Rightarrow> (16 word \<times> bool) option" where
  "bsearch_loop cmp key base sz first lst found = (
     if first <=s lst then
       let current = word_of_int (sint (lst + first) sdiv 2);
           result = cmp (element base sz (current * sz)) key in
       if result <s 0 then bsearch_loop cmp key base sz (current + 1) lst found
       else bsearch_loop cmp key base sz first (current - 1) (found \<or> result = 0)
     else Some (first, found))"

text \<open>The offset of the element found, or None for the null pointer.\<close>

definition bsearch :: "BYTE list \<Rightarrow> BYTE list \<Rightarrow> WORD \<Rightarrow> WORD \<Rightarrow> comparison \<Rightarrow> 16 word option option" where
  "bsearch key base n sz cmp = do {
     (first, found) \<leftarrow> bsearch_loop cmp key base sz 0 (n - 1) False;
     Some (if found then Some (first * sz) else None) }"

end
