(* ===== verification/Lib_Sorting.thy ===== *)
theory Lib_Sorting
  imports Lib_Sort "HOL-Library.Multiset"
begin

text \<open>
  qsort sorts and bsearch finds: the loops of theory Lib_Sort over byte positions are shown to work
  on the list of elements, by induction on the part of the list they have left.
\<close>

section \<open>The elements of an array\<close>

definition elements :: "nat \<Rightarrow> nat \<Rightarrow> BYTE list \<Rightarrow> BYTE list list" where
  "elements n w B = map (\<lambda>k. take w (drop (k * w) B)) [0..<n]"

text \<open>An array of \<open>n\<close> elements of \<open>w\<close> bytes that the library's int can address.\<close>

definition fits :: "nat \<Rightarrow> nat \<Rightarrow> BYTE list \<Rightarrow> bool" where
  "fits n w B \<longleftrightarrow> 0 < w \<and> n * w < 2 ^ 15 \<and> length B = n * w"

definition place :: "nat \<Rightarrow> nat \<Rightarrow> 16 word" where
  "place w k = of_nat (k * w)"

lemma length_elements [simp]: "length (elements n w B) = n"
  by (simp add: elements_def)

lemma elements_nth: "k < n \<Longrightarrow> elements n w B ! k = take w (drop (k * w) B)"
  by (simp add: elements_def)

lemma sint_small16: "n < 2 ^ 15 \<Longrightarrow> sint (of_nat n :: 16 word) = int n"
  by (simp add: signed_of_nat signed_take_bit_int_eq_self)

lemma unat_small16: "n < 2 ^ 16 \<Longrightarrow> unat (of_nat n :: 16 word) = n"
  by (rule unat_of_nat_less) simp

lemma place_bound: "n * w < (2 ^ 15 :: nat) \<Longrightarrow> k \<le> n \<Longrightarrow> k * w < 2 ^ 15"
  using mult_le_mono1 [of k n w] by linarith

lemma place_le:
  assumes "0 < w" "n * w < 2 ^ 15" "i \<le> n" "j \<le> n"
  shows "place w i <=s place w j \<longleftrightarrow> i \<le> j" "place w i <s place w j \<longleftrightarrow> i < j" "place w i = place w j \<longleftrightarrow> i = j"
proof -
  have b: "i * w < 2 ^ 15" "j * w < 2 ^ 15" using place_bound assms(2-4) by blast+
  show "place w i <=s place w j \<longleftrightarrow> i \<le> j" "place w i <s place w j \<longleftrightarrow> i < j"
    using b assms(1) by (simp_all add: place_def word_sle_eq word_sless_alt sint_small16 del: of_nat_mult)
  moreover have "place w j <s place w i \<longleftrightarrow> j < i"
    using b assms(1) by (simp add: place_def word_sless_alt sint_small16 del: of_nat_mult)
  moreover have "\<not> place w i <s place w i" by (simp add: word_sless_alt)
  ultimately show "place w i = place w j \<longleftrightarrow> i = j" by (metis linorder_less_linear)
qed

lemma place_step: "place w i + of_nat w = place w (Suc i)" "0 < i \<Longrightarrow> place w i - of_nat w = place w (i - 1)"
  by (simp_all add: place_def algebra_simps)

lemma element_pos:
  assumes "fits n w B" and "k < n"
  shows "element B (of_nat w) (place w k) = elements n w B ! k"
proof -
  have "w \<le> n * w" using assms(2) by (cases n) auto
  moreover have "n * w < 2 ^ 15" using assms(1) by (simp add: fits_def)
  moreover have "k * w < 2 ^ 15" by (rule place_bound [of n]) (use assms in \<open>simp_all add: fits_def\<close>)
  ultimately have "w < 2 ^ 15" "k * w < 2 ^ 15" by linarith+
  then have "w < 2 ^ 16" "k * w < 2 ^ 16" by simp_all
  then show ?thesis
    using assms(2) by (simp add: element_def place_def elements_nth unat_small16 del: of_nat_mult)
qed

lemma chunk_store:
  assumes "length B = n * w" and "length X = w" and "j < n" and "k < n"
  shows "take w (drop (k * w) (store (j * w) X B)) = (if k = j then X else take w (drop (k * w) B))"
proof -
  have e: "Suc i * w \<le> n * w" if "i < n" for i using that by (intro mult_le_mono1) simp
  consider "k = j" | "k < j" | "j < k" by linarith
  then show ?thesis
  proof cases
    case 1
    moreover have "j * w \<le> n * w" using assms(3) by (intro mult_le_mono1) simp
    ultimately show ?thesis using assms(1,2) by (simp add: store_def)
  next
    case 2
    then have "Suc k * w \<le> j * w" by (intro mult_le_mono1) simp
    with e [OF assms(3)] 2 assms(1,2) show ?thesis by (simp add: store_def drop_take)
  next
    case 3
    then have "j * w + w \<le> k * w" using mult_le_mono1 [of "Suc j" k w] by simp
    with e [OF assms(3)] 3 assms(1,2) show ?thesis by (simp add: drop_store)
  qed
qed

lemma swap_places:
  assumes "fits n w B" and "i < n" and "j < n"
  shows "elements n w (swap_elements (place w i) (place w j) (of_nat w) B)
      = (elements n w B)[i := elements n w B ! j, j := elements n w B ! i]"
    and "fits n w (swap_elements (place w i) (place w j) (of_nat w) B)"
proof -
  let ?es = "elements n w B"
  have b: "length B = n * w" using assms(1) by (simp add: fits_def)
  have u: "unat (place w k) = k * w" if "k < n" for k
    unfolding place_def
    by (rule unat_small16) (use place_bound [of n w k] that assms(1) in \<open>simp add: fits_def\<close>)
  have l: "length (?es ! k) = w" if "k < n" for k
    using mult_le_mono1 [of "Suc k" n w] that b by (simp add: elements_nth)
  define B1 where "B1 = store (i * w) (?es ! j) B"
  have sw: "swap_elements (place w i) (place w j) (of_nat w) B = store (j * w) (?es ! i) B1"
    using assms by (simp add: swap_elements_def element_pos u B1_def)
  have ln: "length (store (k * w) X C) = length C" if "length X = w" "k < n" "length C = n * w" for k X and C :: "BYTE list"
    using mult_le_mono1 [of "Suc k" n w] that by (intro length_store) simp
  have b1: "length B1 = n * w" using ln [of "?es ! j" i B] l assms b by (simp add: B1_def)
  then show "fits n w (swap_elements (place w i) (place w j) (of_nat w) B)"
    using ln [of "?es ! i" j B1] l assms by (simp add: fits_def sw)
  show "elements n w (swap_elements (place w i) (place w j) (of_nat w) B) = ?es[i := ?es ! j, j := ?es ! i]"
  proof (rule nth_equalityI)
    fix k
    assume "k < length (elements n w (swap_elements (place w i) (place w j) (of_nat w) B))"
    then have k: "k < n" by simp
    then show "elements n w (swap_elements (place w i) (place w j) (of_nat w) B) ! k = ?es[i := ?es ! j, j := ?es ! i] ! k"
      using chunk_store [OF b1 l assms(3) k, of i] chunk_store [OF b l assms(2) k, of j] assms(2,3)
      by (simp add: sw elements_nth B1_def nth_list_update)
  qed simp
qed

section \<open>The inner loops\<close>

text \<open>
  A comparison that orders: of two elements at most one comes before the other, and what does not
  come before is transitive.
\<close>

definition before :: "comparison \<Rightarrow> BYTE list \<Rightarrow> BYTE list \<Rightarrow> bool" where
  "before cmp x y \<longleftrightarrow> cmp x y <s 0"

definition ordering_cmp :: "comparison \<Rightarrow> bool" where
  "ordering_cmp cmp \<longleftrightarrow> (\<forall>x y. before cmp x y \<longrightarrow> \<not> before cmp y x)
     \<and> (\<forall>x y z. \<not> before cmp y x \<longrightarrow> \<not> before cmp z y \<longrightarrow> \<not> before cmp z x)"

lemma element_split:
  assumes "fits n w B" and "elements n w B = xs @ x # ys"
  shows "element B (of_nat w) (place w (length xs)) = x"
proof -
  have "length xs < n" using arg_cong [OF assms(2), of length] by simp
  with element_pos [OF assms(1)] assms(2) show ?thesis by simp
qed

lemma element_compare:
  assumes "fits n w B" and "elements n w B = X @ key # Y" and "elements n w B = P @ a # M"
  shows "cmp (element B (of_nat w) (place w (length X))) (element B (of_nat w) (place w (length P))) <s 0 \<longleftrightarrow> before cmp key a"
  using element_split [OF assms(1,2)] element_split [OF assms(1,3)] by (simp add: before_def)

lemma scan_up_elements:
  assumes f: "fits n w B" and "elements n w B = P @ M @ Q" and key: "elements n w B = X @ key # Y" and "P \<noteq> []"
  shows "\<exists>M1 M2. M = M1 @ M2 \<and> list_all (\<lambda>x. \<not> before cmp key x) M1 \<and> (M2 = [] \<or> before cmp key (hd M2))
    \<and> scan_up cmp B (of_nat w) (place w (length X)) (place w (length P)) (place w (length P + length M - 1))
      = Some (place w (length P + length M1))"
  using assms(2,4)
proof (induction M arbitrary: P)
  case Nil
  have "length P + length Q = n" using arg_cong [OF Nil(1), of length] by simp
  then have "\<not> place w (length P) <=s place w (length P - 1)"
    using f Nil(2) by (subst place_le [of w n]) (auto simp: fits_def neq_Nil_conv)
  then show ?case by (subst scan_up.simps) simp
next
  case (Cons a M)
  have n: "length P + length M + length Q + 1 = n" using arg_cong [OF Cons.prems(1), of length] by simp
  then have le: "place w (length P) <=s place w (length P + length M)"
    using f by (subst place_le [of w n]) (auto simp: fits_def)
  have cmp: "cmp (element B (of_nat w) (place w (length X))) (element B (of_nat w) (place w (length P))) <s 0 \<longleftrightarrow> before cmp key a"
    using element_compare [OF f key, of P a "M @ Q"] Cons.prems(1) by simp
  show ?case
  proof (cases "before cmp key a")
    case True
    then show ?thesis
      using le cmp by (intro exI [of _ "[]"] exI [of _ "a # M"], subst scan_up.simps) simp
  next
    case False
    have "elements n w B = (P @ [a]) @ M @ Q" using Cons.prems(1) by simp
    from Cons.IH [OF this] have "\<exists>M1 M2. M = M1 @ M2 \<and> list_all (\<lambda>x. \<not> before cmp key x) M1
        \<and> (M2 = [] \<or> before cmp key (hd M2))
        \<and> scan_up cmp B (of_nat w) (place w (length X)) (place w (Suc (length P))) (place w (length P + length M))
          = Some (place w (Suc (length P + length M1)))"
      by simp
    then obtain M1 M2 where
      h: "M = M1 @ M2" "list_all (\<lambda>x. \<not> before cmp key x) M1" "M2 = [] \<or> before cmp key (hd M2)"
        "scan_up cmp B (of_nat w) (place w (length X)) (place w (Suc (length P))) (place w (length P + length M))
         = Some (place w (Suc (length P + length M1)))"
      by blast
    have "scan_up cmp B (of_nat w) (place w (length X)) (place w (length P)) (place w (length P + length M))
        = Some (place w (Suc (length P + length M1)))"
      using le cmp False h(4) by (subst scan_up.simps) (simp add: place_step)
    then show ?thesis using h(1-3) False by (intro exI [of _ "a # M1"] exI [of _ M2]) simp
  qed
qed

lemma scan_down_elements:
  assumes f: "fits n w B" and "elements n w B = P @ M @ Q" and key: "elements n w B = X @ key # Y" and "P \<noteq> []"
  shows "\<exists>M1 M2. M = M1 @ M2 \<and> list_all (before cmp key) M2 \<and> (M1 = [] \<or> \<not> before cmp key (last M1))
    \<and> scan_down cmp B (of_nat w) (place w (length X)) (place w (length P)) (place w (length P + length M - 1))
      = Some (place w (length P + length M1 - 1))"
  using assms(2)
proof (induction M arbitrary: Q rule: rev_induct)
  case Nil
  have "length P + length Q = n" using arg_cong [OF Nil, of length] by simp
  then have "\<not> place w (length P) <=s place w (length P - 1)"
    using f assms(4) by (subst place_le [of w n]) (auto simp: fits_def neq_Nil_conv)
  then show ?case by (subst scan_down.simps) simp
next
  case (snoc a M)
  have n: "length P + length M + length Q + 1 = n" using arg_cong [OF snoc.prems, of length] by simp
  then have le: "place w (length P) <=s place w (length P + length M)"
    using f by (subst place_le [of w n]) (auto simp: fits_def)
  have cmp: "cmp (element B (of_nat w) (place w (length X))) (element B (of_nat w) (place w (length P + length M))) <s 0 \<longleftrightarrow> before cmp key a"
    using element_compare [OF f key, of "P @ M" a Q] snoc.prems by simp
  show ?case
  proof (cases "before cmp key a")
    case False
    then show ?thesis
      using le cmp by (intro exI [of _ "M @ [a]"] exI [of _ "[]"], subst scan_down.simps) simp
  next
    case True
    have "elements n w B = P @ M @ (a # Q)" using snoc.prems by simp
    from snoc.IH [OF this] obtain M1 M2 where
      h: "M = M1 @ M2" "list_all (before cmp key) M2" "M1 = [] \<or> \<not> before cmp key (last M1)"
        "scan_down cmp B (of_nat w) (place w (length X)) (place w (length P)) (place w (length P + length M - 1))
         = Some (place w (length P + length M1 - 1))"
      by blast
    have "scan_down cmp B (of_nat w) (place w (length X)) (place w (length P)) (place w (length P + length M))
        = Some (place w (length P + length M1 - 1))"
      using le cmp True h(4) assms(4) by (subst scan_down.simps) (simp add: place_step)
    then show ?thesis using h(1-3) True by (intro exI [of _ M1] exI [of _ "M2 @ [a]"]) simp
  qed
qed

corollary scan_up_at:
  assumes "fits n w B" and "elements n w B = P @ M @ Q" and "elements n w B = X @ key # Y" and "P \<noteq> []"
    and "p = length X" and "i = length P" and "j + 1 = length P + length M"
  shows "\<exists>M1 M2. M = M1 @ M2 \<and> list_all (\<lambda>x. \<not> before cmp key x) M1 \<and> (M2 = [] \<or> before cmp key (hd M2))
    \<and> scan_up cmp B (of_nat w) (place w p) (place w i) (place w j) = Some (place w (i + length M1))"
proof -
  have "j = length P + length M - 1" using assms(7) by simp
  with scan_up_elements [OF assms(1-4)] assms(5,6) show ?thesis by blast
qed

corollary scan_down_at:
  assumes "fits n w B" and "elements n w B = P @ M @ Q" and "elements n w B = X @ key # Y" and "P \<noteq> []"
    and "p = length X" and "i = length P" and "j + 1 = length P + length M"
  shows "\<exists>M1 M2. M = M1 @ M2 \<and> list_all (before cmp key) M2 \<and> (M1 = [] \<or> \<not> before cmp key (last M1))
    \<and> scan_down cmp B (of_nat w) (place w p) (place w i) (place w j) = Some (place w (i + length M1 - 1))"
proof -
  have "j = length P + length M - 1" using assms(7) by simp
  with scan_down_elements [OF assms(1-4)] assms(5,6) show ?thesis by blast
qed

section \<open>The partition\<close>

lemma list_swap:
  "(L @ x # U @ y # R)[length L := (L @ x # U @ y # R) ! (length L + length U + 1),
      length L + length U + 1 := (L @ x # U @ y # R) ! length L] = L @ y # U @ x # R"
  by (simp add: list_update_append nth_append)

lemma swap_split:
  assumes f: "fits n w B" and e: "elements n w B = L @ x # U @ y # R"
  defines "B' \<equiv> swap_elements (place w (length L)) (place w (length L + length U + 1)) (of_nat w) B"
  shows "elements n w B' = L @ y # U @ x # R" "fits n w B'"
proof -
  have "length L + length U + length R + 2 = n" using arg_cong [OF e, of length] by simp
  then have i: "length L < n" "length L + length U + 1 < n" by simp_all
  show "fits n w B'" unfolding B'_def by (rule swap_places(2) [OF f i])
  show "elements n w B' = L @ y # U @ x # R"
    unfolding B'_def swap_places(1) [OF f i] unfolding e by (rule list_swap)
qed

lemma partition_elements:
  assumes "fits n w B" and "elements n w B = P @ key # A @ M @ C @ Q"
    and "list_all (\<lambda>x. \<not> before cmp key x) A" and "list_all (before cmp key) C"
  shows "\<exists>B' A' C'. partition_loop cmp (of_nat w) (place w (length P)) (place w (length P + 1 + length A))
        (place w (length P + length A + length M)) B = Some (B', place w (length P + length A'))
      \<and> fits n w B' \<and> elements n w B' = P @ key # A' @ C' @ Q \<and> mset (A' @ C') = mset (A @ M @ C)
      \<and> list_all (\<lambda>x. \<not> before cmp key x) A' \<and> list_all (before cmp key) C'"
  using assms
proof (induction "length M" arbitrary: B A M C rule: less_induct)
  case less
  note f = less.prems(1) and e = less.prems(2)
  let ?lo = "place w (length P)" and ?i = "length P + 1 + length A"
  have n: "?i + length M + length C + length Q = n" using arg_cong [OF e, of length] by simp
  have cmp_le: "place w a <=s place w b \<longleftrightarrow> a \<le> b" if "a \<le> n" "b \<le> n" for a b
    using f that by (subst place_le [of w n]) (auto simp: fits_def)
  show ?case
  proof (cases "M = []")
    case True
    then have "\<not> place w ?i <=s place w (length P + length A)" using n by (subst cmp_le) auto
    then have "partition_loop cmp (of_nat w) ?lo (place w ?i) (place w (length P + length A + length M)) B
        = Some (B, place w (length P + length A))"
      using True by (subst partition_loop.simps) simp
    then show ?thesis using less.prems True by - (rule exI [of _ B], rule exI [of _ A], rule exI [of _ C], simp)
  next
    case False
    have le: "place w ?i <=s place w (length P + length A + length M)"
      using n False by (subst cmp_le) (auto simp: neq_Nil_conv)
    obtain M1 M2 where m: "M = M1 @ M2" "list_all (\<lambda>x. \<not> before cmp key x) M1" "M2 = [] \<or> before cmp key (hd M2)"
        and up: "scan_up cmp B (of_nat w) ?lo (place w ?i) (place w (length P + length A + length M)) = Some (place w (?i + length M1))"
    proof -
      have "elements n w B = (P @ key # A) @ M @ (C @ Q)" "P @ key # A \<noteq> []" "?i = length (P @ key # A)"
        "length P + length A + length M + 1 = length (P @ key # A) + length M"
        using e by simp_all
      from scan_up_at [OF f this(1) e this(2) refl this(3,4), of cmp] that show thesis by blast
    qed
    obtain M3 M4 where m2: "M2 = M3 @ M4" "list_all (before cmp key) M4" "M3 = [] \<or> \<not> before cmp key (last M3)"
        and down: "scan_down cmp B (of_nat w) ?lo (place w (?i + length M1)) (place w (length P + length A + length M))
          = Some (place w (?i + length M1 + length M3 - 1))"
    proof -
      have "elements n w B = (P @ key # A @ M1) @ M2 @ (C @ Q)" "P @ key # A @ M1 \<noteq> []" "?i + length M1 = length (P @ key # A @ M1)"
        "length P + length A + length M + 1 = length (P @ key # A @ M1) + length M2"
        using e m(1) by simp_all
      from scan_down_at [OF f this(1) e this(2) refl this(3,4), of cmp] that show thesis by blast
    qed
    have unf: "partition_loop cmp (of_nat w) ?lo (place w ?i) (place w (length P + length A + length M)) B
        = (if place w (?i + length M1) <=s place w (?i + length M1 + length M3 - 1)
           then partition_loop cmp (of_nat w) ?lo (place w (?i + length M1) + of_nat w) (place w (?i + length M1 + length M3 - 1) - of_nat w)
             (swap_elements (place w (?i + length M1)) (place w (?i + length M1 + length M3 - 1)) (of_nat w) B)
           else partition_loop cmp (of_nat w) ?lo (place w (?i + length M1)) (place w (?i + length M1 + length M3 - 1)) B)"
      by (subst partition_loop.simps) (simp only: le if_True up down Option.bind.bind_lunit)
    show ?thesis
    proof (cases "M3 = []")
      case True
      have gt: "\<not> place w (?i + length M1) <=s place w (?i + length M1 - 1)"
        using n m(1) m2(1) by (subst cmp_le) auto
      have "partition_loop cmp (of_nat w) ?lo (place w ?i) (place w (length P + length A + length M)) B
          = Some (B, place w (?i + length M1 - 1))"
        unfolding unf using True gt by (simp add: partition_loop.simps [of cmp _ _ _ _ B])
      with True e m m2 less.prems f show ?thesis
        by - (rule exI [of _ B], rule exI [of _ "A @ M1"], rule exI [of _ "M4 @ C"], simp add: add.assoc)
    next
      case M3: False
      have "hd M2 = hd M3" "M2 \<noteq> []" using M3 m2(1) by auto
      then have "before cmp key (hd M3)" "\<not> before cmp key (last M3)" using m(3) m2(3) M3 by auto
      then obtain x U y where u: "M3 = x # U @ [y]" and xy: "before cmp key x" "\<not> before cmp key y"
        using M3 by (cases M3; cases "tl M3" rule: rev_cases) auto
      let ?k = "?i + length M1"
      have k: "?k + length M3 - 1 = ?k + length U + 1" by (simp add: u)
      have ge: "place w ?k <=s place w (?k + length M3 - 1)"
        using n m(1) m2(1) u by (subst cmp_le) auto
      let ?B = "swap_elements (place w ?k) (place w (?k + length M3 - 1)) (of_nat w) B"
      have "elements n w B = (P @ key # A @ M1) @ x # U @ y # (M4 @ C @ Q)" using e m(1) m2(1) u by simp
      from swap_split [OF f this] k have sw: "elements n w ?B = P @ key # (A @ M1 @ [y]) @ U @ (x # M4 @ C) @ Q" "fits n w ?B"
        by (simp_all add: add.assoc)
      have "length U < length M" using m(1) m2(1) u by simp
      from less.hyps [OF this sw(2,1)] obtain B' A' C' where
        r: "partition_loop cmp (of_nat w) ?lo (place w (length P + 1 + length (A @ M1 @ [y]))) (place w (length P + length (A @ M1 @ [y]) + length U)) ?B
          = Some (B', place w (length P + length A'))"
        "fits n w B'" "elements n w B' = P @ key # A' @ C' @ Q" "mset (A' @ C') = mset ((A @ M1 @ [y]) @ U @ (x # M4 @ C))"
        "list_all (\<lambda>x. \<not> before cmp key x) A'" "list_all (before cmp key) C'"
        using less.prems(3,4) m(2) m2(2) xy by auto
      have "place w ?k + of_nat w = place w (length P + 1 + length (A @ M1 @ [y]))"
        "place w (?k + length M3 - 1) - of_nat w = place w (length P + length (A @ M1 @ [y]) + length U)"
        by (simp_all add: place_step u add.assoc)
      then have "partition_loop cmp (of_nat w) ?lo (place w ?i) (place w (length P + length A + length M)) B
          = Some (B', place w (length P + length A'))"
        unfolding unf using ge r(1) by simp
      moreover have "mset (A' @ C') = mset (A @ M @ C)" using r(4) m(1) m2(1) u by simp
      ultimately show ?thesis using r by blast
    qed
  qed
qed

section \<open>QuickSort\<close>

text \<open>Sorted: no element comes before one on its left.\<close>

definition sorted_by :: "comparison \<Rightarrow> BYTE list list \<Rightarrow> bool" where
  "sorted_by cmp es \<longleftrightarrow> sorted_wrt (\<lambda>x y. \<not> before cmp y x) es"

text \<open>The position before place 0 is the first of no place; QuickSort gets it for an empty part.\<close>

lemma fits_width: "fits n w B \<Longrightarrow> 0 < n \<Longrightarrow> w < 2 ^ 15"
proof -
  assume f: "fits n w B" "0 < n"
  then have "w \<le> n * w" "n * w < 2 ^ 15" by (simp_all add: fits_def)
  then show ?thesis by (rule le_less_trans)
qed

lemma sint_minus16: "w < 2 ^ 15 \<Longrightarrow> sint (- of_nat w :: 16 word) = - int w"
proof -
  assume w: "w < 2 ^ 15"
  have "(- of_nat w :: 16 word) = word_of_int (- int w)" by simp
  then have "sint (- of_nat w :: 16 word) = signed_take_bit 15 (- int w)"
    by (simp only: signed_of_int) simp
  also have "... = - int w" by (rule signed_take_bit_int_eq_self) (use w in simp_all)
  finally show ?thesis .
qed

lemma place_pred_less:
  assumes "fits n w B" and "0 < n" and "lo \<le> n" and "m \<le> n"
  shows "place w lo <s place w m - of_nat w \<longleftrightarrow> lo + 1 < m"
proof (cases m)
  case 0
  note sint_minus16 [OF fits_width [OF assms(1,2)]]
  moreover have "lo * w < 2 ^ 15" by (rule place_bound [of n]) (use assms in \<open>simp_all add: fits_def\<close>)
  ultimately show ?thesis
    using 0 by (simp add: place_def word_sless_alt sint_small16 del: of_nat_mult)
next
  case (Suc k)
  then have "place w m - of_nat w = place w k" by (simp add: place_step)
  moreover have "place w lo <s place w k \<longleftrightarrow> lo < k"
    using assms Suc by (intro place_le [of w n]) (simp_all add: fits_def)
  ultimately show ?thesis using Suc by simp
qed

text \<open>The swap after the partition brings the key between the two parts.\<close>

lemma pivot_swap:
  assumes f: "fits n w B" and e: "elements n w B = P @ key # A @ R"
  shows "\<exists>A' B'. (if place w (length P + length A) \<noteq> place w (length P)
      then swap_elements (place w (length P + length A)) (place w (length P)) (of_nat w) B else B) = B'
    \<and> fits n w B' \<and> elements n w B' = P @ A' @ key # R \<and> mset A' = mset A"
proof (cases A rule: rev_cases)
  case Nil
  then show ?thesis using assms by simp
next
  case (snoc A0 a)
  have n: "length P + length A + length R + 1 = n" using arg_cong [OF e, of length] by simp
  then have i: "length P + length A < n" "length P < n" by simp_all
  have ne: "place w (length P + length A) \<noteq> place w (length P)"
    using f n snoc by (subst place_le [of w n]) (auto simp: fits_def)
  have sw: "elements n w (swap_elements (place w (length P + length A)) (place w (length P)) (of_nat w) B)
      = P @ (a # A0) @ key # R"
    unfolding swap_places(1) [OF f i] unfolding e snoc by (simp add: list_update_append nth_append)
  show ?thesis unfolding if_P [OF ne]
    by (rule exI [of _ "a # A0"], rule exI, intro conjI, rule refl, rule swap_places(2) [OF f i], rule sw) (simp add: snoc)
qed

lemma sorted_by_join:
  assumes "ordering_cmp cmp" and "sorted_by cmp A" and "sorted_by cmp C"
    and "list_all (\<lambda>x. \<not> before cmp key x) A" and "list_all (before cmp key) C"
  shows "sorted_by cmp (A @ key # C)"
proof -
  have asym: "\<not> before cmp y x" if "before cmp x y" for x y
    using assms(1) that unfolding ordering_cmp_def by blast
  have "\<not> before cmp y x" if "x \<in> set A" "y \<in> set C" for x y
  proof -
    have "\<not> before cmp key x" "before cmp key y" using assms(4,5) that by (auto simp: list_all_iff)
    moreover from this(2) have "\<not> before cmp y key" by (rule asym)
    ultimately show ?thesis using assms(1) unfolding ordering_cmp_def by blast
  qed
  moreover have "\<not> before cmp y key" if "y \<in> set C" for y
    using assms(5) that by (intro asym) (simp add: list_all_iff)
  ultimately show ?thesis using assms(2-4) by (auto simp: sorted_by_def sorted_wrt_append list_all_iff)
qed

lemma list_all_mset: "mset xs = mset ys \<Longrightarrow> list_all p xs = list_all p ys"
  by (metis list_all_iff set_mset_mset)

lemma quicksort_elements:
  assumes "fits n w B" and "0 < n" and "ordering_cmp cmp" and "elements n w B = P @ S @ Q"
  shows "\<exists>B' S'. QuickSort cmp (of_nat w) (place w (length P)) (place w (length P + length S) - of_nat w) B = Some B'
    \<and> fits n w B' \<and> elements n w B' = P @ S' @ Q \<and> mset S' = mset S \<and> sorted_by cmp S'"
  using assms(1,4)
proof (induction "length S" arbitrary: P S Q B rule: less_induct)
  case less
  note f = less.prems(1) and e = less.prems(2)
  let ?lo = "place w (length P)" and ?hi = "place w (length P + length S) - of_nat w" and ?w = "of_nat w :: WORD"
  have "length P + length S + length Q = n" using arg_cong [OF e, of length] by simp
  then have lt: "?lo <s ?hi \<longleftrightarrow> length P + 1 < length P + length S"
    by (intro place_pred_less [OF f assms(2)]) simp_all
  show ?case
  proof (cases "length S < 2")
    case True
    then have "QuickSort cmp ?w ?lo ?hi B = Some B" using lt by (subst QuickSort.simps) simp
    moreover have "sorted_by cmp S" using True by (cases S) (auto simp: sorted_by_def)
    ultimately show ?thesis using less.prems by blast
  next
    case False
    then obtain key M where S: "S = key # M" "M \<noteq> []" by (cases S) auto
    have hi: "?hi = place w (length P + length M)" using S by (simp add: place_step)
    from e S have "elements n w B = P @ key # [] @ M @ [] @ Q" by simp
    from partition_elements [OF f this, of cmp] obtain B1 A C where
      part: "partition_loop cmp ?w ?lo (?lo + ?w) ?hi B = Some (B1, place w (length P + length A))"
      and B1: "fits n w B1" "elements n w B1 = P @ key # A @ C @ Q"
      and parts: "mset (A @ C) = mset M" "list_all (\<lambda>x. \<not> before cmp key x) A" "list_all (before cmp key) C"
      by (auto simp: hi place_step)
    have lm: "length M = length A + length C" using mset_eq_length [OF parts(1)] by simp
    from pivot_swap [OF B1] obtain A2 B2 where
      B2: "(if place w (length P + length A) \<noteq> ?lo then swap_elements (place w (length P + length A)) ?lo ?w B1 else B1) = B2"
      "fits n w B2" "elements n w B2 = P @ A2 @ key # C @ Q" and A2: "mset A2 = mset A" by blast
    have la: "length A2 = length A" by (rule mset_eq_length [OF A2])
    let ?j = "place w (length P + length A)"
    have j: "?j + ?w = place w (length P + length A + 1)" by (simp add: place_step)
    have "\<exists>B' A' C'. QuickSort cmp ?w ?lo ?hi B = Some B' \<and> fits n w B' \<and> elements n w B' = P @ (A' @ key # C') @ Q
        \<and> mset A' = mset A \<and> mset C' = mset C \<and> sorted_by cmp A' \<and> sorted_by cmp C'"
    proof (cases "?j * 2 > ?hi + ?lo")
      case True
      have "elements n w B2 = (P @ A2 @ [key]) @ C @ Q" using B2 by simp
      from less.hyps [OF _ B2(2) this] obtain B3 C3 where
        r: "QuickSort cmp ?w (?j + ?w) ?hi B2 = Some B3" "fits n w B3"
        and B3: "elements n w B3 = (P @ A2 @ [key]) @ C3 @ Q" and C3: "mset C3 = mset C" "sorted_by cmp C3"
        using S lm la by (auto simp: hi place_step j add.assoc)
      from B3 have "elements n w B3 = P @ A2 @ (key # C3 @ Q)" by simp
      from less.hyps [OF _ r(2) this] obtain B4 A4 where
        "QuickSort cmp ?w ?lo (?j - ?w) B3 = Some B4" "fits n w B4" "elements n w B4 = P @ A4 @ (key # C3 @ Q)"
        "mset A4 = mset A" "sorted_by cmp A4"
        using S lm la A2 by auto
      with r C3 part B2 True lt False show ?thesis
        by - (rule exI [of _ B4], rule exI [of _ A4], rule exI [of _ C3], subst QuickSort.simps, simp)
    next
      case False
      from less.hyps [OF _ B2(2,3)] obtain B3 A3 where
        r: "QuickSort cmp ?w ?lo (?j - ?w) B2 = Some B3" "fits n w B3"
        and B3: "elements n w B3 = P @ A3 @ key # C @ Q" and A3: "mset A3 = mset A" "sorted_by cmp A3"
        using S lm la A2 by auto
      have la3: "length A3 = length A" by (rule mset_eq_length [OF A3(1)])
      from B3 have "elements n w B3 = (P @ A3 @ [key]) @ C @ Q" by simp
      from less.hyps [OF _ r(2) this] obtain B4 C4 where
        "QuickSort cmp ?w (?j + ?w) ?hi B3 = Some B4" "fits n w B4" "elements n w B4 = (P @ A3 @ [key]) @ C4 @ Q"
        "mset C4 = mset C" "sorted_by cmp C4"
        using S lm la3 by (auto simp: hi place_step j add.assoc)
      with r A3 part B2 False lt \<open>\<not> length S < 2\<close> show ?thesis
        by - (rule exI [of _ B4], rule exI [of _ A3], rule exI [of _ C4], subst QuickSort.simps, simp)
    qed
    then obtain B' A' C' where
      r: "QuickSort cmp ?w ?lo ?hi B = Some B'" "fits n w B'" "elements n w B' = P @ (A' @ key # C') @ Q"
      and m: "mset A' = mset A" "mset C' = mset C" "sorted_by cmp A'" "sorted_by cmp C'" by blast
    have "sorted_by cmp (A' @ key # C')"
      using parts(2,3) list_all_mset [OF m(1)] list_all_mset [OF m(2)]
      by (intro sorted_by_join [OF assms(3) m(3,4)]) simp_all
    moreover have "mset (A' @ key # C') = mset S" using m(1,2) parts(1) S by simp
    ultimately show ?thesis using r by blast
  qed
qed

section \<open>bsearch\<close>

text \<open>The elements in the order the key needs: those before it, those equal to it, those after it.\<close>

definition searchable :: "comparison \<Rightarrow> BYTE list \<Rightarrow> BYTE list list \<Rightarrow> BYTE list list \<Rightarrow> BYTE list list \<Rightarrow> bool" where
  "searchable cmp key L E R \<longleftrightarrow> list_all (\<lambda>x. cmp x key <s 0) L \<and> list_all (\<lambda>x. cmp x key = 0) E
     \<and> list_all (\<lambda>x. \<not> cmp x key <s 0 \<and> cmp x key \<noteq> 0) R"

lemma searchable_nth:
  assumes "searchable cmp key L E R" and "k < length (L @ E @ R)"
  shows "cmp ((L @ E @ R) ! k) key <s 0 \<longleftrightarrow> k < length L"
    and "length L \<le> k \<Longrightarrow> cmp ((L @ E @ R) ! k) key = 0 \<longleftrightarrow> k < length L + length E"
  using assms by (auto simp: searchable_def list_all_length nth_append word_sless_alt)

lemma sint_pred16: "m < 2 ^ 15 \<Longrightarrow> sint (of_nat m - 1 :: 16 word) = int m - 1"
proof (cases m)
  case 0
  then show ?thesis by simp
next
  case (Suc k)
  moreover assume "m < 2 ^ 15"
  ultimately have "(of_nat m - 1 :: 16 word) = of_nat k" "k < 2 ^ 15" by simp_all
  then show ?thesis using Suc sint_small16 [of k] by simp
qed

lemma middle16:
  assumes "f < m" and "m \<le> 2 ^ 14"
  shows "word_of_int (sint ((of_nat m - 1) + of_nat f :: 16 word) sdiv 2) = (of_nat ((m - 1 + f) div 2) :: 16 word)"
proof -
  have "(of_nat m - 1) + of_nat f = (of_nat (m - 1 + f) :: 16 word)" using assms(1) by (simp add: of_nat_diff)
  moreover have "sint (of_nat (m - 1 + f) :: 16 word) = int (m - 1 + f)" using assms by (intro sint_small16) simp
  ultimately have "sint ((of_nat m - 1) + of_nat f :: 16 word) = int (m - 1 + f)" by (simp only:)
  moreover have "int k sdiv 2 = int (k div 2)" for k
    by (cases "k = 0") (simp_all add: signed_divide_int_def zdiv_int)
  ultimately have "sint ((of_nat m - 1) + of_nat f :: 16 word) sdiv 2 = int ((m - 1 + f) div 2)" by (simp only:)
  then show ?thesis by (simp only: of_int_of_nat_eq)
qed

lemma bsearch_loop_elements:
  assumes f: "fits n w B" and n: "n \<le> 2 ^ 14" and e: "elements n w B = L @ E @ R" and s: "searchable cmp key L E R"
    and "i \<le> length L" and "length L \<le> m" and "m \<le> n"
  shows "bsearch_loop cmp key B (of_nat w) (of_nat i) (of_nat m - 1) (m < length L + length E)
      = Some (of_nat (length L), E \<noteq> [])"
  using assms(5-7)
proof (induction "m - i" arbitrary: i m rule: less_induct)
  case less
  have b: "i < 2 ^ 15" "m < 2 ^ 15" using less.prems n by simp_all
  have le: "(of_nat i :: 16 word) <=s of_nat m - 1 \<longleftrightarrow> i < m"
    using sint_small16 [OF b(1)] sint_pred16 [OF b(2)] by (simp add: word_sle_eq)
  show ?case
  proof (cases "i < m")
    case False
    then have "i = length L" "m = length L" using less.prems by simp_all
    then show ?thesis using le False by (subst bsearch_loop.simps) simp
  next
    case True
    let ?c = "(m - 1 + i) div 2"
    have c: "i \<le> ?c" "?c < m" using True by simp_all
    then have cn: "?c < n" using less.prems(3) by simp
    have cur: "word_of_int (sint ((of_nat m - 1) + of_nat i :: 16 word) sdiv 2) = (of_nat ?c :: 16 word)"
      using True less.prems(3) n by (intro middle16) simp_all
    have "(of_nat ?c :: 16 word) * of_nat w = place w ?c" by (simp add: place_def)
    then have el: "element B (of_nat w) (of_nat ?c * of_nat w) = (L @ E @ R) ! ?c"
      using element_pos [OF f cn] e by simp
    have len: "?c < length (L @ E @ R)" using arg_cong [OF e, of length] cn by simp
    note cmp = searchable_nth [OF s len]
    have unf: "bsearch_loop cmp key B (of_nat w) (of_nat i) (of_nat m - 1) (m < length L + length E)
      = (if cmp ((L @ E @ R) ! ?c) key <s 0
         then bsearch_loop cmp key B (of_nat w) (of_nat ?c + 1) (of_nat m - 1) (m < length L + length E)
         else bsearch_loop cmp key B (of_nat w) (of_nat i) (of_nat ?c - 1)
           (m < length L + length E \<or> cmp ((L @ E @ R) ! ?c) key = 0))"
      using True by (subst bsearch_loop.simps) (simp only: le if_True Let_def cur el)
    show ?thesis
    proof (cases "?c < length L")
      case True
      have "bsearch_loop cmp key B (of_nat w) (of_nat (?c + 1)) (of_nat m - 1) (m < length L + length E)
          = Some (of_nat (length L), E \<noteq> [])"
        using True less.prems c by (intro less.hyps) linarith+
      then show ?thesis using True unfolding unf cmp(1) by (simp add: add.commute)
    next
      case False
      then have "(m < length L + length E \<or> cmp ((L @ E @ R) ! ?c) key = 0) = (?c < length L + length E)"
        using cmp(2) c by auto
      moreover have "bsearch_loop cmp key B (of_nat w) (of_nat i) (of_nat ?c - 1) (?c < length L + length E)
          = Some (of_nat (length L), E \<noteq> [])"
        using False less.prems c by (intro less.hyps) linarith+
      ultimately show ?thesis using False unfolding unf cmp(1) by simp
    qed
  qed
qed

section \<open>The functions of the library\<close>

text \<open>A comparison of the first bytes of two elements, for the examples.\<close>

definition byte_cmp :: comparison where
  "byte_cmp x y = ucast (hd x) - ucast (hd y)"

lemma byte_cmp_before: "before byte_cmp x y \<longleftrightarrow> hd x < hd y" "byte_cmp x y = 0 \<longleftrightarrow> hd x = hd y"
proof -
  let ?u = "\<lambda>b :: BYTE. int (unat b)"
  have e: "byte_cmp x y = of_int (?u (hd x) - ?u (hd y))" by (simp add: byte_cmp_def)
  have u: "0 \<le> ?u b" "?u b < 256" for b :: BYTE using BYTE_less [of b] by linarith+
  have "sint (byte_cmp x y) = signed_take_bit 15 (?u (hd x) - ?u (hd y))"
    unfolding e by (simp only: signed_of_int) simp
  also have "... = ?u (hd x) - ?u (hd y)"
  proof (rule signed_take_bit_int_eq_self)
    have "(2 :: int) ^ 15 = 32768" by simp
    then show "- (2 ^ 15) \<le> ?u (hd x) - ?u (hd y)" "?u (hd x) - ?u (hd y) < 2 ^ 15"
      using u [of "hd x"] u [of "hd y"] by linarith+
  qed
  finally have s: "sint (byte_cmp x y) = ?u (hd x) - ?u (hd y)" .
  show "before byte_cmp x y \<longleftrightarrow> hd x < hd y" 
    by (simp only: before_def word_sless_alt s word_less_nat_alt signed_0 diff_less_0_iff_less of_nat_less_iff)
  show "byte_cmp x y = 0 \<longleftrightarrow> hd x = hd y"
  proof
    assume "byte_cmp x y = 0"
    then have "sint (byte_cmp x y) = 0" by simp
    then show "hd x = hd y" by (simp only: s eq_iff_diff_eq_0 [symmetric] of_nat_eq_iff word_unat_eq_iff)
  qed (simp add: byte_cmp_def)
qed

lemma byte_cmp_ordering: "ordering_cmp byte_cmp"
  by (auto simp: ordering_cmp_def byte_cmp_before)

text \<open>
  C28: qsort. For every array the library's int can address and every comparison that orders, qsort
  returns, the array has the same elements as often as before, and none comes before one on its left.
\<close>

theorem qsort_sorts:
  assumes "fits n w B" and "ordering_cmp cmp"
  shows "\<exists>B'. qsort B (of_nat n) (of_nat w) cmp = Some B' \<and> fits n w B'
    \<and> mset (elements n w B') = mset (elements n w B) \<and> sorted_by cmp (elements n w B')"
proof (cases "n < 2")
  case True
  then have "qsort B (of_nat n) (of_nat w) cmp = Some B" by (auto simp: qsort_def less_2_cases_iff)
  moreover have "sorted_by cmp (elements n w B)"
    using True by (auto simp: sorted_by_def elements_def less_2_cases_iff)
  ultimately show ?thesis using assms(1) by blast
next
  case False
  have "n * 1 \<le> n * w" using assms(1) by (intro mult_le_mono2) (simp add: fits_def)
  moreover have "n * w < 2 ^ 15" using assms(1) by (simp add: fits_def)
  ultimately have "n < 2 ^ 15" by linarith
  then have n: "(of_nat n :: WORD) > 1" using False by (simp add: word_less_nat_alt unat_small16)
  have "(of_nat n - 1) * of_nat w = place w (0 + n) - of_nat w" by (simp add: place_def algebra_simps)
  then have q: "qsort B (of_nat n) (of_nat w) cmp = QuickSort cmp (of_nat w) (place w 0) (place w (0 + n) - of_nat w) B"
    using n by (simp add: qsort_def place_def)
  have "elements n w B = [] @ elements n w B @ []" by simp
  from quicksort_elements [OF assms(1) _ assms(2) this] obtain B' S' where
    "QuickSort cmp (of_nat w) (place w 0) (place w (0 + n) - of_nat w) B = Some B'" "fits n w B'" "elements n w B' = S'"
    "mset S' = mset (elements n w B)" "sorted_by cmp S'"
    using False by auto
  then show ?thesis using q by (intro exI [of _ B']) simp
qed

theorem qsort_sorts_witness:
  "\<exists>B'. qsort [3, 0, 1, 0, 2, 0] 3 2 byte_cmp = Some B' \<and> fits 3 2 B'
    \<and> mset (elements 3 2 B') = {#[1, 0], [2, 0], [3, 0]#} \<and> sorted_by byte_cmp (elements 3 2 B')"
proof -
  have "fits 3 2 [3, 0, 1, 0, 2, 0]" by (simp add: fits_def)
  note qsort_sorts [OF this byte_cmp_ordering]
  moreover have "mset (elements 3 2 [3, 0, 1, 0, 2, 0]) = {#[1, 0], [2, 0], [3, 0 :: BYTE]#}"
    by (simp add: elements_def numeral_2_eq_2 numeral_3_eq_3)
  ultimately show ?thesis by simp
qed

text \<open>
  C29: bsearch. In an array of at most 16384 elements that the key's comparison divides into those
  before it, those equal to it and those after it, bsearch returns the first equal element, or the
  null pointer when there is none.
\<close>

theorem bsearch_finds_first:
  assumes "fits n w B" and "n \<le> 2 ^ 14" and "elements n w B = L @ E @ R" and "searchable cmp key L E R"
  shows "bsearch key B (of_nat n) (of_nat w) cmp = Some (if E = [] then None else Some (of_nat (length L * w)))"
proof -
  have n: "length L + length E + length R = n" using arg_cong [OF assms(3), of length] by simp
  then have "(n < length L + length E) = False" by simp
  with bsearch_loop_elements [OF assms, of 0 n] n
  have "bsearch_loop cmp key B (of_nat w) 0 (of_nat n - 1) False = Some (of_nat (length L), E \<noteq> [])" by simp
  then show ?thesis by (simp add: bsearch_def)
qed

theorem bsearch_finds_first_witness:
  "bsearch [2] [1, 2, 2, 7] 4 1 byte_cmp = Some (Some 1)"
proof -
  have f: "fits 4 1 [1, 2, 2, 7]" by (simp add: fits_def)
  have e: "elements 4 1 [1, 2, 2, 7 :: BYTE] = [[1]] @ [[2], [2]] @ [[7]]"
    by (simp add: elements_def upt_rec)
  have "searchable byte_cmp [2] [[1]] [[2], [2]] [[7]]"
    using byte_cmp_before(1) by (simp add: searchable_def byte_cmp_before(2) before_def)
  from bsearch_finds_first [OF f _ e this] show ?thesis by simp
qed

end
