(* ===== verification/Lib_Scanf.thy ===== *)
theory Lib_Scanf
  imports Lib_Ctype
begin

text \<open>
  The scanf family of the cc65 library: _scanf.c. Its static variables are the record \<open>scan\<close>; the
  argument area a conversion writes to is its component \<open>sc_mem\<close>. The environment holds what the
  routine is given: the functions get and unget of the scanfdata with the data behind them (\<open>sc_src\<close>
  in the state), the memory the format is read from and the pointers of the variable arguments.
  As the C standard asks for, no conversion writes over the format. setjmp and longjmp are the
  outcome of a function: what longjmp skips is not done.
\<close>

section \<open>Data\<close>

definition EOF :: cint where "EOF = 0xFFFF"

text \<open>The bytes of character literals.\<close>

abbreviation ch :: "char \<Rightarrow> BYTE" where "ch \<equiv> of_char"

record 's scan_env =
  get_fun :: "'s \<Rightarrow> cint \<times> 's"
  unget_fun :: "cint \<Rightarrow> 's \<Rightarrow> cint \<times> 's"
  fmt_mem :: "WORD \<Rightarrow> BYTE"
  va_list :: "nat \<Rightarrow> WORD"

record 's scan =
  sc_format :: WORD
  sc_ap :: nat
  sc_F :: BYTE
  sc_CharCount :: WORD
  sc_C :: cint
  sc_Width :: WORD
  sc_IntVal :: DWORD
  sc_Assignments :: cint
  sc_IntBytes :: BYTE
  sc_Converted :: bool
  sc_Positive :: bool
  sc_NoAssign :: bool
  sc_Invert :: bool
  sc_CharSet :: "BYTE list"
  sc_errno :: cint
  sc_mem :: "WORD \<Rightarrow> BYTE"
  sc_src :: 's

datatype scan_rc = RC_OK | RC_NOCONV | RC_EOF

section \<open>Character sets\<close>

definition Bits :: "BYTE list" where
  "Bits = [0x01, 0x02, 0x04, 0x08, 0x10, 0x20, 0x40, 0x80]"

text \<open>The byte of a character in the set and the mask of its bit.\<close>

definition FindBit :: "BYTE \<Rightarrow> nat \<times> BYTE" where
  "FindBit c = (unat (drop_bit 3 c), Bits ! unat (c AND 7))"

definition AddCharToSet :: "BYTE \<Rightarrow> BYTE list \<Rightarrow> BYTE list" where
  "AddCharToSet c S = (case FindBit c of (x, m) \<Rightarrow> S[x := S ! x OR m])"

definition IsCharInSet :: "'s scan \<Rightarrow> bool" where
  "IsCharInSet st \<longleftrightarrow> hi (sc_C st) = 0 \<and> (case FindBit (lo (sc_C st)) of (x, m) \<Rightarrow> m AND sc_CharSet st ! x \<noteq> 0)"

definition InvertCharSet :: "BYTE list \<Rightarrow> BYTE list" where
  "InvertCharSet S = map (\<lambda>b. b XOR 0xFF) S"

section \<open>Input\<close>

definition PushBack :: "'s scan_env \<Rightarrow> 's scan \<Rightarrow> 's scan" where
  "PushBack E st = (if hi (sc_C st) \<noteq> 0 then st
     else st\<lparr>sc_src := snd (unget_fun E (ucast (lo (sc_C st))) (sc_src st)), sc_CharCount := sc_CharCount st - 1\<rparr>)"

definition ReadChar :: "'s scan_env \<Rightarrow> 's scan \<Rightarrow> 's scan" where
  "ReadChar E st = (case get_fun E (sc_src st) of (c, s) \<Rightarrow>
     st\<lparr>sc_src := s, sc_C := c, sc_CharCount := if hi c = 0xFF then sc_CharCount st else sc_CharCount st + 1\<rparr>)"

text \<open>CheckEnd: whether the scan goes on; at the end of the input it jumps out with RC_EOF.\<close>

definition CheckEnd :: "'s scan \<Rightarrow> bool" where
  "CheckEnd st \<longleftrightarrow> hi (sc_C st) = 0"

partial_function (option) SkipWhite :: "'s scan_env \<Rightarrow> 's scan \<Rightarrow> 's scan option" where
  "SkipWhite E st = (if isspace (sc_C st) then SkipWhite E (ReadChar E st) else Some st)"

definition ReadSign :: "'s scan_env \<Rightarrow> 's scan \<Rightarrow> 's scan" where
  "ReadSign E st = (
     if lo (sc_C st) = ch CHR ''-'' then (ReadChar E (st\<lparr>sc_Converted := True\<rparr>))\<lparr>sc_Positive := False\<rparr>
     else if lo (sc_C st) = ch CHR ''+'' then (ReadChar E (st\<lparr>sc_Converted := True\<rparr>))\<lparr>sc_Positive := True\<rparr>
     else st\<lparr>sc_Positive := True\<rparr>)"

section \<open>Integers\<close>

definition HexVal :: "BYTE \<Rightarrow> BYTE" where
  "HexVal c = (if isdigit (ucast c) then c - ch CHR ''0''
     else lo (tolower (ucast c)) - (ch CHR ''a'' - 10))"

text \<open>The loop of ReadInt, with its local counter of digits, an unsigned char.\<close>

partial_function (option) read_digits :: "'s scan_env \<Rightarrow> BYTE \<Rightarrow> BYTE \<Rightarrow> 's scan \<Rightarrow> (BYTE \<times> 's scan) option" where
  "read_digits E base n st = (
     if isxdigit (sc_C st) then
       let st = st\<lparr>sc_Width := sc_Width st + 1\<rparr>; val = HexVal (lo (sc_C st)) in
       if sc_Width st \<noteq> 0 \<and> val < base then
         read_digits E base (n + 1) (ReadChar E (st\<lparr>sc_IntVal := sc_IntVal st * ucast base + ucast val\<rparr>))
       else Some (n, st)
     else Some (n, st))"

definition ReadInt :: "'s scan_env \<Rightarrow> BYTE \<Rightarrow> 's scan \<Rightarrow> (scan_rc \<times> 's scan) option" where
  "ReadInt E base st = do {
     (n, st) \<leftarrow> read_digits E base 0 (st\<lparr>sc_IntVal := 0\<rparr>);
     Some (if n = 0 then (RC_NOCONV, st) else (RC_OK, st\<lparr>sc_Converted := True\<rparr>)) }"

text \<open>The bytes \<open>k\<close> to 0 of a value stored at a pointer.\<close>

primrec store_int :: "WORD \<Rightarrow> DWORD \<Rightarrow> nat \<Rightarrow> (WORD \<Rightarrow> BYTE) \<Rightarrow> WORD \<Rightarrow> BYTE" where
  "store_int p v 0 m = m(p := ucast v)"
| "store_int p v (Suc k) m = store_int p v k (m(p + of_nat (Suc k) := ucast (drop_bit (8 * Suc k) v)))"

text \<open>va_arg, done only when there is something to assign.\<close>

definition next_arg :: "'s scan_env \<Rightarrow> 's scan \<Rightarrow> WORD \<times> 's scan" where
  "next_arg E st = (if sc_NoAssign st then (0, st) else (va_list E (sc_ap st), st\<lparr>sc_ap := sc_ap st + 1\<rparr>))"

definition AssignInt :: "'s scan_env \<Rightarrow> 's scan \<Rightarrow> 's scan" where
  "AssignInt E st = (if sc_NoAssign st then st
     else case next_arg E st of (p, st) \<Rightarrow>
       st\<lparr>sc_mem := store_int p (sc_IntVal st) (unat (sc_IntBytes st)) (sc_mem st),
         sc_Assignments := sc_Assignments st + 1\<rparr>)"

text \<open>The base of %i, found from the first characters of the number.\<close>

definition find_base :: "'s scan_env \<Rightarrow> 's scan \<Rightarrow> BYTE \<times> 's scan" where
  "find_base E st = (
     if lo (sc_C st) = ch CHR ''0'' then
       let st = ReadChar E st in
       if lo (sc_C st) = ch CHR ''x'' \<or> lo (sc_C st) = ch CHR ''X'' then
         (16, ReadChar E (st\<lparr>sc_Converted := True\<rparr>))
       else (8, (PushBack E st)\<lparr>sc_C := ucast (ch CHR ''0'')\<rparr>)
     else (10, st))"

definition ScanInt :: "'s scan_env \<Rightarrow> BYTE \<Rightarrow> 's scan \<Rightarrow> (scan_rc \<times> 's scan) option" where
  "ScanInt E base st = do {
     st \<leftarrow> SkipWhite E st;
     let st = ReadSign E st;
     let (base, st) = (if base = 0 then find_base E st else (base, st));
     (rc, st) \<leftarrow> ReadInt E base st;
     Some (if rc \<noteq> RC_OK then (rc, st)
       else (RC_OK, AssignInt E (if sc_Positive st then st else st\<lparr>sc_IntVal := - sc_IntVal st\<rparr>))) }"

section \<open>The format\<close>

definition GetFormat :: "'s scan_env \<Rightarrow> 's scan \<Rightarrow> 's scan" where
  "GetFormat E st = st\<lparr>sc_format := sc_format st + 1, sc_F := fmt_mem E (sc_format st)\<rparr>"

text \<open>How a part of _scanf ends: with the next character of the format (with or without reading a
  character of the input first), at the label NoConv, or with the error exit.\<close>

datatype outcome = Continue | Again | NoConv | Exit

text \<open>The exit with errno set; the result is EOF.\<close>

definition bad_format :: "cint \<Rightarrow> 's scan \<Rightarrow> outcome \<times> 's scan" where
  "bad_format e st = (Exit, st\<lparr>sc_errno := e, sc_Assignments := EOF\<rparr>)"

partial_function (option) width_loop :: "'s scan_env \<Rightarrow> 's scan \<Rightarrow> 's scan option" where
  "width_loop E st = (
     let st = GetFormat E (st\<lparr>sc_Width := sc_Width st * 10 + ucast (sc_F st AND 0x0F)\<rparr>) in
     if isdigit (ucast (sc_F st)) then width_loop E st else Some st)"

definition length_modifier :: "'s scan_env \<Rightarrow> 's scan \<Rightarrow> 's scan" where
  "length_modifier E st = (let st = st\<lparr>sc_IntBytes := 1\<rparr> in
     if sc_F st = ch CHR ''h'' then
       GetFormat E (if fmt_mem E (sc_format st) = ch CHR ''h'' then st\<lparr>sc_IntBytes := 0, sc_format := sc_format st + 1\<rparr> else st)
     else if sc_F st = ch CHR ''l'' then
       GetFormat E ((if fmt_mem E (sc_format st) = ch CHR ''l'' then st\<lparr>sc_format := sc_format st + 1\<rparr> else st)\<lparr>sc_IntBytes := 3\<rparr>)
     else if sc_F st = ch CHR ''j'' then GetFormat E (st\<lparr>sc_IntBytes := 3\<rparr>)
     else if sc_F st = ch CHR ''z'' \<or> sc_F st = ch CHR ''t'' \<or> sc_F st = ch CHR ''L'' then GetFormat E st
     else st)"

section \<open>The conversions\<close>

text \<open>A character goes to the argument, which then points behind it.\<close>

definition put_char :: "WORD \<Rightarrow> 's scan \<Rightarrow> WORD \<times> 's scan" where
  "put_char S st = (if sc_NoAssign st then (S, st)
     else (S + 1, st\<lparr>sc_mem := (sc_mem st)(S := lo (sc_C st))\<rparr>))"

definition end_string :: "WORD \<Rightarrow> 's scan \<Rightarrow> 's scan" where
  "end_string S st = (if sc_NoAssign st then st
     else st\<lparr>sc_mem := (sc_mem st)(S := 0), sc_Assignments := sc_Assignments st + 1\<rparr>)"

partial_function (option) string_loop :: "'s scan_env \<Rightarrow> WORD \<Rightarrow> 's scan \<Rightarrow> (WORD \<times> 's scan) option" where
  "string_loop E S st = (
     if sc_C st \<noteq> EOF \<and> \<not> isspace (sc_C st) then
       let st = st\<lparr>sc_Width := sc_Width st + 1\<rparr> in
       if sc_Width st \<noteq> 0 then case put_char S st of (S, st) \<Rightarrow> string_loop E S (ReadChar E st)
       else Some (S, st)
     else Some (S, st))"

definition scan_string :: "'s scan_env \<Rightarrow> 's scan \<Rightarrow> (outcome \<times> 's scan) option" where
  "scan_string E st = do {
     st \<leftarrow> SkipWhite E st;
     if \<not> CheckEnd st then Some (NoConv, st)
     else case next_arg E (st\<lparr>sc_Converted := True\<rparr>) of (S, st) \<Rightarrow> do {
       (S, st) \<leftarrow> string_loop E S st;
       Some (Continue, end_string S st) } }"

partial_function (option) chars_loop :: "'s scan_env \<Rightarrow> WORD \<Rightarrow> 's scan \<Rightarrow> (bool \<times> 's scan) option" where
  "chars_loop E S st = (
     let st = st\<lparr>sc_Width := sc_Width st + 1\<rparr> in
     if sc_Width st = 0 then Some (True, st)
     else if \<not> CheckEnd st then Some (False, st)
     else case put_char S st of (S, st) \<Rightarrow> chars_loop E S (ReadChar E st))"

definition scan_chars :: "'s scan_env \<Rightarrow> bool \<Rightarrow> 's scan \<Rightarrow> (outcome \<times> 's scan) option" where
  "scan_chars E HaveWidth st = (let st = (if HaveWidth then st else st\<lparr>sc_Width := 0xFFFE\<rparr>) in
     if \<not> CheckEnd st then Some (NoConv, st)
     else case next_arg E (st\<lparr>sc_Converted := True\<rparr>) of (S, st) \<Rightarrow> do {
       (ok, st) \<leftarrow> chars_loop E S st;
       Some (if \<not> ok then (NoConv, st)
         else (Continue, if sc_NoAssign st then st else st\<lparr>sc_Assignments := sc_Assignments st + 1\<rparr>)) })"

lemma range_step: "a \<noteq> b \<Longrightarrow> unat (b - (a + 1 :: BYTE)) = unat (b - a) - 1"
  by (simp add: diff_diff_eq [symmetric] unat_minus_one)

text \<open>The set of a %[: all characters from one to another, and the loop over the format.\<close>

function add_range :: "BYTE \<Rightarrow> BYTE \<Rightarrow> BYTE list \<Rightarrow> BYTE list" where
  "add_range Start F S = (let S = AddCharToSet Start S in if Start = F then S else add_range (Start + 1) F S)"
  by auto

termination
  by (relation "measure (\<lambda>(a, b, S). unat (b - a))") (auto simp: range_step unat_gt_0)

declare add_range.simps [simp del]

partial_function (option) set_loop :: "'s scan_env \<Rightarrow> 's scan \<Rightarrow> 's scan option" where
  "set_loop E st = (
     if sc_F st \<noteq> 0 \<and> sc_F st \<noteq> ch CHR '']'' then
       if fmt_mem E (sc_format st) = ch CHR ''-'' then
         let Start = sc_F st; st = GetFormat E (st\<lparr>sc_format := sc_format st + 1\<rparr>) in
         if sc_F st = 0 \<or> sc_F st = ch CHR '']'' then
           set_loop E (st\<lparr>sc_CharSet := AddCharToSet (ch CHR ''-'') (AddCharToSet Start (sc_CharSet st))\<rparr>)
         else set_loop E (GetFormat E (st\<lparr>sc_CharSet := add_range Start (sc_F st) (sc_CharSet st)\<rparr>))
       else set_loop E (GetFormat E (st\<lparr>sc_CharSet := AddCharToSet (sc_F st) (sc_CharSet st)\<rparr>))
     else Some st)"

definition read_set :: "'s scan_env \<Rightarrow> 's scan \<Rightarrow> 's scan option" where
  "read_set E st = (let
     st = GetFormat E (st\<lparr>sc_CharSet := replicate 32 0\<rparr>);
     st = st\<lparr>sc_Invert := (sc_F st = ch CHR ''^'')\<rparr>;
     st = (if sc_Invert st then GetFormat E st else st);
     st = (if sc_F st = ch CHR '']'' then GetFormat E (st\<lparr>sc_CharSet := AddCharToSet (sc_F st) (sc_CharSet st)\<rparr>) else st) in
     do {
       st \<leftarrow> set_loop E st;
       let st = (if sc_F st = 0 then st\<lparr>sc_format := sc_format st - 1\<rparr> else st);
       Some (if sc_Invert st then st\<lparr>sc_CharSet := InvertCharSet (sc_CharSet st)\<rparr> else st) })"

partial_function (option) set_string :: "'s scan_env \<Rightarrow> WORD \<Rightarrow> bool \<Rightarrow> 's scan \<Rightarrow> (WORD \<times> bool \<times> 's scan) option" where
  "set_string E S Match st = (
     if IsCharInSet st then
       let st = st\<lparr>sc_Width := sc_Width st + 1\<rparr> in
       if sc_Width st \<noteq> 0 then
         case put_char S st of (S, st) \<Rightarrow> set_string E S True (ReadChar E (st\<lparr>sc_Converted := True\<rparr>))
       else Some (S, Match, st)
     else Some (S, Match, st))"

definition scan_set :: "'s scan_env \<Rightarrow> 's scan \<Rightarrow> (outcome \<times> 's scan) option" where
  "scan_set E st = do {
     st \<leftarrow> read_set E st;
     case next_arg E st of (S, st) \<Rightarrow> do {
       (S, Match, st) \<leftarrow> set_string E S False st;
       Some (if \<not> Match then (NoConv, st) else (Continue, end_string S st)) } }"

definition scan_pointer :: "'s scan_env \<Rightarrow> 's scan \<Rightarrow> (outcome \<times> 's scan) option" where
  "scan_pointer E st = do {
     st \<leftarrow> SkipWhite E st;
     if lo (sc_C st) \<noteq> ch CHR ''0'' then Some (NoConv, st)
     else let st = ReadChar E (st\<lparr>sc_Converted := True\<rparr>) in
       if lo (sc_C st) \<noteq> ch CHR ''x'' \<and> lo (sc_C st) \<noteq> ch CHR ''X'' then Some (NoConv, st)
       else do {
         (rc, st) \<leftarrow> ReadInt E 16 (ReadChar E st);
         Some (if rc \<noteq> RC_OK then (NoConv, st) else (Continue, AssignInt E st)) } }"

definition scan_count :: "'s scan_env \<Rightarrow> 's scan \<Rightarrow> outcome \<times> 's scan" where
  "scan_count E st = (let
     st = AssignInt E (st\<lparr>sc_IntVal := ucast (sc_CharCount st - (if sc_C st = EOF then 0 else 1))\<rparr>) in
     (Continue, if sc_NoAssign st then st else st\<lparr>sc_Assignments := sc_Assignments st - 1\<rparr>))"

definition scan_integer :: "'s scan_env \<Rightarrow> BYTE \<Rightarrow> 's scan \<Rightarrow> (outcome \<times> 's scan) option" where
  "scan_integer E base st = do {
     (rc, st) \<leftarrow> ScanInt E base st;
     Some (if rc = RC_OK then Continue else NoConv, st) }"

section \<open>_scanf\<close>

text \<open>The switch over the conversion specifier.\<close>

definition specifier :: "'s scan_env \<Rightarrow> bool \<Rightarrow> 's scan \<Rightarrow> (outcome \<times> 's scan) option" where
  "specifier E HaveWidth st = (
     if sc_F st = ch CHR ''d'' \<or> sc_F st = ch CHR ''u'' then scan_integer E 10 st
     else if sc_F st = ch CHR ''i'' then scan_integer E 0 st
     else if sc_F st = ch CHR ''o'' then scan_integer E 8 st
     else if sc_F st = ch CHR ''x'' \<or> sc_F st = ch CHR ''X'' then scan_integer E 16 st
     else if sc_F st = ch CHR ''s'' then scan_string E st
     else if sc_F st = ch CHR ''c'' then scan_chars E HaveWidth st
     else if sc_F st = ch CHR ''['' then scan_set E st
     else if sc_F st = ch CHR ''p'' then scan_pointer E st
     else if sc_F st = ch CHR ''n'' then Some (scan_count E st)
     else if sc_F st \<in> set (map ch ''SCaAeEfFgG'') then Some (bad_format ENOSYS st)
     else Some (bad_format EINVAL st))"

text \<open>A conversion behind its percent sign, when it is not %%.\<close>

definition conversion :: "'s scan_env \<Rightarrow> 's scan \<Rightarrow> (outcome \<times> 's scan) option" where
  "conversion E st = (let
     st = st\<lparr>sc_NoAssign := (sc_F st = ch CHR ''*'')\<rparr>;
     st = (if sc_NoAssign st then GetFormat E st else st);
     st = st\<lparr>sc_Width := 0xFFFF\<rparr>;
     HaveWidth = isdigit (ucast (sc_F st)) in
     do {
       st \<leftarrow> (if HaveWidth then width_loop E (st\<lparr>sc_Width := 0\<rparr>) else Some st);
       if sc_Width st = 0 then Some (bad_format EINVAL st)
       else specifier E HaveWidth (length_modifier E (st\<lparr>sc_Width := NOT (sc_Width st)\<rparr>)) })"

text \<open>The label Percent: a character that stands for itself.\<close>

definition literal :: "'s scan \<Rightarrow> outcome \<times> 's scan" where
  "literal st = (if sc_C st \<noteq> ucast (sc_F st) then NoConv else Again, st)"

definition directive :: "'s scan_env \<Rightarrow> 's scan \<Rightarrow> (outcome \<times> 's scan) option" where
  "directive E st = (
     if sc_F st \<noteq> ch CHR ''%'' then
       if isspace (ucast (sc_F st)) then do { st \<leftarrow> SkipWhite E st; Some (Continue, st) }
       else Some (literal st)
     else let st = GetFormat E st in
       if sc_F st = ch CHR ''%'' then Some (literal st) else conversion E st)"

partial_function (option) scan_loop :: "'s scan_env \<Rightarrow> 's scan \<Rightarrow> (outcome \<times> 's scan) option" where
  "scan_loop E st = (let st = GetFormat E st in
     if sc_F st = 0 then Some (Continue, st)
     else do {
       (r, st) \<leftarrow> directive E st;
       if r = Continue then scan_loop E st
       else if r = Again then scan_loop E (ReadChar E st)
       else Some (r, st) })"

definition scanf :: "'s scan_env \<Rightarrow> WORD \<Rightarrow> 's scan \<Rightarrow> (cint \<times> 's scan) option" where
  "scanf E format st = do {
     (r, st) \<leftarrow> scan_loop E (ReadChar E (st\<lparr>sc_format := format, sc_ap := 0, sc_Converted := False,
       sc_Assignments := 0, sc_CharCount := 0\<rparr>));
     let st = (if r = NoConv \<and> sc_C st = EOF \<and> \<not> sc_Converted st then st\<lparr>sc_Assignments := EOF\<rparr> else st);
     let st = PushBack E st;
     Some (sc_Assignments st, st) }"

end
