(* ===== verification/Lib_Scanf_Spec.thy ===== *)
theory Lib_Scanf_Spec
  imports Lib_Scanf
begin

text \<open>
  What the scanf functions promise: a format is a list of directives, and each directive takes a
  prefix of the input and may store bytes at the next argument. Theory Lib_Scanf_Refine shows that
  _scanf does this, with the format parsed and the input read one character at a time.
\<close>

section \<open>Directives\<close>

datatype scan_kind = Integer BYTE | String | Chars | Set "BYTE \<Rightarrow> bool" | Pointer | Count | Bad cint

text \<open>White space, a character that stands for itself, and a conversion: whether its assignment is
  suppressed, how many characters it may take, and the index of the last byte of an integer.\<close>

datatype directive = White | Literal BYTE | Convert bool nat nat scan_kind

text \<open>The characters of a format; behind its end there is a 0.\<close>

definition peek :: "BYTE list \<Rightarrow> BYTE" where
  "peek fs = (case fs of [] \<Rightarrow> 0 | c # _ \<Rightarrow> c)"

definition number :: "BYTE list \<Rightarrow> WORD" where
  "number ds = foldl (\<lambda>w c. w * 10 + ucast (c AND 0x0F)) 0 ds"

definition parse_width :: "BYTE list \<Rightarrow> WORD option \<times> BYTE list" where
  "parse_width fs = (if digit_char (peek fs) then (Some (number (takeWhile digit_char fs)), dropWhile digit_char fs)
     else (None, fs))"

definition parse_length :: "BYTE list \<Rightarrow> nat \<times> BYTE list" where
  "parse_length fs = (
     if peek fs = ch CHR ''h'' then if peek (tl fs) = ch CHR ''h'' then (0, tl (tl fs)) else (1, tl fs)
     else if peek fs = ch CHR ''l'' then (3, if peek (tl fs) = ch CHR ''l'' then tl (tl fs) else tl fs)
     else if peek fs = ch CHR ''j'' then (3, tl fs)
     else if peek fs \<in> set (map ch ''ztL'') then (1, tl fs)
     else (1, fs))"

text \<open>The items of a %[ set up to its closing bracket, or to the end of the format.\<close>

definition between :: "BYTE \<Rightarrow> BYTE \<Rightarrow> BYTE \<Rightarrow> bool" where
  "between a b c \<longleftrightarrow> unat (c - a) \<le> unat (b - a)"

fun set_items :: "BYTE list \<Rightarrow> (BYTE \<Rightarrow> bool) \<times> BYTE list" where
  "set_items [] = ((\<lambda>_. False), [])"
| "set_items (a # fs) = (
     if a = ch CHR '']'' then ((\<lambda>_. False), fs)
     else if peek fs = ch CHR ''-'' then
       if peek (tl fs) = 0 \<or> peek (tl fs) = ch CHR '']'' then ((\<lambda>c. c = a \<or> c = ch CHR ''-''), tl (tl fs))
       else case set_items (tl (tl fs)) of (P, r) \<Rightarrow> ((\<lambda>c. between a (peek (tl fs)) c \<or> P c), r)
     else case set_items fs of (P, r) \<Rightarrow> ((\<lambda>c. c = a \<or> P c), r))"

definition parse_set :: "BYTE list \<Rightarrow> (BYTE \<Rightarrow> bool) \<times> BYTE list" where
  "parse_set fs = (let
     inv = (peek fs = ch CHR ''^'');
     fs = (if inv then tl fs else fs);
     first = (peek fs = ch CHR '']'') in
     case set_items (if first then tl fs else fs) of (P, r) \<Rightarrow>
       ((\<lambda>c. (first \<and> c = ch CHR '']'' \<or> P c) \<noteq> inv), r))"

definition parse_kind :: "BYTE list \<Rightarrow> scan_kind \<times> BYTE list" where
  "parse_kind fs = (let c = peek fs; r = tl fs in
     if c = ch CHR ''d'' \<or> c = ch CHR ''u'' then (Integer 10, r)
     else if c = ch CHR ''i'' then (Integer 0, r)
     else if c = ch CHR ''o'' then (Integer 8, r)
     else if c = ch CHR ''x'' \<or> c = ch CHR ''X'' then (Integer 16, r)
     else if c = ch CHR ''s'' then (String, r)
     else if c = ch CHR ''c'' then (Chars, r)
     else if c = ch CHR ''['' then (case parse_set r of (P, r) \<Rightarrow> (Set P, r))
     else if c = ch CHR ''p'' then (Pointer, r)
     else if c = ch CHR ''n'' then (Count, r)
     else if c \<in> set (map ch ''SCaAeEfFgG'') then (Bad ENOSYS, r)
     else (Bad EINVAL, r))"

definition limit :: "WORD option \<Rightarrow> scan_kind \<Rightarrow> nat" where
  "limit w k = (case w of Some w \<Rightarrow> unat w | None \<Rightarrow> (case k of Chars \<Rightarrow> 1 | _ \<Rightarrow> 65535))"

definition parse_conversion :: "BYTE list \<Rightarrow> directive \<times> BYTE list" where
  "parse_conversion fs = (let
     skip = (peek fs = ch CHR ''*'');
     fs = (if skip then tl fs else fs) in
     case parse_width fs of (w, fs) \<Rightarrow>
       if w = Some 0 then (Convert skip 0 0 (Bad EINVAL), fs)
       else case parse_length fs of (n, fs) \<Rightarrow>
         case parse_kind fs of (k, fs) \<Rightarrow> (Convert skip (limit w k) n k, fs))"

lemma length_set_items: "length (snd (set_items fs)) \<le> length fs"
  by (induction fs rule: set_items.induct) (auto split: prod.splits)

lemma length_parse_conversion: "length (snd (parse_conversion fs)) \<le> length fs"
proof -
  have w: "length (snd (parse_width fs)) \<le> length fs" for fs
    by (simp add: parse_width_def length_dropWhile_le)
  have l: "length (snd (parse_length fs)) \<le> length fs" for fs
    by (simp add: parse_length_def)
  have s: "length (snd (parse_set fs)) \<le> length fs" for fs
    using length_set_items [of "tl fs"] length_set_items [of "tl (tl fs)"] length_set_items [of fs]
    by (auto simp: parse_set_def Let_def split: prod.splits)
  have k: "length (snd (parse_kind fs)) \<le> length fs" for fs
    using s [of "tl fs"] by (auto simp: parse_kind_def Let_def split: prod.splits)
  show ?thesis
    using w [of fs] w [of "tl fs"] l [of "snd (parse_width fs)"] l [of "snd (parse_width (tl fs))"]
      k [of "snd (parse_length (snd (parse_width fs)))"] k [of "snd (parse_length (snd (parse_width (tl fs))))"]
    by (auto simp: parse_conversion_def Let_def split: prod.splits)
qed

function parse_format :: "BYTE list \<Rightarrow> directive list" where
  "parse_format [] = []"
| "parse_format (c # fs) = (
     if c \<noteq> ch CHR ''%'' then (if white c then White else Literal c) # parse_format fs
     else if peek fs = ch CHR ''%'' then Literal (ch CHR ''%'') # parse_format (tl fs)
     else case parse_conversion fs of (d, fs) \<Rightarrow> d # parse_format fs)"
  by pat_completeness auto

termination
proof (relation "measure length")
  fix c fs d r
  assume "(d, r) = parse_conversion fs"
  then show "(r, c # fs) \<in> measure length" using length_parse_conversion [of fs] by (metis in_measure le_imp_less_Suc length_Cons snd_conv)
qed auto

section \<open>What the directives do\<close>

text \<open>The input left, how much was taken, whether a conversion was done, and what was assigned.\<close>

record scanned =
  sp_in :: "BYTE list"
  sp_used :: nat
  sp_conv :: bool
  sp_count :: cint
  sp_arg :: nat
  sp_mem :: "WORD \<Rightarrow> BYTE"
  sp_errno :: cint

definition consume :: "nat \<Rightarrow> scanned \<Rightarrow> scanned" where
  "consume k s = s\<lparr>sp_in := drop k (sp_in s), sp_used := sp_used s + min k (length (sp_in s))\<rparr>"

definition skip_white :: "scanned \<Rightarrow> scanned" where
  "skip_white s = consume (length (takeWhile white (sp_in s))) s"

definition converted :: "scanned \<Rightarrow> scanned" where
  "converted s = s\<lparr>sp_conv := True\<rparr>"

primrec store_bytes :: "WORD \<Rightarrow> BYTE list \<Rightarrow> (WORD \<Rightarrow> BYTE) \<Rightarrow> WORD \<Rightarrow> BYTE" where
  "store_bytes p [] m = m"
| "store_bytes p (b # bs) m = store_bytes (p + 1) bs (m(p := b))"

text \<open>Bytes stored at the next argument, and counted as an assignment or not.\<close>

definition assign :: "(nat \<Rightarrow> WORD) \<Rightarrow> bool \<Rightarrow> BYTE list \<Rightarrow> cint \<Rightarrow> scanned \<Rightarrow> scanned" where
  "assign va skip bs n s = (if skip then s
     else s\<lparr>sp_mem := store_bytes (va (sp_arg s)) bs (sp_mem s), sp_arg := sp_arg s + 1, sp_count := sp_count s + n\<rparr>)"

definition int_bytes :: "nat \<Rightarrow> DWORD \<Rightarrow> BYTE list" where
  "int_bytes n v = map (\<lambda>i. ucast (drop_bit (8 * i) v)) [0..<n + 1]"

definition digits_in :: "BYTE \<Rightarrow> nat \<Rightarrow> BYTE list \<Rightarrow> BYTE list" where
  "digits_in base w xs = takeWhile (\<lambda>c. hex_char c \<and> HexVal c < base) (take w xs)"

definition value_of :: "BYTE \<Rightarrow> BYTE list \<Rightarrow> DWORD" where
  "value_of base ds = foldl (\<lambda>v c. v * ucast base + ucast (HexVal c)) 0 ds"

text \<open>An optional sign, and whether it was a minus.\<close>

definition take_sign :: "scanned \<Rightarrow> bool \<times> scanned" where
  "take_sign s = (
     if peek (sp_in s) = ch CHR ''-'' then (True, consume 1 (converted s))
     else if peek (sp_in s) = ch CHR ''+'' then (False, consume 1 (converted s))
     else (False, s))"

definition take_base :: "BYTE \<Rightarrow> scanned \<Rightarrow> BYTE \<times> scanned" where
  "take_base base s = (
     if base \<noteq> 0 then (base, s)
     else if peek (sp_in s) \<noteq> ch CHR ''0'' then (10, s)
     else if peek (tl (sp_in s)) \<in> set (map ch ''xX'') then (16, consume 2 (converted s))
     else (8, s))"

text \<open>The digits of a number. Their count is kept in 8 bits, so 256 of them count as none.\<close>

definition take_digits :: "BYTE \<Rightarrow> nat \<Rightarrow> scanned \<Rightarrow> DWORD option \<times> scanned" where
  "take_digits base w s = (let ds = digits_in base w (sp_in s); s = consume (length ds) s in
     if length ds mod 256 = 0 then (None, s) else (Some (value_of base ds), converted s))"

definition run_integer :: "(nat \<Rightarrow> WORD) \<Rightarrow> bool \<Rightarrow> nat \<Rightarrow> nat \<Rightarrow> BYTE \<Rightarrow> scanned \<Rightarrow> outcome \<times> scanned" where
  "run_integer va skip w n base s = (
     case take_sign (skip_white s) of (neg, s) \<Rightarrow>
     case take_base base s of (base, s) \<Rightarrow>
     case take_digits base w s of (v, s) \<Rightarrow>
       (case v of None \<Rightarrow> (NoConv, s)
        | Some v \<Rightarrow> (Continue, assign va skip (int_bytes n (if neg then - v else v)) 1 s)))"

definition run_string :: "(nat \<Rightarrow> WORD) \<Rightarrow> bool \<Rightarrow> nat \<Rightarrow> scanned \<Rightarrow> outcome \<times> scanned" where
  "run_string va skip w s = (let s = skip_white s; ws = takeWhile (\<lambda>c. \<not> white c) (take w (sp_in s)) in
     if sp_in s = [] then (NoConv, s)
     else (Continue, assign va skip (ws @ [0]) 1 (consume (length ws) (converted s))))"

definition run_chars :: "(nat \<Rightarrow> WORD) \<Rightarrow> bool \<Rightarrow> nat \<Rightarrow> scanned \<Rightarrow> outcome \<times> scanned" where
  "run_chars va skip w s = (
     if sp_in s = [] then (NoConv, s)
     else if length (sp_in s) < w then (NoConv, assign va skip (sp_in s) 0 (consume w (converted s)))
     else (Continue, assign va skip (take w (sp_in s)) 1 (consume w (converted s))))"

definition run_set :: "(nat \<Rightarrow> WORD) \<Rightarrow> bool \<Rightarrow> nat \<Rightarrow> (BYTE \<Rightarrow> bool) \<Rightarrow> scanned \<Rightarrow> outcome \<times> scanned" where
  "run_set va skip w P s = (let ws = takeWhile P (take w (sp_in s)) in
     if ws = [] then (NoConv, assign va skip [] 0 s)
     else (Continue, assign va skip (ws @ [0]) 1 (consume (length ws) (converted s))))"

definition run_pointer :: "(nat \<Rightarrow> WORD) \<Rightarrow> bool \<Rightarrow> nat \<Rightarrow> nat \<Rightarrow> scanned \<Rightarrow> outcome \<times> scanned" where
  "run_pointer va skip w n s = (let s = skip_white s in
     if peek (sp_in s) \<noteq> ch CHR ''0'' then (NoConv, s)
     else if peek (tl (sp_in s)) \<notin> set (map ch ''xX'') then (NoConv, consume 1 (converted s))
     else case take_digits 16 w (consume 2 (converted s)) of (v, s) \<Rightarrow>
       (case v of None \<Rightarrow> (NoConv, s) | Some v \<Rightarrow> (Continue, assign va skip (int_bytes n v) 1 s)))"

fun run_directive :: "(nat \<Rightarrow> WORD) \<Rightarrow> directive \<Rightarrow> scanned \<Rightarrow> outcome \<times> scanned" where
  "run_directive va White s = (Continue, skip_white s)"
| "run_directive va (Literal c) s = (if sp_in s \<noteq> [] \<and> hd (sp_in s) = c then (Continue, consume 1 s) else (NoConv, s))"
| "run_directive va (Convert skip w n (Integer base)) s = run_integer va skip w n base s"
| "run_directive va (Convert skip w n String) s = run_string va skip w s"
| "run_directive va (Convert skip w n Chars) s = run_chars va skip w s"
| "run_directive va (Convert skip w n (Set P)) s = run_set va skip w P s"
| "run_directive va (Convert skip w n Pointer) s = run_pointer va skip w n s"
| "run_directive va (Convert skip w n Count) s =
     (Continue, assign va skip (int_bytes n (ucast (of_nat (sp_used s) :: WORD))) 0 s)"
| "run_directive va (Convert skip w n (Bad e)) s = (Exit, s\<lparr>sp_errno := e, sp_count := EOF\<rparr>)"

primrec run_format :: "(nat \<Rightarrow> WORD) \<Rightarrow> directive list \<Rightarrow> scanned \<Rightarrow> outcome \<times> scanned" where
  "run_format va [] s = (Continue, s)"
| "run_format va (d # ds) s = (case run_directive va d s of (r, s) \<Rightarrow>
     if r = Continue then run_format va ds s else (r, s))"

text \<open>The result: EOF when the input ended before any conversion, else the number of assignments.\<close>

definition run_scanf :: "(nat \<Rightarrow> WORD) \<Rightarrow> directive list \<Rightarrow> BYTE list \<Rightarrow> (WORD \<Rightarrow> BYTE) \<Rightarrow> cint \<Rightarrow> scanned" where
  "run_scanf va ds xs m e = (
     case run_format va ds \<lparr>sp_in = xs, sp_used = 0, sp_conv = False, sp_count = 0, sp_arg = 0, sp_mem = m, sp_errno = e\<rparr>
     of (r, s) \<Rightarrow> if r = NoConv \<and> sp_in s = [] \<and> \<not> sp_conv s then s\<lparr>sp_count := EOF\<rparr> else s)"

end
