(* ===== verification/Lib_Scanf_Parse.thy ===== *)
theory Lib_Scanf_Parse
  imports Lib_Scanf_Spec
begin

text \<open>
  How _scanf reads its format: the sets of %[ as bits, and the width, the length modifier and the set
  read from memory a character at a time, against the parser of theory Lib_Scanf_Spec.
\<close>

lemma HexVal_digit: "HexVal c = (if digit_char c then c - 0x30 else lo (tolower (ucast c)) - 0x57)"
  by (simp add: HexVal_def)

section \<open>Sets of characters as bits\<close>

definition in_set :: "BYTE list \<Rightarrow> BYTE \<Rightarrow> bool" where
  "in_set S c \<longleftrightarrow> bit (S ! unat (drop_bit 3 c)) (unat (c AND 7))"

lemma set_place: "unat (drop_bit 3 c) < 32" "unat (c AND 7) < 8"
  "unat (drop_bit 3 c) = unat (drop_bit 3 d) \<and> unat (c AND 7) = unat (d AND 7) \<longleftrightarrow> c = (d :: BYTE)"
proof -
  have d: "unat (drop_bit 3 c) = unat c div 8" for c :: BYTE
    by (simp add: drop_bit_eq_div unat_div)
  have m: "unat (c AND 7) = unat c mod 8" for c :: BYTE
  proof -
    have "c AND 7 = take_bit 3 c" by (simp add: take_bit_eq_mask mask_eq_exp_minus_1)
    then show ?thesis by (simp add: take_bit_eq_mod unat_mod)
  qed
  show "unat (drop_bit 3 c) < 32" "unat (c AND 7) < 8" by (simp_all add: d m less_mult_imp_div_less)
  show "unat (drop_bit 3 c) = unat (drop_bit 3 d) \<and> unat (c AND 7) = unat (d AND 7) \<longleftrightarrow> c = d"
    unfolding d m by (metis div_mod_decomp word_unat_eq_iff)
qed

lemma Bits_nth: "i < 8 \<Longrightarrow> Bits ! i = push_bit i 1"
  by (auto simp: Bits_def less_Suc_eq numeral_eq_Suc)

lemma FindBit_bit: "(case FindBit c of (x, m) \<Rightarrow> m AND S ! x \<noteq> 0) = in_set S c"
  using set_place(2) [of c] by (simp add: FindBit_def in_set_def Bits_nth bit_iff_and_push_bit_not_eq_0 and.commute)

lemma length_AddCharToSet [simp]: "length (AddCharToSet c S) = length S"
  by (simp add: AddCharToSet_def split: prod.splits)

lemma in_AddCharToSet: "length S = 32 \<Longrightarrow> in_set (AddCharToSet c S) d \<longleftrightarrow> d = c \<or> in_set S d"
  using set_place(1,2) [of c] set_place(1,2) [of d] set_place(3) [of d c]
  by (auto simp: AddCharToSet_def FindBit_def in_set_def Bits_nth nth_list_update bit_simps)

lemma in_InvertCharSet: "length S = 32 \<Longrightarrow> in_set (InvertCharSet S) d \<longleftrightarrow> \<not> in_set S d"
proof -
  have "bit (0xFF :: BYTE) i" if "i < 8" for i
  proof -
    have "(0xFF :: BYTE) = - 1" by simp
    then show ?thesis using that by (simp only: bit_minus_1_iff) simp
  qed
  then show "length S = 32 \<Longrightarrow> in_set (InvertCharSet S) d \<longleftrightarrow> \<not> in_set S d"
    using set_place(1,2) [of d] by (simp add: InvertCharSet_def in_set_def bit_xor_iff)
qed

lemma in_empty_set: "\<not> in_set (replicate 32 0) d"
  using set_place(1) [of d] by (simp add: in_set_def)

lemma between_step: "a \<noteq> b \<Longrightarrow> between a b d \<longleftrightarrow> d = a \<or> between (a + 1) b d"
proof -
  assume ab: "a \<noteq> b"
  show ?thesis
  proof (cases "d = a")
    case False
    then have "0 < unat (d - a)" "0 < unat (b - a)" using ab by (simp_all add: unat_gt_0)
    then show ?thesis using False range_step [of a b] range_step [of a d] ab by (auto simp: between_def)
  qed (simp add: between_def)
qed

lemma in_add_range:
  "length S = 32 \<Longrightarrow> in_set (add_range a b S) d \<longleftrightarrow> between a b d \<or> in_set S d"
  "length (add_range a b S) = length S"
proof (induction a b S rule: add_range.induct)
  case (1 a b S)
  { case 1
    then show ?case
      using \<open>length S = 32\<close> "1.IH" [OF refl] between_step [of a b d]
      by (subst add_range.simps) (auto simp: Let_def in_AddCharToSet between_def unat_eq_zero)
  next
    case 2
    then show ?case using "1.IH" [OF refl] by (subst add_range.simps) (simp add: Let_def)
  }
qed

section \<open>The format in memory\<close>

text \<open>A string in memory with the 0 that ends it.\<close>

primrec string_in :: "(WORD \<Rightarrow> BYTE) \<Rightarrow> WORD \<Rightarrow> BYTE list \<Rightarrow> bool" where
  "string_in M p [] = (M p = 0)"
| "string_in M p (c # cs) = (M p = c \<and> c \<noteq> 0 \<and> string_in M (p + 1) cs)"

text \<open>\<open>sc_F\<close> is the first character left and \<open>sc_format\<close> points behind it.\<close>

definition current :: "'s scan_env \<Rightarrow> 's scan \<Rightarrow> BYTE list \<Rightarrow> bool" where
  "current E st fs \<longleftrightarrow> sc_F st = peek fs
     \<and> (if fs = [] then fmt_mem E (sc_format st - 1) = 0 else peek fs \<noteq> 0 \<and> string_in (fmt_mem E) (sc_format st) (tl fs))"

lemma string_in_peek: "string_in M p xs \<Longrightarrow> M p = peek xs" "string_in M p xs \<Longrightarrow> peek xs = 0 \<longleftrightarrow> xs = []"
  "string_in M p xs \<Longrightarrow> xs \<noteq> [] \<Longrightarrow> string_in M (p + 1) (tl xs)"
  by (cases xs; simp add: peek_def)+

lemma peek_simps [simp]: "peek [] = 0" "peek (c # cs) = c"
  by (simp_all add: peek_def)

lemma GetFormat_current:
  assumes "string_in (fmt_mem E) (sc_format st) fs"
  shows "current E (GetFormat E st) fs"
  using assms by (cases fs) (simp_all add: GetFormat_def current_def)

lemma current_next: "current E st (c # cs) \<Longrightarrow> string_in (fmt_mem E) (sc_format st) cs"
  by (simp add: current_def)

lemma current_F: "current E st fs \<Longrightarrow> sc_F st = peek fs"
  by (simp add: current_def)

lemma current_end: "current E st fs \<Longrightarrow> peek fs = 0 \<longleftrightarrow> fs = []"
  by (cases fs) (simp_all add: current_def)

lemma current_more: "current E st fs \<Longrightarrow> peek fs = b \<Longrightarrow> b \<noteq> 0 \<Longrightarrow> string_in (fmt_mem E) (sc_format st) (tl fs)"
  by (cases fs) (simp_all add: current_def)

lemma current_cong:
  "current E (st\<lparr>sc_Width := w\<rparr>) fs = current E st fs" "current E (st\<lparr>sc_NoAssign := b\<rparr>) fs = current E st fs"
  "current E (st\<lparr>sc_IntBytes := n\<rparr>) fs = current E st fs" "current E (st\<lparr>sc_CharSet := S\<rparr>) fs = current E st fs"
  "current E (st\<lparr>sc_Invert := b\<rparr>) fs = current E st fs"
  by (simp_all add: current_def)

text \<open>What reading the format leaves alone.\<close>

definition input_part :: "'s scan \<Rightarrow> 's scan" where
  "input_part st = st\<lparr>sc_format := 0, sc_F := 0, sc_Width := 0, sc_CharSet := [], sc_Invert := False\<rparr>"

lemma input_part_steps [simp]:
  "input_part (GetFormat E st) = input_part st" "input_part (st\<lparr>sc_Width := w\<rparr>) = input_part st"
  "input_part (st\<lparr>sc_CharSet := S\<rparr>) = input_part st" "input_part (st\<lparr>sc_Invert := i\<rparr>) = input_part st"
  "input_part (st\<lparr>sc_format := f\<rparr>) = input_part st"
  by (simp_all add: input_part_def GetFormat_def)

lemma GetFormat_frame [simp]:
  "sc_Width (GetFormat E st) = sc_Width st" "sc_CharSet (GetFormat E st) = sc_CharSet st"
  "sc_Invert (GetFormat E st) = sc_Invert st" "sc_NoAssign (GetFormat E st) = sc_NoAssign st"
  "sc_IntBytes (GetFormat E st) = sc_IntBytes st"
  by (simp_all add: GetFormat_def)

lemma width_loop_parse:
  assumes "current E st fs" and "digit_char (peek fs)"
  shows "\<exists>st'. width_loop E st = Some st' \<and> current E st' (dropWhile digit_char fs) \<and> input_part st' = input_part st
    \<and> sc_Width st' = foldl (\<lambda>w c. w * 10 + ucast (c AND 0x0F)) (sc_Width st) (takeWhile digit_char fs)"
  using assms
proof (induction fs arbitrary: st)
  case Nil
  then show ?case by (simp add: digit_char_def)
next
  case (Cons c cs)
  let ?st = "GetFormat E (st\<lparr>sc_Width := sc_Width st * 10 + ucast (c AND 0x0F)\<rparr>)"
  have F: "sc_F st = c" using current_F [OF Cons.prems(1)] by simp
  have cur: "current E ?st cs"
    by (rule GetFormat_current) (use current_next [OF Cons.prems(1)] in simp)
  have d: "isdigit (ucast (sc_F ?st)) \<longleftrightarrow> digit_char (peek cs)" using current_F [OF cur] by simp
  have unf: "width_loop E st = (if digit_char (peek cs) then width_loop E ?st else Some ?st)"
    by (subst width_loop.simps) (simp only: Let_def F d)
  have c: "digit_char c" using Cons.prems(2) by simp
  show ?case
  proof (cases "digit_char (peek cs)")
    case True
    from Cons.IH [OF cur True] c show ?thesis by (simp add: unf True)
  next
    case False
    then have "takeWhile digit_char cs = []" "dropWhile digit_char cs = cs" by (cases cs; simp)+
    with cur c show ?thesis by (simp add: unf False)
  qed
qed

text \<open>The state behind a set: \<open>]\<close> is the last character read, or the 0 at the end of the format.\<close>

definition set_read :: "'s scan_env \<Rightarrow> 's scan \<Rightarrow> BYTE list \<Rightarrow> bool" where
  "set_read E st r \<longleftrightarrow> (if sc_F st = 0 then r = [] \<and> fmt_mem E (sc_format st - 1) = 0
     else string_in (fmt_mem E) (sc_format st) r)"

lemma set_loop_parse:
  assumes "current E st fs" and "length (sc_CharSet st) = 32"
  shows "\<exists>st'. set_loop E st = Some st' \<and> set_read E st' (snd (set_items fs)) \<and> input_part st' = input_part st
    \<and> sc_Width st' = sc_Width st \<and> sc_Invert st' = sc_Invert st \<and> length (sc_CharSet st') = 32
    \<and> (\<forall>d. in_set (sc_CharSet st') d \<longleftrightarrow> fst (set_items fs) d \<or> in_set (sc_CharSet st) d)"
  using assms
proof (induction fs arbitrary: st rule: set_items.induct)
  case (1 st)
  then show ?case using current_F [OF 1(1)]
    by (subst set_loop.simps) (auto simp: set_read_def current_def)
next
  case (2 a fs st)
  note cur = 2(3) and len = 2(4)
  have F: "sc_F st = a" "a \<noteq> 0" using cur by (simp_all add: current_def)
  have nx: "string_in (fmt_mem E) (sc_format st) fs" by (rule current_next [OF cur])
  have pk: "fmt_mem E (sc_format st) = peek fs" by (rule string_in_peek(1) [OF nx])
  show ?case
  proof (cases "a = ch CHR '']''")
    case True
    then show ?thesis using F nx len by (subst set_loop.simps) (auto simp: set_read_def)
  next
    case item: False
    have unf: "set_loop E st = (if peek fs = ch CHR ''-'' then
         (let st = GetFormat E (st\<lparr>sc_format := sc_format st + 1\<rparr>) in
         if sc_F st = 0 \<or> sc_F st = ch CHR '']'' then
           set_loop E (st\<lparr>sc_CharSet := AddCharToSet (ch CHR ''-'') (AddCharToSet a (sc_CharSet st))\<rparr>)
         else set_loop E (GetFormat E (st\<lparr>sc_CharSet := add_range a (sc_F st) (sc_CharSet st)\<rparr>)))
       else set_loop E (GetFormat E (st\<lparr>sc_CharSet := AddCharToSet a (sc_CharSet st)\<rparr>)))"
      using F item by (subst set_loop.simps) (simp only: pk Let_def simp_thms if_True)
    show ?thesis
    proof (cases "peek fs = ch CHR ''-''")
      case False
      let ?st = "GetFormat E (st\<lparr>sc_CharSet := AddCharToSet a (sc_CharSet st)\<rparr>)"
      have "current E ?st fs" by (rule GetFormat_current) (use nx in simp)
      from 2(2) [OF item False this] len obtain st' where st':
        "set_loop E ?st = Some st'" "set_read E st' (snd (set_items fs))" "input_part st' = input_part st"
        "sc_Width st' = sc_Width st" "sc_Invert st' = sc_Invert st" "length (sc_CharSet st') = 32"
        "\<And>d. in_set (sc_CharSet st') d \<longleftrightarrow> fst (set_items fs) d \<or> d = a \<or> in_set (sc_CharSet st) d"
        by (auto simp: in_AddCharToSet)
      have "set_items (a # fs) = (\<lambda>c. c = a \<or> fst (set_items fs) c, snd (set_items fs))"
        using item False by (cases "set_items fs") simp
      moreover have "set_loop E st = Some st'" using False st'(1) by (simp only: unf if_False)
      ultimately show ?thesis using st'(2-7) by (intro exI [of _ st']) auto
    next
      case True
      let ?st = "GetFormat E (st\<lparr>sc_format := sc_format st + 1\<rparr>)"
      have tn: "string_in (fmt_mem E) (sc_format st + 1) (tl fs)"
        using string_in_peek(3) [OF nx] True by (cases fs) auto
      have c1: "current E ?st (tl fs)" by (rule GetFormat_current) (use tn in simp)
      show ?thesis
      proof (cases "peek (tl fs) = 0 \<or> peek (tl fs) = ch CHR '']''")
        case last: True
        let ?st2 = "?st\<lparr>sc_CharSet := AddCharToSet (ch CHR ''-'') (AddCharToSet a (sc_CharSet st))\<rparr>"
        have F2: "sc_F ?st2 = peek (tl fs)" using current_F [OF c1] by simp
        have "set_read E ?st2 (tl (tl fs))"
        proof (cases "peek (tl fs) = 0")
          case True
          then have "tl fs = []" using current_end [OF c1] by simp
          then show ?thesis using c1 by (simp add: set_read_def current_def)
        next
          case False
          then show ?thesis using F2 current_more [OF c1 refl] by (simp add: set_read_def)
        qed
        moreover have "set_loop E ?st2 = Some ?st2" using F2 last by (subst set_loop.simps) auto
        moreover have "set_loop E st = set_loop E ?st2" using F2 last by (simp add: unf True Let_def)
        moreover have "set_items (a # fs) = (\<lambda>c. c = a \<or> c = ch CHR ''-'', tl (tl fs))" using item True last by simp
        ultimately show ?thesis using len by (intro exI [of _ ?st2]) (auto simp: in_AddCharToSet)
      next
        case range: False
        let ?st3 = "GetFormat E (?st\<lparr>sc_CharSet := add_range a (peek (tl fs)) (sc_CharSet st)\<rparr>)"
        have "string_in (fmt_mem E) (sc_format ?st) (tl (tl fs))" by (rule current_more [OF c1 refl]) (use range in simp)
        then have c3: "current E ?st3 (tl (tl fs))" by (intro GetFormat_current) simp
        have "set_loop E st = set_loop E ?st3" using current_F [OF c1] range by (simp add: unf True Let_def)
        moreover have "set_items (a # fs) = (\<lambda>c. between a (peek (tl fs)) c \<or> fst (set_items (tl (tl fs))) c, snd (set_items (tl (tl fs))))"
          using item True range by (cases "set_items (tl (tl fs))") simp
        moreover from 2(1) [OF item True range c3] len obtain st' where
          "set_loop E ?st3 = Some st'" "set_read E st' (snd (set_items (tl (tl fs))))" "input_part st' = input_part st"
          "sc_Width st' = sc_Width st" "sc_Invert st' = sc_Invert st" "length (sc_CharSet st') = 32"
          "\<And>d. in_set (sc_CharSet st') d \<longleftrightarrow> fst (set_items (tl (tl fs))) d \<or> between a (peek (tl fs)) d \<or> in_set (sc_CharSet st) d"
          by (auto simp: in_add_range)
        ultimately show ?thesis by (intro exI [of _ st']) auto
      qed
    qed
  qed
qed

text \<open>A step over a character that is not the end.\<close>

lemma current_step:
  assumes "current E st fs" and "peek fs = b" and "b \<noteq> 0"
  shows "current E (GetFormat E st) (tl fs)"
  by (rule GetFormat_current) (rule current_more [OF assms])

lemma read_set_parse:
  assumes "string_in (fmt_mem E) (sc_format st) fs"
  shows "\<exists>st'. read_set E st = Some st' \<and> string_in (fmt_mem E) (sc_format st') (snd (parse_set fs))
    \<and> input_part st' = input_part st \<and> sc_Width st' = sc_Width st
    \<and> (\<forall>d. in_set (sc_CharSet st') d \<longleftrightarrow> fst (parse_set fs) d)"
proof -
  define st0 where "st0 = GetFormat E (st\<lparr>sc_CharSet := replicate 32 0\<rparr>)"
  have c0: "current E st0 fs" using assms by (simp add: st0_def GetFormat_current)
  define inv where "inv = (peek fs = ch CHR ''^'')"
  define fs1 where "fs1 = (if inv then tl fs else fs)"
  define st1 where "st1 = (if inv then GetFormat E (st0\<lparr>sc_Invert := inv\<rparr>) else st0\<lparr>sc_Invert := inv\<rparr>)"
  have c1: "current E st1 fs1"
    using c0 current_step [of E "st0\<lparr>sc_Invert := inv\<rparr>" fs "ch CHR ''^''"]
    by (auto simp: st1_def fs1_def current_cong inv_def)
  define first where "first = (peek fs1 = ch CHR '']'')"
  define fs2 where "fs2 = (if first then tl fs1 else fs1)"
  define st2 where "st2 = (if first then GetFormat E (st1\<lparr>sc_CharSet := AddCharToSet (ch CHR '']'') (sc_CharSet st1)\<rparr>) else st1)"
  have c2: "current E st2 fs2"
    using c1 current_step [of E "st1\<lparr>sc_CharSet := AddCharToSet (ch CHR '']'') (sc_CharSet st1)\<rparr>" fs1 "ch CHR '']''"]
    by (auto simp: st2_def fs2_def current_cong first_def)
  have set2: "length (sc_CharSet st2) = 32" "in_set (sc_CharSet st2) d \<longleftrightarrow> first \<and> d = ch CHR '']''" for d
    by (auto simp: st2_def st1_def st0_def in_AddCharToSet in_empty_set)
  have same: "input_part st2 = input_part st" "sc_Width st2 = sc_Width st" "sc_Invert st2 = inv"
    by (simp_all add: st2_def st1_def st0_def)
  from set_loop_parse [OF c2 set2(1)] obtain st3 where
    s3: "set_loop E st2 = Some st3" "set_read E st3 (snd (set_items fs2))" "input_part st3 = input_part st"
      "sc_Width st3 = sc_Width st" "sc_Invert st3 = inv" "length (sc_CharSet st3) = 32"
    and in3: "\<And>d. in_set (sc_CharSet st3) d \<longleftrightarrow> fst (set_items fs2) d \<or> first \<and> d = ch CHR '']''"
    unfolding same set2(2) by blast
  define st4 where "st4 = (if sc_F st3 = 0 then st3\<lparr>sc_format := sc_format st3 - 1\<rparr> else st3)"
  define st5 where "st5 = (if inv then st4\<lparr>sc_CharSet := InvertCharSet (sc_CharSet st4)\<rparr> else st4)"
  have "string_in (fmt_mem E) (sc_format st5) (snd (set_items fs2))"
    using s3(2) by (auto simp: st5_def st4_def set_read_def split: if_splits)
  moreover have ps: "parse_set fs = (\<lambda>c. (first \<and> c = ch CHR '']'' \<or> fst (set_items fs2) c) \<noteq> inv, snd (set_items fs2))"
    unfolding parse_set_def Let_def inv_def [symmetric] fs1_def [symmetric] first_def [symmetric] fs2_def [symmetric]
    by (simp add: case_prod_beta)
  moreover have "in_set (sc_CharSet st5) d \<longleftrightarrow> fst (parse_set fs) d" for d
    using in3 [of d] s3(6) by (auto simp: ps st5_def st4_def in_InvertCharSet)
  moreover have "read_set E st = Some st5"
  proof -
    have i: "(sc_F st0 = ch CHR ''^'') = inv" using current_F [OF c0] by (simp only: inv_def)
    have f: "(sc_F st1 = ch CHR '']'') = first" using current_F [OF c1] by (simp only: first_def)
    have e1: "(if sc_Invert (st0\<lparr>sc_Invert := inv\<rparr>) then GetFormat E (st0\<lparr>sc_Invert := inv\<rparr>) else st0\<lparr>sc_Invert := inv\<rparr>) = st1"
      by (simp add: st1_def)
    have e2: "(if first then GetFormat E (st1\<lparr>sc_CharSet := AddCharToSet (sc_F st1) (sc_CharSet st1)\<rparr>) else st1) = st2"
      using f by (auto simp: st2_def)
    have inv4: "sc_Invert st4 = inv" using s3(5) by (simp add: st4_def)
    show ?thesis
      unfolding read_set_def Let_def st0_def [symmetric] i e1 f e2 s3(1) Option.bind.bind_lunit st4_def [symmetric] inv4
      by (simp add: st5_def)
  qed
  moreover have "input_part st5 = input_part st" "sc_Width st5 = sc_Width st"
    using s3(3,4) by (simp_all add: st5_def st4_def)
  ultimately show ?thesis by (intro exI [of _ st5]) simp
qed

lemma length_modifier_parse:
  assumes "current E st fs"
  shows "current E (length_modifier E st) (snd (parse_length fs))"
    and "input_part (length_modifier E st) = input_part (st\<lparr>sc_IntBytes := of_nat (fst (parse_length fs))\<rparr>)"
    and "sc_Width (length_modifier E st) = sc_Width st"
proof -
  let ?st = "st\<lparr>sc_IntBytes := 1\<rparr>"
  have F: "sc_F st = peek fs" by (rule current_F [OF assms])
  have nx: "fmt_mem E (sc_format st) = peek (tl fs)" if "peek fs \<noteq> 0"
    by (rule string_in_peek(1)) (rule current_more [OF assms refl that])
  have one: "current E (GetFormat E (st\<lparr>sc_IntBytes := n\<rparr>)) (tl fs)" if "peek fs \<noteq> 0" for n
    by (rule GetFormat_current) (use current_more [OF assms refl that] in simp)
  have two: "current E (GetFormat E (st\<lparr>sc_IntBytes := n, sc_format := sc_format st + 1\<rparr>)) (tl (tl fs))"
    if "peek fs \<noteq> 0" "peek (tl fs) \<noteq> 0" for n
  proof -
    have "string_in (fmt_mem E) (sc_format st) (tl fs)" by (rule current_more [OF assms refl that(1)])
    then have "string_in (fmt_mem E) (sc_format st + 1) (tl (tl fs))" using that(2) by (intro string_in_peek(3)) auto
    then show ?thesis by (intro GetFormat_current) simp
  qed
  have comm: "st\<lparr>sc_format := f, sc_IntBytes := n\<rparr> = st\<lparr>sc_IntBytes := n, sc_format := f\<rparr>" for f n by simp
  show "current E (length_modifier E st) (snd (parse_length fs))"
    using F nx one [of 0] one [of 1] one [of 3] two [of 0] two [of 3] assms
    by (auto simp: length_modifier_def parse_length_def Let_def current_cong comm)
  show "input_part (length_modifier E st) = input_part (st\<lparr>sc_IntBytes := of_nat (fst (parse_length fs))\<rparr>)"
    using F nx by (auto simp: length_modifier_def parse_length_def Let_def input_part_def GetFormat_def)
  show "sc_Width (length_modifier E st) = sc_Width st"
    by (simp add: length_modifier_def Let_def)
qed

end
