(* ===== verification/Lib_Scanf_Refine.thy ===== *)
theory Lib_Scanf_Refine
  imports Lib_Scanf_Parse
begin

text \<open>
  _scanf does what theory Lib_Scanf_Spec says. What it relies on is the locale \<open>scan_source\<close>: get
  gives the next character or EOF, and unget puts the last one back. Its interpretations are the
  string of vsscanf and the file of vfscanf (theory Lib_Scan_Sources).
\<close>

locale scan_source =
  fixes E :: "'s scan_env" and holds :: "'s \<Rightarrow> BYTE list \<Rightarrow> bool"
  assumes get_char: "holds s (c # cs) \<Longrightarrow> \<exists>s'. get_fun E s = (ucast c, s') \<and> holds s' cs
      \<and> holds (snd (unget_fun E (ucast c) s')) (c # cs)"
    and get_end: "holds s [] \<Longrightarrow> \<exists>s'. get_fun E s = (EOF, s') \<and> holds s' []"

section \<open>The simulation relation\<close>

text \<open>
  \<open>sc_C\<close> is the first character of the input left and the source holds the rest. The flag says that
  this character can be put back, which is not so between the look-ahead of %i and the next read.
\<close>

definition source_ok :: "'s scan_env \<Rightarrow> ('s \<Rightarrow> BYTE list \<Rightarrow> bool) \<Rightarrow> bool \<Rightarrow> cint \<Rightarrow> 's \<Rightarrow> BYTE list \<Rightarrow> bool" where
  "source_ok E holds pb C s xs \<longleftrightarrow> (case xs of [] \<Rightarrow> C = EOF \<and> holds s []
     | c # cs \<Rightarrow> C = ucast c \<and> holds s cs \<and> (pb \<longrightarrow> holds (snd (unget_fun E (ucast c) s)) xs))"

definition sim :: "'s scan_env \<Rightarrow> ('s \<Rightarrow> BYTE list \<Rightarrow> bool) \<Rightarrow> bool \<Rightarrow> 's scan \<Rightarrow> scanned \<Rightarrow> bool" where
  "sim E holds pb st s \<longleftrightarrow> source_ok E holds pb (sc_C st) (sc_src st) (sp_in s)
     \<and> sc_CharCount st = of_nat (sp_used s) + (if sp_in s = [] then 0 else 1)
     \<and> sc_Converted st = sp_conv s \<and> sc_Assignments st = sp_count s \<and> sc_ap st = sp_arg s
     \<and> sc_mem st = sp_mem s \<and> sc_errno st = sp_errno s"

text \<open>What reading the input leaves alone: the place in the format and the conversion's flags.\<close>

definition ctl :: "'s scan \<Rightarrow> WORD \<times> BYTE \<times> bool \<times> BYTE" where
  "ctl st = (sc_format st, sc_F st, sc_NoAssign st, sc_IntBytes st)"

lemma hi_EOF [simp]: "hi EOF = 0xFF" and lo_EOF [simp]: "lo EOF = 0xFF"
  by (simp_all add: hi_def lo_def EOF_def)

lemma EOF_not_char [simp]: "ucast (c :: BYTE) \<noteq> EOF" "EOF \<noteq> ucast (c :: BYTE)"
proof -
  show "ucast c \<noteq> EOF"
  proof
    assume "ucast c = EOF"
    then have "hi (ucast c) = hi EOF" by simp
    then show False by simp
  qed
  then show "EOF \<noteq> ucast c" by simp
qed

lemma isspace_EOF [simp]: "\<not> isspace EOF" and isxdigit_EOF [simp]: "\<not> isxdigit EOF"
  by (simp_all add: isspace_def isxdigit_def)

lemma sim_irrelevant [simp]:
  "sim E holds pb (st\<lparr>sc_Width := w\<rparr>) s = sim E holds pb st s"
  "sim E holds pb (st\<lparr>sc_IntVal := v\<rparr>) s = sim E holds pb st s"
  "sim E holds pb (st\<lparr>sc_Positive := b\<rparr>) s = sim E holds pb st s"
  "sim E holds pb (st\<lparr>sc_NoAssign := b\<rparr>) s = sim E holds pb st s"
  "sim E holds pb (st\<lparr>sc_Invert := b\<rparr>) s = sim E holds pb st s"
  "sim E holds pb (st\<lparr>sc_IntBytes := n\<rparr>) s = sim E holds pb st s"
  "sim E holds pb (st\<lparr>sc_CharSet := S\<rparr>) s = sim E holds pb st s"
  "sim E holds pb (st\<lparr>sc_format := f\<rparr>) s = sim E holds pb st s"
  "sim E holds pb (st\<lparr>sc_F := c\<rparr>) s = sim E holds pb st s"
  by (simp_all add: sim_def)

lemma ctl_irrelevant [simp]:
  "ctl (st\<lparr>sc_Width := w\<rparr>) = ctl st" "ctl (st\<lparr>sc_IntVal := v\<rparr>) = ctl st"
  "ctl (st\<lparr>sc_Positive := b\<rparr>) = ctl st" "ctl (st\<lparr>sc_Converted := b\<rparr>) = ctl st"
  "ctl (st\<lparr>sc_CharCount := n\<rparr>) = ctl st" "ctl (st\<lparr>sc_src := s\<rparr>) = ctl st" "ctl (st\<lparr>sc_C := c\<rparr>) = ctl st"
  "ctl (st\<lparr>sc_mem := m\<rparr>) = ctl st" "ctl (st\<lparr>sc_ap := a\<rparr>) = ctl st" "ctl (st\<lparr>sc_Assignments := k\<rparr>) = ctl st"
  by (simp_all add: ctl_def)

lemma ReadChar_frame [simp]:
  "sc_format (ReadChar E st) = sc_format st" "sc_ap (ReadChar E st) = sc_ap st" "sc_F (ReadChar E st) = sc_F st"
  "sc_Width (ReadChar E st) = sc_Width st" "sc_IntVal (ReadChar E st) = sc_IntVal st"
  "sc_IntBytes (ReadChar E st) = sc_IntBytes st" "sc_Positive (ReadChar E st) = sc_Positive st"
  "sc_NoAssign (ReadChar E st) = sc_NoAssign st" "sc_CharSet (ReadChar E st) = sc_CharSet st"
  "sc_Invert (ReadChar E st) = sc_Invert st" "ctl (ReadChar E st) = ctl st"
  by (simp_all add: ReadChar_def split: prod.splits)

lemma PushBack_frame [simp]:
  "sc_format (PushBack E st) = sc_format st" "sc_ap (PushBack E st) = sc_ap st" "sc_F (PushBack E st) = sc_F st"
  "sc_Width (PushBack E st) = sc_Width st" "sc_IntVal (PushBack E st) = sc_IntVal st"
  "sc_IntBytes (PushBack E st) = sc_IntBytes st" "sc_Positive (PushBack E st) = sc_Positive st"
  "sc_NoAssign (PushBack E st) = sc_NoAssign st" "ctl (PushBack E st) = ctl st"
  "sc_C (PushBack E st) = sc_C st" "sc_Assignments (PushBack E st) = sc_Assignments st"
  "sc_mem (PushBack E st) = sc_mem st" "sc_errno (PushBack E st) = sc_errno st"
  "sc_Converted (PushBack E st) = sc_Converted st"
  by (simp_all add: PushBack_def)

lemma sim_converted [intro]: "sim E holds pb st s \<Longrightarrow> sim E holds pb (st\<lparr>sc_Converted := True\<rparr>) (converted s)"
  by (simp add: sim_def converted_def)

lemma sim_weaken: "sim E holds pb st s \<Longrightarrow> sim E holds False st s"
  by (auto simp: sim_def source_ok_def split: list.splits)

lemma sim_C:
  assumes "sim E holds pb st s"
  shows "sc_C st = (case sp_in s of [] \<Rightarrow> EOF | c # _ \<Rightarrow> ucast c)"
  using assms by (simp add: sim_def source_ok_def split: list.splits)

lemma consume_simps [simp]:
  "sp_in (consume k s) = drop k (sp_in s)" "sp_conv (consume k s) = sp_conv s" "sp_count (consume k s) = sp_count s"
  "sp_arg (consume k s) = sp_arg s" "sp_mem (consume k s) = sp_mem s" "sp_errno (consume k s) = sp_errno s"
  "sp_used (consume k s) = sp_used s + min k (length (sp_in s))"
  by (simp_all add: consume_def)

lemma converted_simps [simp]:
  "sp_in (converted s) = sp_in s" "sp_conv (converted s) = True" "sp_count (converted s) = sp_count s"
  "sp_arg (converted s) = sp_arg s" "sp_mem (converted s) = sp_mem s" "sp_errno (converted s) = sp_errno s"
  "sp_used (converted s) = sp_used s" "converted (converted s) = converted s"
  by (simp_all add: converted_def)

lemma consume_0 [simp]: "consume 0 s = s"
  by (simp add: consume_def)

lemma consume_end [simp]: "sp_in s = [] \<Longrightarrow> consume k s = s"
  by (simp add: consume_def)

lemma consume_add: "consume k (consume j s) = consume (j + k) s"
  by (simp add: consume_def add.commute min_def)

lemma consume_converted: "converted (consume k s) = consume k (converted s)"
  by (simp add: consume_def converted_def)

lemma store_bytes_at:
  "length bs \<le> 2 ^ 16 \<Longrightarrow> store_bytes p bs m q = (if unat (q - p) < length bs then bs ! unat (q - p) else m q)"
proof (induction bs arbitrary: p m)
  case (Cons b bs)
  have step: "q \<noteq> p \<Longrightarrow> unat (q - (p + 1)) = unat (q - p) - 1"
    by (simp add: diff_diff_eq [symmetric] unat_minus_one)
  show ?case
  proof (cases "q = p")
    case True
    have "p - (p + 1) = (- 1 :: WORD)" by simp
    then have "unat (p - (p + 1)) = 65535" by (simp only:) (simp add: unsigned_minus_1_eq_mask mask_eq_exp_minus_1)
    then show ?thesis using Cons True by simp
  next
    case False
    then have "0 < unat (q - p)" by (simp add: unat_gt_0)
    then show ?thesis using Cons step [OF False] False by (cases "unat (q - p)") simp_all
  qed
qed simp

lemma store_int_at:
  "k < 2 ^ 16 \<Longrightarrow> store_int p v k m q = (if unat (q - p) \<le> k then ucast (drop_bit (8 * unat (q - p)) v) else m q)"
proof (induction k arbitrary: m)
  case 0
  have "unat (q - p) = 0 \<longleftrightarrow> q = p" by (simp add: unat_eq_zero)
  then show ?case by auto
next
  case (Suc k)
  have "unat (of_nat (Suc k) :: WORD) = Suc k" by (rule unat_of_nat_less) (use Suc.prems in simp)
  then have "q = p + of_nat (Suc k) \<longleftrightarrow> unat (q - p) = Suc k"
    by (metis add_diff_cancel_left' diff_add_cancel add.commute word_unat_eq_iff)
  then show ?case using Suc by (auto simp: le_Suc_eq)
qed

lemma store_int_bytes: "k < 256 \<Longrightarrow> store_int p v k m = store_bytes p (int_bytes k v) m"
  by (rule ext) (auto simp: store_int_at store_bytes_at int_bytes_def nth_append simp del: upt_Suc)

context scan_source begin

lemma sim_read:
  assumes "sim E holds pb st s" and "sp_in s = c # cs"
  shows "sim E holds True (ReadChar E st) (consume 1 s)"
proof -
  have h: "holds (sc_src st) cs" using assms by (simp add: sim_def source_ok_def)
  show ?thesis
  proof (cases cs)
    case Nil
    then obtain s' where "get_fun E (sc_src st) = (EOF, s')" "holds s' []" using get_end h by blast
    then show ?thesis using assms Nil by (simp add: sim_def source_ok_def ReadChar_def)
  next
    case (Cons d ds)
    then obtain s' where "get_fun E (sc_src st) = (ucast d, s')" "holds s' ds"
        "holds (snd (unget_fun E (ucast d) s')) (d # ds)"
      using get_char h by blast
    then show ?thesis using assms Cons by (simp add: sim_def source_ok_def ReadChar_def)
  qed
qed

lemma sim_start:
  assumes "holds (sc_src st) (sp_in s)" and "sc_CharCount st = of_nat (sp_used s)"
    and "sc_Converted st = sp_conv s" "sc_Assignments st = sp_count s" "sc_ap st = sp_arg s"
    and "sc_mem st = sp_mem s" "sc_errno st = sp_errno s"
  shows "sim E holds True (ReadChar E st) s"
proof (cases "sp_in s")
  case Nil
  then obtain s' where "get_fun E (sc_src st) = (EOF, s')" "holds s' []" using get_end assms(1) by auto
  then show ?thesis using assms Nil by (simp add: sim_def source_ok_def ReadChar_def)
next
  case (Cons d ds)
  then obtain s' where "get_fun E (sc_src st) = (ucast d, s')" "holds s' ds"
      "holds (snd (unget_fun E (ucast d) s')) (d # ds)"
    using get_char assms(1) by fastforce
  then show ?thesis using assms Cons by (simp add: sim_def source_ok_def ReadChar_def)
qed

lemma sim_push_back:
  assumes "sim E holds True st s"
  shows "holds (sc_src (PushBack E st)) (sp_in s)" "sc_CharCount (PushBack E st) = of_nat (sp_used s)"
  using assms by (auto simp: sim_def source_ok_def PushBack_def split: list.splits)

lemma SkipWhite_sim:
  assumes "sim E holds True st s"
  shows "\<exists>st'. SkipWhite E st = Some st' \<and> sim E holds True st' (skip_white s) \<and> ctl st' = ctl st \<and> sc_Width st' = sc_Width st"
  using assms
proof (induction "sp_in s" arbitrary: st s)
  case Nil
  then have "sc_C st = EOF" using sim_C [OF Nil(2)] by (simp add: Nil(1)[symmetric])
  then show ?case using Nil by (subst SkipWhite.simps) (simp add: skip_white_def Nil(1)[symmetric])
next
  case (Cons c cs)
  have C: "sc_C st = ucast c" using sim_C [OF Cons(3)] by (simp add: Cons(2)[symmetric])
  show ?case
  proof (cases "white c")
    case False
    then show ?thesis using Cons(3) C by (subst SkipWhite.simps) (simp add: skip_white_def Cons(2)[symmetric])
  next
    case True
    have "sim E holds True (ReadChar E st) (consume 1 s)" by (rule sim_read [OF Cons(3) Cons(2) [symmetric]])
    from Cons(1) [OF _ this] Cons(2) [symmetric] obtain st' where
      "SkipWhite E (ReadChar E st) = Some st'" "sim E holds True st' (skip_white (consume 1 s))"
      "ctl st' = ctl st" "sc_Width st' = sc_Width st" by auto
    moreover have "skip_white (consume 1 s) = skip_white s"
      using True by (simp add: skip_white_def consume_add Cons(2)[symmetric])
    ultimately show ?thesis using True C by (subst SkipWhite.simps) simp
  qed
qed

lemma peek_lo:
  assumes "sim E holds pb st s" and "b \<noteq> 0" and "b \<noteq> 0xFF"
  shows "lo (sc_C st) = b \<longleftrightarrow> peek (sp_in s) = b"
  using sim_C [OF assms(1)] assms(2,3) by (auto simp: peek_simps split: list.splits)

lemma peek_Cons: "peek xs = b \<Longrightarrow> b \<noteq> 0 \<Longrightarrow> \<exists>ys. xs = b # ys"
  by (cases xs) (auto simp: peek_simps)

lemma ReadSign_sim:
  assumes "sim E holds True st s"
  shows "\<exists>st'. ReadSign E st = st' \<and> sim E holds True st' (snd (take_sign s)) \<and> sc_Positive st' = (\<not> fst (take_sign s))
    \<and> ctl st' = ctl st \<and> sc_Width st' = sc_Width st"
proof -
  note lo = peek_lo [OF assms]
  have read: "sim E holds True (ReadChar E (st\<lparr>sc_Converted := True\<rparr>)) (consume 1 (converted s))" if "peek (sp_in s) = b" "b \<noteq> 0" for b
    using peek_Cons [OF that] sim_read [OF sim_converted [OF assms]] by auto
  show ?thesis
    using assms read [of "ch CHR ''-''"] read [of "ch CHR ''+''"] by (auto simp: ReadSign_def take_sign_def lo)
qed

lemma find_base_sim:
  assumes "sim E holds True st s"
  shows "\<exists>st'. find_base E st = (fst (take_base 0 s), st') \<and> sim E holds (fst (take_base 0 s) \<noteq> 8) st' (snd (take_base 0 s))
    \<and> ctl st' = ctl st \<and> sc_Width st' = sc_Width st \<and> sc_Positive st' = sc_Positive st"
proof (cases "peek (sp_in s) = ch CHR ''0''")
  case False
  then have "lo (sc_C st) \<noteq> ch CHR ''0''" using peek_lo [OF assms, of "ch CHR ''0''"] by simp
  then show ?thesis using False assms by (simp add: find_base_def take_base_def)
next
  case True
  then obtain xs where xs: "sp_in s = ch CHR ''0'' # xs" using peek_Cons by fastforce
  have lo: "lo (sc_C st) = ch CHR ''0''" using peek_lo [OF assms, of "ch CHR ''0''"] True by simp
  note r = sim_read [OF assms xs]
  define st1 where "st1 = ReadChar E st"
  have r1: "sim E holds True st1 (consume 1 s)" using r by (simp add: st1_def)
  have lo1: "lo (sc_C st1) = b \<longleftrightarrow> peek xs = b" if "b \<noteq> 0" "b \<noteq> 0xFF" for b
    using peek_lo [OF r1 that] xs by simp
  show ?thesis
  proof (cases "peek xs \<in> set (map ch ''xX'')")
    case True
    then have "\<exists>y ys. xs = y # ys" by (cases xs) (auto simp: peek_simps)
    then obtain y ys where "sp_in (converted (consume 1 s)) = y # ys" using xs by auto
    from sim_read [OF sim_converted [OF r1] this]
    have "sim E holds True (ReadChar E (st1\<lparr>sc_Converted := True\<rparr>)) (consume 2 (converted s))"
      by (simp add: consume_converted consume_add numeral_2_eq_2)
    moreover have "find_base E st = (16, ReadChar E (st1\<lparr>sc_Converted := True\<rparr>))"
      using lo lo1 True by (auto simp: find_base_def Let_def st1_def)
    ultimately show ?thesis using xs True by (auto simp: take_base_def peek_simps st1_def)
  next
    case False
    let ?st = "(PushBack E st1)\<lparr>sc_C := ucast (ch CHR ''0'')\<rparr>"
    have "find_base E st = (8, ?st)" using lo lo1 False by (auto simp: find_base_def Let_def st1_def)
    moreover have "sim E holds False ?st s"
      using sim_push_back [OF r1] r1 xs by (simp add: sim_def source_ok_def)
    ultimately show ?thesis using xs False by (simp add: take_base_def peek_simps st1_def)
  qed
qed

lemma width_step:
  assumes "w < 2 ^ 16"
  shows "NOT (of_nat w) + (1 :: WORD) = 0 \<longleftrightarrow> w = 0" "0 < w \<Longrightarrow> NOT (of_nat w) + (1 :: WORD) = NOT (of_nat (w - 1))"
proof -
  have "unat (of_nat w :: WORD) = w" by (rule unat_of_nat_less) (use assms in simp)
  then have "of_nat w = (0 :: WORD) \<longleftrightarrow> w = 0" by (simp only: unat_eq_zero [symmetric])
  then show "NOT (of_nat w) + (1 :: WORD) = 0 \<longleftrightarrow> w = 0" by (simp add: not_eq_complement)
  show "0 < w \<Longrightarrow> NOT (of_nat w) + (1 :: WORD) = NOT (of_nat (w - 1))" by (simp add: not_eq_complement of_nat_diff)
qed

lemma digits_in_step:
  "digits_in base w [] = []" "digits_in base 0 xs = []"
  "0 < w \<Longrightarrow> digits_in base w (c # cs) = (if hex_char c \<and> HexVal c < base then c # digits_in base (w - 1) cs else [])"
  by (cases w; simp add: digits_in_def)+

lemma read_digits_sim:
  fixes base :: BYTE
  assumes "sim E holds pb st s" and "sc_Width st = NOT (of_nat w)" and "w < 2 ^ 16"
  defines "ds \<equiv> digits_in base w (sp_in s)"
  shows "\<exists>st'. read_digits E base n st = Some (n + of_nat (length ds), st') \<and> sim E holds (pb \<or> ds \<noteq> []) st' (consume (length ds) s)
    \<and> sc_IntVal st' = foldl (\<lambda>v c. v * ucast base + ucast (HexVal c)) (sc_IntVal st) ds
    \<and> ctl st' = ctl st \<and> sc_Positive st' = sc_Positive st"
  using assms(1-3) unfolding ds_def
proof (induction "sp_in s" arbitrary: st s w n pb)
  case Nil
  then have "sc_C st = EOF" using sim_C [OF Nil(2)] by (simp add: Nil(1)[symmetric])
  then show ?case using Nil by (subst read_digits.simps) (simp add: Nil(1)[symmetric] digits_in_step)
next
  case (Cons c cs)
  note xs = Cons(2) [symmetric]
  have C: "sc_C st = ucast c" using sim_C [OF Cons(3)] xs by simp
  note step = width_step [OF Cons(5)]
  have C0: "read_digits E base n st = (if hex_char c then
      (if NOT (of_nat w) + (1 :: WORD) \<noteq> 0 \<and> HexVal c < base then read_digits E base (n + 1)
         (ReadChar E (st\<lparr>sc_Width := NOT (of_nat w) + 1, sc_IntVal := sc_IntVal st * ucast base + ucast (HexVal c)\<rparr>))
       else Some (n, st\<lparr>sc_Width := NOT (of_nat w) + 1\<rparr>)) else Some (n, st))"
    by (subst read_digits.simps) (simp add: C Cons(4))
  show ?case
  proof (cases "hex_char c \<and> HexVal c < base \<and> 0 < w")
    case False
    then have "digits_in base w (sp_in s) = []" using xs digits_in_step(2) by (cases "w = 0") (simp_all add: digits_in_step(3))
    then show ?thesis using False Cons(3) step(1) by (auto simp: C0)
  next
    case True
    let ?st = "ReadChar E (st\<lparr>sc_Width := NOT (of_nat w) + 1, sc_IntVal := sc_IntVal st * ucast base + ucast (HexVal c)\<rparr>)"
    have "sim E holds pb (st\<lparr>sc_Width := NOT (of_nat w) + 1, sc_IntVal := sc_IntVal st * ucast base + ucast (HexVal c)\<rparr>) s"
      using Cons(3) by simp
    from sim_read [OF this xs] have r: "sim E holds True ?st (consume 1 s)" .
    have w: "sc_Width ?st = NOT (of_nat (w - 1))" "w - 1 < 2 ^ 16" using step(2) True Cons(5) by simp_all
    have "cs = sp_in (consume 1 s)" using xs by simp
    from Cons(1) [OF this r w, of "n + 1"] xs obtain st' where
      "read_digits E base (n + 1) ?st = Some (n + 1 + of_nat (length (digits_in base (w - 1) cs)), st')"
      "sim E holds True st' (consume (length (digits_in base (w - 1) cs)) (consume 1 s))"
      "sc_IntVal st' = foldl (\<lambda>v c. v * ucast base + ucast (HexVal c)) (sc_IntVal st * ucast base + ucast (HexVal c)) (digits_in base (w - 1) cs)"
      "ctl st' = ctl st" "sc_Positive st' = sc_Positive st" by auto
    then show ?thesis using True step(1) xs by (simp add: C0 digits_in_step consume_add)
  qed
qed

lemma ReadInt_sim:
  assumes "sim E holds pb st s" and "sc_Width st = NOT (of_nat w)" and "w < 2 ^ 16"
    and "pb \<or> digits_in base w (sp_in s) \<noteq> []"
  shows "\<exists>st'. ReadInt E base st = Some (if fst (take_digits base w s) = None then RC_NOCONV else RC_OK, st')
    \<and> sim E holds True st' (snd (take_digits base w s))
    \<and> (\<forall>v. fst (take_digits base w s) = Some v \<longrightarrow> sc_IntVal st' = v)
    \<and> ctl st' = ctl st \<and> sc_Positive st' = sc_Positive st"
proof -
  let ?ds = "digits_in base w (sp_in s)"
  have "sim E holds pb (st\<lparr>sc_IntVal := 0\<rparr>) s" using assms(1) by simp
  from read_digits_sim [OF this _ assms(3), of base 0] assms(2,4) obtain st' where
    r: "read_digits E base 0 (st\<lparr>sc_IntVal := 0\<rparr>) = Some (of_nat (length ?ds), st')"
    and s: "sim E holds True st' (consume (length ?ds) s)"
    and v: "sc_IntVal st' = value_of base ?ds" "ctl st' = ctl st" "sc_Positive st' = sc_Positive st"
    by (auto simp: value_of_def)
  have n: "(of_nat (length ?ds) :: BYTE) = 0 \<longleftrightarrow> length ?ds mod 256 = 0"
    by (simp add: word_of_nat_eq_0_iff dvd_eq_mod_eq_0)
  show ?thesis
  proof (cases "length ?ds mod 256 = 0")
    case True
    then show ?thesis using r s v n by (simp add: ReadInt_def take_digits_def Let_def)
  next
    case False
    then show ?thesis using r v n sim_converted [OF s] by (simp add: ReadInt_def take_digits_def Let_def)
  qed
qed

lemma AssignInt_sim:
  assumes "sim E holds pb st s"
  shows "sim E holds pb (AssignInt E st)
      (assign (va_list E) (sc_NoAssign st) (int_bytes (unat (sc_IntBytes st)) (sc_IntVal st)) 1 s)
    \<and> ctl (AssignInt E st) = ctl st"
  using assms by (simp add: AssignInt_def assign_def next_arg_def sim_def store_int_bytes BYTE_less)

lemma take_base_8:
  "fst (take_base base s) = 8 \<Longrightarrow> base = 8 \<or> peek (sp_in (snd (take_base base s))) = ch CHR ''0''"
  by (auto simp: take_base_def split: if_splits)

lemma digits_after_base:
  assumes "peek xs = ch CHR ''0''" and "0 < w"
  shows "digits_in 8 w xs \<noteq> []"
  using peek_Cons [OF assms(1)] assms(2) by (auto simp: digits_in_step hex_char_def digit_char_def HexVal_digit)

lemma scan_integer_sim:
  assumes "sim E holds True st s" and "sc_Width st = NOT (of_nat w)" and "0 < w" "w < 2 ^ 16"
    and "run_integer (va_list E) (sc_NoAssign st) w (unat (sc_IntBytes st)) base s = (r, s')"
  shows "\<exists>st'. scan_integer E base st = Some (r, st') \<and> sim E holds True st' s' \<and> ctl st' = ctl st"
proof -
  obtain st1 where s1: "SkipWhite E st = Some st1" "sim E holds True st1 (skip_white s)" "ctl st1 = ctl st" "sc_Width st1 = sc_Width st"
    using SkipWhite_sim [OF assms(1)] by blast
  define s2 where "s2 = snd (take_sign (skip_white s))"
  obtain st2 where s2: "ReadSign E st1 = st2" "sim E holds True st2 s2" "sc_Positive st2 = (\<not> fst (take_sign (skip_white s)))"
    "ctl st2 = ctl st" "sc_Width st2 = sc_Width st"
    using ReadSign_sim [OF s1(2)] s1(3,4) unfolding s2_def by auto
  define b3 where "b3 = fst (take_base base s2)"
  define s3 where "s3 = snd (take_base base s2)"
  have "\<exists>st3. (if base = 0 then find_base E st2 else (base, st2)) = (b3, st3)
      \<and> sim E holds (base \<noteq> 0 \<or> b3 \<noteq> 8) st3 s3 \<and> ctl st3 = ctl st \<and> sc_Width st3 = sc_Width st \<and> sc_Positive st3 = sc_Positive st2"
  proof (cases "base = 0")
    case True
    then show ?thesis using find_base_sim [OF s2(2)] s2(4,5) by (auto simp: b3_def s3_def)
  next
    case False
    then show ?thesis using s2 by (simp add: take_base_def b3_def s3_def)
  qed
  then obtain st3 where s3: "(if base = 0 then find_base E st2 else (base, st2)) = (b3, st3)"
    "sim E holds (base \<noteq> 0 \<or> b3 \<noteq> 8) st3 s3" "ctl st3 = ctl st" "sc_Width st3 = sc_Width st" "sc_Positive st3 = sc_Positive st2"
    by blast
  have "(base \<noteq> 0 \<or> b3 \<noteq> 8) \<or> digits_in b3 w (sp_in s3) \<noteq> []"
    using take_base_8 [of base s2] digits_after_base [OF _ assms(3)] by (auto simp: b3_def s3_def)
  from ReadInt_sim [OF s3(2) _ assms(4) this] s3(3-5) assms(2) obtain st4 where
    s4: "ReadInt E b3 st3 = Some (if fst (take_digits b3 w s3) = None then RC_NOCONV else RC_OK, st4)"
    "sim E holds True st4 (snd (take_digits b3 w s3))" "ctl st4 = ctl st"
    "\<And>v. fst (take_digits b3 w s3) = Some v \<Longrightarrow> sc_IntVal st4 = v" "sc_Positive st4 = sc_Positive st2" by auto
  have scan: "scan_integer E base st = Some (if fst (take_digits b3 w s3) = None then (NoConv, st4)
      else (Continue, AssignInt E (if sc_Positive st4 then st4 else st4\<lparr>sc_IntVal := - sc_IntVal st4\<rparr>)))"
    by (simp add: scan_integer_def ScanInt_def s1(1) s2(1) s3(1) s4(1))
  have run: "(r, s') = (case take_digits b3 w s3 of (None, t) \<Rightarrow> (NoConv, t) | (Some v, t) \<Rightarrow>
      (Continue, assign (va_list E) (sc_NoAssign st) (int_bytes (unat (sc_IntBytes st))
        (if fst (take_sign (skip_white s)) then - v else v)) 1 t))"
    using assms(5) by (auto simp: run_integer_def b3_def s3_def s2_def split: prod.splits option.splits)
  show ?thesis
  proof (cases "fst (take_digits b3 w s3)")
    case None
    then show ?thesis using scan run s4(2,3) by (auto split: prod.splits)
  next
    case (Some v)
    have f: "sc_NoAssign st4 = sc_NoAssign st" "sc_IntBytes st4 = sc_IntBytes st" using s4(3) by (simp_all add: ctl_def)
    have "sim E holds True (if sc_Positive st4 then st4 else st4\<lparr>sc_IntVal := - sc_IntVal st4\<rparr>) (snd (take_digits b3 w s3))"
      using s4(2) by simp
    from AssignInt_sim [OF this] f s4(3) show ?thesis
      using scan run Some s4(4) [OF Some] s4(5) s2(3) by (auto split: prod.splits)
  qed
qed

end

section \<open>Strings\<close>

text \<open>The bytes stored so far at the argument, unless the assignment is suppressed.\<close>

definition written :: "WORD \<Rightarrow> bool \<Rightarrow> BYTE list \<Rightarrow> scanned \<Rightarrow> scanned" where
  "written S b ws s = (if b then s else s\<lparr>sp_mem := store_bytes S ws (sp_mem s)\<rparr>)"

definition behind :: "WORD \<Rightarrow> bool \<Rightarrow> BYTE list \<Rightarrow> WORD" where
  "behind S b ws = (if b then S else S + of_nat (length ws))"

definition taken :: "bool \<Rightarrow> scanned \<Rightarrow> scanned" where
  "taken b s = (if b then s else s\<lparr>sp_arg := sp_arg s + 1\<rparr>)"

lemma store_bytes_append:
  "store_bytes p (xs @ ys) m = store_bytes (p + of_nat (length xs)) ys (store_bytes p xs m)"
  by (induction xs arbitrary: p m) (simp_all add: add.assoc)

lemma written_simps [simp]:
  "sp_in (written S b ws s) = sp_in s" "written S b [] s = s" "behind S b [] = S"
  "written (behind S b xs) b ys (written S b xs s) = written S b (xs @ ys) s"
  "behind (behind S b xs) b ys = behind S b (xs @ ys)"
  "consume k (written S b ws s) = written S b ws (consume k s)"
  "converted (written S b ws s) = written S b ws (converted s)"
  by (simp_all add: written_def behind_def store_bytes_append consume_def converted_def add.assoc)

lemma taken_simps [simp]:
  "sp_in (taken b s) = sp_in s" "consume k (taken b s) = taken b (consume k s)" "converted (taken b s) = taken b (converted s)"
  by (simp_all add: taken_def consume_def converted_def)

lemma put_char_sim:
  assumes "sim E holds pb st s" and "sp_in s = c # cs"
  shows "\<exists>st'. put_char S st = (behind S (sc_NoAssign st) [c], st') \<and> sim E holds pb st' (written S (sc_NoAssign st) [c] s)
    \<and> ctl st' = ctl st \<and> sc_Width st' = sc_Width st \<and> sc_CharSet st' = sc_CharSet st"
  using assms sim_C [OF assms(1)] by (simp add: put_char_def behind_def written_def sim_def)

lemma next_arg_sim:
  assumes "sim E holds pb st s"
  shows "\<exists>st'. next_arg E st = (if sc_NoAssign st then 0 else va_list E (sp_arg s), st') \<and> sim E holds pb st' (taken (sc_NoAssign st) s)
    \<and> ctl st' = ctl st \<and> sc_Width st' = sc_Width st \<and> sc_CharSet st' = sc_CharSet st"
  using assms by (simp add: next_arg_def taken_def sim_def)

lemma end_string_sim:
  assumes "sc_NoAssign st = b" and "sim E holds pb st (written S b ws (taken b s))"
    and "S = (if b then 0 else va (sp_arg s))"
  shows "sim E holds pb (end_string (behind S b ws) st) (assign va b (ws @ [0]) 1 s)"
    and "ctl (end_string (behind S b ws) st) = ctl st"
  using assms
  by (cases b; simp add: end_string_def behind_def written_def taken_def assign_def sim_def store_bytes_append)+

context scan_source begin

lemma string_loop_sim:
  assumes "sim E holds True st s" and "sc_Width st = NOT (of_nat w)" and "w < 2 ^ 16"
  shows "\<exists>st'. string_loop E S st = Some (behind S (sc_NoAssign st) (takeWhile (\<lambda>c. \<not> white c) (take w (sp_in s))), st')
    \<and> sim E holds True st' (written S (sc_NoAssign st) (takeWhile (\<lambda>c. \<not> white c) (take w (sp_in s)))
        (consume (length (takeWhile (\<lambda>c. \<not> white c) (take w (sp_in s)))) s))
    \<and> ctl st' = ctl st"
  using assms
proof (induction "sp_in s" arbitrary: st s w S)
  case Nil
  then have "sc_C st = EOF" using sim_C [OF Nil(2)] by (simp add: Nil(1)[symmetric])
  then show ?case using Nil by (subst string_loop.simps) (simp add: Nil(1)[symmetric])
next
  case (Cons c cs)
  note xs = Cons(2) [symmetric]
  have C: "sc_C st = ucast c" using sim_C [OF Cons(3)] xs by simp
  note step = width_step [OF Cons(5)]
  have unf: "string_loop E S st = (if \<not> white c then
      (if NOT (of_nat w) + (1 :: WORD) \<noteq> 0 then
         case put_char S (st\<lparr>sc_Width := NOT (of_nat w) + 1\<rparr>) of (S, st) \<Rightarrow> string_loop E S (ReadChar E st)
       else Some (S, st\<lparr>sc_Width := NOT (of_nat w) + 1\<rparr>)) else Some (S, st))"
    by (subst string_loop.simps) (simp add: C Cons(4))
  show ?case
  proof (cases "\<not> white c \<and> 0 < w")
    case False
    then have "takeWhile (\<lambda>c. \<not> white c) (take w (sp_in s)) = []" using xs by (cases w) auto
    then show ?thesis using False Cons(3) step(1) by (auto simp: unf)
  next
    case True
    let ?b = "sc_NoAssign st"
    have "sim E holds True (st\<lparr>sc_Width := NOT (of_nat w) + 1\<rparr>) s" using Cons(3) by simp
    from put_char_sim [OF this xs, of S] obtain st1 where
      p: "put_char S (st\<lparr>sc_Width := NOT (of_nat w) + 1\<rparr>) = (behind S ?b [c], st1)"
      "sim E holds True st1 (written S ?b [c] s)" "ctl st1 = ctl st" "sc_Width st1 = NOT (of_nat (w - 1))"
      using True step(2) by auto
    have b: "sc_NoAssign st1 = ?b" using p(3) by (simp add: ctl_def)
    have "sp_in (written S ?b [c] s) = c # cs" using xs by simp
    from sim_read [OF p(2) this] have r: "sim E holds True (ReadChar E st1) (consume 1 (written S ?b [c] s))" .
    have w: "sc_Width (ReadChar E st1) = NOT (of_nat (w - 1))" "w - 1 < 2 ^ 16" using p(4) Cons(5) by simp_all
    have "cs = sp_in (consume 1 (written S ?b [c] s))" using xs by simp
    from Cons(1) [OF this r w, of "behind S ?b [c]"] obtain st' where
      "string_loop E (behind S ?b [c]) (ReadChar E st1)
        = Some (behind (behind S ?b [c]) ?b (takeWhile (\<lambda>c. \<not> white c) (take (w - 1) cs)), st')"
      "sim E holds True st' (written (behind S ?b [c]) ?b (takeWhile (\<lambda>c. \<not> white c) (take (w - 1) cs))
        (consume (length (takeWhile (\<lambda>c. \<not> white c) (take (w - 1) cs))) (consume 1 (written S ?b [c] s))))"
      "ctl st' = ctl st" using xs b p(3) by auto
    moreover have "takeWhile (\<lambda>c. \<not> white c) (take w (sp_in s)) = c # takeWhile (\<lambda>c. \<not> white c) (take (w - 1) cs)"
      using True xs by (cases w) auto
    ultimately show ?thesis using True step(1) p(1) by (simp add: unf consume_add)
  qed
qed

lemma scan_string_sim:
  assumes "sim E holds True st s" and "sc_Width st = NOT (of_nat w)" and "w < 2 ^ 16"
    and "run_string (va_list E) (sc_NoAssign st) w s = (r, s')"
  shows "\<exists>st'. scan_string E st = Some (r, st') \<and> sim E holds True st' s' \<and> ctl st' = ctl st"
proof -
  let ?b = "sc_NoAssign st" and ?s = "skip_white s"
  let ?ws = "takeWhile (\<lambda>c. \<not> white c) (take w (sp_in ?s))"
  obtain st1 where s1: "SkipWhite E st = Some st1" "sim E holds True st1 ?s" "ctl st1 = ctl st" "sc_Width st1 = sc_Width st"
    using SkipWhite_sim [OF assms(1)] by blast
  have ce: "CheckEnd st1 \<longleftrightarrow> sp_in ?s \<noteq> []"
    using sim_C [OF s1(2)] by (cases "sp_in ?s") (simp_all add: CheckEnd_def)
  have b1: "sc_NoAssign st1 = ?b" using s1(3) by (simp add: ctl_def)
  show ?thesis
  proof (cases "sp_in ?s = []")
    case True
    then show ?thesis using s1 ce assms(4) by (simp add: scan_string_def run_string_def)
  next
    case False
    define S where "S = (if ?b then 0 else va_list E (sp_arg ?s))"
    obtain st2 where s2: "next_arg E (st1\<lparr>sc_Converted := True\<rparr>) = (S, st2)" "sim E holds True st2 (taken ?b (converted ?s))"
      "ctl st2 = ctl st" "sc_Width st2 = sc_Width st"
      using next_arg_sim [OF sim_converted [OF s1(2)]] s1(3,4) b1 by (auto simp: S_def)
    have b2: "sc_NoAssign st2 = ?b" using s2(3) by (simp add: ctl_def)
    from string_loop_sim [OF s2(2) _ assms(3), of S] s2(3,4) assms(2) b2 obtain st3 where
      s3: "string_loop E S st2 = Some (behind S ?b ?ws, st3)"
      "sim E holds True st3 (written S ?b ?ws (taken ?b (consume (length ?ws) (converted ?s))))" "ctl st3 = ctl st"
      by auto
    have b3: "sc_NoAssign st3 = ?b" using s3(3) by (simp add: ctl_def)
    have "S = (if ?b then 0 else va_list E (sp_arg (consume (length ?ws) (converted ?s))))" by (simp add: S_def)
    note e = end_string_sim [where va = "va_list E", OF b3 s3(2) this]
    have "scan_string E st = Some (Continue, end_string (behind S ?b ?ws) st3)"
      using False ce s1(1) s2(1) s3(1) by (simp add: scan_string_def)
    then show ?thesis using e s3(3) assms(4) False by (simp add: run_string_def Let_def)
  qed
qed

lemma chars_loop_sim:
  assumes "sim E holds True st s" and "sc_Width st = NOT (of_nat w)" and "w < 2 ^ 16"
  shows "\<exists>st'. chars_loop E S st = Some (w \<le> length (sp_in s), st')
    \<and> sim E holds True st' (written S (sc_NoAssign st) (take w (sp_in s)) (consume w s)) \<and> ctl st' = ctl st"
  using assms
proof (induction w arbitrary: st s S)
  case 0
  have "NOT (of_nat 0) + (1 :: WORD) = 0" by (simp add: not_eq_complement)
  then show ?case using 0 by (subst chars_loop.simps) simp
next
  case (Suc w)
  note step = width_step [OF Suc.prems(3)]
  let ?b = "sc_NoAssign st" and ?st = "st\<lparr>sc_Width := NOT (of_nat w)\<rparr>"
  have sm: "sim E holds True ?st s" using Suc.prems(1) by simp
  have "NOT (of_nat (Suc w)) + (1 :: WORD) \<noteq> 0" using step(1) by simp
  then have w0: "sc_Width st + 1 \<noteq> 0" by (simp only: Suc.prems(2)) simp
  have "NOT (of_nat (Suc w)) + (1 :: WORD) = NOT (of_nat w)" using step(2) by simp
  then have w1: "sc_Width st + 1 = NOT (of_nat w)" by (simp only: Suc.prems(2))
  have unf: "chars_loop E S st = (if \<not> CheckEnd ?st then Some (False, ?st)
      else case put_char S ?st of (S, st) \<Rightarrow> chars_loop E S (ReadChar E st))"
    using w0 unfolding w1 by (subst chars_loop.simps) (simp add: Let_def w1)
  show ?case
  proof (cases "sp_in s")
    case Nil
    have "\<not> CheckEnd ?st" using sim_C [OF sm] Nil by (simp add: CheckEnd_def)
    then show ?thesis using sm Nil by (simp add: unf)
  next
    case (Cons c cs)
    have ce: "CheckEnd ?st" using sim_C [OF sm] Cons by (simp add: CheckEnd_def)
    from put_char_sim [OF sm Cons, of S] obtain st1 where
      p: "put_char S ?st = (behind S ?b [c], st1)" "sim E holds True st1 (written S ?b [c] s)" "ctl st1 = ctl st"
      "sc_Width st1 = NOT (of_nat w)" by auto
    have b: "sc_NoAssign st1 = ?b" using p(3) by (simp add: ctl_def)
    have "sp_in (written S ?b [c] s) = c # cs" using Cons by simp
    from sim_read [OF p(2) this] have r: "sim E holds True (ReadChar E st1) (consume 1 (written S ?b [c] s))" .
    have w: "sc_Width (ReadChar E st1) = NOT (of_nat w)" "w < 2 ^ 16" using p(4) Suc.prems(3) by simp_all
    from Suc.IH [OF r w, of "behind S ?b [c]"] obtain st' where
      "chars_loop E (behind S ?b [c]) (ReadChar E st1) = Some (w \<le> length cs, st')"
      "sim E holds True st' (written (behind S ?b [c]) ?b (take w cs) (consume w (consume 1 (written S ?b [c] s))))"
      "ctl st' = ctl st" using Cons b p(3) by auto
    then show ?thesis using ce p(1) Cons by (simp add: unf consume_add)
  qed
qed

lemma scan_chars_sim:
  assumes "sim E holds True st s" and "(if hw then sc_Width st else 0xFFFE) = NOT (of_nat w)" and "w < 2 ^ 16"
    and "run_chars (va_list E) (sc_NoAssign st) w s = (r, s')"
  shows "\<exists>st'. scan_chars E hw st = Some (r, st') \<and> sim E holds True st' s' \<and> ctl st' = ctl st"
proof -
  let ?b = "sc_NoAssign st"
  define st0 where "st0 = (if hw then st else st\<lparr>sc_Width := 0xFFFE\<rparr>)"
  have s0: "sim E holds True st0 s" "ctl st0 = ctl st" "sc_NoAssign st0 = ?b" "sc_Width st0 = NOT (of_nat w)"
    using assms(1,2) by (auto simp: st0_def)
  have ce: "CheckEnd st0 \<longleftrightarrow> sp_in s \<noteq> []"
    using sim_C [OF s0(1)] by (cases "sp_in s") (simp_all add: CheckEnd_def)
  show ?thesis
  proof (cases "sp_in s = []")
    case True
    then show ?thesis using s0 ce assms(4) by (simp add: scan_chars_def run_chars_def st0_def [symmetric] Let_def)
  next
    case False
    define S where "S = (if ?b then 0 else va_list E (sp_arg s))"
    obtain st2 where s2: "next_arg E (st0\<lparr>sc_Converted := True\<rparr>) = (S, st2)" "sim E holds True st2 (taken ?b (converted s))"
      "ctl st2 = ctl st" "sc_Width st2 = NOT (of_nat w)"
      using next_arg_sim [OF sim_converted [OF s0(1)]] s0 by (auto simp: S_def)
    have b2: "sc_NoAssign st2 = ?b" using s2(3) by (simp add: ctl_def)
    from chars_loop_sim [OF s2(2,4) assms(3), of S] b2 s2(3) obtain st3 where
      s3: "chars_loop E S st2 = Some (w \<le> length (sp_in s), st3)"
      "sim E holds True st3 (written S ?b (take w (sp_in s)) (taken ?b (consume w (converted s))))" "ctl st3 = ctl st"
      by auto
    have b3: "sc_NoAssign st3 = ?b" using s3(3) by (simp add: ctl_def)
    have sc: "scan_chars E hw st = Some (if \<not> w \<le> length (sp_in s) then (NoConv, st3)
        else (Continue, if ?b then st3 else st3\<lparr>sc_Assignments := sc_Assignments st3 + 1\<rparr>))"
      using False ce s2(1) s3(1) b3 by (simp add: scan_chars_def st0_def [symmetric] Let_def)
    have w0: "assign (va_list E) ?b bs 0 t = written S ?b bs (taken ?b t)"
        if "sp_arg t = sp_arg s" for bs t
      using that by (simp add: assign_def written_def taken_def S_def)
    have w1: "assign (va_list E) ?b bs 1 t = (written S ?b bs (taken ?b t))\<lparr>sp_count := sp_count t + (if ?b then 0 else 1)\<rparr>"
        if "sp_arg t = sp_arg s" for bs t
      using that by (simp add: assign_def written_def taken_def S_def)
    show ?thesis
    proof (cases "w \<le> length (sp_in s)")
      case True
      have "sim E holds True (if ?b then st3 else st3\<lparr>sc_Assignments := sc_Assignments st3 + 1\<rparr>)
          (assign (va_list E) ?b (take w (sp_in s)) 1 (consume w (converted s)))"
        using s3(2) by (cases ?b; subst w1; simp add: sim_def written_def taken_def)
      then show ?thesis using sc True False s3(3) assms(4) by (auto simp: run_chars_def)
    next
      case shorter: False
      then have "sim E holds True st3 (assign (va_list E) ?b (sp_in s) 0 (consume w (converted s)))"
        using s3(2) by (subst w0) simp_all
      then show ?thesis using sc shorter False s3(3) assms(4) by (auto simp: run_chars_def)
    qed
  qed
qed

lemma set_string_sim:
  assumes "sim E holds True st s" and "sc_Width st = NOT (of_nat w)" and "w < 2 ^ 16"
    and "\<And>d. in_set (sc_CharSet st) d \<longleftrightarrow> P d"
  shows "\<exists>st'. set_string E S m st = Some (behind S (sc_NoAssign st) (takeWhile P (take w (sp_in s))), m \<or> takeWhile P (take w (sp_in s)) \<noteq> [], st')
    \<and> sim E holds True st' (written S (sc_NoAssign st) (takeWhile P (take w (sp_in s)))
        (consume (length (takeWhile P (take w (sp_in s)))) (if takeWhile P (take w (sp_in s)) = [] then s else converted s)))
    \<and> ctl st' = ctl st"
  using assms
proof (induction "sp_in s" arbitrary: st s w S m)
  case Nil
  then have "sc_C st = EOF" using sim_C [OF Nil(2)] by (simp add: Nil(1)[symmetric])
  then show ?case using Nil(2) by (subst set_string.simps) (simp add: Nil(1)[symmetric] IsCharInSet_def)
next
  case (Cons c cs)
  note xs = Cons(2) [symmetric]
  have C: "sc_C st = ucast c" using sim_C [OF Cons(3)] xs by simp
  have ics: "IsCharInSet st \<longleftrightarrow> P c" unfolding IsCharInSet_def C lo_ucast FindBit_bit by (simp add: Cons(6))
  note step = width_step [OF Cons(5)]
  have unf: "set_string E S m st = (if P c then
      (if NOT (of_nat w) + (1 :: WORD) \<noteq> 0 then
         case put_char S (st\<lparr>sc_Width := NOT (of_nat w) + 1\<rparr>) of (S, st) \<Rightarrow> set_string E S True (ReadChar E (st\<lparr>sc_Converted := True\<rparr>))
       else Some (S, m, st\<lparr>sc_Width := NOT (of_nat w) + 1\<rparr>)) else Some (S, m, st))"
    by (subst set_string.simps) (simp add: ics Cons(4))
  show ?case
  proof (cases "P c \<and> 0 < w")
    case False
    then have "takeWhile P (take w (sp_in s)) = []" using xs by (cases w) auto
    then show ?thesis using False Cons(3) step(1) by (auto simp: unf)
  next
    case True
    let ?b = "sc_NoAssign st" and ?ws = "takeWhile P (take (w - 1) cs)"
    have "sim E holds True (st\<lparr>sc_Width := NOT (of_nat w) + 1\<rparr>) s" using Cons(3) by simp
    from put_char_sim [OF this xs, of S] obtain st1 where
      p: "put_char S (st\<lparr>sc_Width := NOT (of_nat w) + 1\<rparr>) = (behind S ?b [c], st1)"
      "sim E holds True st1 (written S ?b [c] s)" "ctl st1 = ctl st" "sc_Width st1 = NOT (of_nat (w - 1))"
      "sc_CharSet st1 = sc_CharSet st"
      using True step(2) by auto
    have b: "sc_NoAssign st1 = ?b" using p(3) by (simp add: ctl_def)
    have "sp_in (converted (written S ?b [c] s)) = c # cs" using xs by simp
    from sim_read [OF sim_converted [OF p(2)] this]
    have r: "sim E holds True (ReadChar E (st1\<lparr>sc_Converted := True\<rparr>)) (consume 1 (converted (written S ?b [c] s)))" .
    have w: "sc_Width (ReadChar E (st1\<lparr>sc_Converted := True\<rparr>)) = NOT (of_nat (w - 1))" "w - 1 < 2 ^ 16"
      using p(4) Cons(5) by simp_all
    have once: "(if q then consume 1 (converted t) else converted (consume 1 (converted t))) = consume 1 (converted t)" for q t
      by (simp add: consume_converted)
    have ins: "in_set (sc_CharSet (ReadChar E (st1\<lparr>sc_Converted := True\<rparr>))) d \<longleftrightarrow> P d" for d
      using p(5) Cons(6) by simp
    have "cs = sp_in (consume 1 (converted (written S ?b [c] s)))" using xs by simp
    from Cons(1) [OF this r w ins, of "behind S ?b [c]" True, unfolded once] obtain st' where
      "set_string E (behind S ?b [c]) True (ReadChar E (st1\<lparr>sc_Converted := True\<rparr>)) = Some (behind (behind S ?b [c]) ?b ?ws, True, st')"
      "sim E holds True st' (written (behind S ?b [c]) ?b ?ws (consume (length ?ws) (consume 1 (converted (written S ?b [c] s)))))"
      "ctl st' = ctl st"
      using xs b p(3) by auto
    moreover have "takeWhile P (take w (sp_in s)) = c # ?ws" using True xs by (cases w) auto
    ultimately show ?thesis using True step(1) p(1) by (simp add: unf consume_add)
  qed
qed

lemma sim_input_part: "sim E holds pb (input_part st) s = sim E holds pb st s"
  by (simp add: sim_def input_part_def)

lemma sim_same_input:
  assumes "input_part st' = input_part st"
  shows "sim E holds pb st' s = sim E holds pb st s" "sc_NoAssign st' = sc_NoAssign st" "sc_IntBytes st' = sc_IntBytes st"
proof -
  show "sim E holds pb st' s = sim E holds pb st s"
    using sim_input_part [of pb st' s] sim_input_part [of pb st s] assms by simp
  have "sc_NoAssign (input_part st') = sc_NoAssign (input_part st)" "sc_IntBytes (input_part st') = sc_IntBytes (input_part st)"
    by (simp_all only: assms)
  then show "sc_NoAssign st' = sc_NoAssign st" "sc_IntBytes st' = sc_IntBytes st" by (simp_all add: input_part_def)
qed

lemma ctl_format: "ctl st' = ctl st \<Longrightarrow> sc_format st' = sc_format st"
  by (simp add: ctl_def)

lemma scan_set_sim:
  assumes "sim E holds True st s" and "sc_Width st = NOT (of_nat w)" and "w < 2 ^ 16"
    and "string_in (fmt_mem E) (sc_format st) fs" and "parse_set fs = (P, r)"
    and "run_set (va_list E) (sc_NoAssign st) w P s = (out, s')"
  shows "\<exists>st'. scan_set E st = Some (out, st') \<and> sim E holds True st' s' \<and> string_in (fmt_mem E) (sc_format st') r"
proof -
  let ?b = "sc_NoAssign st" and ?ws = "takeWhile P (take w (sp_in s))"
  from read_set_parse [OF assms(4)] assms(2,5) obtain st1 where
    s1: "read_set E st = Some st1" "string_in (fmt_mem E) (sc_format st1) r" "input_part st1 = input_part st"
    "sc_Width st1 = NOT (of_nat w)" "\<And>d. in_set (sc_CharSet st1) d \<longleftrightarrow> P d" by auto
  have sm1: "sim E holds True st1 s" and b1: "sc_NoAssign st1 = ?b"
    using assms(1) sim_same_input [OF s1(3)] by simp_all
  define S where "S = (if ?b then 0 else va_list E (sp_arg s))"
  obtain st2 where s2: "next_arg E st1 = (S, st2)" "sim E holds True st2 (taken ?b s)" "ctl st2 = ctl st1"
    "sc_Width st2 = NOT (of_nat w)" "\<And>d. in_set (sc_CharSet st2) d \<longleftrightarrow> P d"
    using next_arg_sim [OF sm1] s1(4,5) b1 by (auto simp: S_def)
  have b2: "sc_NoAssign st2 = ?b" using s2(3) b1 by (simp add: ctl_def)
  from set_string_sim [OF s2(2,4) assms(3) s2(5), of S False] b2 s2(3) obtain st3 where
    s3: "set_string E S False st2 = Some (behind S ?b ?ws, ?ws \<noteq> [], st3)"
    "sim E holds True st3 (written S ?b ?ws (consume (length ?ws) (if ?ws = [] then taken ?b s else converted (taken ?b s))))"
    "ctl st3 = ctl st1" by auto
  have b3: "sc_NoAssign st3 = ?b" using s3(3) b1 by (simp add: ctl_def)
  have sc: "scan_set E st = Some (if ?ws = [] then (NoConv, st3) else (Continue, end_string (behind S ?b ?ws) st3))"
    using s1(1) s2(1) s3(1) by (simp add: scan_set_def)
  show ?thesis
  proof (cases "?ws = []")
    case True
    have "assign (va_list E) ?b [] 0 s = taken ?b s" by (simp add: assign_def taken_def)
    then show ?thesis using True sc s3(2) ctl_format [OF s3(3)] s1(2) assms(6) by (auto simp: run_set_def Let_def)
  next
    case False
    then have "sim E holds True st3 (written S ?b ?ws (taken ?b (consume (length ?ws) (converted s))))" using s3(2) by simp
    moreover have "S = (if ?b then 0 else va_list E (sp_arg (consume (length ?ws) (converted s))))" by (simp add: S_def)
    ultimately have "sim E holds True (end_string (behind S ?b ?ws) st3) (assign (va_list E) ?b (?ws @ [0]) 1 (consume (length ?ws) (converted s)))"
      "ctl (end_string (behind S ?b ?ws) st3) = ctl st3"
      using end_string_sim [where va = "va_list E", OF b3] by blast+
    moreover from this(2) s3(3) have "sc_format (end_string (behind S ?b ?ws) st3) = sc_format st1"
      by (intro ctl_format) simp
    ultimately show ?thesis using False sc s1(2) assms(6) by (auto simp: run_set_def Let_def)
  qed
qed

lemma scan_pointer_sim:
  assumes "sim E holds True st s" and "sc_Width st = NOT (of_nat w)" and "w < 2 ^ 16"
    and "run_pointer (va_list E) (sc_NoAssign st) w (unat (sc_IntBytes st)) s = (r, s')"
  shows "\<exists>st'. scan_pointer E st = Some (r, st') \<and> sim E holds True st' s' \<and> ctl st' = ctl st"
proof -
  let ?s = "skip_white s"
  obtain st1 where s1: "SkipWhite E st = Some st1" "sim E holds True st1 ?s" "ctl st1 = ctl st" "sc_Width st1 = sc_Width st"
    using SkipWhite_sim [OF assms(1)] by blast
  have l1: "lo (sc_C st1) = ch CHR ''0'' \<longleftrightarrow> peek (sp_in ?s) = ch CHR ''0''"
    by (rule peek_lo [OF s1(2)]) simp_all
  show ?thesis
  proof (cases "peek (sp_in ?s) = ch CHR ''0''")
    case False
    then show ?thesis using s1 l1 assms(4) by (simp add: scan_pointer_def run_pointer_def Let_def)
  next
    case True
    then obtain xs where xs: "sp_in (converted ?s) = ch CHR ''0'' # xs" using peek_Cons by fastforce
    define st2 where "st2 = ReadChar E (st1\<lparr>sc_Converted := True\<rparr>)"
    have s2: "sim E holds True st2 (consume 1 (converted ?s))" "ctl st2 = ctl st" "sc_Width st2 = sc_Width st"
      using sim_read [OF sim_converted [OF s1(2)] xs] s1(3,4) by (simp_all add: st2_def)
    have l2: "lo (sc_C st2) = b \<longleftrightarrow> peek (tl (sp_in ?s)) = b" if "b \<noteq> 0" "b \<noteq> 0xFF" for b
      using peek_lo [OF s2(1) that] xs by simp
    have sc: "scan_pointer E st = (if lo (sc_C st2) \<noteq> ch CHR ''x'' \<and> lo (sc_C st2) \<noteq> ch CHR ''X'' then Some (NoConv, st2)
       else do { (rc, st) \<leftarrow> ReadInt E 16 (ReadChar E st2); Some (if rc \<noteq> RC_OK then (NoConv, st) else (Continue, AssignInt E st)) })"
      using s1(1) l1 True by (simp add: scan_pointer_def st2_def Let_def)
    show ?thesis
    proof (cases "peek (tl (sp_in ?s)) \<in> set (map ch ''xX'')")
      case False
      then show ?thesis using sc l2 s2 True assms(4) by (simp add: run_pointer_def Let_def)
    next
      case x: True
      then have "\<exists>y ys. xs = y # ys" using xs by (cases xs) auto
      then obtain y ys where "sp_in (consume 1 (converted ?s)) = y # ys" using xs by auto
      from sim_read [OF s2(1) this]
      have s3: "sim E holds True (ReadChar E st2) (consume 2 (converted ?s))" by (simp add: consume_add numeral_2_eq_2)
      have w3: "sc_Width (ReadChar E st2) = NOT (of_nat w)" using s2(3) assms(2) by simp
      from ReadInt_sim [OF s3 w3 assms(3), of 16] obtain st4 where
        s4: "ReadInt E 16 (ReadChar E st2) = Some (if fst (take_digits 16 w (consume 2 (converted ?s))) = None then RC_NOCONV else RC_OK, st4)"
        "sim E holds True st4 (snd (take_digits 16 w (consume 2 (converted ?s))))" "ctl st4 = ctl st2"
        "\<And>v. fst (take_digits 16 w (consume 2 (converted ?s))) = Some v \<Longrightarrow> sc_IntVal st4 = v" by auto
      have f: "sc_NoAssign st4 = sc_NoAssign st" "sc_IntBytes st4 = sc_IntBytes st" using s4(3) s2(2) by (simp_all add: ctl_def)
      have run: "(r, s') = (case take_digits 16 w (consume 2 (converted ?s)) of (None, t) \<Rightarrow> (NoConv, t)
          | (Some v, t) \<Rightarrow> (Continue, assign (va_list E) (sc_NoAssign st) (int_bytes (unat (sc_IntBytes st)) v) 1 t))"
        using assms(4) True x by (auto simp: run_pointer_def Let_def split: prod.splits option.splits)
      have sc2: "scan_pointer E st = Some (if fst (take_digits 16 w (consume 2 (converted ?s))) = None then (NoConv, st4) else (Continue, AssignInt E st4))"
        using sc x l2 s4(1) by auto
      show ?thesis
      proof (cases "fst (take_digits 16 w (consume 2 (converted ?s)))")
        case None
        then show ?thesis using sc2 run s4(2,3) s2(2) by (auto split: prod.splits)
      next
        case (Some v)
        then show ?thesis using sc2 run AssignInt_sim [OF s4(2)] f s4(3) s4(4) [OF Some] s2(2) by (auto split: prod.splits)
      qed
    qed
  qed
qed

lemma scan_count_sim:
  assumes "sim E holds True st s"
    and "run_directive (va_list E) (Convert (sc_NoAssign st) w (unat (sc_IntBytes st)) Count) s = (r, s')"
  shows "\<exists>st'. Some (scan_count E st) = Some (r, st') \<and> sim E holds True st' s' \<and> ctl st' = ctl st"
proof -
  have eof: "sc_C st = EOF \<longleftrightarrow> sp_in s = []" using sim_C [OF assms(1)] by (simp split: list.splits)
  then have n: "sc_CharCount st - (if sc_C st = EOF then 0 else 1) = of_nat (sp_used s)"
    using assms(1) by (simp add: sim_def)
  define st1 where "st1 = AssignInt E (st\<lparr>sc_IntVal := ucast (of_nat (sp_used s) :: WORD)\<rparr>)"
  have "sim E holds True (st\<lparr>sc_IntVal := ucast (of_nat (sp_used s) :: WORD)\<rparr>) s" using assms(1) by simp
  from AssignInt_sim [OF this]
  have s1: "sim E holds True st1 (assign (va_list E) (sc_NoAssign st) (int_bytes (unat (sc_IntBytes st)) (ucast (of_nat (sp_used s) :: WORD))) 1 s)"
    "ctl st1 = ctl st" by (simp_all add: st1_def)
  have c: "scan_count E st = (Continue, if sc_NoAssign st1 then st1 else st1\<lparr>sc_Assignments := sc_Assignments st1 - 1\<rparr>)"
    unfolding scan_count_def n Let_def st1_def by simp
  have b: "sc_NoAssign st1 = sc_NoAssign st" using s1(2) by (simp add: ctl_def)
  have "sim E holds True (if sc_NoAssign st1 then st1 else st1\<lparr>sc_Assignments := sc_Assignments st1 - 1\<rparr>) s'"
    using s1(1) assms(2) unfolding b by (auto simp: assign_def sim_def)
  then show ?thesis using c s1(2) assms(2) by auto
qed

lemma specifier_kind:
  assumes "sc_F st = peek fs" and "parse_kind fs = (k, r)"
  shows "specifier E hw st = (case k of Integer b \<Rightarrow> scan_integer E b st | String \<Rightarrow> scan_string E st
      | Chars \<Rightarrow> scan_chars E hw st | Set P \<Rightarrow> scan_set E st | Pointer \<Rightarrow> scan_pointer E st
      | Count \<Rightarrow> Some (scan_count E st) | Bad e \<Rightarrow> Some (bad_format e st))"
    and "(\<forall>P. k \<noteq> Set P) \<Longrightarrow> r = tl fs" and "k = Set P \<Longrightarrow> parse_set (tl fs) = (P, r)"
    and "peek fs = 0 \<Longrightarrow> k = Bad EINVAL"
  using assms by (auto simp: specifier_def parse_kind_def Let_def split: if_splits prod.splits)

lemma specifier_sim:
  assumes "sim E holds True st s" and cur: "current E st fs" and k: "parse_kind fs = (k, r)"
    and w: "sc_Width st = NOT (case wd of Some w \<Rightarrow> w | None \<Rightarrow> 0xFFFF)" "wd \<noteq> Some 0"
    and run: "run_directive (va_list E) (Convert (sc_NoAssign st) (limit wd k) (unat (sc_IntBytes st)) k) s = (out, s')"
  shows "\<exists>st'. specifier E (wd \<noteq> None) st = Some (out, st') \<and> sim E holds True st' s'
    \<and> (out = Continue \<longrightarrow> string_in (fmt_mem E) (sc_format st') r)"
proof -
  note F = current_F [OF cur]
  note spec = specifier_kind [OF F k]
  have lim: "sc_Width st = NOT (of_nat (limit wd k))" "0 < limit wd k" if "k \<noteq> Chars"
    using w that by (cases wd; cases k; simp add: limit_def unat_gt_0)+
  have lim16: "limit wd k < 2 ^ 16" using WORD_less by (cases wd; cases k) (simp_all add: limit_def)
  have nx: "string_in (fmt_mem E) (sc_format st) (tl fs)" if "peek fs \<noteq> 0"
    by (rule current_more [OF cur refl that])
  have frame: ?thesis
    if "\<exists>st'. specifier E (wd \<noteq> None) st = Some (out, st') \<and> sim E holds True st' s' \<and> ctl st' = ctl st"
      "peek fs \<noteq> 0" "\<forall>P. k \<noteq> Set P"
    using that nx spec(2) ctl_format by metis
  have pk: "peek fs \<noteq> 0" if "\<forall>e. k \<noteq> Bad e" using spec(4) that by blast
  show ?thesis
  proof (cases k)
    case (Integer b)
    then show ?thesis using scan_integer_sim [OF assms(1) lim lim16] run spec(1) pk by (intro frame) auto
  next
    case String
    then show ?thesis using scan_string_sim [OF assms(1) lim(1) lim16] run spec(1) pk by (intro frame) auto
  next
    case Chars
    have "(if wd \<noteq> None then sc_Width st else 0xFFFE) = NOT (of_nat (limit wd Chars))"
      using w(1) by (cases wd) (simp_all add: limit_def)
    then show ?thesis using scan_chars_sim [OF assms(1)] lim16 run spec(1) pk Chars by (intro frame) auto
  next
    case (Set P)
    have "peek fs \<noteq> 0" using pk Set by simp
    note sc = scan_set_sim [OF assms(1) lim(1) lim16 nx [OF this] spec(3) [OF Set]]
    show ?thesis using sc [of out s'] run spec(1) Set by auto
  next
    case Pointer
    then show ?thesis using scan_pointer_sim [OF assms(1) lim(1) lim16] run spec(1) pk by (intro frame) auto
  next
    case Count
    then show ?thesis using scan_count_sim [OF assms(1)] run spec(1) pk by (intro frame) auto
  next
    case (Bad e)
    have "sim E holds True (st\<lparr>sc_errno := e, sc_Assignments := EOF\<rparr>) (s\<lparr>sp_errno := e, sp_count := EOF\<rparr>)"
      using assms(1) by (simp add: sim_def)
    then show ?thesis using run spec(1) Bad by (auto simp: bad_format_def)
  qed
qed

lemma conversion_sim:
  assumes "sim E holds True st s" and "current E st fs" and "parse_conversion fs = (d, r)"
    and "run_directive (va_list E) d s = (out, s')"
  shows "\<exists>st'. conversion E st = Some (out, st') \<and> sim E holds True st' s' \<and> (out = Continue \<longrightarrow> string_in (fmt_mem E) (sc_format st') r)"
proof -
  define skip where "skip = (peek fs = ch CHR ''*'')"
  define fs1 where "fs1 = (if skip then tl fs else fs)"
  define st0 where "st0 = st\<lparr>sc_NoAssign := skip\<rparr>"
  define st1 where "st1 = (if skip then GetFormat E st0 else st0)\<lparr>sc_Width := 0xFFFF\<rparr>"
  have F: "sc_F st = peek fs" by (rule current_F [OF assms(2)])
  have c1: "current E st1 fs1"
    using assms(2) current_step [of E st0 fs "ch CHR ''*''"] by (auto simp: st1_def st0_def fs1_def current_cong skip_def)
  have sim_step: "sim E holds True (GetFormat E a) s = sim E holds True a s" for a
    by (simp add: GetFormat_def)
  have s1: "sim E holds True st1 s" "sc_NoAssign st1 = skip"
    using assms(1) by (simp_all add: st1_def st0_def sim_step)
  obtain wd fs2 where w: "parse_width fs1 = (wd, fs2)" by (cases "parse_width fs1")
  have dg: "isdigit (ucast (sc_F st1)) \<longleftrightarrow> wd \<noteq> None"
    using current_F [OF c1] w by (auto simp: parse_width_def split: if_splits)
  have "\<exists>st2. (if wd \<noteq> None then width_loop E (st1\<lparr>sc_Width := 0\<rparr>) else Some st1) = Some st2 \<and> current E st2 fs2
      \<and> input_part st2 = input_part st1 \<and> sc_Width st2 = (case wd of Some w \<Rightarrow> w | None \<Rightarrow> 0xFFFF)"
  proof (cases "digit_char (peek fs1)")
    case True
    have "current E (st1\<lparr>sc_Width := 0\<rparr>) fs1" using c1 by (simp add: current_cong)
    from width_loop_parse [OF this True] w True show ?thesis by (auto simp: parse_width_def number_def)
  next
    case False
    then show ?thesis using c1 w by (auto simp: parse_width_def st1_def)
  qed
  then obtain st2 where s2: "(if wd \<noteq> None then width_loop E (st1\<lparr>sc_Width := 0\<rparr>) else Some st1) = Some st2"
    "current E st2 fs2" "input_part st2 = input_part st1" "sc_Width st2 = (case wd of Some w \<Rightarrow> w | None \<Rightarrow> 0xFFFF)" by blast
  have sm2: "sim E holds True st2 s" "sc_NoAssign st2 = skip"
    using s1 sim_same_input [OF s2(3)] by simp_all
  have wz: "sc_Width st2 = 0 \<longleftrightarrow> wd = Some 0" using s2(4) by (cases wd) simp_all
  have conv: "conversion E st = (if wd = Some 0 then Some (bad_format EINVAL st2)
      else specifier E (wd \<noteq> None) (length_modifier E (st2\<lparr>sc_Width := NOT (sc_Width st2)\<rparr>)))"
  proof -
    have e: "(if sc_NoAssign (st\<lparr>sc_NoAssign := sc_F st = ch CHR ''*''\<rparr>) then GetFormat E (st\<lparr>sc_NoAssign := sc_F st = ch CHR ''*''\<rparr>)
        else st\<lparr>sc_NoAssign := sc_F st = ch CHR ''*''\<rparr>)\<lparr>sc_Width := 0xFFFF\<rparr> = st1"
      by (simp add: st1_def st0_def skip_def F)
    show ?thesis unfolding conversion_def Let_def e dg s2(1) by (simp add: wz)
  qed
  have pc: "parse_conversion fs = (if wd = Some 0 then (Convert skip 0 0 (Bad EINVAL), fs2)
      else case parse_length fs2 of (n, fs) \<Rightarrow> case parse_kind fs of (k, fs) \<Rightarrow> (Convert skip (limit wd k) n k, fs))"
    unfolding parse_conversion_def Let_def skip_def [symmetric] fs1_def [symmetric] w by simp
  show ?thesis
  proof (cases "wd = Some 0")
    case True
    have "sim E holds True (st2\<lparr>sc_errno := EINVAL, sc_Assignments := EOF\<rparr>) (s\<lparr>sp_errno := EINVAL, sp_count := EOF\<rparr>)"
      using sm2(1) by (simp add: sim_def)
    then show ?thesis using True conv pc assms(3,4) by (auto simp: bad_format_def)
  next
    case False
    define st3 where "st3 = length_modifier E (st2\<lparr>sc_Width := NOT (sc_Width st2)\<rparr>)"
    have c2: "current E (st2\<lparr>sc_Width := NOT (sc_Width st2)\<rparr>) fs2" using s2(2) by (simp add: current_cong)
    note lm = length_modifier_parse [OF c2, folded st3_def]
    obtain n fs3 where n: "parse_length fs2 = (n, fs3)" by (cases "parse_length fs2")
    obtain k fs4 where k: "parse_kind fs3 = (k, fs4)" by (cases "parse_kind fs3")
    have "n < 4" using n by (auto simp: parse_length_def split: if_splits)
    then have nb: "unat (of_nat n :: BYTE) = n" by (intro unat_of_nat_less) simp
    have same: "input_part st3 = input_part (st2\<lparr>sc_IntBytes := of_nat n\<rparr>)"
      using lm(2) n by (simp add: input_part_def)
    have s3: "sim E holds True st3 s" "sc_NoAssign st3 = skip" "unat (sc_IntBytes st3) = n"
      using sm2 sim_same_input [OF same] nb by simp_all
    have w3: "sc_Width st3 = NOT (case wd of Some w \<Rightarrow> w | None \<Rightarrow> 0xFFFF)" using lm(3) s2(4) by simp
    have cur3: "current E st3 fs3" using lm(1) n by simp
    have d: "d = Convert (sc_NoAssign st3) (limit wd k) (unat (sc_IntBytes st3)) k" "r = fs4"
      using assms(3) False n k s3(2,3) by (simp_all add: pc)
    from specifier_sim [OF s3(1) cur3 k w3 False assms(4) [unfolded d(1)]] show ?thesis
      using conv False d(2) by (simp add: st3_def)
  qed
qed

lemma run_directive_outcome: "fst (run_directive va d s) \<noteq> Again"
  by (rule run_directive.cases [of "(va, d, s)"])
    (auto simp: run_integer_def run_string_def run_chars_def run_set_def run_pointer_def Let_def split: prod.splits option.splits)

lemma literal_sim:
  assumes "sim E holds True st s" and "sc_F st = c"
  shows "\<exists>st'. literal st = (if sp_in s \<noteq> [] \<and> hd (sp_in s) = c then Again else NoConv, st)
    \<and> (sp_in s \<noteq> [] \<and> hd (sp_in s) = c \<longrightarrow> sim E holds True (ReadChar E st) (consume 1 s))"
proof -
  have inj: "ucast (d :: BYTE) = (ucast c :: cint) \<longleftrightarrow> d = c" for d
    by (metis lo_ucast)
  show ?thesis
    using sim_C [OF assms(1)] sim_read [OF assms(1)] assms(2) inj by (cases "sp_in s") (auto simp: literal_def)
qed

lemma scan_loop_sim:
  assumes "string_in (fmt_mem E) (sc_format st) fs" and "sim E holds True st s"
    and "run_format (va_list E) (parse_format fs) s = (out, s')"
  shows "\<exists>st'. scan_loop E st = Some (out, st') \<and> sim E holds True st' s'"
  using assms
proof (induction fs arbitrary: st s rule: parse_format.induct)
  case (1 st s)
  have "sc_F (GetFormat E st) = 0" using 1(1) by (simp add: GetFormat_def)
  moreover have "sim E holds True (GetFormat E st) s" using 1(2) by (simp add: GetFormat_def)
  ultimately show ?case using 1(3) by (subst scan_loop.simps) simp
next
  case (2 c fs st s)
  note IHw = 2(1) and IHl = 2(2) and IHc = 2(3)
  let ?st = "GetFormat E st"
  have cur: "current E ?st (c # fs)" by (rule GetFormat_current [OF 2(4)])
  have F: "sc_F ?st = c" "c \<noteq> 0" using cur by (simp_all add: current_def)
  have nx: "string_in (fmt_mem E) (sc_format ?st) fs" by (rule current_next [OF cur])
  have sm: "sim E holds True ?st s" using 2(5) by (simp add: GetFormat_def)
  have unf: "scan_loop E st = do { (r, st) \<leftarrow> directive E ?st;
       if r = Continue then scan_loop E st else if r = Again then scan_loop E (ReadChar E st) else Some (r, st) }"
    using F by (subst scan_loop.simps) simp
  show ?case
  proof (cases "c \<noteq> ch CHR ''%''")
    case True
    show ?thesis
    proof (cases "white c")
      case white: True
      from SkipWhite_sim [OF sm] obtain st2 where s2: "SkipWhite E ?st = Some st2" "sim E holds True st2 (skip_white s)" "ctl st2 = ctl ?st"
        by blast
      have "directive E ?st = Some (Continue, st2)" using F True white s2(1) by (simp add: directive_def)
      moreover have "string_in (fmt_mem E) (sc_format st2) fs" using nx ctl_format [OF s2(3)] by simp
      moreover have r: "run_format (va_list E) (parse_format fs) (skip_white s) = (out, s')" using 2(6) True white by simp
      ultimately show ?thesis using IHw [OF True _ s2(2) r] unf by simp
    next
      case False
      have d: "directive E ?st = Some (literal ?st)" using F True False by (simp add: directive_def)
      note l = literal_sim [OF sm F(1)]
      show ?thesis
      proof (cases "sp_in s \<noteq> [] \<and> hd (sp_in s) = c")
        case yes: True
        have r: "run_format (va_list E) (parse_format fs) (consume 1 s) = (out, s')" using 2(6) True False yes by simp
        show ?thesis using IHw [OF True _ _ r, of "ReadChar E ?st"] l yes nx unf d by simp
      next
        case no: False
        then show ?thesis using 2(6) True False l unf d sm by auto
      qed
    qed
  next
    case percent: False
    let ?st2 = "GetFormat E ?st"
    have c2: "current E ?st2 fs" by (rule GetFormat_current [OF nx])
    have sm2: "sim E holds True ?st2 s" using sm by (simp add: GetFormat_def)
    have F2: "sc_F ?st2 = peek fs" by (rule current_F [OF c2])
    show ?thesis
    proof (cases "peek fs = ch CHR ''%''")
      case True
      have d: "directive E ?st = Some (literal ?st2)" using F F2 percent True by (simp add: directive_def)
      have nx2: "string_in (fmt_mem E) (sc_format ?st2) (tl fs)" by (rule current_more [OF c2 True]) simp
      note l = literal_sim [OF sm2 F2 [unfolded True]]
      show ?thesis
      proof (cases "sp_in s \<noteq> [] \<and> hd (sp_in s) = ch CHR ''%''")
        case yes: True
        have r: "run_format (va_list E) (parse_format (tl fs)) (consume 1 s) = (out, s')" using 2(6) percent True yes by simp
        then show ?thesis using IHl [OF percent True _ _ r, of "ReadChar E ?st2"] l yes nx2 unf d by simp
      next
        case no: False
        then show ?thesis using 2(6) percent True l unf d sm2 by auto
      qed
    next
      case False
      obtain dd r where p: "parse_conversion fs = (dd, r)" by (cases "parse_conversion fs")
      obtain out1 s1 where run: "run_directive (va_list E) dd s = (out1, s1)" by (cases "run_directive (va_list E) dd s")
      from conversion_sim [OF sm2 c2 p run] obtain st3 where
        s3: "conversion E ?st2 = Some (out1, st3)" "sim E holds True st3 s1"
        "out1 = Continue \<longrightarrow> string_in (fmt_mem E) (sc_format st3) r" by blast
      have d: "directive E ?st = Some (out1, st3)" using F F2 percent False s3(1) by (simp add: directive_def)
      have again: "out1 \<noteq> Again"
        using run_directive_outcome [of "va_list E" dd s] run by simp
      have rf: "(if out1 = Continue then run_format (va_list E) (parse_format r) s1 else (out1, s1)) = (out, s')"
        using 2(6) percent False p run by simp
      show ?thesis
      proof (cases "out1 = Continue")
        case True
        then show ?thesis using IHc [OF percent False p [symmetric] _ s3(2)] s3(3) rf unf d by simp
      next
        case no: False
        then show ?thesis using rf again s3(2) unf d by auto
      qed
    qed
  qed
qed

text \<open>_scanf itself: it returns, with what the specification says, and the source is left behind
  exactly the characters taken.\<close>

lemma scanf_sim:
  assumes "holds (sc_src st) xs" and "string_in (fmt_mem E) f fs"
  defines "s' \<equiv> run_scanf (va_list E) (parse_format fs) xs (sc_mem st) (sc_errno st)"
  shows "\<exists>st'. scanf E f st = Some (sp_count s', st') \<and> sc_mem st' = sp_mem s' \<and> sc_errno st' = sp_errno s'
    \<and> holds (sc_src st') (sp_in s') \<and> sc_CharCount st' = of_nat (sp_used s')"
proof -
  define s0 where "s0 = \<lparr>sp_in = xs, sp_used = 0, sp_conv = False, sp_count = 0, sp_arg = 0, sp_mem = sc_mem st, sp_errno = sc_errno st\<rparr>"
  define st0 where "st0 = st\<lparr>sc_format := f, sc_ap := 0, sc_Converted := False, sc_Assignments := 0, sc_CharCount := 0\<rparr>"
  have sm: "sim E holds True (ReadChar E st0) s0"
    using assms(1) by (intro sim_start) (simp_all add: s0_def st0_def)
  have fm: "string_in (fmt_mem E) (sc_format (ReadChar E st0)) fs" using assms(2) by (simp add: st0_def)
  obtain out s1 where run: "run_format (va_list E) (parse_format fs) s0 = (out, s1)"
    by (cases "run_format (va_list E) (parse_format fs) s0")
  from scan_loop_sim [OF fm sm run] obtain st1 where
    s1: "scan_loop E (ReadChar E st0) = Some (out, st1)" "sim E holds True st1 s1" by blast
  have eof: "sc_C st1 = EOF \<longleftrightarrow> sp_in s1 = []" using sim_C [OF s1(2)] by (simp split: list.splits)
  define q where "q \<longleftrightarrow> out = NoConv \<and> sp_in s1 = [] \<and> \<not> sp_conv s1"
  have q: "out = NoConv \<and> sc_C st1 = EOF \<and> \<not> sc_Converted st1 \<longleftrightarrow> q"
    using eof s1(2) by (simp add: q_def sim_def)
  define st2 where "st2 = (if q then st1\<lparr>sc_Assignments := EOF\<rparr> else st1)"
  have s': "s' = (if q then s1\<lparr>sp_count := EOF\<rparr> else s1)"
    by (simp add: s'_def run_scanf_def run [unfolded s0_def] q_def)
  have sm2: "sim E holds True st2 s'"
    using s1(2) by (simp add: st2_def s' sim_def)
  have "scanf E f st = Some (sc_Assignments (PushBack E st2), PushBack E st2)"
    unfolding scanf_def st0_def [symmetric] s1(1) by (simp add: q st2_def Let_def)
  moreover have "sc_Assignments st2 = sp_count s'" "sc_mem st2 = sp_mem s'" "sc_errno st2 = sp_errno s'"
    using sm2 by (simp_all add: sim_def)
  ultimately show ?thesis using sim_push_back [OF sm2] by simp
qed

end

end
