(* ===== verification/Lib_Stdio.thy ===== *)
theory Lib_Stdio
  imports Lib_Scanf
begin

text \<open>
  Streams of the cc65 library: fgetc.c, fgets.c, gets.c, getchar.c, fputc.c, fputs.c, puts.c, fseek.c,
  ftell.c, rewind.c, fgetpos.c, fsetpos.c, ungetc.s and the small functions of fmisc.s. The state is
  the FILE a call works on, with errno and what is behind the file descriptor. The functions read,
  write and lseek of the operating system are a parameter: no source of them is in the library.
\<close>

section \<open>Data (_file.h, stdio.h)\<close>

definition FOPEN :: BYTE where "FOPEN = 0x01"

definition FEOF :: BYTE where "FEOF = 0x02"

definition FERROR :: BYTE where "FERROR = 0x04"

definition FPUSHBACK :: BYTE where "FPUSHBACK = 0x08"

definition SEEK_CUR :: cint where "SEEK_CUR = 0"

definition SEEK_SET :: cint where "SEEK_SET = 2"

record 'o stream =
  f_fd :: BYTE
  f_flags :: BYTE
  f_pushback :: BYTE
  io_errno :: cint
  io_os :: 'o

text \<open>read of one byte, with its result and the byte; write of some bytes; lseek.\<close>

record 'o os_calls =
  os_read :: "BYTE \<Rightarrow> 'o \<Rightarrow> cint \<times> BYTE \<times> 'o"
  os_write :: "BYTE \<Rightarrow> BYTE list \<Rightarrow> 'o \<Rightarrow> cint \<times> 'o"
  os_lseek :: "BYTE \<Rightarrow> DWORD \<Rightarrow> cint \<Rightarrow> 'o \<Rightarrow> DWORD \<times> 'o"

definition has_flag :: "BYTE \<Rightarrow> 'o stream \<Rightarrow> bool" where
  "has_flag m f \<longleftrightarrow> f_flags f AND m \<noteq> 0"

definition set_flag :: "BYTE \<Rightarrow> 'o stream \<Rightarrow> 'o stream" where
  "set_flag m f = f\<lparr>f_flags := f_flags f OR m\<rparr>"

definition clear_flag :: "BYTE \<Rightarrow> 'o stream \<Rightarrow> 'o stream" where
  "clear_flag m f = f\<lparr>f_flags := f_flags f AND NOT m\<rparr>"

text \<open>The check fgetc, fputc and fputs begin with.\<close>

definition unusable :: "'o stream \<Rightarrow> bool" where
  "unusable f \<longleftrightarrow> \<not> has_flag FOPEN f \<or> has_flag (FERROR OR FEOF) f"

section \<open>Reading\<close>

definition fgetc :: "'o os_calls \<Rightarrow> 'o stream \<Rightarrow> cint \<times> 'o stream" where
  "fgetc D f = (
     if unusable f then (EOF, f)
     else if has_flag FPUSHBACK f then (ucast (f_pushback f), clear_flag FPUSHBACK f)
     else case os_read D (f_fd f) (io_os f) of (n, c, os) \<Rightarrow>
       let f = f\<lparr>io_os := os\<rparr> in
       if n = - 1 then (EOF, set_flag FERROR f)
       else if n = 0 then (EOF, set_flag FEOF f)
       else (ucast c, f))"

definition ungetc :: "cint \<Rightarrow> 'o stream \<Rightarrow> cint \<times> 'o stream" where
  "ungetc c f = (
     if hi c \<noteq> 0 \<or> \<not> has_flag FOPEN f then (- 1, f\<lparr>io_errno := EINVAL\<rparr>)
     else (c, (clear_flag FEOF (set_flag FPUSHBACK f))\<lparr>f_pushback := lo c\<rparr>))"

definition getchar :: "'o os_calls \<Rightarrow> 'o stream \<Rightarrow> cint \<times> 'o stream" where
  "getchar D stdin = fgetc D stdin"

text \<open>
  fgets: the loop with the counters \<open>sz\<close> and \<open>i\<close>, and the result: the buffer is filled, or the null
  pointer is returned. A buffer is a list; the text of the C code stores into \<open>s[i]\<close>.
\<close>

datatype line_end = Filled | Null

partial_function (option) fgets_loop ::
  "'o os_calls \<Rightarrow> WORD \<Rightarrow> WORD \<Rightarrow> BYTE list \<Rightarrow> 'o stream \<Rightarrow> (line_end \<times> WORD \<times> BYTE list \<times> 'o stream) option" where
  "fgets_loop D sz i s f = (let sz = sz - 1 in
     if sz = 0 then Some (Filled, i, s, f)
     else case fgetc D f of (c, f) \<Rightarrow>
       if c = EOF then
         let s = s[unat i := 0] in
         Some (if has_flag FERROR f \<or> i = 0 then Null else Filled, i, s, f)
       else
         let s = s[unat i := lo c] in
         if c = 10 then Some (Filled, i + 1, s, f) else fgets_loop D sz (i + 1) s f)"

definition fgets :: "'o os_calls \<Rightarrow> BYTE list \<Rightarrow> WORD \<Rightarrow> 'o stream \<Rightarrow> (line_end \<times> BYTE list \<times> 'o stream) option" where
  "fgets D s sz f = (
     if sz = 0 then Some (Null, s, f\<lparr>io_errno := EINVAL\<rparr>)
     else do {
       (r, i, s, f) \<leftarrow> fgets_loop D sz 0 s f;
       Some (r, if r = Filled then s[unat i := 0] else s, f) })"

text \<open>gets, with no bound of its own.\<close>

partial_function (option) gets_loop ::
  "'o os_calls \<Rightarrow> cint \<Rightarrow> BYTE list \<Rightarrow> 'o stream \<Rightarrow> (line_end \<times> BYTE list \<times> 'o stream) option" where
  "gets_loop D i s f = (case fgetc D f of (c, f) \<Rightarrow>
     if c = EOF then
       let s = s[unat i := 0] in
       Some (if has_flag FERROR f \<or> i = 0 then Null else Filled, s, f)
     else
       let s = s[unat i := lo c]; i = i + 1 in
       if c \<noteq> 10 then gets_loop D i s f else Some (Filled, s[unat (i - 1) := 0], f))"

definition gets :: "'o os_calls \<Rightarrow> BYTE list \<Rightarrow> 'o stream \<Rightarrow> (line_end \<times> BYTE list \<times> 'o stream) option" where
  "gets D s stdin = gets_loop D 0 s stdin"

section \<open>Writing\<close>

definition fputc :: "'o os_calls \<Rightarrow> cint \<Rightarrow> 'o stream \<Rightarrow> cint \<times> 'o stream" where
  "fputc D c f = (
     if unusable f then (EOF, f)
     else case os_write D (f_fd f) [lo c] (io_os f) of (n, os) \<Rightarrow>
       let f = f\<lparr>io_os := os\<rparr> in
       if n <=s 0 then (EOF, set_flag FERROR f) else (c AND 0xFF, f))"

text \<open>\<open>s\<close> is the memory at the string.\<close>

definition fputs :: "'o os_calls \<Rightarrow> BYTE list \<Rightarrow> 'o stream \<Rightarrow> cint \<times> 'o stream" where
  "fputs D s f = (
     if unusable f then (EOF, f)
     else case os_write D (f_fd f) (cstr s) (io_os f) of (n, os) \<Rightarrow> (n, f\<lparr>io_os := os\<rparr>))"

definition puts :: "'o os_calls \<Rightarrow> BYTE list \<Rightarrow> 'o stream \<Rightarrow> cint \<times> 'o stream" where
  "puts D s stdout = (case os_write D (f_fd stdout) (cstr s) (io_os stdout) of (n, os) \<Rightarrow>
     let stdout = stdout\<lparr>io_os := os\<rparr> in
     if n <s 0 then (- 1, set_flag FERROR stdout)
     else case os_write D (f_fd stdout) [10] (io_os stdout) of (n, os) \<Rightarrow>
       let stdout = stdout\<lparr>io_os := os\<rparr> in
       if n <s 0 then (- 1, set_flag FERROR stdout) else (0, stdout))"

section \<open>Positions\<close>

definition fseek :: "'o os_calls \<Rightarrow> 'o stream \<Rightarrow> DWORD \<Rightarrow> cint \<Rightarrow> cint \<times> 'o stream" where
  "fseek D f offset whence = (
     if \<not> has_flag FOPEN f then (- 1, f\<lparr>io_errno := EINVAL\<rparr>)
     else let offset = (if has_flag FPUSHBACK f \<and> whence = SEEK_CUR then offset - 1 else offset) in
       case os_lseek D (f_fd f) offset whence (io_os f) of (res, os) \<Rightarrow>
         let f = f\<lparr>io_os := os\<rparr> in
         if res <s 0 then (- 1, set_flag FERROR f) else (0, clear_flag (FEOF OR FPUSHBACK) f))"

definition ftell :: "'o os_calls \<Rightarrow> 'o stream \<Rightarrow> DWORD \<times> 'o stream" where
  "ftell D f = (
     if \<not> has_flag FOPEN f then (- 1, f\<lparr>io_errno := EINVAL\<rparr>)
     else case os_lseek D (f_fd f) 0 SEEK_CUR (io_os f) of (pos, os) \<Rightarrow>
       (if 0 <s pos \<and> has_flag FPUSHBACK f then pos - 1 else pos, f\<lparr>io_os := os\<rparr>))"

text \<open>clearerr, ferror and feof (fmisc.s).\<close>

definition clearerr :: "'o stream \<Rightarrow> 'o stream" where
  "clearerr f = (if has_flag FOPEN f then clear_flag (FEOF OR FERROR) f else f)"

definition ferror :: "'o stream \<Rightarrow> bool" where
  "ferror f = has_flag FERROR f"

definition rewind :: "'o os_calls \<Rightarrow> 'o stream \<Rightarrow> 'o stream" where
  "rewind D f = clearerr (snd (fseek D f 0 SEEK_SET))"

definition fgetpos :: "'o os_calls \<Rightarrow> 'o stream \<Rightarrow> cint \<times> DWORD \<times> 'o stream" where
  "fgetpos D f = (case ftell D f of (pos, f) \<Rightarrow> (if pos \<noteq> - 1 then 0 else - 1, pos, f))"

definition fsetpos :: "'o os_calls \<Rightarrow> 'o stream \<Rightarrow> DWORD \<Rightarrow> cint \<times> 'o stream" where
  "fsetpos D f pos = fseek D f pos SEEK_SET"

end
