(* ===== verification/Lib_Scan_Sources.thy ===== *)
theory Lib_Scan_Sources
  imports Lib_Scanf_Refine Lib_Stdio
begin

text \<open>
  The two scanf functions with their sources: vsscanf.s reads a string, vfscanf.s a stream through
  fgetc and ungetc. Both are interpretations of the locale \<open>scan_source\<close>.
\<close>

section \<open>vsscanf.s\<close>

record sscanfdata =
  sd_str :: WORD
  sd_index :: WORD

definition sscan_get :: "(WORD \<Rightarrow> BYTE) \<Rightarrow> sscanfdata \<Rightarrow> cint \<times> sscanfdata" where
  "sscan_get M d = (let c = M (sd_str d + sd_index d) in
     if c = 0 then (EOF, d) else (ucast c, d\<lparr>sd_index := sd_index d + 1\<rparr>))"

definition sscan_unget :: "cint \<Rightarrow> sscanfdata \<Rightarrow> cint \<times> sscanfdata" where
  "sscan_unget c d = (c, d\<lparr>sd_index := sd_index d - 1\<rparr>)"

definition sscan_env :: "(WORD \<Rightarrow> BYTE) \<Rightarrow> (nat \<Rightarrow> WORD) \<Rightarrow> sscanfdata scan_env" where
  "sscan_env M va = \<lparr>get_fun = sscan_get M, unget_fun = sscan_unget, fmt_mem = M, va_list = va\<rparr>"

definition vsscanf :: "(WORD \<Rightarrow> BYTE) \<Rightarrow> (nat \<Rightarrow> WORD) \<Rightarrow> WORD \<Rightarrow> WORD \<Rightarrow> sscanfdata scan \<Rightarrow> (cint \<times> sscanfdata scan) option" where
  "vsscanf M va str format st = scanf (sscan_env M va) format (st\<lparr>sc_src := \<lparr>sd_str = str, sd_index = 0\<rparr>\<rparr>)"

section \<open>vfscanf.s\<close>

definition fscan_env :: "'o os_calls \<Rightarrow> (WORD \<Rightarrow> BYTE) \<Rightarrow> (nat \<Rightarrow> WORD) \<Rightarrow> 'o stream scan_env" where
  "fscan_env D M va = \<lparr>get_fun = fgetc D, unget_fun = ungetc, fmt_mem = M, va_list = va\<rparr>"

definition vfscanf ::
  "'o os_calls \<Rightarrow> (WORD \<Rightarrow> BYTE) \<Rightarrow> (nat \<Rightarrow> WORD) \<Rightarrow> 'o stream \<Rightarrow> WORD \<Rightarrow> 'o stream scan \<Rightarrow> (cint \<times> 'o stream scan) option" where
  "vfscanf D M va f format st = do {
     (count, st) \<leftarrow> scanf (fscan_env D M va) format (st\<lparr>sc_src := f\<rparr>);
     Some (if ferror (sc_src st) then EOF else count, st) }"

section \<open>What the sources hold\<close>

definition string_holds :: "(WORD \<Rightarrow> BYTE) \<Rightarrow> sscanfdata \<Rightarrow> BYTE list \<Rightarrow> bool" where
  "string_holds M d xs \<longleftrightarrow> string_in M (sd_str d + sd_index d) xs"

interpretation sscan: scan_source "sscan_env M va" "string_holds M" for M va
  by unfold_locales (auto simp: string_holds_def sscan_env_def sscan_get_def sscan_unget_def Let_def add.assoc)

text \<open>What the operating system's read delivers: one byte after the other, then 0 for the end.\<close>

primrec delivers :: "'o os_calls \<Rightarrow> BYTE \<Rightarrow> 'o \<Rightarrow> BYTE list \<Rightarrow> bool" where
  "delivers D fd os [] \<longleftrightarrow> (\<exists>c os'. os_read D fd os = (0, c, os'))"
| "delivers D fd os (b # bs) \<longleftrightarrow> (\<exists>os'. os_read D fd os = (1, b, os') \<and> delivers D fd os' bs)"

definition stream_holds :: "'o os_calls \<Rightarrow> 'o stream \<Rightarrow> BYTE list \<Rightarrow> bool" where
  "stream_holds D f xs \<longleftrightarrow> has_flag FOPEN f \<and> \<not> has_flag FERROR f \<and>
     (if has_flag FEOF f then xs = []
      else if has_flag FPUSHBACK f then xs \<noteq> [] \<and> hd xs = f_pushback f \<and> delivers D (f_fd f) (io_os f) (tl xs)
      else delivers D (f_fd f) (io_os f) xs)"

lemma flag_bits:
  "has_flag FOPEN f \<longleftrightarrow> bit (f_flags f) 0" "has_flag FEOF f \<longleftrightarrow> bit (f_flags f) 1" "has_flag FERROR f \<longleftrightarrow> bit (f_flags f) 2"
  "has_flag FPUSHBACK f \<longleftrightarrow> bit (f_flags f) 3"
  by (simp_all add: has_flag_def FOPEN_def FEOF_def FERROR_def FPUSHBACK_def bit_iff_and_push_bit_not_eq_0)

lemma flag_or: "has_flag (a OR b) f \<longleftrightarrow> has_flag a f \<or> has_flag b f"
  by (simp add: has_flag_def bit.conj_disj_distrib or_eq_0_iff)

lemma flag_simps [simp]:
  "has_flag FOPEN (clear_flag FPUSHBACK f) = has_flag FOPEN f" "has_flag FERROR (clear_flag FPUSHBACK f) = has_flag FERROR f"
  "has_flag FEOF (clear_flag FPUSHBACK f) = has_flag FEOF f" "\<not> has_flag FPUSHBACK (clear_flag FPUSHBACK f)"
  "has_flag FOPEN (clear_flag FEOF f) = has_flag FOPEN f" "has_flag FERROR (clear_flag FEOF f) = has_flag FERROR f"
  "\<not> has_flag FEOF (clear_flag FEOF f)" "has_flag FPUSHBACK (clear_flag FEOF f) = has_flag FPUSHBACK f"
  "has_flag FOPEN (set_flag FEOF f) = has_flag FOPEN f" "has_flag FERROR (set_flag FEOF f) = has_flag FERROR f" "has_flag FEOF (set_flag FEOF f)"
  "has_flag FOPEN (set_flag FPUSHBACK f) = has_flag FOPEN f" "has_flag FERROR (set_flag FPUSHBACK f) = has_flag FERROR f"
  "has_flag FPUSHBACK (set_flag FPUSHBACK f)"
  unfolding flag_bits
  by (simp_all add: clear_flag_def set_flag_def FOPEN_def FEOF_def FERROR_def FPUSHBACK_def bit_simps)

lemma flag_other [simp]:
  "has_flag m (f\<lparr>io_os := os\<rparr>) = has_flag m f" "has_flag m (f\<lparr>f_pushback := c\<rparr>) = has_flag m f" "has_flag m (f\<lparr>io_errno := e\<rparr>) = has_flag m f"
  by (simp_all add: has_flag_def)

lemma flag_fields [simp]:
  "f_fd (set_flag m f) = f_fd f" "f_fd (clear_flag m f) = f_fd f" "io_os (set_flag m f) = io_os f"
  "io_os (clear_flag m f) = io_os f" "f_pushback (set_flag m f) = f_pushback f" "f_pushback (clear_flag m f) = f_pushback f"
  by (simp_all add: set_flag_def clear_flag_def)

lemma stream_get:
  assumes "stream_holds D f (c # cs)"
  shows "\<exists>f'. fgetc D f = (ucast c, f') \<and> stream_holds D f' cs \<and> stream_holds D (snd (ungetc (ucast c) f')) (c # cs)"
proof (cases "has_flag FPUSHBACK f")
  case True
  then show ?thesis using assms
    by (auto simp: stream_holds_def fgetc_def ungetc_def unusable_def flag_or Let_def split: if_splits)
next
  case False
  then obtain os' where os: "os_read D (f_fd f) (io_os f) = (1, c, os')" "delivers D (f_fd f) os' cs"
    and fl: "has_flag FOPEN f" "\<not> has_flag FERROR f" "\<not> has_flag FEOF f"
    using assms by (auto simp: stream_holds_def split: if_splits)
  then have "fgetc D f = (ucast c, f\<lparr>io_os := os'\<rparr>)" using False by (simp add: fgetc_def unusable_def flag_or)
  moreover have "stream_holds D (f\<lparr>io_os := os'\<rparr>) cs" using os fl False by (simp add: stream_holds_def)
  moreover have "stream_holds D (snd (ungetc (ucast c) (f\<lparr>io_os := os'\<rparr>))) (c # cs)"
    using os fl by (simp add: stream_holds_def ungetc_def)
  ultimately show ?thesis by blast
qed

lemma stream_end:
  assumes "stream_holds D f []"
  shows "\<exists>f'. fgetc D f = (EOF, f') \<and> stream_holds D f' []"
proof (cases "has_flag FEOF f")
  case True
  then have "fgetc D f = (EOF, f)" by (simp add: fgetc_def unusable_def flag_or)
  then show ?thesis using assms by blast
next
  case False
  then obtain c os' where os: "os_read D (f_fd f) (io_os f) = (0, c, os')"
    and fl: "has_flag FOPEN f" "\<not> has_flag FERROR f" "\<not> has_flag FPUSHBACK f"
    using assms by (auto simp: stream_holds_def split: if_splits)
  then have "fgetc D f = (EOF, set_flag FEOF (f\<lparr>io_os := os'\<rparr>))" using False by (simp add: fgetc_def unusable_def flag_or)
  moreover have "stream_holds D (set_flag FEOF (f\<lparr>io_os := os'\<rparr>)) []" using fl by (simp add: stream_holds_def)
  ultimately show ?thesis by blast
qed

interpretation fscan: scan_source "fscan_env D M va" "stream_holds D" for D M va
proof unfold_locales
  show "\<exists>s'. get_fun (fscan_env D M va) s = (ucast c, s') \<and> stream_holds D s' cs
      \<and> stream_holds D (snd (unget_fun (fscan_env D M va) (ucast c) s')) (c # cs)"
    if "stream_holds D s (c # cs)" for s c cs
    using stream_get [OF that] by (simp add: fscan_env_def)
  show "\<exists>s'. get_fun (fscan_env D M va) s = (EOF, s') \<and> stream_holds D s' []" if "stream_holds D s []" for s
    using stream_end [OF that] by (simp add: fscan_env_def)
qed

text \<open>An operating system with one file, of which the bytes left are the state.\<close>

definition ex_os :: "BYTE list os_calls" where
  "ex_os = \<lparr>os_read = (\<lambda>fd os. case os of [] \<Rightarrow> (0, 0, []) | b # bs \<Rightarrow> (1, b, bs)),
     os_write = (\<lambda>fd bs os. (of_nat (length bs), os)), os_lseek = (\<lambda>fd n w os. (0, os))\<rparr>"

definition ex_stream :: "BYTE list \<Rightarrow> BYTE list stream" where
  "ex_stream bs = \<lparr>f_fd = 3, f_flags = FOPEN, f_pushback = 0, io_errno = 0, io_os = bs\<rparr>"

lemma ex_stream_holds: "stream_holds ex_os (ex_stream bs) bs"
proof -
  have "delivers ex_os fd bs bs" for fd by (induction bs) (simp_all add: ex_os_def)
  then show ?thesis
    by (simp add: stream_holds_def ex_stream_def has_flag_def FOPEN_def FEOF_def FERROR_def FPUSHBACK_def)
qed

end
