(* ===== verification/Lib_Scanf_Props.thy ===== *)
theory Lib_Scanf_Props
  imports Lib_Scan_Sources
begin

text \<open>
  What follows from the specification of the scanf functions: how much of the input is taken, which
  memory a format can change, and that a number in decimal is read back. The properties at the end
  are about vsscanf and vfscanf themselves.
\<close>

section \<open>The input taken\<close>

definition rest_of :: "BYTE list \<Rightarrow> scanned \<Rightarrow> bool" where
  "rest_of X s \<longleftrightarrow> sp_in s = drop (sp_used s) X \<and> sp_used s \<le> length X"

lemma rest_of_steps [intro]:
  "rest_of X s \<Longrightarrow> rest_of X (consume k s)" "rest_of X s \<Longrightarrow> rest_of X (converted s)"
  "rest_of X s \<Longrightarrow> rest_of X (skip_white s)" "rest_of X s \<Longrightarrow> rest_of X (assign va b bs n s)"
proof -
  show c: "rest_of X s \<Longrightarrow> rest_of X (consume k s)" for k
    by (cases "k \<le> length X - sp_used s") (auto simp: rest_of_def min_def add.commute)
  show "rest_of X s \<Longrightarrow> rest_of X (skip_white s)" by (simp add: skip_white_def c)
  show "rest_of X s \<Longrightarrow> rest_of X (converted s)" "rest_of X s \<Longrightarrow> rest_of X (assign va b bs n s)"
    by (simp_all add: rest_of_def assign_def)
qed

lemma rest_of_parts:
  "rest_of X s \<Longrightarrow> rest_of X (snd (take_sign s))" "rest_of X s \<Longrightarrow> rest_of X (snd (take_base b s))"
  "rest_of X s \<Longrightarrow> rest_of X (snd (take_digits b w s))"
  by (auto simp: take_sign_def take_base_def take_digits_def Let_def)

lemma rest_of_directive: "rest_of X s \<Longrightarrow> rest_of X (snd (run_directive va d s))"
proof (induction va d s rule: run_directive.induct)
  case (3 va skip w n base s)
  define s1 where "s1 = snd (take_sign (skip_white s))"
  define b where "b = fst (take_base base s1)"
  define s2 where "s2 = snd (take_base base s1)"
  define s3 where "s3 = snd (take_digits b w s2)"
  have "rest_of X s3" unfolding s1_def s2_def s3_def by (intro rest_of_parts rest_of_steps 3)
  then show ?case by (auto simp: run_integer_def s1_def s2_def s3_def b_def split: prod.splits option.splits)
next
  case (7 va skip w n s)
  define s1 where "s1 = consume 2 (converted (skip_white s))"
  have "rest_of X (snd (take_digits 16 w s1))" unfolding s1_def by (intro rest_of_parts rest_of_steps 7)
  then show ?case using 7 by (auto simp: run_pointer_def Let_def s1_def split: prod.splits option.splits)
next
  case 9
  then show ?case by (simp add: rest_of_def)
qed (auto simp: run_string_def run_chars_def run_set_def Let_def)

lemma rest_of_format: "rest_of X s \<Longrightarrow> rest_of X (snd (run_format va ds s))"
  using rest_of_directive by (induction ds arbitrary: s) (auto split: prod.splits, metis snd_conv, metis snd_conv)

lemma run_scanf_rest: "sp_in (run_scanf va ds xs m e) = drop (sp_used (run_scanf va ds xs m e)) xs"
    "sp_used (run_scanf va ds xs m e) \<le> length xs"
proof -
  define s0 where "s0 = \<lparr>sp_in = xs, sp_used = 0, sp_conv = False, sp_count = 0, sp_arg = 0, sp_mem = m, sp_errno = e\<rparr>"
  have "rest_of xs s0" by (simp add: rest_of_def s0_def)
  then have "rest_of xs (snd (run_format va ds s0))" by (rule rest_of_format)
  then have "rest_of xs (run_scanf va ds xs m e)"
    by (auto simp: run_scanf_def s0_def [symmetric] rest_of_def split: prod.splits)
  then show "sp_in (run_scanf va ds xs m e) = drop (sp_used (run_scanf va ds xs m e)) xs"
    "sp_used (run_scanf va ds xs m e) \<le> length xs" by (simp_all add: rest_of_def)
qed

section \<open>The memory a format can change\<close>

text \<open>How many bytes a conversion may store at its argument; a list with one number for each argument.\<close>

fun extent :: "directive \<Rightarrow> nat list" where
  "extent (Convert skip w n k) = (if skip then [] else
     case k of Integer b \<Rightarrow> [n + 1] | String \<Rightarrow> [w + 1] | Chars \<Rightarrow> [w] | Set P \<Rightarrow> [w + 1]
     | Pointer \<Rightarrow> [n + 1] | Count \<Rightarrow> [n + 1] | Bad e \<Rightarrow> [])"
| "extent d = []"

definition within :: "(nat \<Rightarrow> WORD) \<Rightarrow> nat \<Rightarrow> nat list \<Rightarrow> WORD \<Rightarrow> bool" where
  "within va a ns q \<longleftrightarrow> (\<exists>i < length ns. unat (q - va (a + i)) < ns ! i)"

lemma store_bytes_outside: "store_bytes p bs m q \<noteq> m q \<Longrightarrow> unat (q - p) < length bs"
proof (cases "length bs \<le> 2 ^ 16")
  case True
  then show "store_bytes p bs m q \<noteq> m q \<Longrightarrow> ?thesis" by (simp add: store_bytes_at split: if_splits)
next
  case False
  have "unat (q - p) < 2 ^ 16" using WORD_less [of "q - p"] by simp
  with False show ?thesis by linarith
qed

lemma assign_ok:
  assumes "sp_mem t = sp_mem s" and "sp_arg t = sp_arg s" and "length bs \<le> k"
  shows "sp_mem (assign va skip bs c t) q \<noteq> sp_mem s q \<Longrightarrow> within va (sp_arg s) (if skip then [] else [k]) q"
    and "sp_arg (assign va skip bs c t) = sp_arg s + length (if skip then [] else [k])"
proof -
  show "sp_arg (assign va skip bs c t) = sp_arg s + length (if skip then [] else [k])"
    using assms by (simp add: assign_def)
  assume "sp_mem (assign va skip bs c t) q \<noteq> sp_mem s q"
  then show "within va (sp_arg s) (if skip then [] else [k]) q"
    using assms store_bytes_outside [of "va (sp_arg s)" bs "sp_mem s" q]
    by (auto simp: assign_def within_def split: if_splits)
qed

lemma steps_frame [simp]:
  "sp_mem (skip_white s) = sp_mem s" "sp_arg (skip_white s) = sp_arg s"
  "sp_mem (snd (take_sign s)) = sp_mem s" "sp_arg (snd (take_sign s)) = sp_arg s"
  "sp_mem (snd (take_base b s)) = sp_mem s" "sp_arg (snd (take_base b s)) = sp_arg s"
  "sp_mem (snd (take_digits b w s)) = sp_mem s" "sp_arg (snd (take_digits b w s)) = sp_arg s"
  by (simp_all add: skip_white_def take_sign_def take_base_def take_digits_def Let_def)

lemma takeWhile_limit: "length (takeWhile P (take w xs)) \<le> w"
  using length_takeWhile_le [of P "take w xs"] by simp

definition stores_ok :: "(nat \<Rightarrow> WORD) \<Rightarrow> nat list \<Rightarrow> scanned \<Rightarrow> outcome \<times> scanned \<Rightarrow> bool" where
  "stores_ok va ns s r \<longleftrightarrow> (\<forall>q. sp_mem (snd r) q \<noteq> sp_mem s q \<longrightarrow> within va (sp_arg s) ns q)
     \<and> (fst r = Continue \<longrightarrow> sp_arg (snd r) = sp_arg s + length ns)"

lemma stores_assign:
  assumes "sp_mem t = sp_mem s" and "sp_arg t = sp_arg s" and "length bs \<le> k"
  shows "stores_ok va (if skip then [] else [k]) s (out, assign va skip bs c t)"
  using assign_ok [OF assms] by (simp add: stores_ok_def)

lemma assign_suppressed [simp]: "assign va True bs n s = s"
  by (simp add: assign_def)

lemma stores_one:
  "sp_mem t = sp_mem s \<Longrightarrow> sp_arg t = sp_arg s \<Longrightarrow> length bs \<le> k \<Longrightarrow> stores_ok va [k] s (out, assign va False bs c t)"
  using stores_assign [where skip = False] by simp

lemma stores_none: "sp_mem t = sp_mem s \<Longrightarrow> out \<noteq> Continue \<or> ns = [] \<and> sp_arg t = sp_arg s \<Longrightarrow> stores_ok va ns s (out, t)"
  by (auto simp: stores_ok_def)

lemma directive_stores: "stores_ok va (extent d) s (run_directive va d s)"
proof (induction va d s rule: run_directive.induct)
  case (3 va skip w n base s)
  define s1 where "s1 = snd (take_sign (skip_white s))"
  define b where "b = fst (take_base base s1)"
  define r where "r = take_digits b w (snd (take_base base s1))"
  have "sp_mem (snd r) = sp_mem s" "sp_arg (snd r) = sp_arg s" by (simp_all add: r_def s1_def)
  note a = stores_assign [OF this, of "int_bytes n v" "n + 1" va skip Continue 1 for v]
  have "run_directive va (Convert skip w n (Integer base)) s = (case fst r of None \<Rightarrow> (NoConv, snd r)
      | Some v \<Rightarrow> (Continue, assign va skip (int_bytes n (if fst (take_sign (skip_white s)) then - v else v)) 1 (snd r)))"
    unfolding r_def b_def s1_def by (simp add: run_integer_def case_prod_beta)
  then show ?case using a \<open>sp_mem (snd r) = sp_mem s\<close> by (cases "fst r") (auto simp: int_bytes_def intro: stores_none)
next
  case (7 va skip w n s)
  define r where "r = take_digits 16 w (consume 2 (converted (skip_white s)))"
  have f: "sp_mem (snd r) = sp_mem s" "sp_arg (snd r) = sp_arg s" by (simp_all add: r_def)
  note a = stores_assign [OF this, of "int_bytes n v" "n + 1" va skip Continue 1 for v]
  then show ?case using f by (auto simp: run_pointer_def Let_def r_def [symmetric] int_bytes_def intro: stores_none split: prod.splits option.splits)
next
  case (4 va skip w n s)
  then show ?case
    by (cases skip; auto simp: run_string_def Let_def takeWhile_limit intro!: stores_one intro: stores_none)
next
  case (5 va skip w n s)
  then show ?case
    by (cases skip; auto simp: run_chars_def intro!: stores_one intro: stores_none)
next
  case (6 va skip w n P s)
  then show ?case
    by (cases skip; auto simp: run_set_def Let_def takeWhile_limit intro!: stores_one intro: stores_none)
next
  case (8 va skip w n s)
  then show ?case
    by (cases skip; auto simp: int_bytes_def intro!: stores_one intro: stores_none)
qed (auto intro: stores_none)

lemma within_append: "within va a ns q \<Longrightarrow> within va a (ns @ ms) q" "within va (a + length ns) ms q \<Longrightarrow> within va a (ns @ ms) q"
proof -
  show "within va a (ns @ ms) q" if w: "within va a ns q"
  proof -
    from w obtain i where "i < length ns" "unat (q - va (a + i)) < ns ! i" by (auto simp: within_def)
    then show ?thesis unfolding within_def by (intro exI [of _ i]) (simp add: nth_append)
  qed
  show "within va a (ns @ ms) q" if w: "within va (a + length ns) ms q"
  proof -
    from w obtain i where "i < length ms" "unat (q - va (a + length ns + i)) < ms ! i" by (auto simp: within_def)
    then show ?thesis unfolding within_def by (intro exI [of _ "length ns + i"]) (simp add: nth_append add.assoc)
  qed
qed

lemma format_stores:
  "sp_mem (snd (run_format va ds s)) q \<noteq> sp_mem s q \<Longrightarrow> within va (sp_arg s) (concat (map extent ds)) q"
proof (induction ds arbitrary: s)
  case (Cons d ds)
  obtain r s1 where d: "run_directive va d s = (r, s1)" by (cases "run_directive va d s")
  note ok = directive_stores [of va d s, unfolded d stores_ok_def fst_conv snd_conv]
  show ?case
  proof (cases "sp_mem s1 q = sp_mem s q")
    case False
    then show ?thesis using ok within_append(1) by simp
  next
    case True
    then have "r = Continue" using Cons.prems d by (auto split: if_splits)
    then have "sp_arg s1 = sp_arg s + length (extent d)" "within va (sp_arg s1) (concat (map extent ds)) q"
      using ok Cons.prems Cons.IH [of s1] d True by auto
    then show ?thesis using within_append(2) [of va "sp_arg s" "extent d"] by simp
  qed
qed simp

lemma run_scanf_stores:
  assumes "sp_mem (run_scanf va ds xs m e) q \<noteq> m q"
  shows "within va 0 (concat (map extent ds)) q"
  using assms format_stores [of va ds "\<lparr>sp_in = xs, sp_used = 0, sp_conv = False, sp_count = 0, sp_arg = 0, sp_mem = m, sp_errno = e\<rparr>" q]
  by (auto simp: run_scanf_def split: prod.splits if_splits)

section \<open>Numbers in decimal\<close>

fun decimal :: "nat \<Rightarrow> BYTE list" where
  "decimal n = (if n < 10 then [0x30 + of_nat n] else decimal (n div 10) @ [0x30 + of_nat (n mod 10)])"

declare decimal.simps [simp del]

definition decimal_text :: "int \<Rightarrow> BYTE list" where
  "decimal_text n = (if n < 0 then [ch CHR ''-''] else []) @ decimal (nat \<bar>n\<bar>)"

lemma unat_digit: "d < 10 \<Longrightarrow> unat (0x30 + of_nat d :: BYTE) = 48 + d"
proof -
  assume d: "d < 10"
  have "unat (of_nat d :: BYTE) = d" by (rule unat_of_nat_less) (use d in simp)
  then show ?thesis using d by (subst unat_plus_less) simp_all
qed

lemma digit_value: "d < 10 \<Longrightarrow> digit_char (0x30 + of_nat d)" "d < 10 \<Longrightarrow> HexVal (0x30 + of_nat d) = of_nat d"
proof -
  show d: "digit_char (0x30 + of_nat d)" if "d < 10"
    using unat_digit [OF that] that by (simp add: digit_char_def word_le_nat_alt)
  then show "d < 10 \<Longrightarrow> HexVal (0x30 + of_nat d) = of_nat d" by (simp add: HexVal_digit)
qed

lemma hex_below_10: "hex_char c \<and> HexVal c < 10 \<longleftrightarrow> digit_char c"
proof (cases "digit_char c")
  case True
  then have "0x30 \<le> c" "unat c \<le> 57" by (simp_all add: digit_char_def word_le_nat_alt)
  then have "unat (c - 0x30) < 10" by (simp add: unat_sub)
  then show ?thesis using True by (simp add: HexVal_digit hex_char_def word_less_nat_alt)
next
  case False
  have "\<not> HexVal c < 10" if "0x41 \<le> c \<and> c \<le> 0x46"
  proof -
    have "HexVal c = c + 0x20 - 0x57" using False that by (simp add: HexVal_digit tolower_ucast order_trans [of c "0x46" "0x5A"])
    also have "\<dots> = c - 0x37" by simp
    finally show ?thesis using that by (auto simp: word_less_nat_alt word_le_nat_alt unat_sub)
  qed
  moreover have "\<not> HexVal c < 10" if "0x61 \<le> c \<and> c \<le> 0x66"
  proof -
    have "\<not> c \<le> 0x5A" using that by (auto simp: word_le_nat_alt)
    then have "HexVal c = c - 0x57" using False by (simp add: HexVal_digit tolower_ucast)
    then show ?thesis using that by (auto simp: word_less_nat_alt word_le_nat_alt unat_sub)
  qed
  ultimately show ?thesis using False by (auto simp: hex_char_def)
qed

lemma decimal_digits: "list_all digit_char (decimal n)"
  by (induction n rule: decimal.induct) (subst decimal.simps, simp add: digit_value)

lemma ucast_small_nat: "n < 10 \<Longrightarrow> (ucast (of_nat n :: BYTE) :: DWORD) = of_nat n"
proof -
  assume n: "n < 10"
  have "unat (of_nat n :: BYTE) = n" "unat (of_nat n :: DWORD) = n" by (rule unat_of_nat_less; use n in simp)+
  moreover have "unat (ucast (of_nat n :: BYTE) :: DWORD) = unat (of_nat n :: BYTE)" by (rule unat_ucast_up) simp
  ultimately show ?thesis by (simp only: word_unat_eq_iff)
qed

lemma decimal_value: "value_of 10 (decimal n) = of_nat n"
proof (induction n rule: decimal.induct)
  case (1 n)
  show ?case
  proof (cases "n < 10")
    case True
    then show ?thesis by (subst decimal.simps) (simp add: value_of_def digit_value ucast_small_nat)
  next
    case False
    have "(ucast (of_nat (n mod 10) :: BYTE) :: DWORD) = of_nat (n mod 10)" by (rule ucast_small_nat) simp
    then have "value_of 10 (decimal n) = of_nat (n div 10) * 10 + of_nat (n mod 10)"
      using 1 False by (subst decimal.simps) (simp add: value_of_def digit_value)
    also have "\<dots> = of_nat (n div 10 * 10 + n mod 10)" by (simp only: of_nat_add of_nat_mult of_nat_numeral)
    finally show ?thesis by simp
  qed
qed

lemma decimal_length: "n < 10 ^ Suc k \<Longrightarrow> length (decimal n) \<le> Suc k" "decimal n \<noteq> []"
proof -
  show "decimal n \<noteq> []" by (subst decimal.simps) simp
  show "n < 10 ^ Suc k \<Longrightarrow> length (decimal n) \<le> Suc k"
  proof (induction k arbitrary: n)
    case 0
    then show ?case by (subst decimal.simps) simp
  next
    case (Suc k)
    have "n div 10 < 10 ^ Suc k" using Suc.prems by (simp add: less_mult_imp_div_less)
    with Suc.IH show ?case by (subst decimal.simps) auto
  qed
qed

lemma digits_in_decimal:
  assumes "list_all digit_char ds" and "length ds \<le> w" and "rest = [] \<or> \<not> digit_char (hd rest)"
  shows "digits_in 10 w (ds @ rest) = ds"
proof -
  have "takeWhile digit_char (take k rest) = []" for k
    using assms(3) by (cases rest; cases k) simp_all
  then show ?thesis
    using assms(1,2) by (simp add: digits_in_def hex_below_10 takeWhile_append2 list_all_iff)
qed

lemma decimal_text_start: "peek (decimal_text n @ rest) = ch CHR ''-'' \<or> digit_char (peek (decimal_text n @ rest))"
    "\<not> n < 0 \<Longrightarrow> digit_char (peek (decimal_text n @ rest))"
proof -
  have "digit_char (hd (decimal m))" for m
    using decimal_digits [of m] decimal_length(2) [of m] by (cases "decimal m") auto
  moreover have "peek (decimal m @ rest) = hd (decimal m)" for m
    using decimal_length(2) [of m] by (cases "decimal m") simp_all
  ultimately show "peek (decimal_text n @ rest) = ch CHR ''-'' \<or> digit_char (peek (decimal_text n @ rest))"
    "\<not> n < 0 \<Longrightarrow> digit_char (peek (decimal_text n @ rest))" by (simp_all add: decimal_text_def)
qed

lemma not_white: "digit_char c \<Longrightarrow> \<not> white c" "\<not> white (ch CHR ''-'')"
  by (auto simp: digit_char_def white_def word_le_nat_alt)

lemma skip_white_text:
  assumes "list_all white ws" and "sp_in s = ws @ xs" and "xs \<noteq> [] \<Longrightarrow> \<not> white (hd xs)"
  shows "skip_white s = consume (length ws) s"
proof -
  have "takeWhile white xs = []" using assms(3) by (cases xs) auto
  then show ?thesis using assms(1,2) by (simp add: skip_white_def takeWhile_append2 list_all_iff)
qed

lemma run_integer_decimal:
  assumes "sp_in s = ws @ decimal_text n @ rest" and "list_all white ws" and "\<bar>n\<bar> < 10 ^ 10"
    and "rest = [] \<or> \<not> digit_char (hd rest)"
  shows "run_integer va False 65535 k 10 s
    = (Continue, assign va False (int_bytes k (of_int n)) 1 (converted (consume (length ws + length (decimal_text n)) s)))"
proof -
  define m where "m = nat \<bar>n\<bar>"
  have ne: "decimal_text n @ rest \<noteq> []" using decimal_length(2) [of m] by (simp add: decimal_text_def m_def)
  then have hd: "hd (decimal_text n @ rest) = peek (decimal_text n @ rest)" by (cases "decimal_text n @ rest") simp_all
  have "\<not> white (hd (decimal_text n @ rest))"
    unfolding hd using decimal_text_start(1) [of n rest] not_white by fastforce
  then have sw: "skip_white s = consume (length ws) s" using assms(1,2) by (intro skip_white_text) auto
  let ?s = "consume (length ws) s"
  have i: "sp_in ?s = decimal_text n @ rest" using assms(1) by simp
  have "m < 10 ^ Suc 9" using assms(3) by (simp add: m_def nat_less_iff)
  then have l: "length (decimal m) \<le> Suc 9" "length (decimal m) \<noteq> 0" using decimal_length(1) [of m 9] decimal_length(2) [of m] by simp_all
  then have dg: "digits_in 10 65535 (decimal m @ rest) = decimal m"
    using assms(4) decimal_digits by (intro digits_in_decimal) simp_all
  have lm: "length (decimal m) mod 256 \<noteq> 0" using l by simp
  show ?thesis
  proof (cases "n < 0")
    case True
    then have t: "decimal_text n = ch CHR ''-'' # decimal m" by (simp add: decimal_text_def m_def)
    have "take_sign ?s = (True, consume 1 (converted ?s))" using i t by (simp add: take_sign_def)
    moreover have "take_digits 10 65535 (consume 1 (converted ?s))
        = (Some (of_nat m), converted (consume (length (decimal m)) (consume 1 (converted ?s))))"
      using i t dg lm by (simp add: take_digits_def decimal_value)
    moreover have "- of_nat m = (of_int n :: DWORD)" using True by (simp add: m_def)
    moreover have "converted (consume (length (decimal m)) (consume 1 (converted ?s))) = converted (consume (length ws + length (decimal_text n)) s)"
      using t by (simp add: consume_converted consume_add)
    ultimately show ?thesis by (simp add: run_integer_def sw take_base_def)
  next
    case False
    then have t: "decimal_text n = decimal m" by (simp add: decimal_text_def m_def)
    have "digit_char (peek (sp_in ?s))" unfolding i by (rule decimal_text_start(2) [OF False])
    then have "take_sign ?s = (False, ?s)" by (auto simp: take_sign_def digit_char_def word_le_nat_alt)
    moreover have "take_digits 10 65535 ?s = (Some (of_nat m), converted (consume (length (decimal m)) ?s))"
      using i t dg lm by (simp add: take_digits_def decimal_value)
    moreover have "of_nat m = (of_int n :: DWORD)" using False by (simp add: m_def)
    ultimately show ?thesis using t by (simp add: run_integer_def sw take_base_def consume_add)
  qed
qed

section \<open>vsscanf and vfscanf\<close>

lemma vsscanf_run:
  fixes st :: "sscanfdata scan" and va :: "nat \<Rightarrow> WORD"
  assumes "string_in M str xs" and "string_in M format fs"
  defines "r \<equiv> run_scanf va (parse_format fs) xs (sc_mem st) (sc_errno st)"
  shows "\<exists>st'. vsscanf M va str format st = Some (sp_count r, st') \<and> sc_mem st' = sp_mem r \<and> sc_errno st' = sp_errno r
    \<and> string_holds M (sc_src st') (sp_in r) \<and> sc_CharCount st' = of_nat (sp_used r)"
proof -
  let ?st = "st\<lparr>sc_src := \<lparr>sd_str = str, sd_index = 0\<rparr>\<rparr>"
  have "string_holds M (sc_src ?st) xs" using assms(1) by (simp add: string_holds_def)
  moreover have "string_in (fmt_mem (sscan_env M va)) format fs" using assms(2) by (simp add: sscan_env_def)
  ultimately have "\<exists>st'. scanf (sscan_env M va) format ?st = Some (sp_count r, st') \<and> sc_mem st' = sp_mem r \<and> sc_errno st' = sp_errno r
    \<and> string_holds M (sc_src st') (sp_in r) \<and> sc_CharCount st' = of_nat (sp_used r)"
    using sscan.scanf_sim [of M ?st xs va format fs] by (simp add: sscan_env_def r_def)
  then show ?thesis by (simp add: vsscanf_def)
qed

text \<open>Memory with a format at 0x100 and an input at 0x200, for the examples.\<close>

definition ex_scan_mem :: "WORD \<Rightarrow> BYTE" where
  "ex_scan_mem a = (if a = 0x100 then ch CHR ''%'' else if a = 0x101 then ch CHR ''d''
     else if a = 0x200 then ch CHR ''-'' else if a = 0x201 then ch CHR ''4'' else if a = 0x202 then ch CHR ''2'' else 0)"

lemma ex_scan_strings: "string_in ex_scan_mem 0x100 (map ch ''%d'')" "string_in ex_scan_mem 0x200 (map ch ''-42'')"
  by (simp_all add: ex_scan_mem_def)

text \<open>
  C33: sscanf. For every string and every format vsscanf returns, and its result, what it stores and
  errno are those of the directives of the format run over the string; it takes as many characters
  as they do and none more.
\<close>

theorem vsscanf_refines:
  assumes "string_in M str xs" and "string_in M format fs"
  shows "let r = run_scanf va (parse_format fs) xs (sc_mem st) (sc_errno st) in
    \<exists>st'. vsscanf M va str format st = Some (sp_count r, st') \<and> sc_mem st' = sp_mem r \<and> sc_errno st' = sp_errno r
      \<and> string_holds M (sc_src st') (drop (sp_used r) xs) \<and> sc_CharCount st' = of_nat (sp_used r)"
  using vsscanf_run [OF assms, of va st] by (simp add: Let_def run_scanf_rest(1))

theorem vsscanf_refines_witness:
  "\<forall>va st. let r = run_scanf va [Convert False 65535 1 (Integer 10)] (map ch ''-42'') (sc_mem st) (sc_errno st) in
    \<exists>st'. vsscanf ex_scan_mem va 0x200 0x100 st = Some (sp_count r, st') \<and> sc_mem st' = sp_mem r \<and> sc_errno st' = sp_errno r
      \<and> string_holds ex_scan_mem (sc_src st') (drop (sp_used r) (map ch ''-42'')) \<and> sc_CharCount st' = of_nat (sp_used r)"
proof (intro allI)
  fix va st
  have "parse_format (map ch ''%d'') = [Convert False 65535 1 (Integer 10)]"
    by (simp add: parse_conversion_def parse_width_def parse_length_def parse_kind_def limit_def digit_char_def Let_def)
  with vsscanf_refines [OF ex_scan_strings(2,1), of va st]
  show "let r = run_scanf va [Convert False 65535 1 (Integer 10)] (map ch ''-42'') (sc_mem st) (sc_errno st) in
    \<exists>st'. vsscanf ex_scan_mem va 0x200 0x100 st = Some (sp_count r, st') \<and> sc_mem st' = sp_mem r \<and> sc_errno st' = sp_errno r
      \<and> string_holds ex_scan_mem (sc_src st') (drop (sp_used r) (map ch ''-42'')) \<and> sc_CharCount st' = of_nat (sp_used r)"
    by (simp only:)
qed

text \<open>
  C34: fscanf. On an open stream over a file whose reads deliver the bytes \<open>xs\<close> vfscanf does what the
  directives say, and the stream stands exactly behind the characters they take: what follows is what
  the next call on the stream reads.
\<close>

theorem vfscanf_refines:
  assumes "stream_holds D f xs" and "string_in M format fs"
  shows "let r = run_scanf va (parse_format fs) xs (sc_mem st) (sc_errno st) in
    \<exists>st'. vfscanf D M va f format st = Some (sp_count r, st') \<and> sc_mem st' = sp_mem r \<and> sc_errno st' = sp_errno r
      \<and> stream_holds D (sc_src st') (drop (sp_used r) xs) \<and> sc_CharCount st' = of_nat (sp_used r)"
proof -
  let ?st = "st\<lparr>sc_src := f\<rparr>" and ?r = "run_scanf va (parse_format fs) xs (sc_mem st) (sc_errno st)"
  have "stream_holds D (sc_src ?st) xs" "string_in (fmt_mem (fscan_env D M va)) format fs"
    using assms by (simp_all add: fscan_env_def)
  from fscan.scanf_sim [OF this] obtain st' where
    s: "scanf (fscan_env D M va) format ?st = Some (sp_count ?r, st')" "sc_mem st' = sp_mem ?r" "sc_errno st' = sp_errno ?r"
      "stream_holds D (sc_src st') (sp_in ?r)" "sc_CharCount st' = of_nat (sp_used ?r)"
    by (auto simp: fscan_env_def)
  have "\<not> ferror (sc_src st')" using s(4) by (simp add: stream_holds_def ferror_def)
  then have "vfscanf D M va f format st = Some (sp_count ?r, st')" by (simp add: vfscanf_def s(1))
  then show ?thesis unfolding Let_def using s(2-5) run_scanf_rest(1) [of va "parse_format fs" xs "sc_mem st" "sc_errno st"]
    by (intro exI [of _ st']) simp
qed

theorem vfscanf_refines_witness:
  "\<forall>va st. let r = run_scanf va (parse_format (map ch ''%d'')) (map ch ''7 8'') (sc_mem st) (sc_errno st) in
    \<exists>st'. vfscanf ex_os ex_scan_mem va (ex_stream (map ch ''7 8'')) 0x100 st = Some (sp_count r, st')
      \<and> sc_mem st' = sp_mem r \<and> sc_errno st' = sp_errno r
      \<and> stream_holds ex_os (sc_src st') (drop (sp_used r) (map ch ''7 8'')) \<and> sc_CharCount st' = of_nat (sp_used r)"
  using vfscanf_refines [OF ex_stream_holds ex_scan_strings(1)] by blast

text \<open>
  C35: no conversion stores outside its argument. A byte vsscanf changes lies in the area of one of
  the arguments, and that area is as long as the conversion promises: for a string one byte more than
  its width, for characters the width, for an integer the size of its type.
\<close>

theorem vsscanf_stores_bounded:
  assumes "string_in M str xs" and "string_in M format fs"
    and "vsscanf M va str format st = Some (r, st')" and "sc_mem st' q \<noteq> sc_mem st q"
  shows "\<exists>i < length (concat (map extent (parse_format fs))). unat (q - va i) < concat (map extent (parse_format fs)) ! i"
proof -
  have "sp_mem (run_scanf va (parse_format fs) xs (sc_mem st) (sc_errno st)) q \<noteq> sc_mem st q"
    using vsscanf_run [OF assms(1,2), of va st] assms(3,4) by auto
  from run_scanf_stores [OF this] show ?thesis by (simp add: within_def)
qed

text \<open>The format %3s in memory and an input of seven letters.\<close>

definition ex_str_mem :: "WORD \<Rightarrow> BYTE" where
  "ex_str_mem a = (if a = 0x100 then ch CHR ''%'' else if a = 0x101 then ch CHR ''3'' else if a = 0x102 then ch CHR ''s''
     else if 0x200 \<le> a \<and> a < 0x207 then ch CHR ''z'' else 0)"

lemma ex_str_strings: "string_in ex_str_mem 0x100 (map ch ''%3s'')" "string_in ex_str_mem 0x200 (map ch ''zzzzzzz'')"
  by (simp_all add: ex_str_mem_def word_le_nat_alt word_less_nat_alt)

text \<open>Three letters and the 0 behind them are stored at 0x300, and the byte behind them stays.\<close>

lemma ex_str_run:
  "sp_mem (run_scanf (\<lambda>_. 0x300) (parse_format (map ch ''%3s'')) (map ch ''zzzzzzz'') m e)
    = store_bytes 0x300 (map ch ''zzz'' @ [0]) m"
proof -
  have p: "parse_format (map ch ''%3s'') = [Convert False 3 1 String]"
    by (simp add: parse_conversion_def parse_width_def parse_length_def parse_kind_def limit_def digit_char_def Let_def
        number_def word_le_nat_alt)
  have w: "\<not> white 122" by (simp add: white_def)
  show ?thesis unfolding p
    by (simp add: run_scanf_def run_string_def skip_white_def assign_def w consume_def converted_def)
qed

theorem vsscanf_stores_bounded_witness:
  "\<forall>st. \<exists>r st'. vsscanf ex_str_mem (\<lambda>_. 0x300) 0x200 0x100 (st\<lparr>sc_mem := \<lambda>_. 0\<rparr>) = Some (r, st')
    \<and> sc_mem st' 0x302 = ch CHR ''z'' \<and> unat ((0x302 :: WORD) - 0x300) < 4 \<and> sc_mem st' 0x304 = 0"
proof
  fix st :: "sscanfdata scan"
  let ?st = "st\<lparr>sc_mem := \<lambda>_. 0\<rparr>"
  from vsscanf_run [OF ex_str_strings(2,1), of "\<lambda>_. 0x300" ?st] obtain r st' where
    v: "vsscanf ex_str_mem (\<lambda>_. 0x300) 0x200 0x100 ?st = Some (r, st')"
    and m: "sc_mem st' = store_bytes 0x300 (map ch ''zzz'' @ [0]) (\<lambda>_. 0)"
    using ex_str_run by fastforce
  have z: "sc_mem st' 0x302 = ch CHR ''z''" by (simp add: m)
  have p: "concat (map extent (parse_format (map ch ''%3s''))) = [4]"
    by (simp add: parse_conversion_def parse_width_def parse_length_def parse_kind_def limit_def digit_char_def Let_def
        number_def word_le_nat_alt)
  have "sc_mem st' 0x302 \<noteq> sc_mem ?st 0x302" using z by simp
  from vsscanf_stores_bounded [OF ex_str_strings(2,1) v this] have "unat ((0x302 :: WORD) - 0x300) < 4"
    unfolding p by simp
  moreover have "sc_mem st' 0x304 = 0"
  proof (rule ccontr)
    assume "sc_mem st' 0x304 \<noteq> 0"
    with vsscanf_stores_bounded [OF ex_str_strings(2,1) v, of "0x304"] show False unfolding p by simp
  qed
  ultimately show "\<exists>r st'. vsscanf ex_str_mem (\<lambda>_. 0x300) 0x200 0x100 ?st = Some (r, st')
    \<and> sc_mem st' 0x302 = ch CHR ''z'' \<and> unat ((0x302 :: WORD) - 0x300) < 4 \<and> sc_mem st' 0x304 = 0"
    using v z by blast
qed

text \<open>
  C36: numbers come back. When the input is a decimal number of the range of an int, behind any white
  space and before anything but a digit, sscanf with %d returns 1, stores exactly that number at its
  argument, and has taken the white space and the number.
\<close>

theorem vsscanf_reads_decimal:
  assumes "string_in M str (ws @ decimal_text n @ rest)" and "string_in M format (map ch ''%d'')"
    and "list_all white ws" and "- (2 ^ 15) \<le> n" "n < 2 ^ 15" and "rest = [] \<or> \<not> digit_char (hd rest)"
  shows "\<exists>st'. vsscanf M va str format st = Some (1, st')
    \<and> sint (LD_WORD [sc_mem st' (va 0), sc_mem st' (va 0 + 1)] 0) = n
    \<and> sc_CharCount st' = of_nat (length ws + length (decimal_text n))"
proof -
  let ?xs = "ws @ decimal_text n @ rest"
  have p: "parse_format (map ch ''%d'') = [Convert False 65535 1 (Integer 10)]"
    by (simp add: parse_conversion_def parse_width_def parse_length_def parse_kind_def limit_def digit_char_def Let_def)
  define s0 where "s0 = \<lparr>sp_in = ?xs, sp_used = 0, sp_conv = False, sp_count = 0, sp_arg = 0, sp_mem = sc_mem st, sp_errno = sc_errno st\<rparr>"
  have n: "\<bar>n\<bar> < 10 ^ 10" using assms(4,5) by simp
  have "sp_in s0 = ?xs" by (simp add: s0_def)
  from run_integer_decimal [OF this assms(3) n assms(6), of va 1]
  have "run_scanf va (parse_format (map ch ''%d'')) ?xs (sc_mem st) (sc_errno st)
      = assign va False (int_bytes 1 (of_int n)) 1 (converted (consume (length ws + length (decimal_text n)) s0))"
    unfolding p run_scanf_def s0_def [symmetric] by simp
  with vsscanf_run [OF assms(1,2), of va st] obtain st' where
    v: "vsscanf M va str format st = Some (1, st')" "sc_CharCount st' = of_nat (length ws + length (decimal_text n))"
    and m: "sc_mem st' = store_bytes (va 0) (int_bytes 1 (of_int n)) (sc_mem st)"
    by (auto simp: assign_def s0_def min_def)
  have "LD_WORD [sc_mem st' (va 0), sc_mem st' (va 0 + 1)] 0 = LD_WORD (int_bytes 1 (of_int n)) 0"
    by (simp add: m int_bytes_def upt_rec LD_WORD_def)
  also have "\<dots> = (of_int n :: WORD)"
    by (rule bit_word_eqI) (auto simp: LD_WORD_def int_bytes_def upt_rec bit_simps)
  finally have "sint (LD_WORD [sc_mem st' (va 0), sc_mem st' (va 0 + 1)] 0) = signed_take_bit 15 n"
    by (simp only: signed_of_int) simp
  also have "\<dots> = n" by (rule signed_take_bit_int_eq_self) (use assms(4,5) in simp_all)
  finally show ?thesis using v by blast
qed

theorem vsscanf_reads_decimal_witness:
  "\<forall>va st. \<exists>st'. vsscanf ex_scan_mem va 0x200 0x100 st = Some (1, st')
    \<and> sint (LD_WORD [sc_mem st' (va 0), sc_mem st' (va 0 + 1)] 0) = - 42 \<and> sc_CharCount st' = 3"
proof (intro allI)
  fix va st
  have t: "decimal_text (- 42) = map ch ''-42''" by (simp add: decimal_text_def decimal.simps)
  then have "string_in ex_scan_mem 0x200 ([] @ decimal_text (- 42) @ [])" using ex_scan_strings(2) by simp
  from vsscanf_reads_decimal [OF this ex_scan_strings(1), of va st] t
  show "\<exists>st'. vsscanf ex_scan_mem va 0x200 0x100 st = Some (1, st')
    \<and> sint (LD_WORD [sc_mem st' (va 0), sc_mem st' (va 0 + 1)] 0) = - 42 \<and> sc_CharCount st' = 3" by simp
qed

section \<open>A limit of the library\<close>

text \<open>ReadInt counts the digits in an unsigned char: a number of 256 digits is no number.\<close>

lemma sscanf_256_digits:
  assumes "string_in M str (replicate 256 (ch CHR ''0'') @ map ch '';'')" and "string_in M format (map ch ''%d'')"
  shows "\<exists>st'. vsscanf M va str format st = Some (0, st') \<and> sc_mem st' = sc_mem st"
proof -
  let ?z = "replicate 256 (ch CHR ''0'')"
  have p: "parse_format (map ch ''%d'') = [Convert False 65535 1 (Integer 10)]"
    by (simp add: parse_conversion_def parse_width_def parse_length_def parse_kind_def limit_def digit_char_def Let_def)
  define s0 where "s0 = \<lparr>sp_in = ?z @ map ch '';'', sp_used = 0, sp_conv = False, sp_count = 0, sp_arg = 0, sp_mem = sc_mem st, sp_errno = sc_errno st\<rparr>"
  have z: "?z = ch CHR ''0'' # replicate 255 (ch CHR ''0'')" by (simp add: numeral_eq_Suc)
  have "skip_white s0 = s0" unfolding s0_def z by (simp add: skip_white_def white_def)
  moreover have "take_sign s0 = (False, s0)" unfolding s0_def z by (simp add: take_sign_def)
  moreover have "digits_in 10 65535 (sp_in s0) = ?z"
    unfolding s0_def scanned.simps by (rule digits_in_decimal) (simp_all add: list_all_iff digit_char_def)
  ultimately have "run_integer va False 65535 1 10 s0 = (NoConv, consume 256 s0)"
    by (simp add: run_integer_def take_base_def take_digits_def)
  moreover have "sp_in (consume 256 s0) \<noteq> []" by (simp add: s0_def)
  ultimately have "run_scanf va (parse_format (map ch ''%d'')) (?z @ map ch '';'') (sc_mem st) (sc_errno st) = consume 256 s0"
    unfolding p run_scanf_def s0_def [symmetric] by simp
  moreover have "sp_count (consume 256 s0) = 0" "sp_mem (consume 256 s0) = sc_mem st" by (simp_all add: s0_def)
  ultimately show ?thesis using vsscanf_run [OF assms, of va st] by auto
qed

end
