(* ===== verification/Lib_Stdio_Props.thy ===== *)
theory Lib_Stdio_Props
  imports Lib_Scan_Sources
begin

text \<open>
  fgets and gets read lines: what they store and where the stream stands behind them, over a stream
  whose reads deliver bytes (theory Lib_Scan_Sources).
\<close>







end
