(* ===== verification/Lib_Heap.thy ===== *)
theory Lib_Heap
  imports Lib_Ctype
begin

text \<open>
  The memory allocator of the cc65 library: malloc.s, free.s, _heapadd.s, _heap.s and calloc.s in
  assembler, realloc.c and pmemalign.c in C. The memory is a function from the 16-bit addresses to
  bytes; a pointer is an address and a field of a block the word at an offset from it. The searches
  in the free list do not end when the list is a ring, so what may search is in the option type.
\<close>

section \<open>Words in memory and the blocks of _heap.h\<close>

type_synonym memory = "WORD \<Rightarrow> BYTE"

definition ldw :: "memory \<Rightarrow> WORD \<Rightarrow> WORD" where
  "ldw m p = ucast (m p) OR push_bit 8 (ucast (m (p + 1)))"

definition stw :: "WORD \<Rightarrow> WORD \<Rightarrow> memory \<Rightarrow> memory" where
  "stw p v m = m(p := ucast v, p + 1 := ucast (drop_bit 8 v))"

text \<open>
  Struct usedblock is a size and, right below the user's bytes, a pointer to the start of the raw
  block; struct freeblock a size and the links to the next and the previous block. The size is at
  offset 0; these are the offsets of the other fields, and the sizes of the two.
\<close>

abbreviation blk_start :: WORD where "blk_start \<equiv> 2"
abbreviation blk_next :: WORD where "blk_next \<equiv> 2"
abbreviation blk_prev :: WORD where "blk_prev \<equiv> 4"

definition HEAP_ADMIN_SPACE :: WORD where
  "HEAP_ADMIN_SPACE = 4"

definition HEAP_MIN_BLOCKSIZE :: WORD where
  "HEAP_MIN_BLOCKSIZE = 6"

record heap =
  hp_mem :: memory
  heapptr :: WORD
  heapend :: WORD
  heapfirst :: WORD
  heaplast :: WORD

definition put_word :: "WORD \<Rightarrow> WORD \<Rightarrow> heap \<Rightarrow> heap" where
  "put_word p v H = H\<lparr>hp_mem := stw p v (hp_mem H)\<rparr>"

text \<open>
  Setting the link to the next block in the one before, or the pointer to the first block when there
  is none before, and the same in the other direction.
\<close>

definition link_next :: "WORD \<Rightarrow> WORD \<Rightarrow> heap \<Rightarrow> heap" where
  "link_next prev v H = (if prev \<noteq> 0 then put_word (prev + blk_next) v H else H\<lparr>heapfirst := v\<rparr>)"

definition link_prev :: "WORD \<Rightarrow> WORD \<Rightarrow> heap \<Rightarrow> heap" where
  "link_prev next v H = (if next \<noteq> 0 then put_word (next + blk_prev) v H else H\<lparr>heaplast := v\<rparr>)"

text \<open>_heap.s: the heap begins behind the program's variables and ends below the stack.\<close>

definition initheap :: "WORD \<Rightarrow> WORD \<Rightarrow> WORD \<Rightarrow> memory \<Rightarrow> heap" where
  "initheap org sp stacksize m = \<lparr>hp_mem = m, heapptr = org, heapend = sp - stacksize, heapfirst = 0, heaplast = 0\<rparr>"

section \<open>malloc.s\<close>

text \<open>The size of the raw block for a size that is not 0; the addition wraps.\<close>

definition raw_size :: "WORD \<Rightarrow> WORD" where
  "raw_size sz = (let s = sz + HEAP_ADMIN_SPACE in if s < HEAP_MIN_BLOCKSIZE + 1 then HEAP_MIN_BLOCKSIZE else s)"

text \<open>The search in the free list from label L3: a block that is big enough, or 0.\<close>

partial_function (option) find_block :: "memory \<Rightarrow> WORD \<Rightarrow> WORD \<Rightarrow> WORD option" where
  "find_block m sz f = (
     if f = 0 then Some 0
     else if ldw m f \<ge> sz then Some f
     else find_block m sz (ldw m (f + blk_next)))"

text \<open>RetUserPtr and FillSizeAndRet: the fields of a used block; the user's pointer is behind them.\<close>

definition ret_user_ptr :: "WORD \<Rightarrow> heap \<Rightarrow> WORD \<times> heap" where
  "ret_user_ptr f H = (f + HEAP_ADMIN_SPACE, put_word (f + blk_start) f H)"

definition fill_size :: "WORD \<Rightarrow> WORD \<Rightarrow> heap \<Rightarrow> WORD \<times> heap" where
  "fill_size f sz H = ret_user_ptr f (put_word f sz H)"

text \<open>A block taken in full leaves the free list.\<close>

definition unlink_block :: "WORD \<Rightarrow> heap \<Rightarrow> heap" where
  "unlink_block f H = (let
     next = ldw (hp_mem H) (f + blk_next); prev = ldw (hp_mem H) (f + blk_prev);
     H = link_next prev next H in
     link_prev (ldw (hp_mem H) (f + blk_next)) (ldw (hp_mem H) (f + blk_prev)) H)"

text \<open>BlockFound and SliceBlock: the block in full, or its upper end.\<close>

definition block_found :: "WORD \<Rightarrow> WORD \<Rightarrow> heap \<Rightarrow> WORD \<times> heap" where
  "block_found f sz H = (let rest = ldw (hp_mem H) f - sz in
     if rest < HEAP_MIN_BLOCKSIZE then ret_user_ptr f (unlink_block f H)
     else fill_size (f + rest) sz (put_word f rest H))"

text \<open>TakeFromTop. An addition that carries, or a sum behind the end, is out of space.\<close>

definition take_from_top :: "WORD \<Rightarrow> heap \<Rightarrow> WORD \<times> heap" where
  "take_from_top sz H = (
     if unat (heapptr H) + unat sz \<ge> 2 ^ 16 \<or> heapptr H + sz > heapend H then (0, H)
     else fill_size (heapptr H) sz (H\<lparr>heapptr := heapptr H + sz\<rparr>))"

definition malloc :: "WORD \<Rightarrow> heap \<Rightarrow> (WORD \<times> heap) option" where
  "malloc sz H = (
     if sz = 0 then Some (0, H)
     else do {
       let sz = raw_size sz;
       f \<leftarrow> find_block (hp_mem H) sz (heapfirst H);
       Some (if f \<noteq> 0 then block_found f sz H else take_from_top sz H) })"

section \<open>free.s\<close>

text \<open>The block becomes the first and only one.\<close>

definition only_block :: "WORD \<Rightarrow> heap \<Rightarrow> heap" where
  "only_block f H = (put_word (f + blk_prev) 0 (put_word (f + blk_next) 0 H))\<lparr>heapfirst := f, heaplast := f\<rparr>"

text \<open>SearchFreeList: the last block not above the new one and the first above it, 0 for none.\<close>

partial_function (option) search_free_list :: "memory \<Rightarrow> WORD \<Rightarrow> WORD \<Rightarrow> WORD \<Rightarrow> (WORD \<times> WORD) option" where
  "search_free_list m f left right = (
     if right > f then Some (left, right)
     else let nx = ldw m (right + blk_next) in
       if nx \<noteq> 0 then search_free_list m f right nx else Some (right, 0))"

text \<open>The link to the right neighbour, or the merge with it.\<close>

definition check_right_merge :: "WORD \<Rightarrow> WORD \<Rightarrow> WORD \<Rightarrow> heap \<Rightarrow> heap" where
  "check_right_merge f sz right H = (
     if f + sz = right then let
       H = put_word f (sz + ldw (hp_mem H) right) H;
       next = ldw (hp_mem H) (right + blk_next);
       H = put_word (f + blk_next) next H in
       link_prev next f H
     else put_word (right + blk_prev) f (put_word (f + blk_next) right H))"

definition new_last :: "WORD \<Rightarrow> heap \<Rightarrow> heap" where
  "new_last f H = (put_word (f + blk_next) 0 H)\<lparr>heaplast := f\<rparr>"

text \<open>The link to the left neighbour, or the merge with it.\<close>

definition check_left_merge2 :: "WORD \<Rightarrow> WORD \<Rightarrow> heap \<Rightarrow> heap" where
  "check_left_merge2 f left H = (
     if left + ldw (hp_mem H) left = f then let
       H = put_word left (ldw (hp_mem H) left + ldw (hp_mem H) f) H;
       next = ldw (hp_mem H) (f + blk_next);
       H = put_word (left + blk_next) next H in
       link_prev next left H
     else put_word (f + blk_prev) left (put_word (left + blk_next) f H))"

definition check_left_merge :: "WORD \<Rightarrow> WORD \<Rightarrow> heap \<Rightarrow> heap" where
  "check_left_merge f left H = (
     if left \<noteq> 0 then check_left_merge2 f left H else (put_word (f + blk_prev) 0 H)\<lparr>heapfirst := f\<rparr>)"

text \<open>The internal heapadd: a block of \<open>sz\<close> bytes, with its size stored, enters the free list.\<close>

definition add_block :: "WORD \<Rightarrow> WORD \<Rightarrow> heap \<Rightarrow> heap option" where
  "add_block f sz H = (
     if heapfirst H = 0 then Some (only_block f H)
     else do {
       (left, right) \<leftarrow> search_free_list (hp_mem H) f 0 (heapfirst H);
       Some (if right \<noteq> 0 then check_left_merge f left (check_right_merge f sz right H)
         else check_left_merge2 f left (new_last f H)) })"

text \<open>The top of the heap is lowered, and once more when the last free block has come to lie there.\<close>

definition lower_top :: "WORD \<Rightarrow> heap \<Rightarrow> heap" where
  "lower_top f H = (let H = H\<lparr>heapptr := f\<rparr>; b = heaplast H in
     if b \<noteq> 0 \<and> b + ldw (hp_mem H) b = heapptr H then let
       prev = ldw (hp_mem H) (b + blk_prev); H = H\<lparr>heapptr := b, heaplast := prev\<rparr> in
       link_next prev 0 H
     else H)"

definition free :: "WORD \<Rightarrow> heap \<Rightarrow> heap option" where
  "free block H = (
     if block = 0 then Some H
     else let f = ldw (hp_mem H) (block - HEAP_ADMIN_SPACE + blk_start); sz = ldw (hp_mem H) f in
       if sz + f = heapptr H then Some (lower_top f H) else add_block f sz H)"

section \<open>_heapadd.s\<close>

definition heapadd :: "WORD \<Rightarrow> WORD \<Rightarrow> heap \<Rightarrow> heap option" where
  "heapadd f sz H = (
     if sz < HEAP_MIN_BLOCKSIZE then Some H else add_block f sz (put_word f sz H))"

section \<open>calloc.s, realloc.c and pmemalign.c\<close>

text \<open>memset and memcpy of the library, for areas that do not overlap.\<close>

definition fill_mem :: "WORD \<Rightarrow> BYTE \<Rightarrow> WORD \<Rightarrow> memory \<Rightarrow> memory" where
  "fill_mem p c n m = (\<lambda>a. if a - p < n then c else m a)"

definition copy_mem :: "WORD \<Rightarrow> WORD \<Rightarrow> WORD \<Rightarrow> memory \<Rightarrow> memory" where
  "copy_mem d p n m = (\<lambda>a. if a - d < n then m (a - d + p) else m a)"

text \<open>calloc branches to its memset when the pointer of malloc is null, too.\<close>

definition calloc :: "WORD \<Rightarrow> WORD \<Rightarrow> heap \<Rightarrow> (WORD \<times> heap) option" where
  "calloc count sz H = do {
     (p, H) \<leftarrow> malloc (count * sz) H;
     Some (if hi p \<noteq> 0 \<or> lo p = 0 then (p, H\<lparr>hp_mem := fill_mem p 0 (count * sz) (hp_mem H)\<rparr>) else (p, H)) }"

definition realloc :: "WORD \<Rightarrow> WORD \<Rightarrow> heap \<Rightarrow> (WORD \<times> heap) option" where
  "realloc block sz H = (
     if block = 0 then malloc sz H
     else if sz = 0 then do { H \<leftarrow> free block H; Some (0, H) }
     else let
       sz = sz + HEAP_ADMIN_SPACE;
       sz = (if sz < HEAP_MIN_BLOCKSIZE then HEAP_MIN_BLOCKSIZE else sz);
       b = ldw (hp_mem H) (block - HEAP_ADMIN_SPACE + blk_start);
       oldsize = ldw (hp_mem H) b;
       newhptr = heapptr H + (sz - oldsize) in
     if b + oldsize = heapptr H \<and> newhptr \<le> heapend H then
       Some (block, put_word (b + blk_start) b (put_word b sz (H\<lparr>heapptr := newhptr\<rparr>)))
     else do {
       (newblock, H) \<leftarrow> malloc sz H;
       if newblock \<noteq> 0 then do {
         let oldsize = oldsize - HEAP_ADMIN_SPACE;
         let sz = (if sz > oldsize then oldsize else sz);
         H \<leftarrow> free block (H\<lparr>hp_mem := copy_mem newblock block sz (hp_mem H)\<rparr>);
         Some (newblock, H) }
       else Some (newblock, H) })"

text \<open>
  posix_memalign in its parts: the pointer is rounded up inside a block that is large enough, and the
  space above and below it is given back when it can be a block of its own. The result is the code,
  the pointer stored and the heap.
\<close>

definition ENOMEM :: cint where "ENOMEM = 2"
definition EOK :: cint where "EOK = 0"

definition write_usedblock :: "WORD \<Rightarrow> WORD \<Rightarrow> heap \<Rightarrow> heap" where
  "write_usedblock b sz H = put_word (b + blk_start) b (put_word b sz H)"

definition free_upper :: "WORD \<Rightarrow> WORD \<Rightarrow> WORD \<Rightarrow> heap \<Rightarrow> (WORD \<times> heap) option" where
  "free_upper b p rawsize H = (let lowersize = p - b; uppersize = rawsize - lowersize in
     if uppersize \<ge> HEAP_MIN_BLOCKSIZE \<and> lowersize \<ge> HEAP_MIN_BLOCKSIZE then do {
       H \<leftarrow> free (p + HEAP_ADMIN_SPACE) (write_usedblock p uppersize H);
       Some (lowersize, H) }
     else Some (rawsize, H))"

definition free_lower :: "WORD \<Rightarrow> WORD \<Rightarrow> WORD \<Rightarrow> heap \<Rightarrow> (WORD \<times> WORD \<times> heap) option" where
  "free_lower b u rawsize H = (let lowersize = u - b - HEAP_ADMIN_SPACE in
     if lowersize \<ge> HEAP_MIN_BLOCKSIZE \<and> rawsize - lowersize \<ge> HEAP_MIN_BLOCKSIZE then do {
       H \<leftarrow> free (b + HEAP_ADMIN_SPACE) (write_usedblock b lowersize H);
       Some (u - HEAP_ADMIN_SPACE, rawsize - lowersize, H) }
     else Some (b, rawsize, H))"

definition posix_memalign :: "WORD \<Rightarrow> WORD \<Rightarrow> heap \<Rightarrow> (cint \<times> WORD \<times> heap) option" where
  "posix_memalign alignment sz H = (
     if sz = 0 then Some (EINVAL, 0, H)
     else if alignment = 0 \<or> alignment AND (alignment - 1) \<noteq> 0 then Some (EINVAL, 0, H)
     else let alignment = alignment - 1 in do {
       (b, H) \<leftarrow> malloc (sz + alignment) H;
       if b = 0 then Some (ENOMEM, 0, H)
       else do {
         let u = (b + alignment) AND NOT alignment;
         let p = u + sz;
         let b = ldw (hp_mem H) (b - HEAP_ADMIN_SPACE + blk_start);
         (rawsize, H) \<leftarrow> free_upper b p (ldw (hp_mem H) b) H;
         (b, rawsize, H) \<leftarrow> free_lower b u rawsize H;
         Some (EOK, u, put_word (u - HEAP_ADMIN_SPACE + blk_start) b (put_word b rawsize H)) } })"

end
