(* ===== verification/Lib_Heap_Core.thy ===== *)
theory Lib_Heap_Core
  imports Lib_Heap "HOL-Library.Multiset"
begin

text \<open>
  The invariant of the allocator, and that malloc and free keep it. A block is its address and size
  as natural numbers. The free blocks are a list in the order of their addresses, the allocated ones
  a multiset; with the unused top of the heap they cover the memory that was given to the allocator,
  every byte once.
\<close>

type_synonym block = "nat \<times> nat"

section \<open>Memory at natural addresses\<close>

definition rdw :: "memory \<Rightarrow> nat \<Rightarrow> WORD" where
  "rdw m a = ldw m (of_nat a)"

definition wrw :: "nat \<Rightarrow> WORD \<Rightarrow> memory \<Rightarrow> memory" where
  "wrw a v m = stw (of_nat a) v m"

definition same_on :: "nat set \<Rightarrow> memory \<Rightarrow> memory \<Rightarrow> bool" where
  "same_on A m m' \<longleftrightarrow> (\<forall>x \<in> A. m' (of_nat x) = m (of_nat x))"

lemma same_on_refl [simp]: "same_on A m m"
  by (simp add: same_on_def)

lemma same_on_trans: "same_on A m m' \<Longrightarrow> same_on A m' m'' \<Longrightarrow> same_on A m m''"
  by (simp add: same_on_def)

lemma same_on_mono: "same_on A m m' \<Longrightarrow> B \<subseteq> A \<Longrightarrow> same_on B m m'"
  by (auto simp: same_on_def)

lemma ldw_stw: "ldw (stw p v m) p = v"
proof -
  have "p \<noteq> p + 1" by simp
  then show ?thesis
    by (intro bit_word_eqI) (auto simp: ldw_def stw_def bit_simps)
qed

lemma of_nat_inj: "a < 2 ^ 16 \<Longrightarrow> b < 2 ^ 16 \<Longrightarrow> (of_nat a :: WORD) = of_nat b \<longleftrightarrow> a = b"
  by (simp add: word_of_nat_eq_iff take_bit_nat_eq_self)

lemma rdw_wrw [simp]: "rdw (wrw a v m) a = v"
  by (simp add: rdw_def wrw_def ldw_stw)

lemma same_on_wrw: "a + 1 < 2 ^ 16 \<Longrightarrow> A \<subseteq> {..<2 ^ 16} \<Longrightarrow> a \<notin> A \<Longrightarrow> a + 1 \<notin> A \<Longrightarrow> same_on A m (wrw a v m)"
  unfolding same_on_def wrw_def stw_def
proof
  fix x assume a: "a + 1 < 2 ^ 16" "A \<subseteq> {..<2 ^ 16}" "a \<notin> A" "a + 1 \<notin> A" "x \<in> A"
  then have "x < 2 ^ 16" "x \<noteq> a" "x \<noteq> a + 1" by auto
  then have "(of_nat x :: WORD) \<noteq> of_nat a" "(of_nat x :: WORD) \<noteq> of_nat (a + 1)"
    using a(1) by (simp_all only: of_nat_inj) simp_all
  then show "(m(of_nat a := ucast v, of_nat a + 1 := ucast (drop_bit 8 v))) (of_nat x) = m (of_nat x)"
    by (simp add: add.commute)
qed

lemma rdw_same: "same_on A m m' \<Longrightarrow> a \<in> A \<Longrightarrow> a + 1 \<in> A \<Longrightarrow> rdw m' a = rdw m a"
  by (auto simp: same_on_def rdw_def ldw_def add.commute dest: bspec [of _ _ "a + 1"])

lemma rdw_wrw_other: "a + 1 < b \<or> b + 1 < a \<Longrightarrow> a + 1 < 2 ^ 16 \<Longrightarrow> b + 1 < 2 ^ 16 \<Longrightarrow> rdw (wrw b v m) a = rdw m a"
  by (rule rdw_same [of "{a, a + 1}"]) (auto intro!: same_on_wrw)

section \<open>Tiles\<close>

definition area :: "block set \<Rightarrow> nat set" where
  "area S = (\<Union>(a, n) \<in> S. {a..<a + n})"

definition cover :: "nat \<Rightarrow> block multiset \<Rightarrow> nat" where
  "cover x M = size {#b \<in># M. fst b \<le> x \<and> x < fst b + snd b#}"

definition tiles :: "nat set \<Rightarrow> block multiset \<Rightarrow> bool" where
  "tiles R M \<longleftrightarrow> (\<forall>x. cover x M = of_bool (x \<in> R))"

lemma area_simps [simp]: "area {} = {}" "area (insert (a, n) S) = {a..<a + n} \<union> area S" "area (S \<union> S') = area S \<union> area S'"
  by (auto simp: area_def)

lemma cover_simps [simp]: "cover x {#} = 0" "cover x (add_mset (a, n) M) = of_bool (a \<le> x \<and> x < a + n) + cover x M"
    "cover x (M + N) = cover x M + cover x N"
  by (auto simp: cover_def)

lemma cover_pos: "0 < cover x M \<longleftrightarrow> x \<in> area (set_mset M)"
  by (induction M) (auto simp: less_imp_le)

lemma tiles_split: "k \<le> n \<Longrightarrow> tiles R (add_mset (a, n) M) \<longleftrightarrow> tiles R (add_mset (a, k) (add_mset (a + k, n - k) M))"
proof -
  assume "k \<le> n"
  then have "cover x (add_mset (a, n) M) = cover x (add_mset (a, k) (add_mset (a + k, n - k) M))" for x by auto
  then show ?thesis unfolding tiles_def by presburger
qed

lemma tiles_merge: "tiles R (add_mset (a, n) (add_mset (a + n, k) M)) \<Longrightarrow> tiles R (add_mset (a, n + k) M)"
  by (subst tiles_split [of n]) simp_all

lemma tiles_zero: "tiles R (add_mset (a, 0) M) \<longleftrightarrow> tiles R M"
  by (simp add: tiles_def)

lemma tiles_area: "tiles R M \<Longrightarrow> area (set_mset M) = R"
proof -
  assume "tiles R M"
  then have "x \<in> area (set_mset M) \<longleftrightarrow> x \<in> R" for x using cover_pos [of x M] by (auto simp: tiles_def)
  then show ?thesis by blast
qed

lemma tiles_apart: "tiles R (M + N) \<Longrightarrow> area (set_mset M) \<inter> area (set_mset N) = {}"
proof (rule ccontr)
  assume t: "tiles R (M + N)" and "area (set_mset M) \<inter> area (set_mset N) \<noteq> {}"
  then obtain x where "0 < cover x M" "0 < cover x N" by (auto simp: cover_pos)
  moreover have "cover x M + cover x N \<le> 1" using t by (simp add: tiles_def)
  ultimately show False by linarith
qed

section \<open>The free list\<close>

text \<open>
  A doubly linked segment of blocks in memory: \<open>p\<close> comes before it and \<open>q\<close> behind, 0 for none.
\<close>

primrec first_of :: "block list \<Rightarrow> nat \<Rightarrow> nat" where
  "first_of [] q = q"
| "first_of (b # xs) q = fst b"

primrec last_of :: "nat \<Rightarrow> block list \<Rightarrow> nat" where
  "last_of p [] = p"
| "last_of p (b # xs) = last_of (fst b) xs"

definition blk :: "memory \<Rightarrow> nat \<Rightarrow> block \<Rightarrow> nat \<Rightarrow> bool" where
  "blk m p b q \<longleftrightarrow> rdw m (fst b) = of_nat (snd b) \<and> rdw m (fst b + 2) = of_nat q \<and> rdw m (fst b + 4) = of_nat p"

primrec seg :: "memory \<Rightarrow> nat \<Rightarrow> block list \<Rightarrow> nat \<Rightarrow> bool" where
  "seg m p [] q \<longleftrightarrow> True"
| "seg m p (b # xs) q \<longleftrightarrow> blk m p b (first_of xs q) \<and> seg m (fst b) xs q"

lemma first_of_append [simp]: "first_of (xs @ ys) q = first_of xs (first_of ys q)"
  by (cases xs) simp_all

lemma last_of_append [simp]: "last_of p (xs @ ys) = last_of (last_of p xs) ys"
  by (induction xs arbitrary: p) simp_all

lemma seg_append [simp]: "seg m p (xs @ ys) q \<longleftrightarrow> seg m p xs (first_of ys q) \<and> seg m (last_of p xs) ys q"
  by (induction xs arbitrary: p) auto

definition sane :: "block list \<Rightarrow> bool" where
  "sane xs \<longleftrightarrow> sorted_wrt (\<lambda>b c. fst b + snd b < fst c) xs
    \<and> (\<forall>b \<in> set xs. 0 < fst b \<and> 6 \<le> snd b \<and> fst b + snd b < 2 ^ 16)"

lemma sane_simps [simp]: "sane []"
    "sane (b # xs) \<longleftrightarrow> 0 < fst b \<and> 6 \<le> snd b \<and> fst b + snd b < 2 ^ 16 \<and> (\<forall>c \<in> set xs. fst b + snd b < fst c) \<and> sane xs"
    "sane (xs @ ys) \<longleftrightarrow> sane xs \<and> sane ys \<and> (\<forall>b \<in> set xs. \<forall>c \<in> set ys. fst b + snd b < fst c)"
  by (auto simp: sane_def sorted_wrt_append)

lemma sane_bounds: "sane xs \<Longrightarrow> c \<in> set xs \<Longrightarrow> 0 < fst c \<and> 6 \<le> snd c \<and> fst c + snd c < 2 ^ 16"
  by (simp add: sane_def)

lemma area_iff: "x \<in> area S \<longleftrightarrow> (\<exists>b \<in> S. fst b \<le> x \<and> x < fst b + snd b)"
  by (force simp: area_def)

lemma area_less: "sane xs \<Longrightarrow> area (set xs) \<subseteq> {0<..<2 ^ 16}"
  by (auto simp: sane_def area_iff) fastforce+

lemma blk_same: "blk m p b q \<Longrightarrow> same_on {fst b..<fst b + 6} m m' \<Longrightarrow> blk m' p b q"
  using rdw_same [of _ m m' "fst b"] rdw_same [of _ m m' "fst b + 2"] rdw_same [of _ m m' "fst b + 4"]
  by (auto simp: blk_def)

lemma seg_same: "seg m p xs q \<Longrightarrow> same_on (area (set xs)) m m' \<Longrightarrow> sane xs \<Longrightarrow> seg m' p xs q"
proof (induction xs arbitrary: p)
  case (Cons b xs)
  have "{fst b..<fst b + 6} \<subseteq> area (set (b # xs))" using Cons.prems(3) by (auto simp: area_iff)
  moreover have "area (set xs) \<subseteq> area (set (b # xs))" by (auto simp: area_iff)
  ultimately show ?case using Cons by (auto intro: blk_same dest: same_on_mono)
qed simp

section \<open>Relinking\<close>

text \<open>The blocks before a place in the list with the pointer to the first, and those behind it.\<close>

definition lefts :: "heap \<Rightarrow> block list \<Rightarrow> nat \<Rightarrow> bool" where
  "lefts H xs q \<longleftrightarrow> seg (hp_mem H) 0 xs q \<and> heapfirst H = of_nat (first_of xs q)"

definition rights :: "heap \<Rightarrow> nat \<Rightarrow> block list \<Rightarrow> bool" where
  "rights H p ys \<longleftrightarrow> seg (hp_mem H) p ys 0 \<and> heaplast H = of_nat (last_of p ys)"

definition links :: "heap \<Rightarrow> block list \<Rightarrow> bool" where
  "links H xs \<longleftrightarrow> lefts H xs 0 \<and> rights H 0 xs"

lemma links_split: "links H (xs @ ys) \<longleftrightarrow> lefts H xs (first_of ys 0) \<and> rights H (last_of 0 xs) ys"
  by (auto simp: links_def lefts_def rights_def)

lemma lefts_same:
  "lefts H xs q \<Longrightarrow> same_on (area (set xs)) (hp_mem H) (hp_mem H') \<Longrightarrow> sane xs \<Longrightarrow> heapfirst H' = heapfirst H \<Longrightarrow> lefts H' xs q"
  by (auto simp: lefts_def intro: seg_same)

lemma rights_same:
  "rights H p ys \<Longrightarrow> same_on (area (set ys)) (hp_mem H) (hp_mem H') \<Longrightarrow> sane ys \<Longrightarrow> heaplast H' = heaplast H \<Longrightarrow> rights H' p ys"
  by (auto simp: rights_def intro: seg_same)

lemma fields [simp]:
  "hp_mem (put_word p v H) = stw p v (hp_mem H)"
  "heapfirst (put_word p v H) = heapfirst H" "heaplast (put_word p v H) = heaplast H"
  "heapptr (put_word p v H) = heapptr H" "heapend (put_word p v H) = heapend H"
  "heapptr (link_next p v H) = heapptr H" "heapend (link_next p v H) = heapend H" "heaplast (link_next p v H) = heaplast H"
  "heapptr (link_prev p v H) = heapptr H" "heapend (link_prev p v H) = heapend H" "heapfirst (link_prev p v H) = heapfirst H"
  by (simp_all add: put_word_def link_next_def link_prev_def)

lemma to_nat:
  "ldw m (of_nat a) = rdw m a" "ldw m (of_nat a + 2) = rdw m (a + 2)" "ldw m (of_nat a + 4) = rdw m (a + 4)"
  "stw (of_nat a) v m = wrw a v m" "stw (of_nat a + 2) v m = wrw (a + 2) v m" "stw (of_nat a + 4) v m = wrw (a + 4) v m"
  by (simp_all add: rdw_def wrw_def add.commute)

lemma of_nat_zero: "a < 2 ^ 16 \<Longrightarrow> (of_nat a :: WORD) = 0 \<longleftrightarrow> a = 0"
  using of_nat_inj [of a 0] by simp

lemma last_of_in: "xs \<noteq> [] \<Longrightarrow> \<exists>b \<in> set xs. last_of p xs = fst b"
  by (induction xs arbitrary: p) (auto split: if_splits, metis last_of.simps)

lemma link_next_lefts:
  assumes "lefts H xs q" and "sane xs"
  shows "lefts (link_next (of_nat (last_of 0 xs)) (of_nat q') H) xs q'"
proof (cases xs rule: rev_cases)
  case Nil
  then show ?thesis by (simp add: lefts_def link_next_def)
next
  case (snoc ys b)
  let ?a = "fst b" and ?m = "hp_mem H"
  have b: "0 < ?a" "6 \<le> snd b" "?a + snd b < 2 ^ 16" "sane ys" and l: "\<forall>c \<in> set ys. fst c + snd c < ?a"
    using assms(2) snoc by auto
  have "?a + 2 \<notin> area (set ys)" "?a + 2 + 1 \<notin> area (set ys)" using l by (auto simp: area_iff)
  then have "same_on (area (set ys)) ?m (wrw (?a + 2) v ?m)" for v
    using b area_less [OF b(4)] by (intro same_on_wrw) auto
  moreover have "blk (wrw (?a + 2) (of_nat q') ?m) p b q'" if "blk ?m p b q" for p
    using that b by (simp add: blk_def rdw_wrw_other)
  ultimately show ?thesis
    using assms(1) snoc b by (auto simp: lefts_def link_next_def of_nat_zero to_nat first_of_append intro: seg_same)
qed

lemma link_prev_rights:
  assumes "rights H p ys" and "sane ys"
  shows "rights (link_prev (of_nat (first_of ys 0)) (of_nat p') H) p' ys"
proof (cases ys)
  case Nil
  then show ?thesis by (simp add: rights_def link_prev_def)
next
  case (Cons b xs)
  let ?a = "fst b" and ?m = "hp_mem H"
  have b: "0 < ?a" "6 \<le> snd b" "?a + snd b < 2 ^ 16" "sane xs" and l: "\<forall>c \<in> set xs. ?a + snd b < fst c"
    using assms(2) Cons by auto
  have "?a + 4 \<notin> area (set xs)" "?a + 4 + 1 \<notin> area (set xs)" using l b by (auto simp: area_iff)
  then have "same_on (area (set xs)) ?m (wrw (?a + 4) v ?m)" for v
    using b area_less [OF b(4)] by (intro same_on_wrw) auto
  moreover have "blk (wrw (?a + 4) (of_nat p') ?m) p' b q" if "blk ?m p b q" for q
    using that b by (simp add: blk_def rdw_wrw_other)
  ultimately show ?thesis
    using assms(1) Cons b by (auto simp: rights_def link_prev_def of_nat_zero to_nat intro: seg_same)
qed

text \<open>Two heaps that differ only in the bytes of a set and in the ends of the free list.\<close>

definition touches :: "nat set \<Rightarrow> heap \<Rightarrow> heap \<Rightarrow> bool" where
  "touches A H H' \<longleftrightarrow> same_on ({..<2 ^ 16} - A) (hp_mem H) (hp_mem H') \<and> heapptr H' = heapptr H \<and> heapend H' = heapend H"

lemma touches_trans: "touches A H H' \<Longrightarrow> touches B H' H'' \<Longrightarrow> touches (A \<union> B) H H''"
  by (auto simp: touches_def same_on_def)

lemma touches_mono: "touches A H H' \<Longrightarrow> A \<subseteq> B \<Longrightarrow> touches B H H'"
  by (auto simp: touches_def same_on_def)

lemma touches_same: "touches A H H' \<Longrightarrow> B \<subseteq> {..<2 ^ 16} \<Longrightarrow> B \<inter> A = {} \<Longrightarrow> same_on B (hp_mem H) (hp_mem H')"
  by (auto simp: touches_def same_on_def subset_iff)

lemma touches_put:
  "a + 1 < 2 ^ 16 \<Longrightarrow> touches {a, a + 1} H (put_word (of_nat a) v H)"
  "a + 3 < 2 ^ 16 \<Longrightarrow> touches {a + 2, a + 3} H (put_word (of_nat a + 2) v H)"
  "a + 5 < 2 ^ 16 \<Longrightarrow> touches {a + 4, a + 5} H (put_word (of_nat a + 4) v H)"
  by (auto simp: touches_def to_nat intro!: same_on_wrw)

lemma touches_ends [simp]:
  "touches A H (H'\<lparr>heapfirst := v\<rparr>) \<longleftrightarrow> touches A H H'" "touches A H (H'\<lparr>heaplast := v\<rparr>) \<longleftrightarrow> touches A H H'" "touches A H H"
  by (auto simp: touches_def)

lemma touches_link_next:
  assumes "sane xs"
  shows "touches (area (set xs)) H (link_next (of_nat (last_of 0 xs)) v H)"
proof (cases "xs = []")
  case False
  then obtain b where b: "b \<in> set xs" "last_of 0 xs = fst b" using last_of_in by blast
  then have s: "0 < fst b" "6 \<le> snd b" "fst b + snd b < 2 ^ 16" using assms by (auto simp: sane_def)
  then have "{fst b + 2, fst b + 3} \<subseteq> area (set xs)" using b by (auto simp: area_iff intro!: bexI [of _ b])
  then show ?thesis using s touches_put(2) [of "fst b" H v] b by (auto simp: link_next_def of_nat_zero elim: touches_mono)
qed (simp add: link_next_def)

lemma touches_link_prev:
  assumes "sane ys"
  shows "touches (area (set ys)) H (link_prev (of_nat (first_of ys 0)) v H)"
proof (cases ys)
  case (Cons b xs)
  then have s: "0 < fst b" "6 \<le> snd b" "fst b + snd b < 2 ^ 16" using assms by auto
  then have "{fst b + 4, fst b + 5} \<subseteq> area (set ys)" using Cons by (auto simp: area_iff)
  then show ?thesis using s touches_put(3) [of "fst b" H v] Cons by (auto simp: link_prev_def of_nat_zero elim: touches_mono)
qed (simp add: link_prev_def)

lemma area_apart: "sane (xs @ ys) \<Longrightarrow> area (set xs) \<inter> area (set ys) = {}"
  by (force simp: area_iff)

lemma blk_area: "6 \<le> snd b \<Longrightarrow> {fst b..<fst b + 6} \<subseteq> area (insert b S)"
  by (auto simp: area_iff)

text \<open>Unlinking a block from the list.\<close>

lemma unlink_links:
  assumes l: "links H (xs @ b # ys)" and s: "sane (xs @ b # ys)"
  shows "links (unlink_block (of_nat (fst b)) H) (xs @ ys)"
    and "touches (area (set xs) \<union> area (set ys)) H (unlink_block (of_nat (fst b)) H)"
proof -
  let ?n = "of_nat (first_of ys 0)" and ?p = "of_nat (last_of 0 xs)"
  let ?H1 = "link_next ?p ?n H"
  have sx: "sane xs" "sane (b # ys)" "sane ys" and b: "6 \<le> snd b" "fst b + snd b < 2 ^ 16" using s by auto
  note t1 = touches_link_next [OF sx(1), of H ?n] and t2 = touches_link_prev [OF sx(3), of ?H1 ?p]
  have ap: "area (set xs) \<inter> area (set (b # ys)) = {}" by (rule area_apart) (rule s)
  then have "{fst b..<fst b + 6} \<inter> area (set xs) = {}" using blk_area [OF b(1), of "set ys"] by auto
  then have f: "same_on {fst b..<fst b + 6} (hp_mem H) (hp_mem ?H1)" using b by (intro touches_same [OF t1]) auto
  have l1: "lefts H xs (fst b)" "blk (hp_mem H) (last_of 0 xs) b (first_of ys 0)" "rights H (fst b) ys"
    using l unfolding links_split by (auto simp: rights_def)
  have b1: "blk (hp_mem ?H1) (last_of 0 xs) b (first_of ys 0)" by (rule blk_same [OF l1(2) f])
  have u: "unlink_block (of_nat (fst b)) H = link_prev ?n ?p ?H1"
    using l1(2) b1 by (simp add: unlink_block_def Let_def to_nat blk_def)
  have ay: "area (set ys) \<inter> area (set xs) = {}" "area (set xs) \<inter> area (set ys) = {}" using ap by (auto simp: area_iff)
  have "same_on (area (set ys)) (hp_mem H) (hp_mem ?H1)" using area_less [OF sx(3)] ay by (intro touches_same [OF t1]) auto
  then have "rights ?H1 (fst b) ys" by (intro rights_same [OF l1(3)]) (simp_all add: sx)
  then have r: "rights (link_prev ?n ?p ?H1) (last_of 0 xs) ys" by (rule link_prev_rights) (rule sx(3))
  have "lefts ?H1 xs (first_of ys 0)" by (rule link_next_lefts [OF l1(1) sx(1)])
  moreover have "same_on (area (set xs)) (hp_mem ?H1) (hp_mem (link_prev ?n ?p ?H1))"
    using area_less [OF sx(1)] ay by (intro touches_same [OF t2]) auto
  ultimately have "lefts (link_prev ?n ?p ?H1) xs (first_of ys 0)" by (rule lefts_same) (simp_all add: sx)
  with r show "links (unlink_block (of_nat (fst b)) H) (xs @ ys)" by (simp add: u links_split)
  show "touches (area (set xs) \<union> area (set ys)) H (unlink_block (of_nat (fst b)) H)"
    unfolding u by (rule touches_trans [OF t1 t2])
qed

text \<open>
  A block at \<open>f\<close> whose size and next field are set, with the list behind it: what the right half of
  heapadd leaves, and then the left half completes.
\<close>

definition tail_ok :: "heap \<Rightarrow> block \<Rightarrow> block list \<Rightarrow> bool" where
  "tail_ok H b zs \<longleftrightarrow> sane (b # zs) \<and> rights H (fst b) zs
    \<and> rdw (hp_mem H) (fst b) = of_nat (snd b) \<and> rdw (hp_mem H) (fst b + 2) = of_nat (first_of zs 0)"

lemma tail_ok_same:
  "tail_ok H b zs \<Longrightarrow> same_on ({fst b..<fst b + 4} \<union> area (set zs)) (hp_mem H) (hp_mem H') \<Longrightarrow> heaplast H' = heaplast H \<Longrightarrow> tail_ok H' b zs"
  unfolding tail_ok_def
  using rdw_same [of _ "hp_mem H" "hp_mem H'" "fst b"] rdw_same [of _ "hp_mem H" "hp_mem H'" "fst b + 2"]
  by (auto elim!: rights_same intro: same_on_mono)

lemma tail_link:
  assumes "sane (b # zs)" and "rights H p zs"
    and "rdw (hp_mem H) (fst b) = of_nat (snd b)" and "rdw (hp_mem H) (fst b + 2) = of_nat (first_of zs 0)"
  shows "tail_ok (link_prev (of_nat (first_of zs 0)) (of_nat (fst b)) H) b zs"
proof -
  let ?H = "link_prev (of_nat (first_of zs 0)) (of_nat (fst b)) H"
  have s: "sane zs" "6 \<le> snd b" "fst b + snd b < 2 ^ 16" "\<forall>c \<in> set zs. fst b + snd b < fst c" using assms(1) by auto
  have "{fst b..<fst b + 6} \<inter> area (set zs) = {}" using s by (force simp: area_iff)
  then have f: "same_on {fst b..<fst b + 6} (hp_mem H) (hp_mem ?H)" using s by (intro touches_same [OF touches_link_prev]) auto
  then show ?thesis
    using assms link_prev_rights [OF assms(2) s(1)] rdw_same [OF f, of "fst b"] rdw_same [OF f, of "fst b + 2"]
    by (simp add: tail_ok_def)
qed

lemma tail_ok_last:
  assumes "rights H p []" and "sane [b]" and "rdw (hp_mem H) (fst b) = of_nat (snd b)"
  shows "tail_ok (new_last (of_nat (fst b)) H) b []"
  using assms by (auto simp: tail_ok_def rights_def new_last_def to_nat rdw_wrw_other)

lemma touches_fields:
  assumes "6 \<le> n" and "f + n < 2 ^ 16"
  shows "touches {f..<f + n} H (put_word (of_nat f) v H)" "touches {f..<f + n} H (put_word (of_nat f + 2) v H)"
    "touches {f..<f + n} H (put_word (of_nat f + 4) v H)"
  using assms by (auto intro: touches_mono [OF touches_put(1)] touches_mono [OF touches_put(2)] touches_mono [OF touches_put(3)])

text \<open>The link to the right, and the merge to the right.\<close>

lemma right_link:
  assumes r: "rights H p ys" and s: "sane ((f, n) # ys)" "ys \<noteq> []" and m: "rdw (hp_mem H) f = of_nat n"
  defines "H' \<equiv> check_right_merge (of_nat f) (of_nat n) (of_nat (first_of ys 0)) H"
  shows "tail_ok H' (f, n) ys" and "touches ({f..<f + n} \<union> area (set ys)) H H'" and "heapfirst H' = heapfirst H"
proof -
  obtain c xs where ys: "ys = c # xs" using s(2) by (cases ys) auto
  define H1 where "H1 = put_word (of_nat f + 2) (of_nat (fst c)) H"
  have m1: "hp_mem H1 = wrw (f + 2) (of_nat (fst c)) (hp_mem H)" by (simp add: H1_def to_nat)
  have c: "6 \<le> n" "f + n < fst c" "fst c < 2 ^ 16" "f + n < 2 ^ 16" "sane ys" using s ys by auto
  then have "(of_nat (f + n) :: WORD) \<noteq> of_nat (fst c)" by (subst of_nat_inj) auto
  then have h: "H' = link_prev (of_nat (first_of ys 0)) (of_nat f) H1"
    using c by (simp add: H'_def check_right_merge_def ys H1_def link_prev_def of_nat_zero)
  have t: "touches {f..<f + n} H H1" using touches_fields [OF c(1,4)] by (simp add: H1_def)
  have "{f..<f + n} \<inter> area (set ys) = {}" using s(1) by (force simp: area_iff)
  then have "rights H1 p ys"
    using area_less [OF c(5)] by (intro rights_same [OF r touches_same [OF t]] c) (auto simp: H1_def)
  then show "tail_ok H' (f, n) ys"
    unfolding h by (intro tail_link [where b = "(f, n)", simplified]) (use s ys c m in \<open>auto simp: m1 rdw_wrw_other\<close>)
  show "touches ({f..<f + n} \<union> area (set ys)) H H'"
    unfolding h by (rule touches_trans [OF t touches_link_prev [OF c(5)]])
  show "heapfirst H' = heapfirst H" by (simp add: h H1_def)
qed

lemma right_join:
  assumes r: "rights H p ((f + n, k) # xs)" and s: "sane ((f + n, k) # xs)" "6 \<le> n" "0 < f" and m: "rdw (hp_mem H) f = of_nat n"
  defines "H' \<equiv> check_right_merge (of_nat f) (of_nat n) (of_nat (f + n)) H"
  shows "tail_ok H' (f, n + k) xs" and "touches ({f..<f + n} \<union> area (set xs)) H H'" and "heapfirst H' = heapfirst H"
proof -
  define H1 where "H1 = put_word (of_nat f + 2) (of_nat (first_of xs 0)) (put_word (of_nat f) (of_nat n + of_nat k) H)"
  have m1: "hp_mem H1 = wrw (f + 2) (of_nat (first_of xs 0)) (wrw f (of_nat (n + k)) (hp_mem H))" by (simp add: H1_def to_nat)
  have c: "f + n + k < 2 ^ 16" "f + n < 2 ^ 16" "6 \<le> k" "sane xs" "sane ((f, n + k) # xs)" using s by (auto simp: ac_simps)
  have bc: "blk (hp_mem H) p (f + n, k) (first_of xs 0)" "rights H (f + n) xs" using r by (auto simp: rights_def)
  have t: "touches {f..<f + n} H H1"
    unfolding H1_def using touches_trans [OF touches_fields(1) touches_fields(2)] s(2) c(2) by (metis Un_absorb)
  have "blk (wrw f v (hp_mem H)) p (f + n, k) (first_of xs 0)" for v
    using c s by (intro blk_same [OF bc(1)] same_on_wrw) auto
  then have h: "H' = link_prev (of_nat (first_of xs 0)) (of_nat f) H1"
    using bc(1) to_nat(1,2) [where a = "f + n"]
    by (simp add: H'_def check_right_merge_def to_nat(4-6) H1_def blk_def Let_def)
  have "{f..<f + n} \<inter> area (set xs) = {}" using s(1) by (force simp: area_iff)
  then have "rights H1 (f + n) xs"
    using area_less [OF c(4)] by (intro rights_same [OF bc(2) touches_same [OF t]] c) (auto simp: H1_def)
  then show "tail_ok H' (f, n + k) xs"
    unfolding h by (intro tail_link [where b = "(f, n + k)", simplified]) (use s c in \<open>auto simp: m1 rdw_wrw_other\<close>)
  show "touches ({f..<f + n} \<union> area (set xs)) H H'"
    unfolding h by (rule touches_trans [OF t touches_link_prev [OF c(4)]])
  show "heapfirst H' = heapfirst H" by (simp add: h H1_def)
qed

text \<open>No block to the left, the link to the left, and the merge to the left.\<close>

lemma left_none:
  assumes t: "tail_ok H (f, n) zs"
  shows "links (check_left_merge (of_nat f) 0 H) ((f, n) # zs)" and "touches {f..<f + n} H (check_left_merge (of_nat f) 0 H)"
proof -
  have s: "sane zs" "6 \<le> n" "f + n < 2 ^ 16" "sane ([(f, n)] @ zs)" using t by (auto simp: tail_ok_def)
  let ?H1 = "put_word (of_nat f + 4) 0 H"
  have t1: "touches {f..<f + n} H ?H1" by (rule touches_fields(3)) (use s in auto)
  have r: "rights H f zs" using t by (simp add: tail_ok_def)
  have "rights ?H1 f zs"
    using area_less [OF s(1)] area_apart [OF s(4)] by (intro rights_same [OF r touches_same [OF t1]] s) auto
  then show "links (check_left_merge (of_nat f) 0 H) ((f, n) # zs)"
    using t s by (auto simp: links_def lefts_def rights_def check_left_merge_def tail_ok_def blk_def to_nat rdw_wrw_other)
  show "touches {f..<f + n} H (check_left_merge (of_nat f) 0 H)" using t1 by (simp add: check_left_merge_def)
qed

lemma left_link:
  assumes l: "lefts H xs q" and t: "tail_ok H (f, n) zs" and s: "sane (xs @ (f, n) # zs)" "xs \<noteq> []"
  shows "links (check_left_merge2 (of_nat f) (of_nat (last_of 0 xs)) H) (xs @ (f, n) # zs)"
    and "touches (area (set xs) \<union> {f..<f + n}) H (check_left_merge2 (of_nat f) (of_nat (last_of 0 xs)) H)"
proof -
  obtain ys a k where xs: "xs = ys @ [(a, k)]" using s(2) by (metis rev_exhaust surj_pair)
  define H1 where "H1 = link_next (of_nat (last_of 0 xs)) (of_nat f) H"
  let ?H2 = "put_word (of_nat f + 4) (of_nat (last_of 0 xs)) H1"
  have sx: "sane xs" "sane zs" "6 \<le> n" "f + n < 2 ^ 16" "a + k < f" "0 < a" "sane ((f, n) # zs)" using s(1) xs by auto
  have ap: "area (set xs) \<inter> area (set ((f, n) # zs)) = {}" "area (set [(f, n)]) \<inter> area (set zs) = {}"
    using area_apart [of xs "(f, n) # zs"] area_apart [of "[(f, n)]" zs] s(1) by auto
  have "rdw (hp_mem H) a = of_nat k" using l xs by (simp add: lefts_def blk_def)
  moreover have "(of_nat (a + k) :: WORD) \<noteq> of_nat f" using sx by (subst of_nat_inj) auto
  ultimately have h: "check_left_merge2 (of_nat f) (of_nat (last_of 0 xs)) H = ?H2"
    using sx by (simp add: check_left_merge2_def xs H1_def link_next_def of_nat_zero to_nat)
  have t1: "touches (area (set xs)) H H1" unfolding H1_def by (rule touches_link_next [OF sx(1)])
  have t2: "touches {f..<f + n} H1 ?H2" by (rule touches_fields(3)) (use sx in auto)
  have "tail_ok H1 (f, n) zs"
    using ap sx(3,4) area_less [OF sx(2)]
    by (intro tail_ok_same [OF t touches_same [OF t1]]) (auto simp: H1_def)
  then have r: "seg (hp_mem H1) f zs 0" "heaplast H1 = of_nat (last_of f zs)" "rdw (hp_mem H1) f = of_nat n"
      "rdw (hp_mem H1) (f + 2) = of_nat (first_of zs 0)"
    by (auto simp: tail_ok_def rights_def)
  have "seg (hp_mem ?H2) f zs 0"
    using ap area_less [OF sx(2)] by (intro seg_same [OF r(1) touches_same [OF t2]] sx) auto
  then have "rights ?H2 (last_of 0 xs) ((f, n) # zs)"
    using r sx by (simp add: rights_def blk_def to_nat rdw_wrw_other)
  moreover have l1: "lefts H1 xs f" unfolding H1_def by (rule link_next_lefts [OF l sx(1)])
  have "lefts ?H2 xs f" using ap area_less [OF sx(1)] by (intro lefts_same [OF l1 touches_same [OF t2]] sx) auto
  ultimately show "links (check_left_merge2 (of_nat f) (of_nat (last_of 0 xs)) H) (xs @ (f, n) # zs)"
    unfolding h links_split by simp
  show "touches (area (set xs) \<union> {f..<f + n}) H (check_left_merge2 (of_nat f) (of_nat (last_of 0 xs)) H)"
    unfolding h by (rule touches_trans [OF t1 t2])
qed

lemma left_join:
  assumes l: "lefts H (xs @ [(a, k)]) q" and t: "tail_ok H (a + k, n) zs" and s: "sane (xs @ [(a, k)])"
    and z: "\<forall>c \<in> set zs. a + k + n < fst c"
  shows "links (check_left_merge2 (of_nat (a + k)) (of_nat a) H) (xs @ (a, k + n) # zs)"
    and "touches ({a..<a + k} \<union> area (set zs)) H (check_left_merge2 (of_nat (a + k)) (of_nat a) H)"
proof -
  define H1 where "H1 = put_word (of_nat a + 2) (of_nat (first_of zs 0)) (put_word (of_nat a) (of_nat k + of_nat n) H)"
  have m1: "hp_mem H1 = wrw (a + 2) (of_nat (first_of zs 0)) (wrw a (of_nat (k + n)) (hp_mem H))" by (simp add: H1_def to_nat)
  let ?H2 = "link_prev (of_nat (first_of zs 0)) (of_nat a) H1"
  have c: "sane zs" "sane xs" "6 \<le> k" "6 \<le> n" "0 < a" "a + k + n < 2 ^ 16" "a + k < 2 ^ 16" "\<forall>b \<in> set xs. fst b + snd b < a"
    using s t by (auto simp: tail_ok_def)
  have t1: "touches {a..<a + k} H H1"
    unfolding H1_def using touches_trans [OF touches_fields(1) touches_fields(2)] c(3,7) by (metis Un_absorb)
  note t2 = touches_link_prev [OF c(1), of H1 "of_nat a"]
  have bl: "blk (hp_mem H) (last_of 0 xs) (a, k) q" "seg (hp_mem H) 0 xs a" "heapfirst H = of_nat (first_of xs a)"
    using l by (auto simp: lefts_def)
  have "tail_ok (put_word (of_nat a) (of_nat k + of_nat n) H) (a + k, n) zs"
    using c z area_less [OF c(1)]
    by (intro tail_ok_same [OF t touches_same [OF touches_fields(1) [of k a]]]) (force simp: area_iff)+
  then have h: "check_left_merge2 (of_nat (a + k)) (of_nat a) H = ?H2"
    using bl(1) t to_nat(1,2) [where a = "a + k"]
    by (simp add: check_left_merge2_def tail_ok_def blk_def Let_def H1_def to_nat)
  have az: "area (set zs) \<inter> {a..<a + k + n} = {}" "area (set xs) \<inter> {a..<a + k + n} = {}" "area (set xs) \<inter> area (set zs) = {}"
    using z c by (force simp: area_iff)+
  have r: "rights H (a + k) zs" using t by (simp add: tail_ok_def)
  have "rights H1 (a + k) zs"
    using az area_less [OF c(1)] by (intro rights_same [OF r touches_same [OF t1]] c) (auto simp: H1_def)
  then have r: "rights ?H2 a zs" by (rule link_prev_rights) (rule c(1))
  have "blk (hp_mem H1) (last_of 0 xs) (a, k + n) (first_of zs 0)"
    using bl(1) c by (simp add: blk_def m1 rdw_wrw_other)
  then have "blk (hp_mem ?H2) (last_of 0 xs) (a, k + n) (first_of zs 0)"
    by (rule blk_same) (use az c in \<open>auto intro!: touches_same [OF t2]\<close>)
  moreover have "seg (hp_mem H1) 0 xs a"
    using az area_less [OF c(2)] by (intro seg_same [OF bl(2) touches_same [OF t1]] c) auto
  then have "seg (hp_mem ?H2) 0 xs a"
    using az area_less [OF c(2)] by (intro seg_same [OF _ touches_same [OF t2]] c) auto
  ultimately show "links (check_left_merge2 (of_nat (a + k)) (of_nat a) H) (xs @ (a, k + n) # zs)"
    using r bl(3) unfolding h links_split by (auto simp: lefts_def rights_def H1_def)
  show "touches ({a..<a + k} \<union> area (set zs)) H (check_left_merge2 (of_nat (a + k)) (of_nat a) H)"
    unfolding h by (rule touches_trans [OF t1 t2])
qed

end
