(* ===== verification/Lib_Heap_Alloc.thy ===== *)
theory Lib_Heap_Alloc
  imports Lib_Heap_Core
begin

text \<open>
  malloc and free against the invariant of the heap. The invariant names the memory \<open>R\<close> the
  allocator was given, the free list and the raw blocks that are allocated.
\<close>

definition heap_core :: "nat set \<Rightarrow> heap \<Rightarrow> block list \<Rightarrow> block multiset \<Rightarrow> bool" where
  "heap_core R H fs T \<longleftrightarrow> R \<subseteq> {0<..<2 ^ 16 - 1} \<and> heapptr H \<le> heapend H \<and> sane fs \<and> links H fs
    \<and> tiles R (add_mset (unat (heapptr H), unat (heapend H) - unat (heapptr H)) (mset fs + T))"

lemma unat_nat16: "a < 2 ^ 16 \<Longrightarrow> unat (of_nat a :: WORD) = a"
  by (simp add: unat_of_nat take_bit_nat_eq_self)

lemma of_nat_less: "a < 2 ^ 16 \<Longrightarrow> b < 2 ^ 16 \<Longrightarrow> (of_nat a :: WORD) < of_nat b \<longleftrightarrow> a < b"
  by (simp add: word_less_nat_alt unat_of_nat)

lemma sane_nonzero: "sane xs \<Longrightarrow> b \<in> set xs \<Longrightarrow> (of_nat (fst b) :: WORD) \<noteq> 0"
  using sane_bounds [of xs b] by (subst of_nat_zero) auto

lemma links_same:
  assumes "links H fs" and "sane fs" and "touches A H H'" and "A \<inter> area (set fs) = {}"
    and "heapfirst H' = heapfirst H" "heaplast H' = heaplast H"
  shows "links H' fs"
proof -
  have "same_on (area (set fs)) (hp_mem H) (hp_mem H')"
    using assms(4) area_less [OF assms(2)] by (intro touches_same [OF assms(3)]) auto
  then show ?thesis using assms(1,2,5,6) by (auto simp: links_def elim: lefts_same rights_same)
qed

text \<open>What the tiles say of the blocks.\<close>

lemma core_apart: "heap_core R H fs T \<Longrightarrow> area (set fs) \<inter> area (set_mset T) = {}"
proof -
  assume "heap_core R H fs T"
  then have "tiles R ((add_mset (unat (heapptr H), unat (heapend H) - unat (heapptr H)) (mset fs)) + T)"
    by (simp add: heap_core_def)
  from tiles_apart [OF this] show ?thesis by auto
qed

lemma core_area: "heap_core R H fs T \<Longrightarrow> area (set fs) \<subseteq> R - area (set_mset T)" "heap_core R H fs T \<Longrightarrow> area (set_mset T) \<subseteq> R"
  using core_apart [of R H fs T] by (auto simp: heap_core_def dest!: tiles_area)

lemma core_bounds: "heap_core R H fs T \<Longrightarrow> (a, n) \<in># T \<Longrightarrow> 0 < n \<Longrightarrow> 0 < a \<and> a + n < 2 ^ 16"
proof -
  assume h: "heap_core R H fs T" and a: "(a, n) \<in># T" "0 < n"
  then have "{a..<a + n} \<subseteq> area (set_mset T)" by (auto simp: area_def)
  then have "{a..<a + n} \<subseteq> {0<..<2 ^ 16 - 1}" using core_area(2) [OF h] h by (auto simp: heap_core_def)
  moreover have "a \<in> {a..<a + n}" "a + n - 1 \<in> {a..<a + n}" using a(2) by auto
  ultimately have "a \<in> {0<..<2 ^ 16 - 1}" "a + n - 1 \<in> {0<..<2 ^ 16 - 1}" by blast+
  then show ?thesis by auto
qed

lemma core_top: "heap_core R H fs T \<Longrightarrow> {unat (heapptr H)..<unat (heapend H)} \<inter> (area (set fs) \<union> area (set_mset T)) = {}
    \<and> {unat (heapptr H)..<unat (heapend H)} \<subseteq> R"
proof -
  assume h: "heap_core R H fs T"
  then have "tiles R ({#(unat (heapptr H), unat (heapend H) - unat (heapptr H))#} + (mset fs + T))" by (simp add: heap_core_def)
  from tiles_apart [OF this] tiles_area [OF this] show ?thesis by auto
qed

section \<open>heapadd\<close>

lemma search_free_list_finds:
  assumes "seg m p (xs @ ys) 0" and "sane (xs @ ys)" and "xs @ ys \<noteq> []"
    and "\<forall>b \<in> set xs. fst b + snd b \<le> f" and "\<forall>c \<in> set ys. f < fst c" and "f < 2 ^ 16"
  shows "search_free_list m (of_nat f) (of_nat p) (of_nat (first_of (xs @ ys) 0))
    = Some (of_nat (last_of p xs), of_nat (first_of ys 0))"
  using assms
proof (induction xs arbitrary: p)
  case Nil
  then obtain c zs where "ys = c # zs" by (cases ys) auto
  with Nil show ?case by (simp add: search_free_list.simps of_nat_less)
next
  case (Cons b xs)
  have "\<not> (of_nat f :: WORD) < of_nat (fst b)" using Cons.prems(2,4,6) by (simp add: of_nat_less)
  moreover have "rdw m (fst b + 2) = of_nat (first_of (xs @ ys) 0)" using Cons.prems(1) by (simp add: blk_def)
  ultimately have s: "search_free_list m (of_nat f) (of_nat p) (of_nat (first_of ((b # xs) @ ys) 0))
      = (if (of_nat (first_of (xs @ ys) 0) :: WORD) \<noteq> 0 then search_free_list m (of_nat f) (of_nat (fst b)) (of_nat (first_of (xs @ ys) 0))
         else Some (of_nat (fst b), 0))"
    by (subst search_free_list.simps) (simp add: to_nat Let_def del: first_of_append)
  show ?case
  proof (cases "xs @ ys = []")
    case False
    then obtain c where "c \<in> set (xs @ ys)" "first_of (xs @ ys) 0 = fst c" by (cases "xs @ ys") auto
    then have "(of_nat (first_of (xs @ ys) 0) :: WORD) \<noteq> 0"
      using Cons.prems(2) sane_bounds [of "xs @ ys" c] by (subst of_nat_zero) auto
    then show ?thesis using Cons.IH [of "fst b"] Cons.prems False unfolding s by simp
  next
    case True
    then show ?thesis unfolding s by simp
  qed
qed

lemma split_free:
  assumes "sane fs" and "0 < n" and "{a..<a + n} \<inter> area (set fs) = {}"
  shows "\<exists>xs ys. fs = xs @ ys \<and> (\<forall>b \<in> set xs. fst b + snd b \<le> a) \<and> (\<forall>c \<in> set ys. a + n \<le> fst c)"
  using assms
proof (induction fs)
  case (Cons b fs)
  show ?case
  proof (cases "fst b + snd b \<le> a")
    case True
    have "{a..<a + n} \<inter> area (set fs) = {}" using Cons.prems(3) by (auto simp: area_iff)
    then obtain xs ys where "fs = xs @ ys" "\<forall>b \<in> set xs. fst b + snd b \<le> a" "\<forall>c \<in> set ys. a + n \<le> fst c"
      using Cons by auto
    then show ?thesis using True by (intro exI [of _ "b # xs"] exI [of _ ys]) auto
  next
    case False
    have "a + n \<le> fst b"
    proof (rule ccontr)
      assume "\<not> a + n \<le> fst b"
      then have "max a (fst b) \<in> {a..<a + n}" "max a (fst b) \<in> area (set (b # fs))"
        using False Cons.prems(1,2) by (auto simp: area_iff max_def)
      then show False using Cons.prems(3) by blast
    qed
    then show ?thesis using Cons.prems(1) by (intro exI [of _ "[]"] exI [of _ "b # fs"]) force
  qed
qed simp

text \<open>The right half of heapadd: the new block with the list behind it.\<close>

definition add_right :: "WORD \<Rightarrow> WORD \<Rightarrow> WORD \<Rightarrow> heap \<Rightarrow> heap" where
  "add_right f sz right H = (if right \<noteq> 0 then check_right_merge f sz right H else new_last f H)"

lemma add_right_tail:
  assumes r: "rights H p ys" and s: "sane ys" "6 \<le> n" "0 < a" "a + n < 2 ^ 16" "\<forall>c \<in> set ys. a + n \<le> fst c"
    and m: "rdw (hp_mem H) a = of_nat n"
  defines "H' \<equiv> add_right (of_nat a) (of_nat n) (of_nat (first_of ys 0)) H"
  shows "\<exists>k zs. tail_ok H' (a, k) zs \<and> (\<forall>x. cover x (mset ((a, k) # zs)) = cover x (mset ((a, n) # ys)))
    \<and> touches ({a..<a + n} \<union> area (set ys)) H H' \<and> heapfirst H' = heapfirst H"
proof (cases ys)
  case Nil
  then have "H' = new_last (of_nat a) H" by (simp add: H'_def add_right_def)
  then show ?thesis using Nil r s m tail_ok_last [of H p "(a, n)"] touches_fields(2) [of n a H 0]
    by (intro exI [of _ n] exI [of _ "[]"]) (auto simp: new_last_def)
next
  case (Cons c xs)
  then have c: "(of_nat (fst c) :: WORD) \<noteq> 0" using s by (subst of_nat_zero) auto
  show ?thesis
  proof (cases "fst c = a + n")
    case True
    then have y: "ys = (a + n, snd c) # xs" using Cons by (simp add: prod_eq_iff)
    have h: "H' = check_right_merge (of_nat a) (of_nat n) (of_nat (a + n)) H" using c True by (simp add: H'_def add_right_def y)
    note j = right_join [OF r [unfolded y] s(1) [unfolded y] s(2,3) m, folded h]
    have "area (set xs) \<subseteq> area (set ys)" by (auto simp: y)
    then have "touches ({a..<a + n} \<union> area (set ys)) H H'" by (intro touches_mono [OF j(2)]) auto
    then show ?thesis using j(1,3) by (intro exI [of _ "n + snd c"] exI [of _ xs]) (auto simp: y)
  next
    case False
    have g: "sane ((a, n) # ys)" using s False Cons by force
    have h: "H' = check_right_merge (of_nat a) (of_nat n) (of_nat (first_of ys 0)) H" using c Cons by (simp add: H'_def add_right_def)
    have "ys \<noteq> []" using Cons by simp
    note k = right_link [OF r g this m, folded h]
    show ?thesis using k by (intro exI [of _ n] exI [of _ ys]) auto
  qed
qed

lemma add_left_links:
  assumes l: "lefts H xs q" and t: "tail_ok H (a, n) zs" and s: "sane xs" "\<forall>b \<in> set xs. fst b + snd b \<le> a"
  defines "H' \<equiv> check_left_merge (of_nat a) (of_nat (last_of 0 xs)) H"
  shows "\<exists>fs. links H' fs \<and> sane fs \<and> (\<forall>x. cover x (mset fs) = cover x (mset (xs @ (a, n) # zs)))
    \<and> touches ({a..<a + n} \<union> area (set xs) \<union> area (set zs)) H H'"
proof (cases xs rule: rev_cases)
  case Nil
  then show ?thesis using left_none [OF t] t by (intro exI [of _ "(a, n) # zs"])
    (auto simp: H'_def tail_ok_def intro: touches_mono)
next
  case (snoc ys b)
  have sz: "sane ((a, n) # zs)" using t by (simp add: tail_ok_def)
  have "0 < fst b" "fst b < 2 ^ 16" using s(1) snoc by auto
  then have h: "H' = check_left_merge2 (of_nat a) (of_nat (last_of 0 xs)) H"
    using snoc by (simp add: H'_def check_left_merge_def of_nat_zero)
  show ?thesis
  proof (cases "fst b + snd b = a")
    case True
    then have x: "xs = ys @ [(fst b, snd b)]" and t': "tail_ok H (fst b + snd b, n) zs" using snoc t by auto
    have z: "\<forall>c \<in> set zs. fst b + snd b + n < fst c" using sz True by simp
    have h': "H' = check_left_merge2 (of_nat (fst b + snd b)) (of_nat (fst b)) H" using h True snoc by simp
    note j = left_join [OF l [unfolded x] t' s(1) [unfolded x] z, folded h']
    have "sane (ys @ (fst b, snd b + n) # zs)" using s(1) sz snoc z True by fastforce
    moreover have "touches ({a..<a + n} \<union> area (set xs) \<union> area (set zs)) H H'" by (rule touches_mono [OF j(2)]) (auto simp: snoc area_iff)
    ultimately show ?thesis using j(1) True snoc by (intro exI [of _ "ys @ (fst b, snd b + n) # zs"]) (cases b, auto)
  next
    case False
    have g: "sane (xs @ (a, n) # zs)" using s sz snoc False by fastforce
    have "xs \<noteq> []" using snoc by simp
    note k = left_link [OF l t g this, folded h]
    show ?thesis using k g by (intro exI [of _ "xs @ (a, n) # zs"]) (auto intro: touches_mono)
  qed
qed

lemma only_block_links:
  assumes "6 \<le> n" "0 < a" "a + n < 2 ^ 16" "rdw (hp_mem H) a = of_nat n"
  shows "links (only_block (of_nat a) H) [(a, n)]" and "touches {a..<a + n} H (only_block (of_nat a) H)"
proof -
  show "links (only_block (of_nat a) H) [(a, n)]"
    using assms by (simp add: links_def lefts_def rights_def only_block_def blk_def to_nat rdw_wrw_other)
  show "touches {a..<a + n} H (only_block (of_nat a) H)"
    unfolding only_block_def using touches_trans [OF touches_fields(2) touches_fields(3), of n a n a] assms by simp
qed

text \<open>A block that does not overlap the free ones enters the free list.\<close>

lemma add_block_links:
  assumes l: "links H fs" "sane fs" and d: "{a..<a + n} \<inter> area (set fs) = {}"
    and n: "6 \<le> n" "0 < a" "a + n < 2 ^ 16" and m: "rdw (hp_mem H) a = of_nat n"
  shows "\<exists>H' fs'. add_block (of_nat a) (of_nat n) H = Some H' \<and> links H' fs' \<and> sane fs'
    \<and> touches ({a..<a + n} \<union> area (set fs)) H H' \<and> (\<forall>x. cover x (mset fs') = cover x (add_mset (a, n) (mset fs)))"
proof (cases "fs = []")
  case True
  then show ?thesis using only_block_links [OF n m] l n
    by (intro exI [of _ "only_block (of_nat a) H"] exI [of _ "[(a, n)]"]) (auto simp: add_block_def links_def lefts_def)
next
  case False
  obtain xs ys where fs: "fs = xs @ ys" and x: "\<forall>b \<in> set xs. fst b + snd b \<le> a" and y: "\<forall>c \<in> set ys. a + n \<le> fst c"
    using split_free [OF l(2) _ d] n by auto
  have s: "sane xs" "sane ys" "sane (xs @ ys)" using l(2) fs by auto
  have lr: "lefts H xs (first_of ys 0)" "rights H (last_of 0 xs) ys" using l(1) by (simp_all add: fs links_split)
  obtain c where "c \<in> set fs" "first_of fs 0 = fst c" using False by (cases fs) auto
  moreover from this(1) have "(of_nat (fst c) :: WORD) \<noteq> 0" by (rule sane_nonzero [OF l(2)])
  ultimately have f0: "heapfirst H \<noteq> 0" "heapfirst H = of_nat (first_of fs 0)"
    using l by (auto simp: links_def lefts_def)
  have ya: "\<forall>c \<in> set ys. a < fst c" using y n by fastforce
  have seg: "seg (hp_mem H) 0 (xs @ ys) 0" using l(1) by (simp add: links_def lefts_def fs)
  have "search_free_list (hp_mem H) (of_nat a) 0 (heapfirst H) = Some (of_nat (last_of 0 xs), of_nat (first_of ys 0))"
    using search_free_list_finds [OF seg s(3) _ x ya] False n unfolding f0(2) fs by simp
  moreover define H1 where "H1 = add_right (of_nat a) (of_nat n) (of_nat (first_of ys 0)) H"
  define H2 where "H2 = check_left_merge (of_nat a) (of_nat (last_of 0 xs)) H1"
  have "(of_nat (last_of 0 xs) :: WORD) \<noteq> 0" if e: "(of_nat (first_of ys 0) :: WORD) = 0"
  proof -
    have "ys = []" using e s(2) by (cases ys) (auto simp: of_nat_zero)
    then obtain b where "b \<in> set xs" "last_of 0 xs = fst b" using False fs last_of_in [of xs 0] by auto
    then show ?thesis using sane_nonzero [OF s(1)] by simp
  qed
  ultimately have a: "add_block (of_nat a) (of_nat n) H = Some H2"
    using f0(1) by (auto simp: add_block_def H1_def H2_def add_right_def check_left_merge_def)
  obtain k zs where t: "tail_ok H1 (a, k) zs" and cz: "\<forall>x. cover x (mset ((a, k) # zs)) = cover x (mset ((a, n) # ys))"
    and t1: "touches ({a..<a + n} \<union> area (set ys)) H H1" and hf: "heapfirst H1 = heapfirst H"
    using add_right_tail [OF lr(2) s(2) n y m] unfolding H1_def by blast
  have "area (set xs) \<inter> ({a..<a + n} \<union> area (set ys)) = {}" using area_apart [OF s(3)] d fs by auto
  then have "lefts H1 xs (first_of ys 0)"
    using area_less [OF s(1)] by (intro lefts_same [OF lr(1) touches_same [OF t1]] s hf) auto
  from add_left_links [OF this t s(1) x, folded H2_def] obtain fs' where
    f: "links H2 fs'" "sane fs'" "\<forall>x. cover x (mset fs') = cover x (mset (xs @ (a, k) # zs))"
    and t2: "touches ({a..<a + k} \<union> area (set xs) \<union> area (set zs)) H1 H2" by blast
  have "x \<in> {a..<a + k} \<union> area (set zs) \<longleftrightarrow> x \<in> {a..<a + n} \<union> area (set ys)" for x
    using cz cover_pos [of x "mset ((a, k) # zs)"] cover_pos [of x "mset ((a, n) # ys)"] by auto
  then have "{a..<a + k} \<union> area (set zs) = {a..<a + n} \<union> area (set ys)" by blast
  then have "touches ({a..<a + n} \<union> area (set fs)) H H2"
    by (intro touches_mono [OF touches_trans [OF t1 t2]]) (auto simp: fs)
  moreover have "cover x (mset fs') = cover x (add_mset (a, n) (mset fs))" for x
    using f(3) cz by (simp add: fs)
  ultimately show ?thesis using a f by blast
qed

section \<open>free\<close>

definition used :: "memory \<Rightarrow> nat \<Rightarrow> nat \<Rightarrow> nat \<Rightarrow> bool" where
  "used m a n u \<longleftrightarrow> 6 \<le> n \<and> a + 4 \<le> u \<and> u \<le> a + n \<and> rdw m a = of_nat n \<and> rdw m (u - 2) = of_nat a"

text \<open>What malloc and free may write to: the memory of the allocator that is not allocated.\<close>

definition rest_same :: "nat set \<Rightarrow> block multiset \<Rightarrow> memory \<Rightarrow> memory \<Rightarrow> bool" where
  "rest_same R T m m' \<longleftrightarrow> same_on ({..<2 ^ 16} - (R - area (set_mset T))) m m'"

lemma touches_rest: "touches A H H' \<Longrightarrow> A \<subseteq> R - area (set_mset T) \<Longrightarrow> rest_same R T (hp_mem H) (hp_mem H')"
  unfolding rest_same_def touches_def by (auto intro: same_on_mono)

lemma lower_top_links:
  assumes "links H fs" and "sane fs" and "0 < a" "a < 2 ^ 16"
  defines "H' \<equiv> lower_top (of_nat a) H"
  shows "(\<exists>fs' b. links H' fs' \<and> sane fs' \<and> heapptr H' = of_nat b \<and> b \<le> a
      \<and> (\<forall>x. cover x (mset fs) = cover x (add_mset (b, a - b) (mset fs'))))
    \<and> same_on ({..<2 ^ 16} - area (set fs)) (hp_mem H) (hp_mem H') \<and> heapend H' = heapend H"
proof (cases fs rule: rev_cases)
  case Nil
  then have "H' = H\<lparr>heapptr := of_nat a\<rparr>" using assms(1) by (simp add: H'_def lower_top_def links_def rights_def Let_def)
  then show ?thesis using assms(1) Nil
    by (auto simp: links_def lefts_def rights_def intro!: exI [of _ "[]"] exI [of _ a])
next
  case (snoc xs c)
  have s: "sane xs" "0 < fst c" "6 \<le> snd c" "fst c + snd c < 2 ^ 16" using assms(2) snoc by auto
  have l: "lefts H xs (fst c)" "blk (hp_mem H) (last_of 0 xs) c 0" "heaplast H = of_nat (fst c)"
    using assms(1) by (simp_all add: snoc links_split rights_def)
  have e: "(of_nat (fst c) + of_nat (snd c) :: WORD) = of_nat a \<longleftrightarrow> fst c + snd c = a"
    using s assms(4) of_nat_inj [of "fst c + snd c" a] by simp
  show ?thesis
  proof (cases "fst c + snd c = a")
    case True
    let ?H1 = "H\<lparr>heapptr := of_nat (fst c), heaplast := of_nat (last_of 0 xs)\<rparr>"
    have h: "H' = link_next (of_nat (last_of 0 xs)) (of_nat 0) ?H1"
      using True e l(2,3) s by (simp add: H'_def lower_top_def Let_def of_nat_zero to_nat blk_def)
    have "lefts ?H1 xs (fst c)" using l(1) by (simp add: lefts_def)
    from link_next_lefts [OF this s(1)] have "lefts H' xs 0" unfolding h .
    then have "links H' (xs @ [])" unfolding links_split by (simp add: rights_def h)
    moreover have "touches (area (set xs)) ?H1 H'" unfolding h by (rule touches_link_next [OF s(1)])
    then have "same_on ({..<2 ^ 16} - area (set fs)) (hp_mem H) (hp_mem H')"
      by (auto simp: touches_def snoc same_on_def area_iff)
    ultimately show ?thesis using True s
      by (intro conjI exI [of _ xs] exI [of _ "fst c"]) (cases c, auto simp: snoc h)+
  next
    case False
    then have "H' = H\<lparr>heapptr := of_nat a\<rparr>" using e l s by (simp add: H'_def lower_top_def Let_def to_nat blk_def of_nat_zero)
    then show ?thesis using assms(1,2)
      by (intro conjI exI [of _ fs] exI [of _ a]) (auto simp: links_def lefts_def rights_def)
  qed
qed

lemma core_tiles: "heap_core R H fs T \<Longrightarrow> cover x (mset fs) + cover x T
    + of_bool (unat (heapptr H) \<le> x \<and> x < unat (heapend H)) = of_bool (x \<in> R)"
  unfolding heap_core_def tiles_def by (auto simp: word_le_nat_alt of_bool_def split: if_splits dest!: spec [of _ x])

lemma coreI:
  assumes "R \<subseteq> {0<..<2 ^ 16 - 1}" and "heapptr H \<le> heapend H" and "sane fs" and "links H fs"
    and "\<And>x. cover x (mset fs) + cover x T + of_bool (unat (heapptr H) \<le> x \<and> x < unat (heapend H)) = of_bool (x \<in> R)"
  shows "heap_core R H fs T"
  using assms(1-4) assms(5) [symmetric] unfolding heap_core_def tiles_def by (simp add: word_le_nat_alt)

lemma free_core:
  assumes h: "heap_core R H fs (add_mset (a, n) T)" and u: "used (hp_mem H) a n u"
  shows "\<exists>H' fs'. free (of_nat u) H = Some H' \<and> heap_core R H' fs' T \<and> rest_same R T (hp_mem H) (hp_mem H')"
proof -
  have b: "0 < a" "a + n < 2 ^ 16" "6 \<le> n" using core_bounds [OF h, of a n] u by (auto simp: used_def)
  have u': "4 \<le> u" "u < 2 ^ 16" "rdw (hp_mem H) (u - 2) = of_nat a" "rdw (hp_mem H) a = of_nat n"
    using u b by (auto simp: used_def)
  have "(of_nat u - HEAP_ADMIN_SPACE + blk_start :: WORD) = of_nat (u - 2)"
    using u'(1) by (simp add: HEAP_ADMIN_SPACE_def of_nat_diff)
  moreover have "(of_nat u :: WORD) \<noteq> 0" using u' by (subst of_nat_zero) auto
  ultimately have f: "free (of_nat u) H = (if of_nat n + of_nat a = heapptr H then Some (lower_top (of_nat a) H)
      else add_block (of_nat a) (of_nat n) H)"
    using u'(3,4) by (simp add: free_def Let_def to_nat del: of_nat_diff)
  have c: "links H fs" "sane fs" "R \<subseteq> {0<..<2 ^ 16 - 1}" using h by (auto simp: heap_core_def)
  have ap: "{a..<a + n} \<inter> area (set fs) = {}" "area (set fs) \<subseteq> R - area (set_mset T)"
    using core_apart [OF h] core_area(1) [OF h] by auto
  have "tiles R ({#(a, n)#} + (T + add_mset (unat (heapptr H), unat (heapend H) - unat (heapptr H)) (mset fs)))"
    using h by (simp add: heap_core_def tiles_def ac_simps)
  from tiles_apart [OF this] tiles_area [OF this] have at: "{a..<a + n} \<subseteq> R - area (set_mset T)" by auto
  have e: "(of_nat n + of_nat a :: WORD) = heapptr H \<longleftrightarrow> a + n = unat (heapptr H)"
    using b of_nat_inj [of "a + n" "unat (heapptr H)"] WORD_less [of "heapptr H"] by (simp add: add.commute)
  note tl = core_tiles [OF h, simplified]
  show ?thesis
  proof (cases "a + n = unat (heapptr H)")
    case True
    define H' where "H' = lower_top (of_nat a) H"
    from lower_top_links [OF c(1,2) b(1), folded H'_def] b obtain fs' p where
      l: "links H' fs'" "sane fs'" "heapptr H' = of_nat p" "p \<le> a" "heapend H' = heapend H"
      and cv: "\<forall>x. cover x (mset fs) = cover x (add_mset (p, a - p) (mset fs'))"
      and sm: "same_on ({..<2 ^ 16} - area (set fs)) (hp_mem H) (hp_mem H')" by auto
    have p: "unat (heapptr H') = p" using l(3,4) b by (simp add: unat_nat16)
    have le: "unat (heapptr H) \<le> unat (heapend H)" using h by (simp add: heap_core_def word_le_nat_alt)
    have "heap_core R H' fs' T"
    proof (rule coreI [OF c(3) _ l(2,1)])
      show "heapptr H' \<le> heapend H'" using p l True le by (simp add: word_le_nat_alt)
      show "cover x (mset fs') + cover x T + of_bool (unat (heapptr H') \<le> x \<and> x < unat (heapend H')) = of_bool (x \<in> R)" for x
        using tl [of x] cv [rule_format, of x] l(4) True le unfolding p l(5) by (auto split: if_splits simp: of_bool_def)
    qed
    moreover have "rest_same R T (hp_mem H) (hp_mem H')"
      unfolding rest_same_def by (rule same_on_mono [OF sm]) (use ap in auto)
    ultimately show ?thesis using f e True by (auto simp: H'_def)
  next
    case False
    from add_block_links [OF c(1,2) ap(1) b(3,1,2) u'(4)] obtain H' fs' where
      l: "add_block (of_nat a) (of_nat n) H = Some H'" "links H' fs'" "sane fs'"
      and t: "touches ({a..<a + n} \<union> area (set fs)) H H'"
      and cv: "\<forall>x. cover x (mset fs') = cover x (add_mset (a, n) (mset fs))" by blast
    have p: "heapptr H' = heapptr H" "heapend H' = heapend H" using t by (simp_all add: touches_def)
    have "heap_core R H' fs' T"
    proof (rule coreI [OF c(3) _ l(3,2)])
      show "heapptr H' \<le> heapend H'" using h by (simp add: p heap_core_def)
      show "cover x (mset fs') + cover x T + of_bool (unat (heapptr H') \<le> x \<and> x < unat (heapend H')) = of_bool (x \<in> R)" for x
        using tl [of x] cv [rule_format, of x] by (simp add: p)
    qed
    moreover have "rest_same R T (hp_mem H) (hp_mem H')" by (rule touches_rest [OF t]) (use ap at in auto)
    ultimately show ?thesis using f e False l(1) by auto
  qed
qed

section \<open>malloc\<close>

lemma find_block_finds:
  "seg m p fs 0 \<Longrightarrow> sane fs \<Longrightarrow> find_block m sz (of_nat (first_of fs 0))
    = Some (case find (\<lambda>b. unat sz \<le> snd b) fs of None \<Rightarrow> 0 | Some b \<Rightarrow> of_nat (fst b))"
proof (induction fs arbitrary: p)
  case (Cons b fs)
  have b: "(of_nat (fst b) :: WORD) \<noteq> 0" "rdw m (fst b) = of_nat (snd b)" "rdw m (fst b + 2) = of_nat (first_of fs 0)"
    using sane_nonzero [OF Cons.prems(2)] Cons.prems(1) by (auto simp: blk_def)
  have "snd b < 2 ^ 16" using Cons.prems(2) by simp
  then have "sz \<le> of_nat (snd b) \<longleftrightarrow> unat sz \<le> snd b" by (simp add: word_le_nat_alt unat_nat16)
  then show ?case using b Cons.IH [of "fst b"] Cons.prems by (subst find_block.simps) (simp add: to_nat)
qed (simp add: find_block.simps)

lemma fill_size_used:
  fixes H :: heap
  assumes "6 \<le> n" "0 < a" "a + n < 2 ^ 16"
  defines "r \<equiv> fill_size (of_nat a) (of_nat n) H"
  shows "fst r = of_nat (a + 4)" and "used (hp_mem (snd r)) a n (a + 4)" and "touches {a..<a + n} H (snd r)"
    and "heapfirst (snd r) = heapfirst H" "heaplast (snd r) = heaplast H"
proof -
  have r: "r = (of_nat (a + 4), put_word (of_nat a + 2) (of_nat a) (put_word (of_nat a) (of_nat n) H))"
    by (simp add: r_def fill_size_def ret_user_ptr_def HEAP_ADMIN_SPACE_def add.commute)
  show "fst r = of_nat (a + 4)" and "used (hp_mem (snd r)) a n (a + 4)"
    and "heapfirst (snd r) = heapfirst H" "heaplast (snd r) = heaplast H"
    using assms(1-3) unfolding r by (simp_all add: used_def to_nat rdw_wrw_other)
  show "touches {a..<a + n} H (snd r)"
    unfolding r using touches_trans [OF touches_fields(1) touches_fields(2), of n a n a] assms(1-3) by simp
qed

text \<open>A free block as a whole.\<close>

lemma take_block:
  assumes h: "heap_core R H (xs @ (a, n) # ys) T"
  defines "r \<equiv> ret_user_ptr (of_nat a) (unlink_block (of_nat a) H)"
  shows "heap_core R (snd r) (xs @ ys) (add_mset (a, n) T)" and "fst r = of_nat (a + 4)"
    and "used (hp_mem (snd r)) a n (a + 4)" and "rest_same R T (hp_mem H) (hp_mem (snd r))"
proof -
  let ?H1 = "unlink_block (of_nat a) H"
  have c: "links H (xs @ (a, n) # ys)" "sane (xs @ (a, n) # ys)" "R \<subseteq> {0<..<2 ^ 16 - 1}" "heapptr H \<le> heapend H"
    using h by (auto simp: heap_core_def)
  have n: "6 \<le> n" "a + n < 2 ^ 16" "sane (xs @ ys)" using c(2) by auto
  have r: "r = (of_nat (a + 4), put_word (of_nat a + 2) (of_nat a) ?H1)"
    by (simp add: r_def ret_user_ptr_def HEAP_ADMIN_SPACE_def add.commute)
  note u = unlink_links [OF c(1,2), simplified]
  have t: "touches {a..<a + n} ?H1 (snd r)" unfolding r using touches_fields(2) [OF n(1,2)] by simp
  have ap: "{a..<a + n} \<inter> (area (set xs) \<union> area (set ys)) = {}" using c(2) by (force simp: area_iff)
  have "{a..<a + 6} \<subseteq> {a..<a + n}" using n by auto
  then have ap6: "{a..<a + 6} \<inter> (area (set xs) \<union> area (set ys)) = {}" using ap by blast
  have l: "links (snd r) (xs @ ys)" by (rule links_same [OF u(1) n(3) t]) (use ap in \<open>auto simp: r\<close>)
  have p: "heapptr (snd r) = heapptr H" "heapend (snd r) = heapend H" using u(2) t by (simp_all add: touches_def)
  show "heap_core R (snd r) (xs @ ys) (add_mset (a, n) T)"
  proof (rule coreI [OF c(3) _ n(3) l])
    show "heapptr (snd r) \<le> heapend (snd r)" using c(4) by (simp add: p)
    show "cover x (mset (xs @ ys)) + cover x (add_mset (a, n) T) + of_bool (unat (heapptr (snd r)) \<le> x \<and> x < unat (heapend (snd r))) = of_bool (x \<in> R)" for x
      using core_tiles [OF h, of x] by (simp add: p)
  qed
  show "fst r = of_nat (a + 4)" by (simp add: r)
  have "blk (hp_mem H) (last_of 0 xs) (a, n) (first_of ys 0)" using c(1) unfolding links_split by (simp add: rights_def)
  then have "blk (hp_mem ?H1) (last_of 0 xs) (a, n) (first_of ys 0)"
    by (rule blk_same) (use ap6 n in \<open>auto intro!: touches_same [OF u(2)]\<close>)
  then show "used (hp_mem (snd r)) a n (a + 4)" using n by (simp add: r used_def blk_def to_nat rdw_wrw_other)
  have "area (set (xs @ (a, n) # ys)) \<subseteq> R - area (set_mset T)" by (rule core_area(1) [OF h])
  then show "rest_same R T (hp_mem H) (hp_mem (snd r))" by (intro touches_rest [OF touches_trans [OF u(2) t]]) auto
qed

text \<open>The upper end of a free block.\<close>

lemma slice_block:
  assumes h: "heap_core R H (xs @ (a, n) # ys) T" and s: "6 \<le> s" "s + 6 \<le> n"
  defines "r \<equiv> fill_size (of_nat a + of_nat (n - s)) (of_nat s) (put_word (of_nat a) (of_nat (n - s)) H)"
  shows "heap_core R (snd r) (xs @ (a, n - s) # ys) (add_mset (a + n - s, s) T)" and "fst r = of_nat (a + n - s + 4)"
    and "used (hp_mem (snd r)) (a + n - s) s (a + n - s + 4)" and "rest_same R T (hp_mem H) (hp_mem (snd r))"
proof -
  let ?b = "a + n - s"
  define H1 where "H1 = put_word (of_nat a) (of_nat (n - s)) H"
  have c: "links H (xs @ (a, n) # ys)" "sane (xs @ (a, n) # ys)" "R \<subseteq> {0<..<2 ^ 16 - 1}" "heapptr H \<le> heapend H"
    using h by (auto simp: heap_core_def)
  have n: "0 < a" "a + n < 2 ^ 16" "sane xs" "sane ys" using c(2) by auto
  have sn: "sane (xs @ (a, n - s) # ys)" using c(2) s by force
  have ad: "of_nat a + of_nat (n - s) = (of_nat ?b :: WORD)" using s by (simp flip: of_nat_add)
  have r: "r = fill_size (of_nat ?b) (of_nat s) H1" unfolding r_def ad H1_def ..
  have b: "0 < ?b" "?b + s = a + n" using s n by auto
  note f = fill_size_used [OF s(1) b(1), of H1, folded r, unfolded b(2), OF n(2)]
  have t1: "touches {a..<a + n - s} H H1" unfolding H1_def using touches_fields(1) [of "n - s" a] s n by simp
  have an: "{a..<a + n} \<inter> area (set xs) = {}" "{a..<a + n} \<inter> area (set ys) = {}" using c(2) by (force simp: area_iff)+
  have "{a..<a + n - s} \<subseteq> {a..<a + n}" "{?b..<a + n} \<subseteq> {a..<a + n}" using s by auto
  then have ap: "{a..<a + n - s} \<inter> area (set xs) = {}" "{a..<a + n - s} \<inter> area (set ys) = {}"
    "{?b..<a + n} \<inter> area (set xs) = {}" "{?b..<a + n} \<inter> area (set ys) = {}" using an by blast+
  have l: "lefts H xs a" "blk (hp_mem H) (last_of 0 xs) (a, n) (first_of ys 0)" "rights H a ys"
    using c(1) unfolding links_split by (auto simp: rights_def)
  have "lefts H1 xs a" by (rule lefts_same [OF l(1) touches_same [OF t1] n(3)]) (use ap area_less [OF n(3)] in \<open>auto simp: H1_def\<close>)
  moreover have "rights H1 a ys" by (rule rights_same [OF l(3) touches_same [OF t1] n(4)]) (use ap area_less [OF n(4)] in \<open>auto simp: H1_def\<close>)
  moreover have "blk (hp_mem H1) (last_of 0 xs) (a, n - s) (first_of ys 0)"
    using l(2) n s by (simp add: H1_def blk_def to_nat rdw_wrw_other)
  ultimately have l1: "links H1 (xs @ (a, n - s) # ys)" unfolding links_split by (simp add: rights_def)
  have ap': "{?b..<a + n} \<inter> area (set (xs @ (a, n - s) # ys)) = {}" using ap s by auto
  have l2: "links (snd r) (xs @ (a, n - s) # ys)" by (rule links_same [OF l1 sn f(3) ap']) (simp_all add: f)
  have p: "heapptr (snd r) = heapptr H" "heapend (snd r) = heapend H" using t1 f(3) by (simp_all add: touches_def)
  show "heap_core R (snd r) (xs @ (a, n - s) # ys) (add_mset (?b, s) T)"
  proof (rule coreI [OF c(3) _ sn l2])
    show "heapptr (snd r) \<le> heapend (snd r)" using c(4) by (simp add: p)
    show "cover x (mset (xs @ (a, n - s) # ys)) + cover x (add_mset (?b, s) T)
        + of_bool (unat (heapptr (snd r)) \<le> x \<and> x < unat (heapend (snd r))) = of_bool (x \<in> R)" for x
      using core_tiles [OF h, of x] s by (auto simp: p of_bool_def split: if_splits)
  qed
  show "fst r = of_nat (?b + 4)" "used (hp_mem (snd r)) ?b s (?b + 4)" by (rule f)+
  have "{a..<a + n - s} \<union> {?b..<a + n} \<subseteq> {a..<a + n}" using s by auto
  also have "\<dots> \<subseteq> R - area (set_mset T)" using core_area(1) [OF h] by simp
  finally show "rest_same R T (hp_mem H) (hp_mem (snd r))" by (rule touches_rest [OF touches_trans [OF t1 f(3)]])
qed

text \<open>A block from the top.\<close>

lemma top_block:
  assumes h: "heap_core R H fs T" and s: "6 \<le> s" "unat (heapptr H) + s \<le> unat (heapend H)"
  defines "a \<equiv> unat (heapptr H)"
  defines "r \<equiv> fill_size (heapptr H) (of_nat s) (H\<lparr>heapptr := heapptr H + of_nat s\<rparr>)"
  shows "heap_core R (snd r) fs (add_mset (a, s) T)" and "fst r = of_nat (a + 4)"
    and "used (hp_mem (snd r)) a s (a + 4)" and "rest_same R T (hp_mem H) (hp_mem (snd r))" and "0 < a" "a + 4 < 2 ^ 16"
proof -
  let ?H1 = "H\<lparr>heapptr := heapptr H + of_nat s\<rparr>"
  have c: "links H fs" "sane fs" "R \<subseteq> {0<..<2 ^ 16 - 1}" using h by (auto simp: heap_core_def)
  have e: "unat (heapend H) < 2 ^ 16" using WORD_less [of "heapend H"] by simp
  have ct: "{a..<unat (heapend H)} \<inter> (area (set fs) \<union> area (set_mset T)) = {}" "{a..<unat (heapend H)} \<subseteq> R"
    using core_top [OF h] by (auto simp: a_def)
  have "{a..<a + s} \<subseteq> {a..<unat (heapend H)}" using s by (auto simp: a_def)
  then have sub: "{a..<a + s} \<subseteq> R - area (set_mset T)" "{a..<a + s} \<inter> area (set fs) = {}" using ct by blast+
  have "a \<in> {a..<unat (heapend H)}" using s by (simp add: a_def)
  then have "a \<in> {0<..<2 ^ 16 - 1}" using ct(2) c(3) by blast
  then show a: "0 < a" by simp
  show "a + 4 < 2 ^ 16" using s e unfolding a_def by linarith
  have r: "r = fill_size (of_nat a) (of_nat s) ?H1" by (simp add: r_def a_def)
  have as: "a + s < 2 ^ 16" using s e unfolding a_def by linarith
  note f = fill_size_used [OF s(1) a as, of ?H1, folded r]
  have "links ?H1 fs" using c(1) by (simp add: links_def lefts_def rights_def)
  then have l: "links (snd r) fs" by (rule links_same [OF _ c(2) f(3) sub(2)]) (simp_all add: f)
  have "(of_nat (a + s) :: WORD) = heapptr H + of_nat s" by (simp add: a_def)
  then have p: "unat (heapptr (snd r)) = a + s" "heapend (snd r) = heapend H"
    using f(3) as unat_nat16 [OF as] by (simp_all add: touches_def)
  show "heap_core R (snd r) fs (add_mset (a, s) T)"
  proof (rule coreI [OF c(3) _ c(2) l])
    show "heapptr (snd r) \<le> heapend (snd r)" using s by (simp add: p word_le_nat_alt a_def)
    show "cover x (mset fs) + cover x (add_mset (a, s) T) + of_bool (unat (heapptr (snd r)) \<le> x \<and> x < unat (heapend (snd r))) = of_bool (x \<in> R)" for x
      using core_tiles [OF h, of x] s unfolding p by (auto simp: a_def of_bool_def split: if_splits)
  qed
  show "fst r = of_nat (a + 4)" "used (hp_mem (snd r)) a s (a + 4)" by (rule f)+
  have "rest_same R T (hp_mem ?H1) (hp_mem (snd r))" by (rule touches_rest [OF f(3) sub(1)])
  then show "rest_same R T (hp_mem H) (hp_mem (snd r))" by simp
qed

text \<open>The size of the raw block for \<open>k\<close> bytes.\<close>

definition raw :: "nat \<Rightarrow> nat" where
  "raw k = max 6 (k + 4)"

lemma raw_size_raw: "unat sz + 4 < 2 ^ 16 \<Longrightarrow> raw_size sz = of_nat (raw (unat sz))"
proof -
  assume s: "unat sz + 4 < 2 ^ 16"
  have "sz + HEAP_ADMIN_SPACE = of_nat (unat sz + 4)" by (simp add: HEAP_ADMIN_SPACE_def)
  moreover have "(of_nat (unat sz + 4) :: WORD) < HEAP_MIN_BLOCKSIZE + 1 \<longleftrightarrow> unat sz + 4 < 7"
    using of_nat_less [OF s, of 7] by (simp add: HEAP_MIN_BLOCKSIZE_def)
  moreover have "raw (unat sz) = (if unat sz + 4 < 7 then 6 else unat sz + 4)" by (auto simp: raw_def)
  ultimately show ?thesis by (simp add: raw_size_def HEAP_MIN_BLOCKSIZE_def)
qed

definition malloc_result :: "nat set \<Rightarrow> heap \<Rightarrow> block list \<Rightarrow> block multiset \<Rightarrow> nat \<Rightarrow> WORD \<Rightarrow> heap \<Rightarrow> bool" where
  "malloc_result R H fs T k p H' \<longleftrightarrow> (
     if p = 0 then H' = H \<and> (\<forall>b \<in> set fs. snd b < raw k) \<and> unat (heapend H) - unat (heapptr H) < raw k
     else \<exists>a n fs'. p = of_nat (a + 4) \<and> raw k \<le> n \<and> n < raw k + 6 \<and> heap_core R H' fs' (add_mset (a, n) T)
       \<and> used (hp_mem H') a n (a + 4) \<and> rest_same R T (hp_mem H) (hp_mem H'))"

lemma malloc_resultI:
  assumes "heap_core R H' fs' (add_mset (a, n) T)" and "used (hp_mem H') a n (a + 4)" and "rest_same R T (hp_mem H) (hp_mem H')"
    and "raw k \<le> n" "n < raw k + 6"
  shows "malloc_result R H fs T k (of_nat (a + 4)) H'"
proof -
  have "(of_nat (a + 4) :: WORD) \<noteq> 0"
    using core_bounds [OF assms(1), of a n] assms(2) by (subst of_nat_zero) (auto simp: used_def)
  then show ?thesis using assms unfolding malloc_result_def by (simp only: if_False) blast
qed

lemma malloc_core:
  assumes h: "heap_core R H fs T" and s: "sz \<noteq> 0" "unat sz + 4 < 2 ^ 16"
  shows "\<exists>p H'. malloc sz H = Some (p, H') \<and> malloc_result R H fs T (unat sz) p H'"
proof -
  let ?s = "raw (unat sz)"
  have s6: "6 \<le> ?s" "?s < 2 ^ 16" using s(2) by (auto simp: raw_def)
  have c: "seg (hp_mem H) 0 fs 0" "sane fs" "heapfirst H = of_nat (first_of fs 0)" using h by (auto simp: heap_core_def links_def lefts_def)
  have us: "unat (of_nat ?s :: WORD) = ?s" by (rule unat_nat16 [OF s6(2)])
  have m: "malloc sz H = Some (let f = (case find (\<lambda>b. ?s \<le> snd b) fs of None \<Rightarrow> 0 | Some b \<Rightarrow> of_nat (fst b)) in
      if f \<noteq> 0 then block_found f (of_nat ?s) H else take_from_top (of_nat ?s) H)"
    using s(1) by (simp add: malloc_def Let_def raw_size_raw [OF s(2)] c(3) find_block_finds [OF c(1,2)] us)
  show ?thesis
  proof (cases "find (\<lambda>b. ?s \<le> snd b) fs")
    case (Some b)
    then obtain a n xs ys where b: "b = (a, n)" and fs: "fs = xs @ (a, n) # ys" and n: "?s \<le> n"
      by (auto simp: find_Some_iff in_set_conv_decomp) (metis id_take_nth_drop snd_conv surj_pair)
    have a: "0 < a" "a + n < 2 ^ 16" "(of_nat a :: WORD) \<noteq> 0" using c(2) sane_nonzero [OF c(2), of "(a, n)"] fs by auto
    have bl: "rdw (hp_mem H) a = of_nat n" using c(1) by (simp add: fs blk_def)
    have mb: "malloc sz H = Some (block_found (of_nat a) (of_nat ?s) H)" using a(3) by (simp add: m Some b)
    have rest: "(of_nat n - of_nat ?s :: WORD) = of_nat (n - ?s)" using n by (simp add: of_nat_diff)
    have "(of_nat (n - ?s) :: WORD) < HEAP_MIN_BLOCKSIZE \<longleftrightarrow> n - ?s < 6"
      using of_nat_less [of "n - ?s" 6] a by (simp add: HEAP_MIN_BLOCKSIZE_def)
    then have bf: "block_found (of_nat a) (of_nat ?s) H = (if n - ?s < 6 then ret_user_ptr (of_nat a) (unlink_block (of_nat a) H)
        else fill_size (of_nat a + of_nat (n - ?s)) (of_nat ?s) (put_word (of_nat a) (of_nat (n - ?s)) H))"
      by (simp add: block_found_def to_nat bl rest Let_def)
    show ?thesis
    proof (cases "n - ?s < 6")
      case True
      note t = take_block [OF h [unfolded fs]]
      show ?thesis
        using mb bf True n malloc_resultI [OF t(1,3,4), of "unat sz" fs, folded t(2)] prod.collapse by fastforce
    next
      case False
      then have sn: "?s + 6 \<le> n" by linarith
      note t = slice_block [OF h [unfolded fs] s6(1) sn]
      show ?thesis
        using mb bf False malloc_resultI [OF t(1,3,4), of "unat sz" fs, folded t(2)] prod.collapse by fastforce
    qed
  next
    case None
    then have small: "\<forall>b \<in> set fs. snd b < ?s" by (metis find_None_iff not_le)
    have mt: "malloc sz H = Some (take_from_top (of_nat ?s) H)" by (simp add: m None)
    have le: "unat (heapptr H) \<le> unat (heapend H)" using h by (simp add: heap_core_def word_le_nat_alt)
    have ov: "unat (heapptr H) + unat (of_nat ?s :: WORD) \<ge> 2 ^ 16 \<or> heapptr H + of_nat ?s > heapend H
        \<longleftrightarrow> unat (heapend H) < unat (heapptr H) + ?s"
    proof (cases "unat (heapptr H) + ?s < 2 ^ 16")
      case True
      then have "unat (heapptr H + of_nat ?s) = unat (heapptr H) + ?s" using unat_add_lem [of "heapptr H" "of_nat ?s"] us by simp
      then show ?thesis using True unfolding us word_less_nat_alt by linarith
    next
      case False
      moreover have "unat (heapend H) < 2 ^ 16" using WORD_less [of "heapend H"] by simp
      ultimately show ?thesis unfolding us by linarith
    qed
    show ?thesis
    proof (cases "unat (heapend H) < unat (heapptr H) + ?s")
      case True
      then have "take_from_top (of_nat ?s) H = (0, H)" unfolding take_from_top_def ov by simp
      then show ?thesis using mt small True le by (auto simp: malloc_result_def)
    next
      case False
      then have f: "unat (heapptr H) + ?s \<le> unat (heapend H)" by simp
      have tt: "take_from_top (of_nat ?s) H = fill_size (heapptr H) (of_nat ?s) (H\<lparr>heapptr := heapptr H + of_nat ?s\<rparr>)"
        using False unfolding take_from_top_def ov by simp
      note t = top_block [OF h s6(1) f, folded tt]
      show ?thesis using mt malloc_resultI [OF t(1,3,4), of "unat sz" fs, folded t(2)] prod.collapse by fastforce
    qed
  qed
qed

end
