(* ===== verification/Lib_Heap_Props.thy ===== *)
theory Lib_Heap_Props
  imports Lib_Heap_Alloc
begin

text \<open>
  The allocator for its users: the live blocks with the pointers given out, and what malloc, free,
  realloc, posix_memalign and heapadd do to them. A live block is its raw address, its raw size and the
  user's pointer; the user's bytes are those from the pointer to the end of the raw block.
\<close>

type_synonym live = "nat \<times> nat \<times> nat"

definition raw_of :: "live \<Rightarrow> block" where
  "raw_of b = (fst b, fst (snd b))"

definition heap_ok :: "nat set \<Rightarrow> heap \<Rightarrow> block list \<Rightarrow> live list \<Rightarrow> bool" where
  "heap_ok R H fs us \<longleftrightarrow> heap_core R H fs (mset (map raw_of us)) \<and> (\<forall>(a, n, u) \<in> set us. used (hp_mem H) a n u)"

definition lives_same :: "live list \<Rightarrow> memory \<Rightarrow> memory \<Rightarrow> bool" where
  "lives_same us m m' \<longleftrightarrow> (\<forall>(a, n, u) \<in> set us. same_on {a..<a + n} m m')"

lemma lives_same_refl [simp]: "lives_same us m m"
  by (simp add: lives_same_def)

lemma lives_same_trans: "lives_same us m m' \<Longrightarrow> lives_same us m' m'' \<Longrightarrow> lives_same us m m''"
  by (fastforce simp: lives_same_def intro: same_on_trans)

lemma raw_of_simps [simp]: "raw_of (a, n, u) = (a, n)"
  by (simp add: raw_of_def)

text \<open>Live blocks lie in the memory of the allocator and do not overlap.\<close>

lemma heap_ok_area: "heap_ok R H fs us \<Longrightarrow> (a, n, u) \<in> set us \<Longrightarrow> {a..<a + n} \<subseteq> R"
  using core_area(2) [of R H fs "mset (map raw_of us)"] by (fastforce simp: heap_ok_def area_iff)

lemma heap_ok_apart:
  assumes "heap_ok R H fs ((a, n, u) # us)" and "(b, k, v) \<in> set us"
  shows "{a..<a + n} \<inter> {b..<b + k} = {}"
proof -
  have "tiles R ({#(a, n)#} + (mset (map raw_of us) + add_mset (unat (heapptr H), unat (heapend H) - unat (heapptr H)) (mset fs)))"
    using assms(1) by (simp add: heap_ok_def heap_core_def tiles_def ac_simps)
  from tiles_apart [OF this] have "{a..<a + n} \<inter> area (raw_of ` set us) = {}" by auto
  moreover have "{b..<b + k} \<subseteq> area (raw_of ` set us)" using assms(2) by (force simp: area_def)
  ultimately show ?thesis by blast
qed

lemma used_same: "used m a n u \<Longrightarrow> same_on {a..<a + n} m m' \<Longrightarrow> used m' a n u"
  using rdw_same [of "{a..<a + n}" m m' a] rdw_same [of "{a..<a + n}" m m' "u - 2"] by (auto simp: used_def)

lemma rest_lives:
  assumes "rest_same R (mset (map raw_of us)) m m'" and "heap_ok R H fs us"
  shows "lives_same us m m'"
proof -
  have "same_on {a..<a + n} m m'" if "(a, n, u) \<in> set us" for a n u
  proof -
    have "{a..<a + n} \<subseteq> R" by (rule heap_ok_area [OF assms(2) that])
    moreover have "R \<subseteq> {..<2 ^ 16}" using assms(2) by (auto simp: heap_ok_def heap_core_def)
    moreover have "{a..<a + n} \<subseteq> area (set_mset (mset (map raw_of us)))" using that by (force simp: area_def)
    ultimately have "{a..<a + n} \<subseteq> {..<2 ^ 16} - (R - area (set_mset (mset (map raw_of us))))" by blast
    then show ?thesis using assms(1) by (auto simp: rest_same_def intro: same_on_mono)
  qed
  then show ?thesis by (auto simp: lives_same_def)
qed

lemma lives_used: "(\<forall>(a, n, u) \<in> set us. used m a n u) \<Longrightarrow> lives_same us m m' \<Longrightarrow> (\<forall>(a, n, u) \<in> set us. used m' a n u)"
  by (fastforce simp: lives_same_def intro: used_same)

text \<open>A change inside the live blocks' own bytes or their fields leaves the free list alone.\<close>

lemma core_same:
  assumes "heap_core R H fs T" and "touches A H H'" and "A \<inter> area (set fs) = {}"
    and "heapfirst H' = heapfirst H" "heaplast H' = heaplast H"
  shows "heap_core R H' fs T"
  using assms links_same [of H fs A H'] by (simp add: heap_core_def touches_def)

lemma core_split:
  assumes "heap_core R H fs (add_mset (a, n) T)" and "k \<le> n"
  shows "heap_core R H fs (add_mset (a, k) (add_mset (a + k, n - k) T))"
proof (rule coreI)
  show "cover x (mset fs) + cover x (add_mset (a, k) (add_mset (a + k, n - k) T))
      + of_bool (unat (heapptr H) \<le> x \<and> x < unat (heapend H)) = of_bool (x \<in> R)" for x
  proof -
    have "cover x (add_mset (a, k) (add_mset (a + k, n - k) T)) = cover x (add_mset (a, n) T)" using assms(2) by auto
    then show ?thesis using core_tiles [OF assms(1), of x] by presburger
  qed
qed (use assms(1) in \<open>auto simp: heap_core_def\<close>)

section \<open>malloc and free\<close>

lemma malloc_lives:
  assumes h: "heap_ok R H fs us" and s: "sz \<noteq> 0" "unat sz + 4 < 2 ^ 16"
  shows "\<exists>p H'. malloc sz H = Some (p, H') \<and> lives_same us (hp_mem H) (hp_mem H')
    \<and> (if p = 0 then H' = H \<and> (\<forall>b \<in> set fs. snd b < raw (unat sz)) \<and> unat (heapend H) - unat (heapptr H) < raw (unat sz)
       else \<exists>a n fs'. p = of_nat (a + 4) \<and> unat sz + 4 \<le> n \<and> n < raw (unat sz) + 6 \<and> heap_ok R H' fs' ((a, n, a + 4) # us))"
proof -
  have c: "heap_core R H fs (mset (map raw_of us))" using h by (simp add: heap_ok_def)
  from malloc_core [OF c s] obtain p H' where m: "malloc sz H = Some (p, H')"
    and r: "malloc_result R H fs (mset (map raw_of us)) (unat sz) p H'" by blast
  show ?thesis
  proof (cases "p = 0")
    case True
    then show ?thesis using m r by (auto simp: malloc_result_def)
  next
    case False
    with r obtain a n fs' where p: "p = of_nat (a + 4)" "raw (unat sz) \<le> n" "n < raw (unat sz) + 6"
      and c': "heap_core R H' fs' (add_mset (a, n) (mset (map raw_of us)))" and u: "used (hp_mem H') a n (a + 4)"
      and sm: "rest_same R (mset (map raw_of us)) (hp_mem H) (hp_mem H')" by (auto simp: malloc_result_def)
    have l: "lives_same us (hp_mem H) (hp_mem H')" by (rule rest_lives [OF sm h])
    have "\<forall>(a, n, u) \<in> set us. used (hp_mem H') a n u" by (rule lives_used [OF _ l]) (use h in \<open>simp add: heap_ok_def\<close>)
    then have "heap_ok R H' fs' ((a, n, a + 4) # us)" using c' u by (simp add: heap_ok_def)
    moreover have "unat sz + 4 \<le> n" using p(2) by (simp add: raw_def)
    ultimately show ?thesis using m l False p by (intro exI [of _ p] exI [of _ H']) auto
  qed
qed

lemma free_lives:
  assumes h: "heap_ok R H fs ((a, n, u) # us)"
  shows "\<exists>H' fs'. free (of_nat u) H = Some H' \<and> heap_ok R H' fs' us \<and> lives_same us (hp_mem H) (hp_mem H')"
proof -
  let ?T = "mset (map raw_of us)"
  have c: "heap_core R H fs (add_mset (a, n) ?T)" and u: "used (hp_mem H) a n u" using h by (auto simp: heap_ok_def)
  from free_core [OF c u] obtain H' fs' where f: "free (of_nat u) H = Some H'" "heap_core R H' fs' ?T"
    and sm: "rest_same R ?T (hp_mem H) (hp_mem H')" by blast
  have "same_on {b..<b + k} (hp_mem H) (hp_mem H')" if "(b, k, v) \<in> set us" for b k v
  proof -
    have "{b..<b + k} \<subseteq> area (set_mset ?T)" using that by (force simp: area_def)
    moreover have "area (set_mset ?T) \<subseteq> R" by (rule core_area(2) [OF f(2)])
    moreover have "R \<subseteq> {..<2 ^ 16}" using c by (auto simp: heap_core_def)
    ultimately have "{b..<b + k} \<subseteq> {..<2 ^ 16} - (R - area (set_mset ?T))" by blast
    then show ?thesis using sm by (auto simp: rest_same_def intro: same_on_mono)
  qed
  then have l: "lives_same us (hp_mem H) (hp_mem H')" by (auto simp: lives_same_def)
  have "\<forall>(a, n, u) \<in> set us. used (hp_mem H') a n u" by (rule lives_used [OF _ l]) (use h in \<open>simp add: heap_ok_def\<close>)
  then show ?thesis using f l by (auto simp: heap_ok_def)
qed

section \<open>The user's own bytes\<close>

lemma heap_ok_perm: "heap_ok R H fs us \<Longrightarrow> mset us = mset vs \<Longrightarrow> heap_ok R H fs vs"
  using mset_eq_setD [of us vs] by (simp add: heap_ok_def)

lemma user_write:
  assumes h: "heap_ok R H fs ((a, n, u) # us)" and t: "touches A H H'" and A: "A \<subseteq> {u..<a + n}"
    and e: "heapfirst H' = heapfirst H" "heaplast H' = heaplast H"
  shows "heap_ok R H' fs ((a, n, u) # us)" and "lives_same us (hp_mem H) (hp_mem H')"
proof -
  have c: "heap_core R H fs (mset (map raw_of ((a, n, u) # us)))" and us: "used (hp_mem H) a n u"
    using h by (auto simp: heap_ok_def)
  have b: "a + n < 2 ^ 16" "a + 4 \<le> u" "6 \<le> n" using core_bounds [OF c, of a n] us by (auto simp: used_def)
  have Aa: "A \<subseteq> {a..<a + n}" using A b by auto
  have "{a..<a + n} \<inter> area (set fs) = {}" using core_apart [OF c] by auto
  then have c': "heap_core R H' fs (mset (map raw_of ((a, n, u) # us)))" by (intro core_same [OF c t _ e]) (use Aa in blast)
  have "x \<notin> A" if "x < u" for x using A that by auto
  then have "{a, a + 1, u - 2, u - 1} \<inter> A = {}" using b by auto
  then have "same_on {a, a + 1, u - 2, u - 1} (hp_mem H) (hp_mem H')"
    using b us by (intro touches_same [OF t]) (auto simp: used_def)
  then have ua: "used (hp_mem H') a n u" using us b rdw_same [of _ "hp_mem H" "hp_mem H'" a] rdw_same [of _ "hp_mem H" "hp_mem H'" "u - 2"]
    by (auto simp: used_def Suc_diff_Suc numeral_2_eq_2)
  have "same_on {x..<x + k} (hp_mem H) (hp_mem H')" if "(x, k, v) \<in> set us" for x k v
  proof -
    have "x + k \<le> 2 ^ 16"
      using core_bounds [OF c, of x k] that h by (cases "k = 0") (force simp: heap_ok_def used_def)+
    moreover have "{x..<x + k} \<inter> A = {}" using heap_ok_apart [OF h that] Aa by blast
    ultimately show ?thesis by (intro touches_same [OF t]) auto
  qed
  then show l: "lives_same us (hp_mem H) (hp_mem H')" by (auto simp: lives_same_def)
  have "\<forall>(a, n, u) \<in> set us. used (hp_mem H') a n u" by (rule lives_used [OF _ l]) (use h in \<open>simp add: heap_ok_def\<close>)
  with c' ua show "heap_ok R H' fs ((a, n, u) # us)" by (simp add: heap_ok_def)
qed

lemma in_copy: "d + c \<le> 2 ^ 16 \<Longrightarrow> c < 2 ^ 16 \<Longrightarrow> x < 2 ^ 16 \<Longrightarrow> (of_nat x - of_nat d :: WORD) < of_nat c \<longleftrightarrow> d \<le> x \<and> x < d + c"
proof -
  assume d: "d + c \<le> 2 ^ 16" "c < 2 ^ 16" "x < 2 ^ 16"
  show ?thesis
  proof (cases "d \<le> x")
    case True
    then have "(of_nat x - of_nat d :: WORD) = of_nat (x - d)" by (simp add: of_nat_diff)
    then show ?thesis using True d of_nat_less [of "x - d" c] by auto
  next
    case False
    show ?thesis
    proof (cases "c = 0")
      case False
      then have "d < 2 ^ 16" using d by linarith
      have "(of_nat (2 ^ 16) :: WORD) = 0" by (simp add: word_of_nat_eq_0_iff)
      then have "(of_nat x - of_nat d :: WORD) = of_nat (x + 2 ^ 16) - of_nat d" by (simp only: of_nat_add) simp
      also have "\<dots> = of_nat (x + 2 ^ 16 - d)" using \<open>d < 2 ^ 16\<close> by (simp add: of_nat_diff)
      finally have eq: "(of_nat x - of_nat d :: WORD) = of_nat (x + 2 ^ 16 - d)" .
      have lt: "x + 2 ^ 16 - d < 2 ^ 16" using \<open>\<not> d \<le> x\<close> \<open>d < 2 ^ 16\<close> by simp
      have "(of_nat x - of_nat d :: WORD) < of_nat c \<longleftrightarrow> x + 2 ^ 16 - d < c"
        unfolding eq by (rule of_nat_less [OF lt d(2)])
      then show ?thesis using \<open>\<not> d \<le> x\<close> d by simp
    qed (use False in simp)
  qed
qed

lemma copy_mem_same:
  "d + c \<le> 2 ^ 16 \<Longrightarrow> c < 2 ^ 16 \<Longrightarrow> touches {d..<d + c} H (H\<lparr>hp_mem := copy_mem (of_nat d) p (of_nat c) (hp_mem H)\<rparr>)"
  by (auto simp: touches_def same_on_def copy_mem_def in_copy)

lemma copy_mem_at:
  "d + c \<le> 2 ^ 16 \<Longrightarrow> c < 2 ^ 16 \<Longrightarrow> i < c \<Longrightarrow> copy_mem (of_nat d) (of_nat p) (of_nat c) m (of_nat (d + i)) = m (of_nat (p + i))"
  using in_copy [of d c "d + i"] by (simp add: copy_mem_def add.commute)

section \<open>realloc\<close>

lemma realloc_size:
  "unat sz + 4 < 2 ^ 16 \<Longrightarrow> (if sz + HEAP_ADMIN_SPACE < HEAP_MIN_BLOCKSIZE then HEAP_MIN_BLOCKSIZE else sz + HEAP_ADMIN_SPACE)
    = of_nat (raw (unat sz))"
proof -
  assume s: "unat sz + 4 < 2 ^ 16"
  have "sz + HEAP_ADMIN_SPACE = of_nat (unat sz + 4)" by (simp add: HEAP_ADMIN_SPACE_def)
  moreover have "(of_nat (unat sz + 4) :: WORD) < HEAP_MIN_BLOCKSIZE \<longleftrightarrow> unat sz + 4 < 6"
    using of_nat_less [OF s, of 6] by (simp add: HEAP_MIN_BLOCKSIZE_def)
  moreover have "raw (unat sz) = (if unat sz + 4 < 6 then 6 else unat sz + 4)" by (auto simp: raw_def)
  ultimately show ?thesis by (simp add: HEAP_MIN_BLOCKSIZE_def)
qed

text \<open>The block at the top of the heap changes its size in place.\<close>

lemma resize_top:
  assumes h: "heap_ok R H fs ((a, n, a + 4) # us)" and top: "a + n = unat (heapptr H)" and s: "6 \<le> s" "a + s \<le> unat (heapend H)"
  defines "H' \<equiv> put_word (of_nat a + 2) (of_nat a) (put_word (of_nat a) (of_nat s) (H\<lparr>heapptr := of_nat (a + s)\<rparr>))"
  shows "heap_ok R H' fs ((a, s, a + 4) # us)" and "lives_same us (hp_mem H) (hp_mem H')"
    and "same_on {a + 4..<a + n} (hp_mem H) (hp_mem H')"
proof -
  let ?T = "mset (map raw_of us)" and ?H1 = "H\<lparr>heapptr := of_nat (a + s)\<rparr>"
  have c: "heap_core R H fs (add_mset (a, n) ?T)" and u: "used (hp_mem H) a n (a + 4)" using h by (auto simp: heap_ok_def)
  have b: "0 < a" "a + n < 2 ^ 16" "6 \<le> n" using core_bounds [OF c, of a n] u by (auto simp: used_def)
  have "unat (heapend H) < 2 ^ 16" using WORD_less [of "heapend H"] by simp
  then have as: "a + s < 2 ^ 16" using s(2) by linarith
  have le: "unat (heapptr H) \<le> unat (heapend H)" using c by (simp add: heap_core_def word_le_nat_alt)
  have cc: "R \<subseteq> {0<..<2 ^ 16 - 1}" "sane fs" "links H fs" using c by (auto simp: heap_core_def)
  have p: "unat (heapptr ?H1) = a + s" using unat_nat16 [OF as] by simp
  have c1: "heap_core R ?H1 fs (add_mset (a, s) ?T)"
  proof (rule coreI [OF cc(1) _ cc(2)])
    show "heapptr ?H1 \<le> heapend ?H1" using p s(2) unfolding word_le_nat_alt by simp
    show "links ?H1 fs" using cc(3) by (simp add: links_def lefts_def rights_def)
    show "cover x (mset fs) + cover x (add_mset (a, s) ?T) + of_bool (unat (heapptr ?H1) \<le> x \<and> x < unat (heapend ?H1)) = of_bool (x \<in> R)" for x
      using core_tiles [OF c, of x] s top le unfolding p by (auto simp: of_bool_def split: if_splits)
  qed
  have t: "touches {a..<a + 4} ?H1 H'"
    unfolding H'_def by (rule touches_mono [OF touches_trans [OF touches_put(1) touches_put(2)]]) (use as s(1) in auto)
  have sub: "{a..<a + 4} \<subseteq> {a..<a + s}" using s(1) by auto
  have "{a..<a + s} \<inter> area (set fs) = {}" using core_apart [OF c1] by auto
  then have "{a..<a + 4} \<inter> area (set fs) = {}" using sub by blast
  then have c': "heap_core R H' fs (add_mset (a, s) ?T)" by (intro core_same [OF c1 t]) (simp_all add: H'_def)
  have t': "same_on ({..<2 ^ 16} - {a..<a + 4}) (hp_mem H) (hp_mem H')" using t by (simp add: touches_def)
  show "same_on {a + 4..<a + n} (hp_mem H) (hp_mem H')" by (rule same_on_mono [OF t']) (use b in auto)
  have "same_on {x..<x + k} (hp_mem H) (hp_mem H')" if "(x, k, v) \<in> set us" for x k v
  proof -
    have "{x..<x + k} \<subseteq> R" by (rule heap_ok_area [OF h, of x k v]) (use that in simp)
    moreover have "{a..<a + 4} \<subseteq> {a..<a + n}" using b by auto
    ultimately have "{x..<x + k} \<subseteq> {..<2 ^ 16} - {a..<a + 4}" using heap_ok_apart [OF h that] cc(1) by (auto simp: subset_iff disjoint_iff)
    then show ?thesis by (rule same_on_mono [OF t'])
  qed
  then show l: "lives_same us (hp_mem H) (hp_mem H')" by (auto simp: lives_same_def)
  have "\<forall>(a, n, u) \<in> set us. used (hp_mem H') a n u" by (rule lives_used [OF _ l]) (use h in \<open>simp add: heap_ok_def\<close>)
  moreover have "used (hp_mem H') a s (a + 4)" using s as by (simp add: H'_def used_def to_nat rdw_wrw_other)
  ultimately show "heap_ok R H' fs ((a, s, a + 4) # us)" using c' by (simp add: heap_ok_def)
qed

text \<open>The bytes move to a new block.\<close>

lemma move_block:
  assumes h: "heap_ok R H fs ((a', n', a' + 4) # (a, n, a + 4) # us)" and c: "a' + 4 + c \<le> a' + n'" "c + 4 \<le> n"
  defines "H1 \<equiv> H\<lparr>hp_mem := copy_mem (of_nat (a' + 4)) (of_nat (a + 4)) (of_nat c) (hp_mem H)\<rparr>"
  shows "\<exists>H' fs'. free (of_nat (a + 4)) H1 = Some H' \<and> heap_ok R H' fs' ((a', n', a' + 4) # us) \<and> lives_same us (hp_mem H) (hp_mem H')
    \<and> (\<forall>i < c. hp_mem H' (of_nat (a' + 4 + i)) = hp_mem H (of_nat (a + 4 + i)))"
proof -
  have b: "a' + n' < 2 ^ 16" using core_bounds [of R H fs "mset (map raw_of ((a', n', a' + 4) # (a, n, a + 4) # us))" a' n'] h c
    by (force simp: heap_ok_def used_def)
  have c16: "a' + 4 + c \<le> 2 ^ 16" "c < 2 ^ 16" using b c(1) by linarith+
  have t: "touches {a' + 4..<a' + 4 + c} H H1" unfolding H1_def by (rule copy_mem_same [OF c16])
  have "heap_ok R H1 fs ((a', n', a' + 4) # (a, n, a + 4) # us)" and l1: "lives_same ((a, n, a + 4) # us) (hp_mem H) (hp_mem H1)"
    using user_write [OF h t] c(1) by (auto simp: H1_def)
  then have "heap_ok R H1 fs ((a, n, a + 4) # (a', n', a' + 4) # us)" by (rule_tac heap_ok_perm) auto
  from free_lives [OF this] obtain H' fs' where f: "free (of_nat (a + 4)) H1 = Some H'" "heap_ok R H' fs' ((a', n', a' + 4) # us)"
    and l2: "lives_same ((a', n', a' + 4) # us) (hp_mem H1) (hp_mem H')" by blast
  have "hp_mem H' (of_nat (a' + 4 + i)) = hp_mem H (of_nat (a + 4 + i))" if "i < c" for i
  proof -
    have "a' + 4 + i \<in> {a'..<a' + n'}" using that c(1) by simp
    then have "hp_mem H' (of_nat (a' + 4 + i)) = hp_mem H1 (of_nat (a' + 4 + i))"
      using l2 by (simp only: lives_same_def same_on_def list.set ball_simps prod.case)
    also have "\<dots> = hp_mem H (of_nat (a + 4 + i))" unfolding H1_def using copy_mem_at [OF c16 that, where p = "a + 4"] by simp
    finally show ?thesis .
  qed
  moreover have "lives_same us (hp_mem H) (hp_mem H')"
    by (rule lives_same_trans [of _ _ "hp_mem H1"]) (use l1 l2 in \<open>auto simp: lives_same_def\<close>)
  ultimately show ?thesis using f by blast
qed

lemma realloc_lives:
  assumes h: "heap_ok R H fs ((a, n, a + 4) # us)" and s: "sz \<noteq> 0" "a + unat sz + 8 < 2 ^ 16"
  shows "\<exists>p H'. realloc (of_nat (a + 4)) sz H = Some (p, H') \<and> lives_same us (hp_mem H) (hp_mem H')
    \<and> (if p = 0 then H' = H
       else \<exists>a' n' fs'. p = of_nat (a' + 4) \<and> unat sz + 4 \<le> n' \<and> heap_ok R H' fs' ((a', n', a' + 4) # us)
         \<and> (\<forall>i < min (unat sz) (n - 4). hp_mem H' (of_nat (a' + 4 + i)) = hp_mem H (of_nat (a + 4 + i))))"
proof -
  let ?s = "raw (unat sz)"
  have c: "heap_core R H fs (mset (map raw_of ((a, n, a + 4) # us)))" and u: "used (hp_mem H) a n (a + 4)"
    using h by (auto simp: heap_ok_def)
  have b: "0 < a" "a + n < 2 ^ 16" "6 \<le> n" using core_bounds [OF c, of a n] u by (auto simp: used_def)
  have sz1: "1 \<le> unat sz" using s(1) by (simp add: unat_gt_0 Suc_le_eq)
  have sr: "6 \<le> ?s" "unat sz + 4 \<le> ?s" "?s \<le> unat sz + 5" using sz1 by (auto simp: raw_def)
  then have s16: "?s + 4 < 2 ^ 16" "a + ?s < 2 ^ 16" "unat sz + 4 < 2 ^ 16" using s(2) b(1) by linarith+
  have us: "unat (of_nat ?s :: WORD) = ?s" using s16 by (intro unat_nat16) simp
  have bl: "ldw (hp_mem H) (of_nat (a + 4) - HEAP_ADMIN_SPACE + blk_start) = of_nat a" "ldw (hp_mem H) (of_nat a) = of_nat n"
    using u by (simp_all add: used_def HEAP_ADMIN_SPACE_def to_nat)
  have nz: "(of_nat (a + 4) :: WORD) \<noteq> 0" using b by (subst of_nat_zero) auto
  have top: "(of_nat a + of_nat n :: WORD) = heapptr H \<longleftrightarrow> a + n = unat (heapptr H)"
    using b of_nat_inj [of "a + n" "unat (heapptr H)"] WORD_less [of "heapptr H"] by simp
  have np: "heapptr H + (of_nat ?s - of_nat n) = of_nat (a + ?s)" if "a + n = unat (heapptr H)"
  proof -
    have "heapptr H = of_nat (a + n)" using that by simp
    then show ?thesis by simp
  qed
  have rl: "realloc (of_nat (a + 4)) sz H = (if a + n = unat (heapptr H) \<and> (of_nat (a + ?s) :: WORD) \<le> heapend H
      then Some (of_nat (a + 4), put_word (of_nat a + 2) (of_nat a) (put_word (of_nat a) (of_nat ?s) (H\<lparr>heapptr := of_nat (a + ?s)\<rparr>)))
      else do {
        (p, H) \<leftarrow> malloc (of_nat ?s) H;
        if p \<noteq> 0 then do {
          H \<leftarrow> free (of_nat (a + 4)) (H\<lparr>hp_mem := copy_mem p (of_nat (a + 4)) (of_nat (min ?s (n - 4))) (hp_mem H)\<rparr>);
          Some (p, H) }
        else Some (p, H) })"
  proof -
    have m: "(if (of_nat ?s :: WORD) > of_nat n - HEAP_ADMIN_SPACE then of_nat n - HEAP_ADMIN_SPACE else of_nat ?s) = of_nat (min ?s (n - 4))"
    proof -
      have "(of_nat n - HEAP_ADMIN_SPACE :: WORD) = of_nat (n - 4)" using b(3) by (simp add: HEAP_ADMIN_SPACE_def of_nat_diff)
      then show ?thesis using of_nat_less [of "n - 4" ?s] b s16 by (simp add: min_def)
    qed
    show ?thesis
    proof (cases "a + n = unat (heapptr H)")
      case True
      then show ?thesis unfolding realloc_def Let_def realloc_size [OF s16(3)] bl m top np [OF True] using nz s(1) by simp
    next
      case False
      then show ?thesis unfolding realloc_def Let_def realloc_size [OF s16(3)] bl m top using nz s(1) by simp
    qed
  qed
  show ?thesis
  proof (cases "a + n = unat (heapptr H) \<and> (of_nat (a + ?s) :: WORD) \<le> heapend H")
    case True
    then have "a + ?s \<le> unat (heapend H)" using unat_nat16 [OF s16(2)] by (simp add: word_le_nat_alt)
    note r = resize_top [OF h _ sr(1) this]
    from True rl r obtain H' where H': "realloc (of_nat (a + 4)) sz H = Some (of_nat (a + 4), H')"
      "heap_ok R H' fs ((a, ?s, a + 4) # us)" "lives_same us (hp_mem H) (hp_mem H')" "same_on {a + 4..<a + n} (hp_mem H) (hp_mem H')"
      by simp
    have "hp_mem H' (of_nat (a + 4 + i)) = hp_mem H (of_nat (a + 4 + i))" if "i < min (unat sz) (n - 4)" for i
      using H'(4) that by (auto simp: same_on_def dest: bspec [of _ _ "a + 4 + i"])
    then have "\<exists>a' n' fs'. of_nat (a + 4) = (of_nat (a' + 4) :: WORD) \<and> unat sz + 4 \<le> n' \<and> heap_ok R H' fs' ((a', n', a' + 4) # us)
        \<and> (\<forall>i < min (unat sz) (n - 4). hp_mem H' (of_nat (a' + 4 + i)) = hp_mem H (of_nat (a + 4 + i)))"
      using H'(2) sr(2) by blast
    then show ?thesis using H'(1,3) nz by (intro exI [of _ "of_nat (a + 4)"] exI [of _ H']) (simp only: if_False simp_thms)
  next
    case False
    have s0: "(of_nat ?s :: WORD) \<noteq> 0" using sr s16 by (subst of_nat_zero) auto
    from malloc_lives [OF h s0, unfolded us, OF s16(1)] obtain p H1 where m: "malloc (of_nat ?s) H = Some (p, H1)"
      and l: "lives_same ((a, n, a + 4) # us) (hp_mem H) (hp_mem H1)"
      and p: "if p = 0 then H1 = H else \<exists>a' n' fs'. p = of_nat (a' + 4) \<and> ?s + 4 \<le> n' \<and> heap_ok R H1 fs' ((a', n', a' + 4) # (a, n, a + 4) # us)"
      by (smt (verit, ccfv_threshold))
    show ?thesis
    proof (cases "p = 0")
      case True
      then show ?thesis unfolding rl if_not_P [OF False] using p by (simp add: m)
    next
      case p0: False
      with p obtain a' n' fs1 where p: "p = of_nat (a' + 4)" "?s + 4 \<le> n'" and h1: "heap_ok R H1 fs1 ((a', n', a' + 4) # (a, n, a + 4) # us)"
        by auto
      have cc: "a' + 4 + min ?s (n - 4) \<le> a' + n'" "min ?s (n - 4) + 4 \<le> n" using p(2) b by auto
      from move_block [OF h1 cc] obtain H' fs' where
        f: "free (of_nat (a + 4)) (H1\<lparr>hp_mem := copy_mem p (of_nat (a + 4)) (of_nat (min ?s (n - 4))) (hp_mem H1)\<rparr>) = Some H'"
        and h': "heap_ok R H' fs' ((a', n', a' + 4) # us)" and l': "lives_same us (hp_mem H1) (hp_mem H')"
        and bt: "\<forall>i < min ?s (n - 4). hp_mem H' (of_nat (a' + 4 + i)) = hp_mem H1 (of_nat (a + 4 + i))" unfolding p by blast
      have "hp_mem H1 (of_nat (a + 4 + i)) = hp_mem H (of_nat (a + 4 + i))" if "i < n - 4" for i
      proof -
        have "a + 4 + i \<in> {a..<a + n}" using that by simp
        then show ?thesis using l by (simp only: lives_same_def same_on_def list.set ball_simps prod.case)
      qed
      then have "\<forall>i < min (unat sz) (n - 4). hp_mem H' (of_nat (a' + 4 + i)) = hp_mem H (of_nat (a + 4 + i))" using bt sr(2) by simp
      moreover have "lives_same us (hp_mem H) (hp_mem H')"
        by (rule lives_same_trans [OF _ l']) (use l in \<open>auto simp: lives_same_def\<close>)
      moreover have "realloc (of_nat (a + 4)) sz H = Some (p, H')"
        unfolding rl if_not_P [OF False] by (simp add: m p0 f [simplified])
      moreover have "unat sz + 4 \<le> n'" using p(2) sr(2) by linarith
      ultimately show ?thesis using p0 p(1) h' by (intro exI [of _ p] exI [of _ H'] conjI) auto
    qed
  qed
qed

section \<open>posix_memalign\<close>

text \<open>A block that is cut out of an allocated one goes back.\<close>

lemma give_back:
  assumes h: "heap_core R H fs (add_mset (a, n) T)" and n: "6 \<le> n"
  shows "\<exists>H' fs'. free (of_nat a + HEAP_ADMIN_SPACE) (write_usedblock (of_nat a) (of_nat n) H) = Some H'
    \<and> heap_core R H' fs' T \<and> rest_same R T (hp_mem H) (hp_mem H')"
proof -
  let ?H1 = "write_usedblock (of_nat a) (of_nat n) H"
  have b: "0 < a" "a + n < 2 ^ 16" using core_bounds [OF h, of a n] n by auto
  have t: "touches {a..<a + n} H ?H1"
    unfolding write_usedblock_def using touches_trans [OF touches_fields(1) touches_fields(2), of n a n a] n b by simp
  have "{a..<a + n} \<inter> area (set fs) = {}" using core_apart [OF h] by auto
  then have h1: "heap_core R ?H1 fs (add_mset (a, n) T)" by (rule core_same [OF h t]) (simp_all add: write_usedblock_def)
  have "used (hp_mem ?H1) a n (a + 4)" using n b by (simp add: used_def write_usedblock_def to_nat rdw_wrw_other)
  from free_core [OF h1 this] obtain H' fs' where f: "free (of_nat (a + 4)) ?H1 = Some H'" "heap_core R H' fs' T"
    and sm: "rest_same R T (hp_mem ?H1) (hp_mem H')" by blast
  have "{a..<a + n} \<subseteq> R - area (set_mset T)"
  proof -
    have "tiles R ({#(a, n)#} + (T + add_mset (unat (heapptr H), unat (heapend H) - unat (heapptr H)) (mset fs)))"
      using h by (simp add: heap_core_def tiles_def ac_simps)
    from tiles_apart [OF this] tiles_area [OF this] show ?thesis by auto
  qed
  then have "rest_same R T (hp_mem H) (hp_mem ?H1)" by (rule touches_rest [OF t])
  then have "rest_same R T (hp_mem H) (hp_mem H')" using sm unfolding rest_same_def by (rule same_on_trans)
  then show ?thesis using f by (auto simp: HEAP_ADMIN_SPACE_def)
qed

lemma free_upper_core:
  assumes h: "heap_core R H fs (add_mset (a, n) T)" and p: "a \<le> p" "p \<le> a + n" and n: "6 \<le> n"
  shows "\<exists>n' H' fs'. free_upper (of_nat a) (of_nat p) (of_nat n) H = Some (of_nat n', H') \<and> 6 \<le> n' \<and> p \<le> a + n'
    \<and> heap_core R H' fs' (add_mset (a, n') T) \<and> rest_same R (add_mset (a, n') T) (hp_mem H) (hp_mem H')"
proof -
  have b: "0 < a" "a + n < 2 ^ 16" using core_bounds [OF h, of a n] n by auto
  have w: "(of_nat p - of_nat a :: WORD) = of_nat (p - a)" "(of_nat n - of_nat (p - a) :: WORD) = of_nat (n - (p - a))"
    using p by (simp_all add: of_nat_diff)
  have c: "(of_nat k :: WORD) \<ge> HEAP_MIN_BLOCKSIZE \<longleftrightarrow> 6 \<le> k" if "k < 2 ^ 16" for k
    using of_nat_less [OF that, of 6] by (simp add: HEAP_MIN_BLOCKSIZE_def not_less [symmetric])
  have l: "p - a < 2 ^ 16" "n - (p - a) < 2 ^ 16" using b p by auto
  have u: "free_upper (of_nat a) (of_nat p) (of_nat n) H = (if 6 \<le> n - (p - a) \<and> 6 \<le> p - a then do {
      H \<leftarrow> free (of_nat p + HEAP_ADMIN_SPACE) (write_usedblock (of_nat p) (of_nat (n - (p - a))) H);
      Some (of_nat (p - a), H) } else Some (of_nat n, H))"
    unfolding free_upper_def Let_def w c [OF l(1)] c [OF l(2)] ..
  show ?thesis
  proof (cases "6 \<le> n - (p - a) \<and> 6 \<le> p - a")
    case True
    have "heap_core R H fs (add_mset (a, p - a) (add_mset (a + (p - a), n - (p - a)) T))" by (rule core_split [OF h]) (use p in simp)
    then have "heap_core R H fs (add_mset (p, n - (p - a)) (add_mset (a, p - a) T))" using p(1) by (simp add: add_mset_commute)
    from give_back [OF this] True obtain H' fs' where
      "free (of_nat p + HEAP_ADMIN_SPACE) (write_usedblock (of_nat p) (of_nat (n - (p - a))) H) = Some H'"
      "heap_core R H' fs' (add_mset (a, p - a) T)" "rest_same R (add_mset (a, p - a) T) (hp_mem H) (hp_mem H')" by blast
    then show ?thesis using u True p by (intro exI [of _ "p - a"] exI [of _ H'] exI [of _ fs']) simp
  next
    case False
    then show ?thesis using u h p n by (intro exI [of _ n] exI [of _ H] exI [of _ fs]) (auto simp: rest_same_def)
  qed
qed

lemma free_lower_core:
  assumes h: "heap_core R H fs (add_mset (a, n) T)" and u: "a + 4 \<le> u" "u \<le> a + n" and n: "6 \<le> n"
  shows "\<exists>a' n' H' fs'. free_lower (of_nat a) (of_nat u) (of_nat n) H = Some (of_nat a', of_nat n', H') \<and> 6 \<le> n' \<and> a' + 4 \<le> u
    \<and> a' + n' = a + n \<and> heap_core R H' fs' (add_mset (a', n') T) \<and> rest_same R (add_mset (a', n') T) (hp_mem H) (hp_mem H')"
proof -
  let ?l = "u - a - 4"
  have b: "0 < a" "a + n < 2 ^ 16" using core_bounds [OF h, of a n] n by auto
  have w: "(of_nat u - of_nat a - HEAP_ADMIN_SPACE :: WORD) = of_nat ?l" "(of_nat n - of_nat ?l :: WORD) = of_nat (n - ?l)"
    "(of_nat u - HEAP_ADMIN_SPACE :: WORD) = of_nat (u - 4)"
    using u by (simp_all add: of_nat_diff HEAP_ADMIN_SPACE_def)
  have c: "(of_nat k :: WORD) \<ge> HEAP_MIN_BLOCKSIZE \<longleftrightarrow> 6 \<le> k" if "k < 2 ^ 16" for k
    using of_nat_less [OF that, of 6] by (simp add: HEAP_MIN_BLOCKSIZE_def not_less [symmetric])
  have l: "?l < 2 ^ 16" "n - ?l < 2 ^ 16" using b u by auto
  have fl: "free_lower (of_nat a) (of_nat u) (of_nat n) H = (if 6 \<le> ?l \<and> 6 \<le> n - ?l then do {
      H \<leftarrow> free (of_nat a + HEAP_ADMIN_SPACE) (write_usedblock (of_nat a) (of_nat ?l) H);
      Some (of_nat (u - 4), of_nat (n - ?l), H) } else Some (of_nat a, of_nat n, H))"
    unfolding free_lower_def Let_def w c [OF l(1)] c [OF l(2)] ..
  show ?thesis
  proof (cases "6 \<le> ?l \<and> 6 \<le> n - ?l")
    case True
    have "heap_core R H fs (add_mset (a, ?l) (add_mset (a + ?l, n - ?l) T))" by (rule core_split [OF h]) (use u in simp)
    then have "heap_core R H fs (add_mset (a, ?l) (add_mset (u - 4, n - ?l) T))" using u(1) by simp
    from give_back [OF this] True obtain H' fs' where
      "free (of_nat a + HEAP_ADMIN_SPACE) (write_usedblock (of_nat a) (of_nat ?l) H) = Some H'"
      "heap_core R H' fs' (add_mset (u - 4, n - ?l) T)" "rest_same R (add_mset (u - 4, n - ?l) T) (hp_mem H) (hp_mem H')" by blast
    then show ?thesis using fl True u by (intro exI [of _ "u - 4"] exI [of _ "n - ?l"] exI [of _ H'] exI [of _ fs']) simp
  next
    case False
    then show ?thesis using fl h u n by (intro exI [of _ a] exI [of _ n] exI [of _ H] exI [of _ fs]) (auto simp: rest_same_def)
  qed
qed

lemma rest_same_mono: "rest_same R (add_mset b T) m m' \<Longrightarrow> rest_same R T m m'"
  unfolding rest_same_def by (erule same_on_mono) (auto simp: area_iff)

lemma rest_same_trans: "rest_same R T m m' \<Longrightarrow> rest_same R T m' m'' \<Longrightarrow> rest_same R T m m''"
  unfolding rest_same_def by (rule same_on_trans)

lemma align_up: "y < 2 ^ 16 \<Longrightarrow> (of_nat y :: WORD) AND NOT (mask k) = of_nat (y div 2 ^ k * 2 ^ k)"
proof -
  have "(of_nat y :: WORD) AND NOT (mask k) = of_nat (push_bit k (drop_bit k y))"
    by (rule bit_word_eqI) (auto simp: bit_simps)
  then show ?thesis by (simp add: push_bit_eq_mult drop_bit_eq_div)
qed

lemma align_bounds: "(x :: nat) \<le> (x + 2 ^ k - 1) div 2 ^ k * 2 ^ k" "(x + 2 ^ k - 1) div 2 ^ k * 2 ^ k \<le> x + 2 ^ k - 1"
proof -
  have "(x + 2 ^ k - 1) mod 2 ^ k < (2 :: nat) ^ k" by simp
  moreover have "x + 2 ^ k - 1 = (x + 2 ^ k - 1) div 2 ^ k * 2 ^ k + (x + 2 ^ k - 1) mod (2 :: nat) ^ k"
    by (rule div_mult_mod_eq [symmetric])
  ultimately show "(x :: nat) \<le> (x + 2 ^ k - 1) div 2 ^ k * 2 ^ k" "(x + 2 ^ k - 1) div 2 ^ k * 2 ^ k \<le> x + 2 ^ k - 1"
    by linarith+
qed

text \<open>A pointer inside the block, with the start pointer below it, makes it a live block.\<close>

lemma set_user_ptr:
  assumes h: "heap_core R H fs (add_mset (a, n) T)" and n: "6 \<le> n" and u: "a + 4 \<le> u" "u \<le> a + n"
  defines "H' \<equiv> put_word (of_nat (u - 2)) (of_nat a) (put_word (of_nat a) (of_nat n) H)"
  shows "heap_core R H' fs (add_mset (a, n) T)" and "used (hp_mem H') a n u" and "rest_same R T (hp_mem H) (hp_mem H')"
proof -
  have b: "0 < a" "a + n < 2 ^ 16" using core_bounds [OF h, of a n] n by auto
  have t: "touches {a..<a + n} H H'"
    unfolding H'_def by (rule touches_mono [OF touches_trans [OF touches_put(1) touches_put(1)]]) (use n u b in auto)
  have "{a..<a + n} \<inter> area (set fs) = {}" using core_apart [OF h] by auto
  then show "heap_core R H' fs (add_mset (a, n) T)" by (rule core_same [OF h t]) (simp_all add: H'_def)
  have "a + 1 < u - 2" "u - 2 + 1 < 2 ^ 16" "a + 1 < 2 ^ 16" using u b n by auto
  then show "used (hp_mem H') a n u"
    using n u rdw_wrw_other [of a "u - 2"] by (simp add: used_def H'_def to_nat(1,4) del: of_nat_diff)
  have "tiles R ({#(a, n)#} + (T + add_mset (unat (heapptr H), unat (heapend H) - unat (heapptr H)) (mset fs)))"
    using h by (simp add: heap_core_def tiles_def ac_simps)
  from tiles_apart [OF this] tiles_area [OF this] have "{a..<a + n} \<subseteq> R - area (set_mset T)" by auto
  then show "rest_same R T (hp_mem H) (hp_mem H')" by (rule touches_rest [OF t])
qed

lemma memalign_lives:
  assumes h: "heap_ok R H fs us" and s: "sz \<noteq> 0" "unat sz + 2 ^ k + 3 < 2 ^ 16"
  shows "\<exists>r p H'. posix_memalign (2 ^ k) sz H = Some (r, p, H') \<and> lives_same us (hp_mem H) (hp_mem H')
    \<and> (if r = EOK then \<exists>a n u fs'. p = of_nat u \<and> 2 ^ k dvd u \<and> u + unat sz \<le> a + n \<and> heap_ok R H' fs' ((a, n, u) # us)
       else r = ENOMEM \<and> p = 0 \<and> H' = H)"
proof -
  let ?T = "mset (map raw_of us)" and ?A = "2 ^ k :: nat"
  have c: "heap_core R H fs ?T" using h by (simp add: heap_ok_def)
  have A: "1 \<le> ?A" "?A < 2 ^ 16" using s(2) by simp_all
  have k: "k < 16" by (rule power_less_imp_less_exp [OF _ A(2)]) simp
  have two: "(2 ^ k :: WORD) \<noteq> 0" "(2 ^ k :: WORD) - 1 = mask k" "(2 ^ k :: WORD) AND mask k = 0"
    using k by (simp_all add: mask_eq_exp_minus_1 [symmetric]) (rule bit_word_eqI, auto simp: bit_simps)
  have mk: "(mask k :: WORD) = of_nat (?A - 1)" by (simp add: mask_eq_exp_minus_1 of_nat_diff)
  have us: "unat (sz + mask k) = unat sz + ?A - 1"
    using s(2) unat_nat16 [of "unat sz + (?A - 1)"] A by (simp only: of_nat_add mk) simp
  have "unat sz \<noteq> 0" using s(1) by (simp add: unat_eq_zero)
  then have "unat (sz + mask k) \<noteq> 0" using us A by linarith
  then have s0: "sz + mask k \<noteq> 0" by auto
  have s4: "unat (sz + mask k) + 4 < 2 ^ 16" using us s(2) A by linarith
  from malloc_core [OF c s0 s4] obtain p H1 where m: "malloc (sz + mask k) H = Some (p, H1)"
    and mr: "malloc_result R H fs ?T (unat (sz + mask k)) p H1" by blast
  have pm: "posix_memalign (2 ^ k) sz H = (if p = 0 then Some (ENOMEM, 0, H1) else do {
      let u = (p + mask k) AND NOT (mask k);
      let b = ldw (hp_mem H1) (p - HEAP_ADMIN_SPACE + blk_start);
      (rawsize, H) \<leftarrow> free_upper b (u + sz) (ldw (hp_mem H1) b) H1;
      (b, rawsize, H) \<leftarrow> free_lower b u rawsize H;
      Some (EOK, u, put_word (u - HEAP_ADMIN_SPACE + blk_start) b (put_word b rawsize H)) })"
    using s(1) two by (simp add: posix_memalign_def Let_def m)
  show ?thesis
  proof (cases "p = 0")
    case True
    then show ?thesis using pm mr by (simp add: malloc_result_def EOK_def ENOMEM_def)
  next
    case False
    with mr obtain a n fs1 where p: "p = of_nat (a + 4)" and n: "raw (unat (sz + mask k)) \<le> n"
      and c1: "heap_core R H1 fs1 (add_mset (a, n) ?T)" and u1: "used (hp_mem H1) a n (a + 4)"
      and r1: "rest_same R ?T (hp_mem H) (hp_mem H1)" by (auto simp: malloc_result_def)
    have n6: "6 \<le> n" "unat sz + ?A - 1 + 4 \<le> n" using n us by (auto simp: raw_def)
    have b: "0 < a" "a + n < 2 ^ 16" using core_bounds [OF c1, of a n] n6 by auto
    define u where "u = (a + 4 + ?A - 1) div ?A * ?A"
    have u: "a + 4 \<le> u" "u \<le> a + 4 + ?A - 1" "?A dvd u" unfolding u_def using align_bounds [of "a + 4" k] by auto
    have us': "u + unat sz \<le> a + n" "u < 2 ^ 16" "a \<le> u + unat sz" using u n6 A b by linarith+
    have al: "(p + mask k) AND NOT (mask k) = of_nat u"
    proof -
      have e: "a + 4 + ?A - 1 = (a + 4) + (?A - 1)" using A by linarith
      have "p + mask k = of_nat (a + 4 + ?A - 1)" unfolding e p mk of_nat_add ..
      moreover have "a + 4 + ?A - 1 < 2 ^ 16" using n6 b A by linarith
      ultimately show ?thesis using align_up [of "a + 4 + ?A - 1" k] by (simp add: u_def)
    qed
    have fld: "ldw (hp_mem H1) (p - HEAP_ADMIN_SPACE + blk_start) = of_nat a" "ldw (hp_mem H1) (of_nat a) = of_nat n"
      "of_nat u + sz = (of_nat (u + unat sz) :: WORD)" "(of_nat u - HEAP_ADMIN_SPACE + blk_start :: WORD) = of_nat (u - 2)"
      using u1 u(1) by (simp_all add: p used_def HEAP_ADMIN_SPACE_def to_nat of_nat_diff)
    from free_upper_core [OF c1 us'(3,1) n6(1)] obtain n' H2 fs2 where
      f2: "free_upper (of_nat a) (of_nat (u + unat sz)) (of_nat n) H1 = Some (of_nat n', H2)" "6 \<le> n'" "u + unat sz \<le> a + n'"
      and c2: "heap_core R H2 fs2 (add_mset (a, n') ?T)" and r2: "rest_same R (add_mset (a, n') ?T) (hp_mem H1) (hp_mem H2)" by blast
    have "u \<le> a + n'" using f2(3) by simp
    from free_lower_core [OF c2 u(1) this f2(2)] obtain a' n'' H3 fs3 where
      f3: "free_lower (of_nat a) (of_nat u) (of_nat n') H2 = Some (of_nat a', of_nat n'', H3)" "6 \<le> n''" "a' + 4 \<le> u" "a' + n'' = a + n'"
      and c3: "heap_core R H3 fs3 (add_mset (a', n'') ?T)" and r3: "rest_same R (add_mset (a', n'') ?T) (hp_mem H2) (hp_mem H3)" by blast
    define H' where "H' = put_word (of_nat (u - 2)) (of_nat a') (put_word (of_nat a') (of_nat n'') H3)"
    have "u \<le> a' + n''" using f2(3) f3(4) by simp
    note su = set_user_ptr [OF c3 f3(2,3) this, folded H'_def]
    have "posix_memalign (2 ^ k) sz H = Some (EOK, of_nat u, H')"
      unfolding pm if_not_P [OF False] Let_def al fld f2(1) H'_def by (simp only: f2(1) f3(1) bind.bind_lunit prod.case fld)
    moreover have rs: "rest_same R ?T (hp_mem H) (hp_mem H')"
      by (rule rest_same_trans [OF r1 rest_same_trans [OF rest_same_mono [OF r2] rest_same_trans [OF rest_same_mono [OF r3] su(3)]]])
    have l: "lives_same us (hp_mem H) (hp_mem H')" by (rule rest_lives [OF rs h])
    have "\<forall>(a, n, u) \<in> set us. used (hp_mem H') a n u" by (rule lives_used [OF _ l]) (use h in \<open>simp add: heap_ok_def\<close>)
    then have "heap_ok R H' fs3 ((a', n'', u) # us)" using su(1,2) by (simp add: heap_ok_def)
    moreover have "u + unat sz \<le> a' + n''" using f2(3) f3(4) by simp
    ultimately show ?thesis using l u(3) by (intro exI [of _ EOK] exI [of _ "of_nat u"] exI [of _ H']) auto
  qed
qed

end
