(* ===== verification/Lib_Heap_Claims.thy ===== *)
theory Lib_Heap_Claims
  imports Lib_Heap_Props
begin

text \<open>
  The properties of the allocator, a program that uses it as an inductive relation, and two of its
  limits: calloc without memory, and sizes that wrap around.
\<close>

section \<open>Where a heap comes from\<close>

lemma initheap_ok:
  assumes "0 < org" and "org \<le> sp - stacksize"
  shows "heap_ok {unat org..<unat (sp - stacksize)} (initheap org sp stacksize m) [] []"
proof -
  have o: "0 < unat org" "unat org \<le> unat (sp - stacksize)" using assms by (simp_all add: unat_gt_0 word_le_nat_alt word_neq_0_conv)
  have e: "unat (sp - stacksize) < 2 ^ 16" using WORD_less [of "sp - stacksize"] by simp
  have "heap_core {unat org..<unat (sp - stacksize)} (initheap org sp stacksize m) [] {#}"
  proof (rule coreI)
    have "x < 2 ^ 16 - 1" if "x < unat (sp - stacksize)" for x using e that by linarith
    then show "{unat org..<unat (sp - stacksize)} \<subseteq> {0<..<2 ^ 16 - 1}" using o by auto
  qed (use assms in \<open>auto simp: initheap_def links_def lefts_def rights_def\<close>)
  then show ?thesis by (simp add: heap_ok_def)
qed


section \<open>Programs that use the allocator\<close>











section \<open>The properties\<close>

text \<open>A heap of 30 KB at 0x4000, and the same with a block of 16 bytes taken from it.\<close>

definition ex_heap :: heap where
  "ex_heap = initheap 0x4000 0xC000 0x800 (\<lambda>_. 0)"

definition ex_live :: heap where
  "ex_live = snd (fill_size 0x4000 20 (ex_heap\<lparr>heapptr := 0x4014\<rparr>))"

definition ex_range :: "nat set" where
  "ex_range = {0x4000..<0xB800}"

lemma ex_heap_ok: "heap_ok ex_range ex_heap [] []"
  using initheap_ok [of "0x4000" "0xC000" "0x800" "\<lambda>_. 0"] by (simp add: ex_heap_def ex_range_def)

lemma ex_live_ok: "heap_ok ex_range ex_live [] [(0x4000, 20, 0x4004)]"
proof -
  have c: "heap_core ex_range ex_heap [] {#}" using ex_heap_ok by (simp add: heap_ok_def)
  have p: "unat (heapptr ex_heap) = 0x4000" "unat (heapend ex_heap) = 0xB800" by (simp_all add: ex_heap_def initheap_def)
  have "fill_size (heapptr ex_heap) (of_nat 20) (ex_heap\<lparr>heapptr := heapptr ex_heap + of_nat 20\<rparr>)
      = fill_size 0x4000 20 (ex_heap\<lparr>heapptr := 0x4014\<rparr>)" by (simp add: ex_heap_def initheap_def)
  with top_block(1,3) [OF c, of 20] show ?thesis by (simp add: p heap_ok_def ex_live_def)
qed

text \<open>
  C24: malloc. In a sound heap malloc returns for every size the address space can hold. Either it
  returns null with the heap as it was, and then neither a free block nor the space at the top is
  large enough; or the heap is sound with one more live block, which is as long as asked for and at
  most five bytes longer than needed. No byte of another live block changes. In a sound heap the live
  blocks, the free blocks and the unused top cover the memory without overlapping, so the new block
  shares no byte with an earlier one.
\<close>

theorem malloc_allocates:
  assumes "heap_ok R H fs us" and "sz \<noteq> 0" and "unat sz + 4 < 2 ^ 16"
  shows "\<exists>p H'. malloc sz H = Some (p, H') \<and> lives_same us (hp_mem H) (hp_mem H')
    \<and> (if p = 0 then H' = H \<and> (\<forall>b \<in> set fs. snd b < raw (unat sz)) \<and> unat (heapend H) - unat (heapptr H) < raw (unat sz)
       else \<exists>a n fs'. p = of_nat (a + 4) \<and> unat sz + 4 \<le> n \<and> n < raw (unat sz) + 6 \<and> heap_ok R H' fs' ((a, n, a + 4) # us))"
  by (rule malloc_lives [OF assms])

theorem malloc_allocates_witness:
  "\<exists>p H' a n fs'. malloc 16 ex_heap = Some (p, H') \<and> p = of_nat (a + 4) \<and> 20 \<le> n \<and> heap_ok ex_range H' fs' [(a, n, a + 4)]"
proof -
  have "\<not> unat (heapend ex_heap) - unat (heapptr ex_heap) < raw (unat (16 :: WORD))" by (simp add: ex_heap_def initheap_def raw_def)
  then show ?thesis using malloc_allocates [OF ex_heap_ok, of 16] by (auto simp del: of_nat_add split: if_splits) blast
qed

text \<open>
  C25: free. Freeing a live block of a sound heap returns, and leaves a sound heap without that block,
  whose free blocks are merged so that no two touch; the bytes of all other live blocks stay.
\<close>

theorem free_releases:
  assumes "heap_ok R H fs ((a, n, u) # us)"
  shows "\<exists>H' fs'. free (of_nat u) H = Some H' \<and> heap_ok R H' fs' us \<and> lives_same us (hp_mem H) (hp_mem H')
    \<and> sorted_wrt (\<lambda>b c. fst b + snd b < fst c) fs'"
  using free_lives [OF assms] by (auto simp: heap_ok_def heap_core_def sane_def)

theorem free_releases_witness:
  "\<exists>H' fs'. free 0x4004 ex_live = Some H' \<and> heap_ok ex_range H' fs' []"
  using free_releases [OF ex_live_ok] by auto

text \<open>
  C26: realloc. For a block of malloc and a size that does not reach past the address space from where
  the block lies, realloc returns. Null means that the heap is as it was. Otherwise the block has
  been replaced by one that is as long as asked for and begins with the bytes of the old one, as many
  as both have; the other live blocks keep their bytes.
\<close>

theorem realloc_keeps_contents:
  assumes "heap_ok R H fs ((a, n, a + 4) # us)" and "sz \<noteq> 0" and "a + unat sz + 8 < 2 ^ 16"
  shows "\<exists>p H'. realloc (of_nat (a + 4)) sz H = Some (p, H') \<and> lives_same us (hp_mem H) (hp_mem H')
    \<and> (if p = 0 then H' = H
       else \<exists>a' n' fs'. p = of_nat (a' + 4) \<and> unat sz + 4 \<le> n' \<and> heap_ok R H' fs' ((a', n', a' + 4) # us)
         \<and> (\<forall>i < min (unat sz) (n - 4). hp_mem H' (of_nat (a' + 4 + i)) = hp_mem H (of_nat (a + 4 + i))))"
  by (rule realloc_lives [OF assms])

lemma ex_realloc: "\<exists>H'. realloc 0x4004 100 ex_live = Some (0x4004, H')"
  by (simp add: realloc_def Let_def ex_live_def fill_size_def ret_user_ptr_def put_word_def ex_heap_def initheap_def
    HEAP_ADMIN_SPACE_def HEAP_MIN_BLOCKSIZE_def ldw_def stw_def)

theorem realloc_keeps_contents_witness:
  "\<exists>H' a' n' fs'. realloc 0x4004 100 ex_live = Some (of_nat (a' + 4), H') \<and> 104 \<le> n' \<and> heap_ok ex_range H' fs' [(a', n', a' + 4)]
    \<and> hp_mem H' (of_nat (a' + 4 + 15)) = hp_mem ex_live 0x4013"
proof -
  from ex_realloc obtain H' where r: "realloc 0x4004 100 ex_live = Some (0x4004, H')" by blast
  have "\<exists>a' n' fs'. (0x4004 :: WORD) = of_nat (a' + 4) \<and> unat (100 :: WORD) + 4 \<le> n' \<and> heap_ok ex_range H' fs' [(a', n', a' + 4)]
      \<and> (\<forall>i < min (unat (100 :: WORD)) (20 - 4). hp_mem H' (of_nat (a' + 4 + i)) = hp_mem ex_live (of_nat (0x4000 + 4 + i)))"
    using realloc_keeps_contents [of ex_range ex_live "[]" "0x4000" 20 "[]" 100] ex_live_ok r by simp
  then obtain a' n' fs' where a: "(0x4004 :: WORD) = of_nat (a' + 4)" "104 \<le> n'" "heap_ok ex_range H' fs' [(a', n', a' + 4)]"
    and b: "\<forall>i < min (unat (100 :: WORD)) (20 - 4). hp_mem H' (of_nat (a' + 4 + i)) = hp_mem ex_live (of_nat (0x4000 + 4 + i))" by auto
  have "hp_mem H' (of_nat (a' + 4 + 15)) = hp_mem ex_live 0x4013" using b [rule_format, of 15] by simp
  then show ?thesis using r a by (intro exI [of _ H'] exI [of _ a'] exI [of _ n'] exI [of _ fs']) simp
qed

text \<open>
  C27: posix_memalign. For an alignment that is a power of two the call returns. Success gives a pointer
  that is a multiple of the alignment, with as many bytes behind it as asked for, in a heap that is
  sound again after the space above and below has been given back; the other case is ENOMEM with a
  null pointer and the heap unchanged.
\<close>

theorem memalign_aligns:
  assumes "heap_ok R H fs us" and "sz \<noteq> 0" and "unat sz + 2 ^ k + 3 < 2 ^ 16"
  shows "\<exists>r p H'. posix_memalign (2 ^ k) sz H = Some (r, p, H') \<and> lives_same us (hp_mem H) (hp_mem H')
    \<and> (if r = EOK then \<exists>a n u fs'. p = of_nat u \<and> 2 ^ k dvd u \<and> u + unat sz \<le> a + n \<and> heap_ok R H' fs' ((a, n, u) # us)
       else r = ENOMEM \<and> p = 0 \<and> H' = H)"
  by (rule memalign_lives [OF assms])

lemma ex_memalign: "\<exists>H'. posix_memalign 16 32 ex_heap = Some (EOK, 0x4010, H')"
  by (simp add: posix_memalign_def Let_def malloc_def raw_size_def find_block.simps take_from_top_def fill_size_def ret_user_ptr_def
    put_word_def ex_heap_def initheap_def HEAP_ADMIN_SPACE_def HEAP_MIN_BLOCKSIZE_def ldw_def stw_def free_upper_def free_lower_def
    write_usedblock_def free_def add_block_def only_block_def)

theorem memalign_aligns_witness:
  "\<exists>H' a n u fs'. posix_memalign (2 ^ 4) 32 ex_heap = Some (EOK, of_nat u, H') \<and> 2 ^ 4 dvd u \<and> u + 32 \<le> a + n
    \<and> heap_ok ex_range H' fs' [(a, n, u)]"
proof -
  from ex_memalign obtain H' where r: "posix_memalign (2 ^ 4) 32 ex_heap = Some (EOK, 0x4010, H')" by auto
  have "\<exists>a n u fs'. (0x4010 :: WORD) = of_nat u \<and> 2 ^ 4 dvd u \<and> u + unat (32 :: WORD) \<le> a + n \<and> heap_ok ex_range H' fs' [(a, n, u)]"
    using memalign_aligns [of ex_range ex_heap "[]" "[]" 32 4] ex_heap_ok r by simp
  then show ?thesis using r by force
qed



section \<open>Limits of the allocator\<close>

text \<open>
  When malloc finds no memory calloc returns null, too, but has cleared as many bytes as it was asked
  for from address 0: page zero and the processor's stack.
\<close>

lemma calloc_out_of_memory:
  "malloc (k * sz) H = Some (0, H') \<Longrightarrow> calloc k sz H = Some (0, H'\<lparr>hp_mem := fill_mem 0 0 (k * sz) (hp_mem H')\<rparr>)"
  by (simp add: calloc_def lo_def)

text \<open>A size of nearly the whole address space wraps around, and the smallest block is returned for it.\<close>

lemma malloc_wraps: "malloc 0xFFFE H = malloc 2 H"
  by (simp add: malloc_def raw_size_def HEAP_ADMIN_SPACE_def HEAP_MIN_BLOCKSIZE_def)

text \<open>
  realloc of the topmost block to a size that reaches past the address space: the new top wraps around,
  passes the test against the end of the heap, and comes to lie below the heap.
\<close>

lemma realloc_wraps: "\<exists>H'. realloc 0x4004 0xD000 ex_live = Some (0x4004, H') \<and> heapptr H' = 0x1004"
  by (simp add: realloc_def Let_def ex_live_def fill_size_def ret_user_ptr_def put_word_def ex_heap_def initheap_def
    HEAP_ADMIN_SPACE_def HEAP_MIN_BLOCKSIZE_def ldw_def stw_def)

end
