(* ===== verification/Lib_Strftime.thy ===== *)
theory Lib_Strftime
  imports Lib_Time Lib_Scanf_Props
begin

text \<open>
  Times as text in the cc65 library: strftime.c, asctime.c and ctime.s. The buffer is the list of its
  bytes, the format lies in memory, and sprintf has the meaning the C standard gives it for the
  conversions used. The tables of names read outside their bounds give what the linker put there, which
  is the parameter \<open>behind_names\<close>; the array arg of strftime is taken to be large enough, which it is
  for every time whose fields are in range.
\<close>

section \<open>What sprintf makes of a number\<close>

text \<open>%d with a width and leading zeros (%02d, %03d, %04d), and with leading spaces (%3d, %4d).\<close>

definition fill_left :: "BYTE \<Rightarrow> nat \<Rightarrow> BYTE list \<Rightarrow> BYTE list" where
  "fill_left c w t = replicate (w - length t) c @ t"

definition zeros :: "nat \<Rightarrow> cint \<Rightarrow> BYTE list" where
  "zeros w n = (if n <s 0 then ch CHR ''-'' # fill_left (ch CHR ''0'') (w - 1) (decimal (nat (- sint n)))
     else fill_left (ch CHR ''0'') w (decimal (nat (sint n))))"

definition spaces :: "nat \<Rightarrow> cint \<Rightarrow> BYTE list" where
  "spaces w n = fill_left (ch CHR '' '') w (decimal_text (sint n))"

section \<open>strftime.c\<close>

record behind_names =
  behind_day :: "cint \<Rightarrow> BYTE list"
  behind_month :: "cint \<Rightarrow> BYTE list"

definition day_names :: "string list" where
  "day_names = [''Sunday'', ''Monday'', ''Tuesday'', ''Wednesday'', ''Thursday'', ''Friday'', ''Saturday'']"

definition month_names :: "string list" where
  "month_names = [''January'', ''February'', ''March'', ''April'', ''May'', ''June'',
     ''July'', ''August'', ''September'', ''October'', ''November'', ''December'']"

definition day_name :: "behind_names \<Rightarrow> cint \<Rightarrow> BYTE list" where
  "day_name b i = (if unat i < 7 then map ch (day_names ! unat i) else behind_day b i)"

definition month_name :: "behind_names \<Rightarrow> cint \<Rightarrow> BYTE list" where
  "month_name b i = (if unat i < 12 then map ch (month_names ! unat i) else behind_month b i)"

definition quot :: "cint \<Rightarrow> cint \<Rightarrow> cint" where
  "quot a b = fst (div_int a b)"

definition rem :: "cint \<Rightarrow> cint \<Rightarrow> cint" where
  "rem a b = snd (div_int a b)"

text \<open>The switch over the specifier: the string argptr points to.\<close>

definition hms :: "tm \<Rightarrow> BYTE list" where
  "hms tm = zeros 2 (tm_hour tm) @ ch CHR '':'' # zeros 2 (tm_min tm) @ ch CHR '':'' # zeros 2 (tm_sec tm)"

definition ymd :: "tm \<Rightarrow> BYTE list" where
  "ymd tm = zeros 4 (tm_year tm + 1900) @ ch CHR ''-'' # zeros 2 (tm_mon tm + 1) @ ch CHR ''-'' # zeros 2 (tm_mday tm)"

definition conversion_text :: "behind_names \<Rightarrow> timezone_info \<Rightarrow> tm \<Rightarrow> BYTE \<Rightarrow> BYTE list" where
  "conversion_text b tz tm c = (
     if c = ch CHR ''%'' then [ch CHR ''%'']
     else if c = ch CHR ''A'' then day_name b (tm_wday tm)
     else if c = ch CHR ''B'' then month_name b (tm_mon tm)
     else if c = ch CHR ''D'' then
       zeros 2 (tm_mon tm + 1) @ ch CHR ''/'' # zeros 2 (tm_mday tm) @ ch CHR ''/'' # zeros 2 (rem (tm_year tm) 100)
     else if c = ch CHR ''F'' then ymd tm
     else if c = ch CHR ''H'' then zeros 2 (tm_hour tm)
     else if c = ch CHR ''I'' then zeros 2 (rem (tm_hour tm) 12)
     else if c = ch CHR ''M'' then zeros 2 (tm_min tm)
     else if c = ch CHR ''P'' then map ch (if 12 \<le>s tm_hour tm then ''pm'' else ''am'')
     else if c = ch CHR ''S'' then zeros 2 (tm_sec tm)
     else if c = ch CHR ''U'' then zeros 2 (quot (tm_yday tm + 7 - tm_wday tm) 7)
     else if c = ch CHR ''W'' then
       zeros 2 (quot (tm_yday tm + 7 - (if tm_wday tm \<noteq> 0 then tm_wday tm - 1 else 6)) 7)
     else if c = ch CHR ''X'' then hms tm
     else if c = ch CHR ''Y'' then spaces 4 (tm_year tm + 1900)
     else if c = ch CHR ''Z'' then map ch (if tm_isdst tm \<noteq> 0 then dstname tz else tzname tz)
     else if c = ch CHR ''a'' then take 3 (day_name b (tm_wday tm))
     else if c = ch CHR ''b'' then take 3 (month_name b (tm_mon tm))
     else if c = ch CHR ''c'' then
       take 3 (day_name b (tm_wday tm)) @ ch CHR '' '' # take 3 (month_name b (tm_mon tm))
         @ spaces 3 (tm_mday tm) @ ch CHR '' '' # hms tm @ ch CHR '' '' # decimal_text (sint (tm_year tm + 1900))
     else if c = ch CHR ''d'' then zeros 2 (tm_mday tm)
     else if c = ch CHR ''j'' then zeros 3 (tm_yday tm + 1)
     else if c = ch CHR ''m'' then zeros 2 (tm_mon tm + 1)
     else if c = ch CHR ''p'' then map ch (if 12 \<le>s tm_hour tm then ''PM'' else ''AM'')
     else if c = ch CHR ''w'' then decimal_text (sint (tm_wday tm))
     else if c = ch CHR ''x'' then ymd tm
     else if c = ch CHR ''y'' then zeros 2 (rem (tm_year tm) 100)
     else [])"

text \<open>The loop. \<open>pos\<close> is how far buf has moved; \<open>fm\<close> is the memory the format lies in.\<close>

partial_function (option) strftime_loop ::
  "(BYTE \<Rightarrow> BYTE list) \<Rightarrow> (WORD \<Rightarrow> BYTE) \<Rightarrow> WORD \<Rightarrow> WORD \<Rightarrow> WORD \<Rightarrow> nat \<Rightarrow> BYTE list \<Rightarrow> (WORD \<times> BYTE list) option" where
  "strftime_loop conv fm bufsize format count pos buf = (
     if count \<ge> bufsize then Some (0, buf)
     else let c = fm format; format = format + 1 in
       if c = 0 then Some (count, buf[pos := 0])
       else if c = ch CHR ''%'' then
         let arg = conv (fm format); format = format + 1; len = of_nat (length arg); count = count + len in
         if count < bufsize then strftime_loop conv fm bufsize format count (pos + unat len) (store pos (take (unat len) arg) buf)
         else strftime_loop conv fm bufsize format count pos buf
       else strftime_loop conv fm bufsize format (count + 1) (pos + 1) (buf[pos := c]))"

definition strftime ::
  "behind_names \<Rightarrow> timezone_info \<Rightarrow> (WORD \<Rightarrow> BYTE) \<Rightarrow> BYTE list \<Rightarrow> WORD \<Rightarrow> WORD \<Rightarrow> tm \<Rightarrow> (WORD \<times> BYTE list) option" where
  "strftime b tz fm buf bufsize format tm = strftime_loop (conversion_text b tz tm) fm bufsize format 0 0 buf"

section \<open>asctime.c and ctime.s\<close>

text \<open>
  The format of asctime is a constant in its memory \<open>fm\<close> at \<open>format\<close>. The result is the null pointer, None,
  or the buffer.
\<close>

definition asctime_format :: "BYTE list" where
  "asctime_format = map ch ''%c'' @ [10]"

definition asctime ::
  "behind_names \<Rightarrow> timezone_info \<Rightarrow> (WORD \<Rightarrow> BYTE) \<Rightarrow> WORD \<Rightarrow> BYTE list \<Rightarrow> tm \<Rightarrow> (BYTE list option \<times> BYTE list) option" where
  "asctime b tz fm format buf tm = do {
     (n, buf) \<leftarrow> strftime b tz fm buf 26 format tm;
     Some (if n \<noteq> 0 then Some buf else None, buf) }"

end
