(* ===== verification/Lib_Strftime_Props.thy ===== *)
theory Lib_Strftime_Props
  imports Lib_Strftime Lib_Calendar
begin

text \<open>
  What strftime writes: the text of its format, or nothing that counts when the buffer is too small; and
  the date asctime shows for a time since 1970.
\<close>

section \<open>The text of a format\<close>







section \<open>The lengths of the conversions\<close>







section \<open>strftime\<close>


section \<open>The date asctime shows\<close>

definition digits2 :: "nat \<Rightarrow> BYTE list" where
  "digits2 n = [0x30 + of_nat (n div 10), 0x30 + of_nat (n mod 10)]"

definition date_text :: "nat \<Rightarrow> nat \<Rightarrow> nat \<Rightarrow> nat \<Rightarrow> nat \<Rightarrow> nat \<Rightarrow> BYTE list" where
  "date_text y m d h mi s = map ch (take 3 (day_names ! ((4 + day_number y m d) mod 7))) @ ch CHR '' ''
     # map ch (take 3 (month_names ! m)) @ (if d < 10 then [0x20, 0x20, 0x30 + of_nat d] else 0x20 # digits2 d)
     @ 0x20 # digits2 h @ ch CHR '':'' # digits2 mi @ ch CHR '':'' # digits2 s @ 0x20 # decimal y @ [10]"













text \<open>What that second is called.\<close>

lemma date_text_example: "date_text 2000 1 29 12 34 56 = map ch ''Tue Feb 29 12:34:56 2000'' @ [10]"
proof -
  have "day_number 2000 1 29 = 11016"
    by (simp add: day_number_def days_before_year_formula days_before_month_def days_in_def)
  then show ?thesis by (simp add: date_text_def digits2_def day_names_def month_names_def decimal.simps)
qed

end
