(* ===== verification/Lib_Strtok.thy ===== *)
theory Lib_Strtok
  imports Lib_Scanf_Parse
begin

text \<open>
  Splitting a string into tokens: strtok.c of the cc65 library, with the search of strchr.s it calls. The
  memory is a function of the address, the null pointer is 0, and strtok keeps its place in \<open>Last\<close>.
  The theorem is about the usual loop over it: a first call with the string, then calls with a null
  pointer until the result is null.
\<close>

section \<open>strchr.s\<close>

text \<open>
  ptr1 is \<open>base\<close> and the index register is \<open>y\<close>. When the high byte of ptr1 becomes 0 the loop falls
  through to the end of the string.
\<close>

partial_function (option) strchr_loop :: "(WORD \<Rightarrow> BYTE) \<Rightarrow> BYTE \<Rightarrow> WORD \<Rightarrow> BYTE \<Rightarrow> WORD option" where
  "strchr_loop M c base y = (let a = M (base + ucast y); eos = (if c \<noteq> 0 then 0 else base + ucast y) in
     if a = 0 then Some eos
     else if a = c then Some (base + ucast y)
     else if y + 1 \<noteq> 0 then strchr_loop M c base (y + 1)
     else if (base + 0x100) div 0x100 \<noteq> 0 then strchr_loop M c (base + 0x100) 0
     else Some (if c \<noteq> 0 then 0 else base + 0x100))"

definition strchr :: "(WORD \<Rightarrow> BYTE) \<Rightarrow> WORD \<Rightarrow> BYTE \<Rightarrow> WORD option" where
  "strchr M s c = strchr_loop M c s 0"

section \<open>strtok.c\<close>

text \<open>The two loops: over separators, and over everything else.\<close>

partial_function (option) skip_separators :: "(WORD \<Rightarrow> BYTE) \<Rightarrow> WORD \<Rightarrow> WORD \<Rightarrow> WORD option" where
  "skip_separators M s2 s1 = (let c = M s1 in
     if c = 0 then Some s1
     else do { r \<leftarrow> strchr M s2 c; if r \<noteq> 0 then skip_separators M s2 (s1 + 1) else Some s1 })"

partial_function (option) skip_token :: "(WORD \<Rightarrow> BYTE) \<Rightarrow> WORD \<Rightarrow> WORD \<Rightarrow> WORD option" where
  "skip_token M s2 s1 = (let c = M s1 in
     if c = 0 then Some s1
     else do { r \<leftarrow> strchr M s2 c; if r = 0 then skip_token M s2 (s1 + 1) else Some s1 })"

text \<open>The result is the token (0 for a null pointer), the memory and \<open>Last\<close>.\<close>

definition strtok :: "(WORD \<Rightarrow> BYTE) \<Rightarrow> WORD \<Rightarrow> WORD \<Rightarrow> WORD \<Rightarrow> (WORD \<times> (WORD \<Rightarrow> BYTE) \<times> WORD) option" where
  "strtok M Last s1 s2 = (let s1 = if s1 = 0 then Last else s1 in
     if M s1 = 0 then Some (0, M, Last)
     else do {
       start \<leftarrow> skip_separators M s2 s1;
       if M start = 0 then Some (0, M, start)
       else do {
         stop \<leftarrow> skip_token M s2 start;
         if M stop = 0 then Some (start, M, stop)
         else Some (start, M(stop := 0), stop + 1) } })"

section \<open>The search\<close>

lemma unat_next: "unat a + 1 < 2 ^ 16 \<Longrightarrow> unat ((a :: WORD) + 1) = unat a + 1"
  using unat_add_lem [of a 1] by simp

lemma string_in_cong:
  "string_in M p xs \<Longrightarrow> unat p + length xs < 2 ^ 16
    \<Longrightarrow> (\<And>a. unat p \<le> unat a \<Longrightarrow> unat a \<le> unat p + length xs \<Longrightarrow> M' a = M a) \<Longrightarrow> string_in M' p xs"
proof (induction xs arbitrary: p)
  case Nil
  then show ?case by simp
next
  case (Cons x xs)
  have n: "unat (p + 1) = unat p + 1" using Cons.prems(2) by (intro unat_next) simp
  have "string_in M' (p + 1) xs"
    by (rule Cons.IH) (use Cons.prems n in auto)
  then show ?case using Cons.prems(1,3) by simp
qed

lemma strchr_loop_string:
  "string_in M (base + ucast y) ss \<Longrightarrow> unat base + unat y + length ss < 2 ^ 16 \<Longrightarrow> 0 < unat base + unat y \<Longrightarrow> c \<noteq> 0
    \<Longrightarrow> \<exists>r. strchr_loop M c base y = Some r \<and> (r \<noteq> 0 \<longleftrightarrow> c \<in> set ss)"
proof (induction ss arbitrary: base y)
  case Nil
  then show ?case by (subst strchr_loop.simps) simp
next
  case (Cons s ss)
  let ?p = "base + ucast y"
  have p: "unat ?p = unat base + unat y"
    using Cons.prems(2) by (subst unat_plus_less) (simp_all add: unat_ucast_up)
  have s: "M ?p = s" "s \<noteq> 0" "string_in M (?p + 1) ss" using Cons.prems(1) by auto
  show ?case
  proof (cases "s = c")
    case True
    have "?p \<noteq> 0" using p Cons.prems(3) by (metis unat_0 less_irrefl)
    then show ?thesis using True s by (subst strchr_loop.simps) (simp add: Let_def)
  next
    case ne: False
    show ?thesis
    proof (cases "y + 1 = 0")
      case False
      then have y: "unat (y + 1) = unat y + 1" by (metis unat_plus_simple unatSuc add.commute Suc_eq_plus1)
      have "unat y < 65535" by (rule less_trans [OF BYTE_less]) simp
      then have "unat (ucast y + 1 :: WORD) = unat y + 1" by (subst unat_next) (simp_all add: unat_ucast_up)
      then have "(ucast (y + 1) :: WORD) = ucast y + 1" using y by (simp add: word_unat_eq_iff unat_ucast_up)
      then have "string_in M (base + ucast (y + 1)) ss" using s(3) by (simp add: add.assoc)
      from Cons.IH [OF this] Cons.prems y obtain r where "strchr_loop M c base (y + 1) = Some r" "r \<noteq> 0 \<longleftrightarrow> c \<in> set ss" by auto
      then show ?thesis using ne s False by (subst strchr_loop.simps) (simp add: Let_def)
    next
      case True
      then have y: "y = 0xFF" by (simp add: add_eq_0_iff2)
      have b: "unat (base + 0x100) = unat base + 0x100"
        using Cons.prems(2) y by (subst unat_plus_less) simp_all
      have "?p + 1 = base + 0x100" by (simp add: y)
      then have "string_in M (base + 0x100 + ucast (0 :: BYTE)) ss" using s(3) by (simp add: add.commute)
      from Cons.IH [OF this] Cons.prems y b obtain r where r: "strchr_loop M c (base + 0x100) 0 = Some r" "r \<noteq> 0 \<longleftrightarrow> c \<in> set ss" by auto
      have "unat ((base + 0x100) div 0x100) = (unat base + 0x100) div 0x100" by (simp add: unat_div b)
      then have "(base + 0x100) div 0x100 \<noteq> 0" by (metis unat_0 div_eq_0_iff not_add_less2 zero_neq_numeral)
      then show ?thesis using ne s True r y by (subst strchr_loop.simps) (simp add: Let_def)
    qed
  qed
qed

text \<open>A string that begins at \<open>p\<close> and ends within the address space.\<close>

definition text_at :: "(WORD \<Rightarrow> BYTE) \<Rightarrow> WORD \<Rightarrow> BYTE list \<Rightarrow> bool" where
  "text_at M p xs \<longleftrightarrow> string_in M p xs \<and> p \<noteq> 0 \<and> unat p + length xs < 2 ^ 16"

lemma text_at_Nil: "text_at M p [] \<longleftrightarrow> M p = 0 \<and> p \<noteq> 0"
  by (auto simp: text_at_def)

lemma text_at_next: "text_at M p (x # xs) \<Longrightarrow> unat (p + 1) = unat p + 1"
  unfolding text_at_def by (intro unat_next) simp

lemma text_at_Cons:
  assumes "text_at M p (x # xs)"
  shows "M p = x" "x \<noteq> 0" "p \<noteq> 0" "text_at M (p + 1) xs"
proof -
  have n: "unat (p + 1) = unat p + 1" by (rule text_at_next [OF assms])
  then have "p + 1 \<noteq> 0" by (metis unat_0 add_is_0 zero_neq_one)
  then show "M p = x" "x \<noteq> 0" "p \<noteq> 0" "text_at M (p + 1) xs" using assms n by (auto simp: text_at_def)
qed

lemma text_at_cong:
  assumes "text_at M p xs" and "\<And>a. unat p \<le> unat a \<Longrightarrow> unat a \<le> unat p + length xs \<Longrightarrow> M' a = M a"
  shows "text_at M' p xs"
  using assms string_in_cong [of M p xs M'] unfolding text_at_def by blast

lemma strchr_text:
  assumes "text_at M p ss" and "c \<noteq> 0"
  shows "\<exists>r. strchr M p c = Some r \<and> (r \<noteq> 0 \<longleftrightarrow> c \<in> set ss)"
  using assms strchr_loop_string [of M p 0 ss c] by (simp add: text_at_def strchr_def unat_gt_0)

section \<open>The loops\<close>

lemma skip_separators_text:
  assumes "text_at M s2 ss"
  shows "text_at M p xs \<Longrightarrow> \<exists>q. skip_separators M s2 p = Some q \<and> unat q = unat p + length (takeWhile (\<lambda>c. c \<in> set ss) xs)
    \<and> text_at M q (dropWhile (\<lambda>c. c \<in> set ss) xs)"
proof (induction xs arbitrary: p)
  case Nil
  then show ?case by (subst skip_separators.simps) (simp add: text_at_Nil)
next
  case (Cons x xs)
  note x = text_at_Cons [OF Cons.prems]
  obtain r where r: "strchr M s2 x = Some r" "r \<noteq> 0 \<longleftrightarrow> x \<in> set ss" using strchr_text [OF assms x(2)] by blast
  show ?case
  proof (cases "x \<in> set ss")
    case True
    with Cons.IH [OF x(4)] text_at_next [OF Cons.prems] x r show ?thesis by (subst skip_separators.simps) auto
  next
    case False
    with Cons.prems x r show ?thesis by (subst skip_separators.simps) simp
  qed
qed

lemma skip_token_text:
  assumes "text_at M s2 ss"
  shows "text_at M p xs \<Longrightarrow> \<exists>q. skip_token M s2 p = Some q \<and> unat q = unat p + length (takeWhile (\<lambda>c. c \<notin> set ss) xs)
    \<and> text_at M q (dropWhile (\<lambda>c. c \<notin> set ss) xs)"
proof (induction xs arbitrary: p)
  case Nil
  then show ?case by (subst skip_token.simps) (simp add: text_at_Nil)
next
  case (Cons x xs)
  note x = text_at_Cons [OF Cons.prems]
  obtain r where r: "strchr M s2 x = Some r" "r \<noteq> 0 \<longleftrightarrow> x \<in> set ss" using strchr_text [OF assms x(2)] by blast
  show ?case
  proof (cases "x \<in> set ss")
    case True
    with Cons.prems x r show ?thesis by (subst skip_token.simps) simp
  next
    case False
    with Cons.IH [OF x(4)] text_at_next [OF Cons.prems] x r show ?thesis by (subst skip_token.simps) auto
  qed
qed

section \<open>The tokens of a text\<close>

function tokens :: "BYTE list \<Rightarrow> BYTE list \<Rightarrow> BYTE list list" where
  "tokens ss xs = (let ys = dropWhile (\<lambda>c. c \<in> set ss) xs in
     if ys = [] then []
     else takeWhile (\<lambda>c. c \<notin> set ss) ys # tokens ss (drop 1 (dropWhile (\<lambda>c. c \<notin> set ss) ys)))"
  by pat_completeness auto
termination
proof (relation "measure (\<lambda>(ss, xs). length xs)")
  fix ss xs ys :: "BYTE list"
  assume ys: "ys = dropWhile (\<lambda>c. c \<in> set ss) xs" "ys \<noteq> []"
  have "length (drop 1 (dropWhile (\<lambda>c. c \<notin> set ss) ys)) < length ys"
  proof -
    have "length (dropWhile (\<lambda>c. c \<notin> set ss) ys) \<le> length ys" "0 < length ys" using ys(2) by (simp_all add: length_dropWhile_le)
    then show ?thesis by (simp only: length_drop)
  qed
  moreover have "length ys \<le> length xs" by (simp add: ys(1) length_dropWhile_le)
  ultimately show "((ss, drop 1 (dropWhile (\<lambda>c. c \<notin> set ss) ys)), ss, xs) \<in> measure (\<lambda>(ss, xs). length xs)" by simp
qed simp

declare tokens.simps [simp del]

text \<open>The bytes of the string, up to its end, and those of the separators share no address.\<close>

definition apart_texts :: "WORD \<Rightarrow> BYTE list \<Rightarrow> WORD \<Rightarrow> BYTE list \<Rightarrow> bool" where
  "apart_texts p xs s ss \<longleftrightarrow> unat p + length xs < unat s \<or> unat s + length ss < unat p"

text \<open>The memory has changed only within the string at \<open>p\<close>, and only to zeros.\<close>

definition cut :: "WORD \<Rightarrow> BYTE list \<Rightarrow> (WORD \<Rightarrow> BYTE) \<Rightarrow> (WORD \<Rightarrow> BYTE) \<Rightarrow> bool" where
  "cut p xs M M' \<longleftrightarrow> (\<forall>a. M' a = M a \<or> (M' a = 0 \<and> unat p \<le> unat a \<and> unat a < unat p + length xs))"

lemma cut_self [simp]: "cut p xs M M"
  by (simp add: cut_def)

lemma cut_then:
  assumes "cut q ys M M1" and "cut p xs M1 M2" and "unat q \<le> unat p" and "unat p + length xs \<le> unat q + length ys"
  shows "cut q ys M M2"
  unfolding cut_def
proof
  fix a
  have 1: "M1 a = M a \<or> (M1 a = 0 \<and> unat q \<le> unat a \<and> unat a < unat q + length ys)"
    and 2: "M2 a = M1 a \<or> (M2 a = 0 \<and> unat p \<le> unat a \<and> unat a < unat p + length xs)"
    using assms(1,2) unfolding cut_def by blast+
  show "M2 a = M a \<or> (M2 a = 0 \<and> unat q \<le> unat a \<and> unat a < unat q + length ys)"
    using 2
  proof
    assume "M2 a = 0 \<and> unat p \<le> unat a \<and> unat a < unat p + length xs"
    with assms(3,4) show ?thesis by linarith
  qed (use 1 in simp)
qed

text \<open>A text that lies outside the part cut up stays.\<close>

lemma text_at_cut:
  assumes "text_at M p xs" and "cut q ys M M'" and "ys = [] \<or> unat p + length xs < unat q \<or> unat q + length ys \<le> unat p"
  shows "text_at M' p xs"
proof (rule text_at_cong [OF assms(1)])
  fix a :: WORD
  assume a: "unat p \<le> unat a" "unat a \<le> unat p + length xs"
  have "M' a = M a \<or> (unat q \<le> unat a \<and> unat a < unat q + length ys)" using assms(2) unfolding cut_def by blast
  then show "M' a = M a" using assms(3) a by auto
qed

text \<open>A zero stored behind the first part of a text ends it there.\<close>

lemma text_at_stop: "text_at M p (t @ u) \<Longrightarrow> unat e = unat p + length t \<Longrightarrow> text_at (M(e := 0)) p t"
proof (induction t arbitrary: p)
  case Nil
  then have "e = p" by (simp add: word_unat_eq_iff)
  then show ?case using Nil.prems(1) by (auto simp: text_at_def)
next
  case (Cons x t)
  note x = text_at_Cons [OF Cons.prems(1) [simplified]]
  have n: "unat (p + 1) = unat p + 1" using text_at_next Cons.prems(1) by simp
  have "text_at (M(e := 0)) (p + 1) t" by (rule Cons.IH [OF x(4)]) (use n Cons.prems(2) in simp)
  moreover have "e \<noteq> p" using Cons.prems(2) by auto
  ultimately show ?case using x n Cons.prems(1) by (auto simp: text_at_def simp del: fun_upd_apply) (simp_all add: fun_upd_apply)
qed

section \<open>strtok on a string\<close>

lemma strtok_text:
  fixes q s1 Last :: WORD and xs ss :: "BYTE list"
  defines "q \<equiv> if s1 = 0 then Last else s1" and "ys \<equiv> dropWhile (\<lambda>c. c \<in> set ss) xs"
  defines "t \<equiv> takeWhile (\<lambda>c. c \<notin> set ss) ys" and "rest \<equiv> drop 1 (dropWhile (\<lambda>c. c \<notin> set ss) ys)"
  assumes x: "text_at M q xs" and s: "text_at M s2 ss"
  shows "ys = [] \<Longrightarrow> \<exists>L. strtok M Last s1 s2 = Some (0, M, L)"
    and "ys \<noteq> [] \<Longrightarrow> \<exists>r M' L. strtok M Last s1 s2 = Some (r, M', L) \<and> text_at M' r t \<and> text_at M' L rest
      \<and> cut q xs M M' \<and> unat q \<le> unat L \<and> unat L + length rest \<le> unat q + length xs
      \<and> (rest = [] \<or> unat r + length t < unat L)"
proof -
  obtain p where p: "skip_separators M s2 q = Some p" "unat p = unat q + length (takeWhile (\<lambda>c. c \<in> set ss) xs)" "text_at M p ys"
    using skip_separators_text [OF s x] unfolding ys_def by blast
  have M0: "M q = 0 \<longleftrightarrow> xs = []" using x by (cases xs) (auto simp: text_at_def)
  have Mp: "M p = 0 \<longleftrightarrow> ys = []" using p(3) by (cases ys) (auto simp: text_at_def)
  show "\<exists>L. strtok M Last s1 s2 = Some (0, M, L)" if "ys = []"
    using that Mp p(1) by (simp add: strtok_def q_def [symmetric] Let_def)
  assume ys: "ys \<noteq> []"
  then have "xs \<noteq> []" by (auto simp: ys_def)
  have len: "length xs = length (takeWhile (\<lambda>c. c \<in> set ss) xs) + length ys"
    unfolding ys_def by (metis length_append takeWhile_dropWhile_id)
  define u where "u = dropWhile (\<lambda>c. c \<notin> set ss) ys"
  have len2: "length ys = length t + length u" unfolding t_def u_def by (metis length_append takeWhile_dropWhile_id)
  obtain e where e: "skip_token M s2 p = Some e" "unat e = unat p + length t" "text_at M e u"
    using skip_token_text [OF s p(3)] unfolding t_def u_def by blast
  have Me: "M e = 0 \<longleftrightarrow> u = []" using e(3) by (cases u) (auto simp: text_at_def)
  have run: "strtok M Last s1 s2 = (if u = [] then Some (p, M, e) else Some (p, M(e := 0), e + 1))"
    using M0 Mp Me ys \<open>xs \<noteq> []\<close> p(1) e(1) by (simp add: strtok_def q_def [symmetric] Let_def)
  show "\<exists>r M' L. strtok M Last s1 s2 = Some (r, M', L) \<and> text_at M' r t \<and> text_at M' L rest
      \<and> cut q xs M M' \<and> unat q \<le> unat L \<and> unat L + length rest \<le> unat q + length xs
      \<and> (rest = [] \<or> unat r + length t < unat L)"
  proof (cases u)
    case Nil
    then have "text_at M p t" using p(3) e(2) unfolding t_def u_def by (metis takeWhile_dropWhile_id append_Nil2)
    with Nil run e p len len2 show ?thesis by (simp add: rest_def u_def [symmetric])
  next
    case (Cons d ds)
    note d = text_at_Cons [OF e(3) [unfolded Cons]]
    have n: "unat (e + 1) = unat e + 1" by (rule text_at_next [OF e(3) [unfolded Cons]])
    have "text_at (M(e := 0)) (e + 1) ds" by (rule text_at_cong [OF d(4)]) (use n in auto)
    moreover have "text_at (M(e := 0)) p t" 
      using text_at_stop [of M p t u e] p(3) e(2) unfolding t_def u_def by simp
    moreover have "cut q xs M (M(e := 0))" using e(2) p(2) len len2 Cons by (auto simp: cut_def)
    ultimately show ?thesis using run Cons n e(2) p(2) len len2 by (auto simp: rest_def u_def [symmetric])
  qed
qed

section \<open>The loop over strtok\<close>

text \<open>What a program does with strtok: the pointers it gets before the null pointer. \<open>n\<close> bounds the calls.\<close>

fun strtok_run :: "nat \<Rightarrow> (WORD \<Rightarrow> BYTE) \<Rightarrow> WORD \<Rightarrow> WORD \<Rightarrow> WORD \<Rightarrow> (WORD list \<times> (WORD \<Rightarrow> BYTE)) option" where
  "strtok_run 0 M Last s1 s2 = None"
| "strtok_run (Suc n) M Last s1 s2 = do {
     (r, M, Last) \<leftarrow> strtok M Last s1 s2;
     if r = 0 then Some ([], M)
     else do { (rs, M) \<leftarrow> strtok_run n M Last 0 s2; Some (r # rs, M) } }"

lemma strtok_run_tokens:
  "text_at M (if s1 = 0 then Last else s1) xs \<Longrightarrow> text_at M s2 ss \<Longrightarrow> apart_texts (if s1 = 0 then Last else s1) xs s2 ss
    \<Longrightarrow> length (tokens ss xs) < n
    \<Longrightarrow> \<exists>rs M'. strtok_run n M Last s1 s2 = Some (rs, M') \<and> list_all2 (text_at M') rs (tokens ss xs)
      \<and> cut (if s1 = 0 then Last else s1) xs M M'"
proof (induction ss xs arbitrary: M Last s1 n rule: tokens.induct)
  case (1 ss xs)
  let ?q = "if s1 = 0 then Last else s1"
  define ys where "ys = dropWhile (\<lambda>c. c \<in> set ss) xs"
  define t where "t = takeWhile (\<lambda>c. c \<notin> set ss) ys"
  define rest where "rest = drop 1 (dropWhile (\<lambda>c. c \<notin> set ss) ys)"
  obtain m where n: "n = Suc m" using "1.prems"(4) by (cases n) auto
  note call = strtok_text [OF "1.prems"(1,2), folded ys_def, folded t_def rest_def]
  show ?case
  proof (cases "ys = []")
    case True
    then have "tokens ss xs = []" by (simp add: tokens.simps [of ss xs] ys_def [symmetric] Let_def)
    then show ?thesis using call(1) [OF True] n by auto
  next
    case False
    then have toks: "tokens ss xs = t # tokens ss rest"
      by (simp add: tokens.simps [of ss xs] ys_def [symmetric] t_def [symmetric] rest_def [symmetric] Let_def del: One_nat_def)
    obtain r M1 L where c: "strtok M Last s1 s2 = Some (r, M1, L)" "text_at M1 r t" "text_at M1 L rest" "cut ?q xs M M1"
        "unat ?q \<le> unat L" "unat L + length rest \<le> unat ?q + length xs" "rest = [] \<or> unat r + length t < unat L"
      using call(2) [OF False] by blast
    have s: "text_at M1 s2 ss"
      by (rule text_at_cut [OF "1.prems"(2) c(4)]) (use "1.prems"(3) in \<open>auto simp: apart_texts_def\<close>)
    have "apart_texts L rest s2 ss" using "1.prems"(3) c(5,6) unfolding apart_texts_def by linarith
    then obtain rs M2 where 2: "strtok_run m M1 L 0 s2 = Some (rs, M2)" "list_all2 (text_at M2) rs (tokens ss rest)" "cut L rest M1 M2"
      using "1.IH" [OF ys_def False, folded rest_def, of M1 0 L m] c(3) s "1.prems"(4) toks n by auto
    have "text_at M2 r t" by (rule text_at_cut [OF c(2) 2(3)]) (use c(7) in blast)
    moreover have "cut ?q xs M M2" by (rule cut_then [OF c(4) 2(3) c(5,6)])
    moreover have "r \<noteq> 0" using c(2) by (simp add: text_at_def)
    ultimately show ?thesis using 2 c(1) toks n by simp
  qed
qed

section \<open>Fields\<close>

text \<open>A text cut at every separator; the tokens are the fields that are not empty.\<close>

primrec fields :: "BYTE list \<Rightarrow> BYTE list \<Rightarrow> BYTE list list" where
  "fields ss [] = [[]]"
| "fields ss (x # xs) = (if x \<in> set ss then [] # fields ss xs else (x # hd (fields ss xs)) # tl (fields ss xs))"

lemma fields_skip: "filter (\<lambda>t. t \<noteq> []) (fields ss (dropWhile (\<lambda>c. c \<in> set ss) xs)) = filter (\<lambda>t. t \<noteq> []) (fields ss xs)"
  by (induction xs) auto

lemma fields_token: "\<forall>c\<in>set t. c \<notin> set ss \<Longrightarrow> fields ss t = [t]"
    "\<forall>c\<in>set t. c \<notin> set ss \<Longrightarrow> d \<in> set ss \<Longrightarrow> fields ss (t @ d # xs) = t # fields ss xs"
  by (induction t) auto

lemma tokens_fields: "tokens ss xs = filter (\<lambda>t. t \<noteq> []) (fields ss xs)"
proof (induction ss xs rule: tokens.induct)
  case (1 ss xs)
  define ys where "ys = dropWhile (\<lambda>c. c \<in> set ss) xs"
  define t where "t = takeWhile (\<lambda>c. c \<notin> set ss) ys"
  define u where "u = dropWhile (\<lambda>c. c \<notin> set ss) ys"
  have f: "filter (\<lambda>t. t \<noteq> []) (fields ss xs) = filter (\<lambda>t. t \<noteq> []) (fields ss ys)" by (simp add: ys_def fields_skip)
  show ?case
  proof (cases "ys = []")
    case True
    with f show ?thesis by (simp add: tokens.simps [of ss xs] ys_def [symmetric] Let_def)
  next
    case False
    have toks: "tokens ss xs = t # filter (\<lambda>t. t \<noteq> []) (fields ss (drop 1 u))"
      using "1.IH" [OF ys_def False] False
      by (simp add: tokens.simps [of ss xs] ys_def [symmetric] t_def [symmetric] u_def [symmetric] Let_def del: One_nat_def)
    have t: "\<forall>c\<in>set t. c \<notin> set ss" by (auto simp: t_def dest: set_takeWhileD)
    have ne: "t \<noteq> []" using hd_dropWhile [of "\<lambda>c. c \<in> set ss" xs] False by (cases ys) (auto simp: t_def ys_def)
    have y: "ys = t @ u" by (simp add: t_def u_def)
    show ?thesis
    proof (cases u)
      case Nil
      then show ?thesis using toks f y ne fields_token(1) [OF t] by simp
    next
      case (Cons d ds)
      then have "d \<in> set ss" using hd_dropWhile [of "\<lambda>c. c \<notin> set ss" ys] by (simp add: u_def)
      then show ?thesis using toks f y ne fields_token(2) [OF t] Cons by simp
    qed
  qed
qed

text \<open>A call with an empty string leaves \<open>Last\<close> as it was: the next call with a null pointer goes on with the old string.\<close>

lemma strtok_empty_string: "M p = 0 \<Longrightarrow> p \<noteq> 0 \<Longrightarrow> strtok M Last p s2 = Some (0, M, Last)"
  by (simp add: strtok_def)

section \<open>Splitting a string\<close>

text \<open>
  C32: strtok. A program that calls strtok with a string and then with null pointers until it gets one
  receives pointers to the parts of the string between separators that are not empty, in their order,
  and no others, with at most one call more than there are parts. In the memory it ends with, each
  pointer leads to its part as a string of its own. No byte outside the string has changed, and those
  within it that have changed are zero.
\<close>

theorem strtok_tokens:
  assumes "string_in M p xs" and "string_in M s2 ss" and "p \<noteq> 0" and "s2 \<noteq> 0"
    and "unat p + length xs < 2 ^ 16" and "unat s2 + length ss < 2 ^ 16" and "apart_texts p xs s2 ss"
  shows "\<exists>rs M'. strtok_run (Suc (length (filter (\<lambda>t. t \<noteq> []) (fields ss xs)))) M Last p s2 = Some (rs, M')
    \<and> list_all2 (string_in M') rs (filter (\<lambda>t. t \<noteq> []) (fields ss xs)) \<and> cut p xs M M'"
proof -
  have "text_at M p xs" "text_at M s2 ss" using assms by (simp_all add: text_at_def)
  then obtain rs M' where "strtok_run (Suc (length (tokens ss xs))) M Last p s2 = Some (rs, M')"
      "list_all2 (text_at M') rs (tokens ss xs)" "cut p xs M M'"
    using strtok_run_tokens [of M p Last xs s2 ss "Suc (length (tokens ss xs))"] assms(3,7) by auto
  moreover from this(2) have "list_all2 (string_in M') rs (tokens ss xs)"
    by (rule list_all2_mono) (simp add: text_at_def)
  ultimately show ?thesis unfolding tokens_fields by blast
qed

definition ex_tok_mem :: "WORD \<Rightarrow> BYTE" where
  "ex_tok_mem a = (if 0x100 \<le> a \<and> a < 0x106 then map ch '',a,,bc'' ! unat (a - 0x100) else if a = 0x200 then ch CHR '','' else 0)"

lemma ex_tok_strings: "string_in ex_tok_mem 0x100 (map ch '',a,,bc'')" "string_in ex_tok_mem 0x200 (map ch '','')"
  by (simp_all add: ex_tok_mem_def word_le_nat_alt word_less_nat_alt)

theorem strtok_tokens_witness:
  "\<exists>r r' M'. strtok_run 3 ex_tok_mem 0 0x100 0x200 = Some ([r, r'], M') \<and> string_in M' r (map ch ''a'') \<and> string_in M' r' (map ch ''bc'')"
proof -
  have f: "filter (\<lambda>t. t \<noteq> []) (fields (map ch '','') (map ch '',a,,bc'')) = [map ch ''a'', map ch ''bc'']" by simp
  have "apart_texts 0x100 (map ch '',a,,bc'') 0x200 (map ch '','')" by (simp add: apart_texts_def)
  with strtok_tokens [OF ex_tok_strings, of 0, unfolded f] obtain rs M' where
    "strtok_run 3 ex_tok_mem 0 0x100 0x200 = Some (rs, M')" "list_all2 (string_in M') rs [map ch ''a'', map ch ''bc'']"
    by (auto simp: numeral_3_eq_3)
  then show ?thesis by (auto simp: list_all2_Cons2)
qed

end
