(* ===== verification/Lib_Udiv.thy ===== *)
theory Lib_Udiv
  imports Prelude
begin

text \<open>
  The unsigned division of the cc65 runtime (udiv.s): 16 steps of shifting and subtracting on 16-bit
  registers, and that it divides. A divisor of 0 gives the quotient 0xFFFF.
\<close>

text \<open>
  The loop at L0: \<open>q\<close> is sreg, \<open>r\<close> the remainder in a and ptr1+1, \<open>b\<close> is ptr4 and \<open>n\<close> is y. The bit
  shifted out of the remainder is lost.
\<close>

primrec udiv_loop :: "nat \<Rightarrow> WORD \<Rightarrow> WORD \<Rightarrow> WORD \<Rightarrow> WORD \<times> WORD" where
  "udiv_loop 0 b q r = (q, r)"
| "udiv_loop (Suc n) b q r = (let r = r + r + (if bit q 15 then 1 else 0); q = q + q in
     if r \<ge> b then udiv_loop n b (q + 1) (r - b) else udiv_loop n b q r)"

text \<open>Quotient and remainder.\<close>

definition udiv16 :: "WORD \<Rightarrow> WORD \<Rightarrow> WORD \<times> WORD" where
  "udiv16 a b = udiv_loop 16 b a 0"

lemma udiv_loop_zero: "fst (udiv_loop n 0 q r) = of_nat (2 ^ n) * (q + 1) - 1"
  by (induction n arbitrary: q r) (simp_all add: Let_def algebra_simps)

lemma top_bit: "bit (q :: WORD) 15 \<longleftrightarrow> 2 ^ 15 \<le> unat q"
proof -
  have "unat q div 2 ^ 15 < 2" by (rule less_mult_imp_div_less) simp
  then have "unat q div 2 ^ 15 = 0 \<or> unat q div 2 ^ 15 = 1" by linarith
  moreover have "bit q 15 \<longleftrightarrow> bit (unat q) 15" by (simp add: bit_unsigned_iff)
  moreover have "bit (unat q) 15 \<longleftrightarrow> odd (unat q div 2 ^ 15)" by (rule bit_iff_odd)
  moreover have "unat q div 2 ^ 15 = 0 \<longleftrightarrow> unat q < 2 ^ 15" by (simp add: div_eq_0_iff)
  ultimately show ?thesis by auto
qed

lemma double: "unat (q + q :: WORD) = (2 * unat q) mod 2 ^ 16"
  unfolding unat_word_ariths(1) mult_2 by simp

lemma even_next: "even (unat w) \<Longrightarrow> unat ((w :: WORD) + 1) = unat w + 1"
proof -
  assume "even (unat w)"
  then have "unat w \<noteq> 65535" by (metis even_numeral even_plus_one_iff numeral_eq_Suc odd_numeral)
  moreover have "unat w < 65536" by (rule WORD_less)
  ultimately have "unat w + 1 < 65536" by linarith
  then show ?thesis using unat_add_lem [of w 1] by simp
qed

section \<open>One step\<close>

text \<open>A digit \<open>d\<close> behind the number \<open>u\<close>.\<close>

lemma quotient_step:
  fixes b u d :: nat
  assumes "d < 2" and "0 < b"
  shows "b \<le> 2 * (u mod b) + d \<Longrightarrow> (2 * u + d) div b = 2 * (u div b) + 1" (is "?ge \<Longrightarrow> _")
    and "b \<le> 2 * (u mod b) + d \<Longrightarrow> (2 * u + d) mod b = 2 * (u mod b) + d - b"
    and "2 * (u mod b) + d < b \<Longrightarrow> (2 * u + d) div b = 2 * (u div b)"
    and "2 * (u mod b) + d < b \<Longrightarrow> (2 * u + d) mod b = 2 * (u mod b) + d"
proof -
  define k where "k = b * (u div b)"
  have "k + u mod b = u" unfolding k_def by (rule mult_div_mod_eq)
  moreover have "b * (2 * (u div b)) = 2 * k" by (simp add: k_def)
  ultimately have t: "2 * u + d = b * (2 * (u div b)) + (2 * (u mod b) + d)" by linarith
  have dm: "(b * x + y) div b = x" "(b * x + y) mod b = y" if "y < b" for x y using that by simp_all
  show "(2 * u + d) div b = 2 * (u div b)" "(2 * u + d) mod b = 2 * (u mod b) + d" if "2 * (u mod b) + d < b"
    unfolding t using dm [OF that, of "2 * (u div b)"] .
  assume ge: ?ge
  then have t2: "2 * u + d = b * (2 * (u div b) + 1) + (2 * (u mod b) + d - b)" using t by (simp add: algebra_simps)
  have "u mod b < b" using assms(2) by simp
  then have "2 * (u mod b) + d - b < b" using assms(1) by linarith
  then show "(2 * u + d) div b = 2 * (u div b) + 1" "(2 * u + d) mod b = 2 * (u mod b) + d - b"
    unfolding t2 using dm [of "2 * (u mod b) + d - b" "2 * (u div b) + 1"] by blast+
qed

text \<open>The register that holds the rest of the dividend above the quotient so far.\<close>

lemma shift_dividend:
  assumes "unat (q :: WORD) = (a mod 2 ^ Suc n) * 2 ^ (15 - n) + c" and "n < 16" and "c < 2 ^ (15 - n)"
  shows "bit q 15 \<longleftrightarrow> odd (a div 2 ^ n)" and "unat (q + q) = (a mod 2 ^ n) * 2 ^ (16 - n) + 2 * c"
proof -
  define d where "d = a div 2 ^ n mod 2"
  have am: "a mod 2 ^ Suc n = d * 2 ^ n + a mod 2 ^ n" by (simp add: d_def mod_mult2_eq mult.commute [of 2])
  have p: "2 ^ n * 2 ^ (15 - n) = (2 ^ 15 :: nat)" using assms(2) by (simp flip: power_add)
  have low: "(a mod 2 ^ n) * 2 ^ (15 - n) + c < 2 ^ 15"
  proof -
    have "a mod 2 ^ n + 1 \<le> 2 ^ n" by (simp add: Suc_leI)
    then have "(a mod 2 ^ n + 1) * 2 ^ (15 - n) \<le> 2 ^ n * 2 ^ (15 - n)" by (rule mult_le_mono1)
    then show ?thesis using assms(3) p by (simp add: algebra_simps)
  qed
  have qd: "unat q = d * 2 ^ 15 + ((a mod 2 ^ n) * 2 ^ (15 - n) + c)" (is "_ = _ + ?l")
    using assms(1) am p by (simp add: algebra_simps)
  have "d = 0 \<or> d = 1" by (auto simp: d_def)
  then have "bit q 15 \<longleftrightarrow> d = 1" unfolding top_bit qd using low by auto
  then show "bit q 15 \<longleftrightarrow> odd (a div 2 ^ n)" by (simp add: d_def odd_iff_mod_2_eq_one)
  have "2 * unat q = d * 2 ^ 16 + 2 * ?l" by (simp add: qd)
  then have "unat (q + q) = 2 * ?l" using low by (simp only: double mod_mult_self3) simp
  moreover have "2 * 2 ^ (15 - n) = (2 ^ (16 - n) :: nat)" using assms(2) by (simp flip: power_Suc add: Suc_diff_le)
  ultimately show "unat (q + q) = (a mod 2 ^ n) * 2 ^ (16 - n) + 2 * c" by (simp add: algebra_simps)
qed

text \<open>The state with \<open>n\<close> steps left.\<close>

definition dividing :: "nat \<Rightarrow> nat \<Rightarrow> nat \<Rightarrow> WORD \<Rightarrow> WORD \<Rightarrow> bool" where
  "dividing a b n q r \<longleftrightarrow> n \<le> 16 \<and> unat q = (a mod 2 ^ n) * 2 ^ (16 - n) + (a div 2 ^ n) div b \<and> unat r = (a div 2 ^ n) mod b"

lemma dividing_step:
  assumes "dividing a (unat b) (Suc n) q r" and "a < 2 ^ 16" and "b \<noteq> 0"
  shows "let r = r + r + (if bit q 15 then 1 else 0); q = q + q in
    if r \<ge> b then dividing a (unat b) n (q + 1) (r - b) else dividing a (unat b) n q r"
proof -
  define u where "u = a div 2 ^ Suc n"
  define d where "d = a div 2 ^ n mod 2"
  have n: "n < 16" and r: "unat r = u mod unat b" and q: "unat q = (a mod 2 ^ Suc n) * 2 ^ (15 - n) + u div unat b"
    using assms(1) by (simp_all add: dividing_def u_def)
  have b: "0 < unat b" using assms(3) by (simp add: unat_gt_0)
  have "u = a div 2 ^ n div 2" by (simp add: u_def mult.commute flip: div_mult2_eq)
  then have t: "a div 2 ^ n = 2 * u + d" by (simp add: d_def)
  have d2: "d < 2" by (simp add: d_def)
  have "a < 2 ^ (15 - n) * 2 ^ Suc n" using assms(2) n by (simp flip: power_add power_Suc)
  then have "u < 2 ^ (15 - n)" unfolding u_def by (rule less_mult_imp_div_less)
  then have c: "u div unat b < 2 ^ (15 - n)" by (rule le_less_trans [OF div_le_dividend])
  have "(2 :: nat) ^ (15 - n) \<le> 2 ^ 15" by (rule power_increasing) simp_all
  with \<open>u < 2 ^ (15 - n)\<close> have u15: "u < 2 ^ 15" by (rule less_le_trans)
  note s = shift_dividend [OF q n c]
  define e :: WORD where "e = (if bit q 15 then 1 else 0)"
  have e: "unat e = d" using s(1) by (auto simp: e_def d_def odd_iff_mod_2_eq_one)
  have "u mod unat b < 2 ^ 15" using u15 by (rule le_less_trans [rotated]) simp
  then have less: "2 * (u mod unat b) + d < 2 ^ 16" using d2 by simp
  then have "unat (r + r) = 2 * (u mod unat b)" by (simp only: double r) simp
  then have r2: "unat (r + r + e) = 2 * (u mod unat b) + d" unfolding unat_word_ariths(1) [of "r + r"] e using less by simp
  have q1: "unat (q + q + 1) = unat (q + q) + 1" by (rule even_next) (unfold s(2), use n in simp)
  show ?thesis
  proof (cases "b \<le> r + r + e")
    case True
    then have ge: "unat b \<le> 2 * (u mod unat b) + d" using r2 by (simp add: word_le_nat_alt)
    have "unat (r + r + e - b) = 2 * (u mod unat b) + d - unat b" using True r2 by (simp add: unat_sub)
    then have "dividing a (unat b) n (q + q + 1) (r + r + e - b)"
      using n s(2) q1 quotient_step(1,2) [OF d2 b ge] by (simp add: dividing_def t)
    then show ?thesis using True by (simp add: e_def [symmetric] Let_def)
  next
    case False
    then have lt: "2 * (u mod unat b) + d < unat b" using r2 by (simp add: word_le_nat_alt)
    have "dividing a (unat b) n (q + q) (r + r + e)"
      using n s(2) r2 quotient_step(3,4) [OF d2 b lt] by (simp add: dividing_def t)
    then show ?thesis using False by (simp add: e_def [symmetric] Let_def)
  qed
qed

section \<open>Division\<close>

lemma udiv_loop_divides:
  "dividing (unat a) (unat b) n q r \<Longrightarrow> b \<noteq> 0 \<Longrightarrow> udiv_loop n b q r = (a div b, a mod b)"
proof (induction n arbitrary: q r)
  case 0
  then show ?case by (simp add: dividing_def word_unat_eq_iff unat_div unat_mod)
next
  case (Suc n)
  have "unat a < 2 ^ 16" by simp
  from dividing_step [OF Suc.prems(1) this Suc.prems(2)] Suc.IH Suc.prems(2) show ?case
    by (auto simp: Let_def split: if_splits)
qed

lemma udiv16_divides: "b \<noteq> 0 \<Longrightarrow> udiv16 a b = (a div b, a mod b)"
  unfolding udiv16_def by (rule udiv_loop_divides) (simp_all add: dividing_def)

lemma udiv16_zero: "fst (udiv16 a 0) = 0xFFFF"
proof -
  have "(of_nat (2 ^ 16) :: WORD) = 0" by transfer simp
  then show ?thesis unfolding udiv16_def udiv_loop_zero by (simp only: mult_zero_left) simp
qed
end
