(* ===== verification/Lib_Files.thy ===== *)
theory Lib_Files
  imports Lib_Stdio Lib_Udiv
begin

text \<open>
  Opening, closing and block transfers of streams: _file.s, _fdesc.s, _fopen.s, fopen.s, fclose.s,
  fdopen.c, freopen.c, fread.s, fwrite.s and the rest of fmisc.s. The file table is a list of slots and a
  FILE pointer is the number of a slot, None for the null pointer. fclose, fread and fwrite work on one
  stream, as the functions of Lib_Stdio do; the rest works on the table. open, close, read and write of the
  operating system are parameters, as in Lib_Stdio.
\<close>

section \<open>Data (_file.s, _file.inc, fcntl.inc)\<close>

definition O_RDONLY :: BYTE where "O_RDONLY = 0x01"
definition O_WRONLY :: BYTE where "O_WRONLY = 0x02"
definition O_RDWR :: BYTE where "O_RDWR = 0x03"
definition O_CREAT :: BYTE where "O_CREAT = 0x10"
definition O_TRUNC :: BYTE where "O_TRUNC = 0x20"
definition O_APPEND :: BYTE where "O_APPEND = 0x40"

definition FCLOSED :: BYTE where "FCLOSED = 0x00"

definition FOPEN_MAX :: nat where "FOPEN_MAX = 8"

definition EMFILE :: cint where "EMFILE = 5"

text \<open>A slot has the fields of a stream; errno and what the operating system keeps are shared.\<close>

record slot =
  s_fd :: BYTE
  s_flags :: BYTE
  s_pushback :: BYTE

record 'o files =
  filetab :: "slot list"
  errno :: cint
  os :: 'o

definition filetab_init :: "slot list" where
  "filetab_init = map (\<lambda>fd. \<lparr>s_fd = fd, s_flags = FOPEN, s_pushback = 0\<rparr>) [0, 1, 2]
     @ replicate (FOPEN_MAX - 3) \<lparr>s_fd = 0, s_flags = FCLOSED, s_pushback = 0\<rparr>"

text \<open>open of a name with a mode, close of a descriptor, and read of a number of bytes.\<close>

record 'o file_calls = "'o os_calls" +
  os_open :: "BYTE list \<Rightarrow> cint \<Rightarrow> 'o \<Rightarrow> cint \<times> 'o"
  os_close :: "BYTE \<Rightarrow> 'o \<Rightarrow> cint \<times> 'o"
  os_read_block :: "BYTE \<Rightarrow> WORD \<Rightarrow> 'o \<Rightarrow> cint \<times> BYTE list \<times> 'o"

section \<open>Opening and closing\<close>

text \<open>
  _fdesc: the accumulator keeps the flag while the slots are open, so the loop ends at the first slot
  that is closed.
\<close>

fun fdesc_loop :: "BYTE \<Rightarrow> nat \<Rightarrow> slot list \<Rightarrow> nat option" where
  "fdesc_loop a i [] = None"
| "fdesc_loop a i (s # ss) = (let a = a AND s_flags s in if a = 0 then Some i else fdesc_loop a (i + 1) ss)"

definition fdesc :: "'o files \<Rightarrow> nat option" where
  "fdesc S = fdesc_loop FOPEN 0 (filetab S)"

text \<open>
  The mode string of _fopen: \<open>m\<close> is the memory from its start on, \<open>y\<close> the index register and \<open>x\<close> the mode
  so far; None is the exit for an invalid mode.
\<close>

function mode_loop :: "(BYTE \<Rightarrow> BYTE) \<Rightarrow> BYTE \<Rightarrow> BYTE \<Rightarrow> BYTE option" where
  "mode_loop m y x = (let y = y + 1 in
     if y = 0 then None
     else if m y = 0 then Some x
     else if m y = of_char CHR ''+'' then mode_loop m y (x OR O_RDWR)
     else if m y = of_char CHR ''b'' then mode_loop m y x
     else None)"
  by pat_completeness auto
termination
proof (relation "measure (\<lambda>(m, y, x). 255 - unat y)")
  have less: "255 - unat (y + 1) < 255 - unat y" if "y + 1 \<noteq> 0" for y :: BYTE
  proof -
    have "unat (y + 1) = unat y + 1" using that by (metis unatSuc Suc_eq_plus1 add.commute)
    moreover have "unat (y + 1) < 256" by (rule BYTE_less)
    ultimately show ?thesis by linarith
  qed
  show "((m, z, x OR O_RDWR), m, y, x) \<in> measure (\<lambda>(m, y, x). 255 - unat y)" if "z = y + 1" "z \<noteq> 0"
    for m :: "BYTE \<Rightarrow> BYTE" and x y z :: BYTE using less [of y] that by simp
  show "((m, z, x), m, y, x) \<in> measure (\<lambda>(m, y, x). 255 - unat y)" if "z = y + 1" "z \<noteq> 0"
    for m :: "BYTE \<Rightarrow> BYTE" and x y z :: BYTE using less [of y] that by simp
qed simp

declare mode_loop.simps [simp del]

definition parse_mode :: "(BYTE \<Rightarrow> BYTE) \<Rightarrow> BYTE option" where
  "parse_mode m = (
     if m 0 = of_char CHR ''w'' then mode_loop m 0 (O_WRONLY OR O_CREAT OR O_TRUNC)
     else if m 0 = of_char CHR ''r'' then mode_loop m 0 O_RDONLY
     else if m 0 = of_char CHR ''a'' then mode_loop m 0 (O_WRONLY OR O_CREAT OR O_APPEND)
     else None)"

definition fopen_slot :: "'o file_calls \<Rightarrow> BYTE list \<Rightarrow> (BYTE \<Rightarrow> BYTE) \<Rightarrow> nat \<Rightarrow> 'o files \<Rightarrow> nat option \<times> 'o files" where
  "fopen_slot D name mode i S = (case parse_mode mode of
     None \<Rightarrow> (None, S\<lparr>errno := EINVAL\<rparr>)
   | Some x \<Rightarrow> (case os_open D name (ucast x) (os S) of (fd, h) \<Rightarrow>
       let S = S\<lparr>os := h\<rparr> in
       if fd = - 1 then (None, S)
       else (Some i, S\<lparr>filetab := (filetab S)[i := (filetab S ! i)\<lparr>s_fd := lo fd, s_flags := FOPEN\<rparr>]\<rparr>)))"

definition fopen :: "'o file_calls \<Rightarrow> BYTE list \<Rightarrow> (BYTE \<Rightarrow> BYTE) \<Rightarrow> 'o files \<Rightarrow> nat option \<times> 'o files" where
  "fopen D name mode S = (case fdesc S of
     None \<Rightarrow> (None, S\<lparr>errno := EMFILE\<rparr>)
   | Some i \<Rightarrow> fopen_slot D name mode i S)"

definition fclose :: "'o file_calls \<Rightarrow> 'o stream \<Rightarrow> cint \<times> 'o stream" where
  "fclose D f = (
     if \<not> has_flag FOPEN f then (- 1, f\<lparr>io_errno := EINVAL\<rparr>)
     else case os_close D (f_fd f) (io_os f) of (r, h) \<Rightarrow> (r, f\<lparr>f_flags := FCLOSED, io_os := h\<rparr>))"

definition fdopen :: "cint \<Rightarrow> 'o files \<Rightarrow> nat option \<times> 'o files" where
  "fdopen handle S = (case fdesc S of
     None \<Rightarrow> (None, S\<lparr>errno := EMFILE\<rparr>)
   | Some i \<Rightarrow> (Some i, S\<lparr>filetab := (filetab S)[i := (filetab S ! i)\<lparr>s_fd := lo handle, s_flags := FOPEN\<rparr>]\<rparr>))"

definition freopen :: "'o file_calls \<Rightarrow> BYTE list \<Rightarrow> (BYTE \<Rightarrow> BYTE) \<Rightarrow> nat \<Rightarrow> 'o files \<Rightarrow> nat option \<times> 'o files" where
  "freopen D name mode i S = (
     if s_flags (filetab S ! i) AND FOPEN = 0 then (None, S\<lparr>errno := EINVAL\<rparr>)
     else case os_close D (s_fd (filetab S ! i)) (os S) of (r, h) \<Rightarrow>
       let S = S\<lparr>os := h\<rparr> in
       if r <s 0 then (None, S) else fopen_slot D name mode i S)"

section \<open>The rest of fmisc.s\<close>

definition feof :: "'o stream \<Rightarrow> bool" where
  "feof f = has_flag FEOF f"

definition fileno :: "'o stream \<Rightarrow> cint" where
  "fileno f = ucast (f_fd f)"

definition fflush :: "'o stream \<Rightarrow> cint" where
  "fflush f = 0"

section \<open>Blocks\<close>

text \<open>tosudivax (udiv.s): the quotient.\<close>

definition div_unsigned :: "WORD \<Rightarrow> WORD \<Rightarrow> WORD" where
  "div_unsigned a b = fst (udiv16 a b)"

lemma div_unsigned_div: "b \<noteq> 0 \<Longrightarrow> div_unsigned a b = a div b"
  by (simp add: div_unsigned_def udiv16_divides)

text \<open>
  fread. The last component is the number of bytes left on the C stack: the arguments for read stay there
  when read is not called because the character pushed back was all that was asked for, and the size
  is then taken from the place of the file descriptor.
\<close>

definition fread :: "'o file_calls \<Rightarrow> BYTE list \<Rightarrow> WORD \<Rightarrow> WORD \<Rightarrow> 'o stream \<Rightarrow> WORD \<times> BYTE list \<times> 'o stream \<times> nat" where
  "fread D buf sz count f = (
     if \<not> has_flag FOPEN f \<or> has_flag FERROR f then (0, buf, f\<lparr>io_errno := EINVAL\<rparr>, 0)
     else let pb = has_flag FPUSHBACK f; f = (if pb then clear_flag FPUSHBACK f else f); n = count * sz in
       if n = 0 then (count, buf, f, 0)
       else let buf = (if pb then buf[0 := f_pushback f] else buf); i = (if pb then 1 else 0); n = (if pb then n - 1 else n) in
         if pb \<and> n = 0 then (div_unsigned 1 (ucast (f_fd f)), buf, f, 4)
         else case os_read_block D (f_fd f) n (io_os f) of (r, bs, h) \<Rightarrow>
           let f = f\<lparr>io_os := h\<rparr> in
           if r = - 1 then (0, buf, set_flag FERROR f, 0)
           else let buf = store i bs buf; bytes = r + of_nat i in
             if bytes = 0 then (0, buf, set_flag FEOF f, 0) else (div_unsigned bytes sz, buf, f, 0))"

definition fwrite :: "'o file_calls \<Rightarrow> BYTE list \<Rightarrow> WORD \<Rightarrow> WORD \<Rightarrow> 'o stream \<Rightarrow> WORD \<times> 'o stream" where
  "fwrite D buf sz count f = (
     if \<not> has_flag FOPEN f then (0, f\<lparr>io_errno := EINVAL\<rparr>)
     else if has_flag FERROR f then (0, f)
     else let n = count * sz in
       if n = 0 then (count, f)
       else case os_write D (f_fd f) (take (unat n) buf) (io_os f) of (r, h) \<Rightarrow>
         let f = f\<lparr>io_os := h\<rparr> in
         if r = - 1 then (0, set_flag FERROR f) else (div_unsigned r sz, f))"

section \<open>The slot of a new stream\<close>

lemma FOPEN_and: "FOPEN AND x = 0 \<or> FOPEN AND x = FOPEN"
proof -
  have "x AND 1 = (if odd x then 1 else 0)" by (simp add: and_one_eq mod_2_eq_odd)
  then show ?thesis by (simp add: FOPEN_def and.commute)
qed

lemma fdesc_loop_first:
  "fdesc_loop FOPEN i ss = Some j \<longleftrightarrow> i \<le> j \<and> j < i + length ss \<and> s_flags (ss ! (j - i)) AND FOPEN = 0
    \<and> (\<forall>k<j - i. s_flags (ss ! k) AND FOPEN \<noteq> 0)"
proof (induction ss arbitrary: i)
  case Nil
  then show ?case by simp
next
  case (Cons s ss)
  show ?case
  proof (cases "FOPEN AND s_flags s = 0")
    case True
    have "i = j" if "i \<le> j" "\<forall>k<j - i. s_flags ((s # ss) ! k) AND FOPEN \<noteq> 0"
    proof (rule ccontr)
      assume "i \<noteq> j"
      then have "0 < j - i" using that(1) by simp
      then have "s_flags s AND FOPEN \<noteq> 0" using that(2) by (metis nth_Cons_0)
      then show False using True by (simp add: and.commute)
    qed
    then show ?thesis using True by (auto simp: and.commute)
  next
    case False
    then have a: "FOPEN AND s_flags s = FOPEN" using FOPEN_and [of "s_flags s"] by simp
    then have "fdesc_loop FOPEN i (s # ss) = fdesc_loop FOPEN (i + 1) ss" using False by (simp add: Let_def)
    also have "\<dots> = Some j \<longleftrightarrow> i \<le> j \<and> j < i + length (s # ss) \<and> s_flags ((s # ss) ! (j - i)) AND FOPEN = 0
        \<and> (\<forall>k<j - i. s_flags ((s # ss) ! k) AND FOPEN \<noteq> 0)" (is "_ \<longleftrightarrow> ?r")
    proof (cases "j = i")
      case True
      have "?r = False" using True False by (simp add: and.commute)
      moreover have "(fdesc_loop FOPEN (i + 1) ss = Some j) = False" unfolding Cons.IH using True by simp
      ultimately show ?thesis by (simp only:)
    next
      case ne: False
      have "(\<forall>k<j - i. s_flags ((s # ss) ! k) AND FOPEN \<noteq> 0) \<longleftrightarrow> (\<forall>k<j - (i + 1). s_flags (ss ! k) AND FOPEN \<noteq> 0)" if "i < j"
      proof -
        have "j - i = Suc (j - (i + 1))" using that by simp
        then show ?thesis using False by (simp only: All_less_Suc2) (simp add: and.commute)
      qed
      moreover have "(s # ss) ! (j - i) = ss ! (j - (i + 1))" if "i < j" using that by (simp add: nth_Cons')
      ultimately show ?thesis unfolding Cons.IH using ne by (cases "i < j") auto
    qed
    finally show ?thesis .
  qed
qed

text \<open>The descriptor found is the first closed slot; none is found when every slot is open.\<close>

lemma fdesc_first:
  "fdesc S = Some j \<longleftrightarrow> j < length (filetab S) \<and> s_flags (filetab S ! j) AND FOPEN = 0
    \<and> (\<forall>k<j. s_flags (filetab S ! k) AND FOPEN \<noteq> 0)"
  unfolding fdesc_def fdesc_loop_first by simp

section \<open>Mode strings\<close>

primrec mode_in :: "(BYTE \<Rightarrow> BYTE) \<Rightarrow> BYTE \<Rightarrow> BYTE list \<Rightarrow> bool" where
  "mode_in m y [] \<longleftrightarrow> m y = 0"
| "mode_in m y (c # cs) \<longleftrightarrow> m y = c \<and> c \<noteq> 0 \<and> mode_in m (y + 1) cs"

lemma byte_next: "unat (y :: BYTE) + 1 < 256 \<Longrightarrow> unat (y + 1) = unat y + 1" "unat (y :: BYTE) + 1 < 256 \<Longrightarrow> y + 1 \<noteq> 0"
proof -
  assume "unat y + 1 < 256"
  then show n: "unat (y + 1) = unat y + 1" using unat_add_lem [of y 1] by simp
  show "y + 1 \<noteq> 0"
  proof
    assume "y + 1 = 0"
    then have "unat (y + 1) = 0" by simp
    with n show False by simp
  qed
qed

lemma mode_loop_string:
  "mode_in m (y + 1) cs \<Longrightarrow> unat y + length cs + 1 < 256
    \<Longrightarrow> mode_loop m y x = (if set cs \<subseteq> {of_char CHR ''+'', of_char CHR ''b''}
      then Some (if of_char CHR ''+'' \<in> set cs then x OR O_RDWR else x) else None)"
proof (induction cs arbitrary: y x)
  case Nil
  then show ?case using byte_next(2) [of y] by (subst mode_loop.simps) simp
next
  case (Cons c cs)
  have y: "y + 1 \<noteq> 0" "unat (y + 1) = unat y + 1" by (rule byte_next; use Cons.prems(2) in simp)+
  have m: "m (y + 1) = c" "c \<noteq> 0" "mode_in m (y + 1 + 1) cs" using Cons.prems(1) by auto
  have IH: "mode_loop m (y + 1) x' = (if set cs \<subseteq> {of_char CHR ''+'', of_char CHR ''b''}
      then Some (if of_char CHR ''+'' \<in> set cs then x' OR O_RDWR else x') else None)" for x'
    by (rule Cons.IH [OF m(3)]) (use Cons.prems(2) y(2) in simp)
  have o: "(x OR O_RDWR) OR O_RDWR = x OR O_RDWR" by (simp add: or.assoc)
  have l: "mode_loop m y x = (if c = of_char CHR ''+'' then mode_loop m (y + 1) (x OR O_RDWR)
      else if c = of_char CHR ''b'' then mode_loop m (y + 1) x else None)"
    using y(1) m(1,2) by (subst mode_loop.simps) (simp add: Let_def)
  show ?case unfolding l IH o by auto
qed

text \<open>The modes _fopen knows: r, w or a, then + and b in any order and number.\<close>

definition base_mode :: "BYTE \<Rightarrow> BYTE option" where
  "base_mode c = map_of [(of_char CHR ''w'', O_WRONLY OR O_CREAT OR O_TRUNC), (of_char CHR ''r'', O_RDONLY),
     (of_char CHR ''a'', O_WRONLY OR O_CREAT OR O_APPEND)] c"

lemma parse_mode_string:
  assumes "mode_in m 0 cs" and "length cs < 256"
  shows "parse_mode m = (case cs of [] \<Rightarrow> None | c # cs \<Rightarrow> case base_mode c of None \<Rightarrow> None
    | Some x \<Rightarrow> if set cs \<subseteq> {of_char CHR ''+'', of_char CHR ''b''}
        then Some (if of_char CHR ''+'' \<in> set cs then x OR O_RDWR else x) else None)"
proof (cases cs)
  case Nil
  then show ?thesis using assms by (simp add: parse_mode_def)
next
  case (Cons c ds)
  then have "m 0 = c" "mode_in m (0 + 1) ds" "unat (0 :: BYTE) + length ds + 1 < 256" using assms by auto
  from mode_loop_string [OF this(2,3)] this(1) show ?thesis
    by (simp only: Cons parse_mode_def base_mode_def list.case) (simp split: if_splits)
qed

section \<open>What fopen, fread and fwrite do\<close>

text \<open>
  fopen leaves every open stream alone. It gives a slot that was closed and is open now with the
  descriptor of the operating system, or the null pointer with the table unchanged: no slot is free
  (EMFILE), the mode is none (EINVAL), or open has failed.
\<close>

lemma fopen_stream:
  assumes "fopen D name mode S = (r, S')"
  shows "(case r of
      Some i \<Rightarrow> i < length (filetab S) \<and> s_flags (filetab S ! i) AND FOPEN = 0
        \<and> (\<exists>x fd. parse_mode mode = Some x \<and> fd \<noteq> - 1 \<and> os_open D name (ucast x) (os S) = (fd, os S')
            \<and> filetab S' = (filetab S)[i := (filetab S ! i)\<lparr>s_fd := lo fd, s_flags := FOPEN\<rparr>])
    | None \<Rightarrow> filetab S' = filetab S \<and>
        (if \<forall>s\<in>set (filetab S). s_flags s AND FOPEN \<noteq> 0 then errno S' = EMFILE
         else if parse_mode mode = None then errno S' = EINVAL
         else \<exists>x. parse_mode mode = Some x \<and> os_open D name (ucast x) (os S) = (- 1, os S')))"
proof (cases "fdesc S")
  case None
  have "s_flags s AND FOPEN \<noteq> 0" if s: "s \<in> set (filetab S)" for s
  proof
    assume c: "s_flags s AND FOPEN = 0"
    define P where "P = (\<lambda>j. j < length (filetab S) \<and> s_flags (filetab S ! j) AND FOPEN = 0)"
    have "\<exists>j. P j" using s c by (auto simp: P_def in_set_conv_nth)
    then have "P (LEAST j. P j)" "\<And>k. k < (LEAST j. P j) \<Longrightarrow> \<not> P k" by (auto intro: LeastI_ex dest: not_less_Least)
    then have "fdesc S = Some (LEAST j. P j)" unfolding fdesc_first P_def by (meson less_trans)
    with None show False by simp
  qed
  then show ?thesis using assms None by (auto simp: fopen_def)
next
  case (Some i)
  then have i: "i < length (filetab S)" "s_flags (filetab S ! i) AND FOPEN = 0" unfolding fdesc_first by auto
  then have "\<not> (\<forall>s\<in>set (filetab S). s_flags s AND FOPEN \<noteq> 0)" by (meson nth_mem)
  then show ?thesis using assms i
    by (auto simp: Some fopen_def fopen_slot_def Let_def split: option.splits prod.splits if_splits)
qed

text \<open>A second fclose of a stream is refused.\<close>

lemma fclose_twice: "has_flag FOPEN f \<Longrightarrow> fclose D (snd (fclose D f)) = (- 1, (snd (fclose D f))\<lparr>io_errno := EINVAL\<rparr>)"
  by (simp add: fclose_def has_flag_def FCLOSED_def split: prod.split)

text \<open>
  fread never claims more items than asked for, when read delivers no more bytes than asked for: for any
  stream and sizes whose product does not wrap, but for the case of a single byte pushed back.
\<close>

lemma block_items:
  assumes "unat r \<le> unat (count * sz - of_nat i)" and "i \<le> 1" and "count * sz \<noteq> 0" and "unat count * unat sz < 2 ^ 16"
  shows "unat (div_unsigned (r + of_nat i) sz) \<le> unat count"
proof -
  have n: "unat (count * sz) = unat count * unat sz" using assms(4) by (simp add: unat_mult_lem [THEN iffD1])
  have n0: "unat (count * sz) \<noteq> 0" using assms(3) by (simp add: unat_eq_0)
  have "unat (of_nat i :: WORD) = i" using assms(2) by (intro unat_of_nat_less) simp
  then have "unat (count * sz - of_nat i) = unat (count * sz) - i"
    using assms(2) n0 by (subst unat_sub) (simp_all add: word_le_nat_alt)
  then have "unat r + i \<le> unat (count * sz)" using assms(1,2) n0 by linarith
  moreover have "unat (r + of_nat i) \<le> unat r + i"
    using \<open>unat (of_nat i :: WORD) = i\<close> unat_word_ariths(1) [of r "of_nat i"] by (simp del: unat_of_nat)
  ultimately have "unat (r + of_nat i) \<le> unat count * unat sz" using n by linarith
  then have "unat (r + of_nat i) div unat sz \<le> unat count * unat sz div unat sz" by (rule div_le_mono)
  also have "\<dots> \<le> unat count" by simp
  finally have "unat ((r + of_nat i) div sz) \<le> unat count" by (simp add: unat_div)
  moreover have "sz \<noteq> 0" using assms(3) by auto
  ultimately show ?thesis by (simp add: div_unsigned_div)
qed

lemma fread_at_most:
  assumes "unat count * unat sz < 2 ^ 16"
    and "\<And>fd n h. fst (os_read_block D fd n h) = - 1 \<or> unat (fst (os_read_block D fd n h)) \<le> unat n"
    and "\<not> has_flag FPUSHBACK f \<or> count * sz \<noteq> 1"
  shows "unat (fst (fread D buf sz count f)) \<le> unat count"
proof (cases "\<not> has_flag FOPEN f \<or> has_flag FERROR f \<or> count * sz = 0")
  case True
  then show ?thesis by (auto simp: fread_def Let_def)
next
  case False
  define i :: nat where "i = (if has_flag FPUSHBACK f then 1 else 0)"
  define g where "g = (if has_flag FPUSHBACK f then clear_flag FPUSHBACK f else f)"
  obtain r bs h where rd: "os_read_block D (f_fd g) (count * sz - of_nat i) (io_os g) = (r, bs, h)" by (cases "os_read_block D (f_fd g) (count * sz - of_nat i) (io_os g)")
  have n: "count * sz - of_nat i \<noteq> 0 \<or> i = 0" using assms(3) by (auto simp: i_def)
  have "fst (fread D buf sz count f) = (if r = - 1 \<or> r + of_nat i = 0 then 0 else div_unsigned (r + of_nat i) sz)"
  proof (cases "has_flag FPUSHBACK f")
    case True
    then show ?thesis using False rd n by (simp add: fread_def i_def g_def Let_def)
  next
    case F: False
    then show ?thesis using False rd by (simp add: fread_def i_def g_def Let_def)
  qed
  moreover have "unat (div_unsigned (r + of_nat i) sz) \<le> unat count" if "r \<noteq> - 1"
    by (rule block_items) (use assms(1) assms(2) [of "f_fd g" "count * sz - of_nat i" "io_os g"] rd that False in \<open>auto simp: i_def\<close>)
  ultimately show ?thesis by simp
qed

text \<open>
  The case left out: one byte asked for and one pushed back. On a descriptor above 1 the byte is stored,
  the result says that nothing was read, and four bytes stay on the stack.
\<close>

lemma fread_pushed_back:
  assumes "has_flag FOPEN f" and "\<not> has_flag FERROR f" and "has_flag FPUSHBACK f" and "1 < unat (f_fd f)"
  shows "fread D buf 1 1 f = (0, buf[0 := f_pushback f], clear_flag FPUSHBACK f, 4)"
proof -
  define w where "w = (ucast (f_fd f) :: WORD)"
  have u: "unat w = unat (f_fd f)" by (simp add: w_def unat_ucast_up)
  have "unat (1 div w) = 1 div unat w" by (simp only: unat_div unat_1)
  then have "unat (1 div w) = 0" using assms(4) u by (simp only: div_less)
  then have "1 div w = 0" by (simp only: unat_eq_0)
  moreover have "w \<noteq> 0" using assms(4) u by auto
  ultimately show ?thesis using assms(1-3) by (simp add: fread_def div_unsigned_div Let_def clear_flag_def w_def)
qed

text \<open>
  freopen with a mode that is none closes the descriptor, and the slot still says that it is open.
\<close>

lemma freopen_stays_open:
  assumes "s_flags (filetab S ! i) AND FOPEN \<noteq> 0" and "os_close D (s_fd (filetab S ! i)) (os S) = (0, h)" and "parse_mode mode = None"
  shows "freopen D name mode i S = (None, S\<lparr>os := h, errno := EINVAL\<rparr>)"
  using assms by (simp add: freopen_def fopen_slot_def Let_def word_sless_alt)

end
