(* ===== verification/Spec2Isabelle.thy ===== *)
theory Spec2Isabelle
  imports Sector_Request Main_C Tff_Admin Example_World Example_Volume Philes_Listing Mmc_Liveness Nes_Claims Lib_Calendar Lib_Sorting Lib_Scanf_Props Lib_Stdio_Props Lib_Heap_Claims Lib_Strftime_Props Lib_Strtok Lib_Files
begin

text \<open>
  Two programs of ReVerSE-U8: the firmware of its Vector-06C core (src/u8_vector/firmware/floppysrc)
  with the C library it is built on (src/u8_vector/firmware/cc65libsrc), and the debugger of its NES
  core (src/u8_nes/sw/src) with the FPGA's debug block it talks to.

  The firmware. A 6502 inside the FPGA runs this firmware. It serves floppy sectors to the Z80
  side of the board: the host writes a command, a track and a sector to ports, the firmware reads
  1024 bytes of a disk image file from a FAT12/16 volume on an SD card, puts them into a buffer
  both processors see and reports a status. The image is chosen with a joystick in a menu drawn
  over the picture. From below: mmc.c talks to the card, tff.c (Tiny-FatFs) to the volume, philes.c
  finds image files, fddimage.c addresses sectors in an image, osd.c draws text, menu.c is the
  menu's state machine, slave.c the request loop, main.c starts it. serial.c and timer.c are small
  helpers. All mutable C variables of a module are one record; a function of the module is a
  definition of its name that takes the record and returns it changed, beside the C result.
  What the compiler computes in 8, 16 or 32 bits is a word of that width (BYTE, WORD, DWORD; a
  char, int of cc65 too), so wrap-around is part of the model.

  The library. The repository carries the sources of the cc65 library, some in C and some in 6502
  assembler. Modelled are its memory allocator, sorting and searching, calendar and the text of a
  time, tokens of a string, character classes, scanf and the streams of stdio, and the assembler
  routines these rest on. Memory is a function from addresses to bytes where a pointer may point
  anywhere, a list of bytes where a routine works on one array. The allocator keeps its list of free
  blocks in the memory it gives out: its model is the memory with the four pointers of _heap.s, and
  the other routines are given the memory as it is.

  The debugger. A desktop program sends packets of bytes over a serial line to a debug block in
  the FPGA, which halts the NES's CPU, reads and writes its memories and registers and lets it run
  again. dbgpacket.cpp builds the packets, serialcomm.cpp sends them and receives answers, nesdbg.cpp
  loads ROM files and has a dialog for raw packets, scriptmgr.cpp gives the packets to Lua scripts;
  hci.v is the state machine at the other end. A packet object is its class and its bytes, a
  pointer a function from offsets to bytes; hci.v is a step function for a cycle of the clock over
  the registers it declares.

  What is a parameter. The hardware: theory Hw has a record of two functions, one for reading and
  one for writing a port, over a hardware state of any type; every theorem says what it needs
  of them (nothing, or counting timers, or the SD card of theory Sd_Card, a model of the card's
  documented SPI protocol). The FAT module is given the functions of diskio.h the same way (Diskio); theory
  Mmc_Disk shows that mmc.c on the card provides them. The bytes of page zero and uninitialised
  variables are parameters too (board, the record the request handler is given). The debugger is
  given the operating system's serial functions (serial_api), what Lua and the file dialog tell
  it, and what the heap held in a new array; the debug block is given what hangs on its buses.

  Loops. A loop bounded by a timer, a FAT chain or the end of a directory is a partial function
  into option, None for not returning, and the theorems that say a call returns are proved as
  such: C4 and C5 for files, C14 for the driver, C1, C2, C10, C11 and C21 with the card, C24 to C37
  for the library. The main loops
  (slave, thrall) do not end by design; slave is such a partial function, and for thrall the
  states at the head of the endless loop are an inductive relation. The debug block's clock is
  run with while_option (C38 says that a packet is served in finitely many cycles), and the wait
  for a halted CPU is a partial function again. Fuel is used once, in C32: the calls a program makes
  of strtok are counted, and the theorem names the number that is enough.

  Theories, in the order of the code:
  \<^item> Prelude: words of the program's widths, byte strings, memory, the facts collections.
  \<^item> Hw: ports (specialio.h). Diskio: diskio.h. Mmc: mmc.c.
  \<^item> Tff_Base (FAT entries, chains, the sector window), Tff_Names (directory entries' names),
    Tff_Mount (check_fs, auto_mount, f_mount), Tff_Dir (trace_path, f_opendir, f_readdir, f_stat),
    Tff_File (f_read, f_lseek), Tff_Write (f_open, f_write, f_sync, f_close), Tff_Admin (f_getfree,
    f_unlink, f_mkdir, f_chmod, f_rename): tff.c and tff.h. The functions that the build leaves
    out with _FS_READONLY are modelled with the flag as a parameter.
  \<^item> Philes: philes.c. Fddimage: fddimage.c. Osd: osd.c. Serial: serial.c, timer.c. Menu: menu.c.
    Slave: slave.c. Main_C: main.c.
  \<^item> Proofs about the volume: Volume (the FAT layout, chains, and the bytes of a file as the medium
    has them: the specification), Tff_Cache (locale sector_disk: disks whose successful reads
    return the medium; locale live_disk: reads do not fail), Tff_Reading and Tff_Seeking (f_read
    and f_lseek against the specification), Fdd_Reading (fdd_readsector on an open image),
    Tff_Lookup (the directory search and f_open against the path's meaning on the medium),
    Tff_Mounting (auto_mount against the boot sector's formulas), Philes_Listing (philes_nextfile
    against the list of the directory's image names).
  \<^item> Proofs about the driver: Sd_Card (the card and the driver's calls on it), Mmc_Disk (the status
    discipline and the interpretation of sector_disk and live_disk by mmc.c on the card),
    Mmc_Liveness (locale timed_ports: counting timers; every call ends).
  \<^item> Proofs about the front end: Menu_Props (places on the screen, the invariant of the menu),
    Slave_Props (the request loop and thrall), Sector_Request (a request from the port to the card).
  \<^item> Nes_Packet: dbgpacket.h, dbgpacket.cpp. Nes_Serial: serialcomm.cpp. Nes_Debug: nesdbg.cpp.
    Nes_Script: scriptmgr.cpp and the tally of scriptmgrdlg.cpp. Nes_Hci: hci.v. Nes_Machine: cart.v,
    the memories and the debug port of cpu.v as nes_top.v wires them.
  \<^item> Proofs about the debugger: Nes_Hci_Props (what a packet promises and that the clocked block
    keeps it), Nes_Link (locale nes_link, the contract of the line, and the debugger's functions
    against it), Nes_Rom (locale ram_region, and what a load leaves in the machine), Nes_Wire (the
    line with hci.v at its end, on which nes_link is interpreted), Nes_Packet_Props (the parser of
    packets), Nes_Claims (the properties C38 to C40 with their machine).
  \<^item> The library: Lib_Heap (malloc.s, free.s, _heapadd.s, calloc.s, realloc.c, pmemalign.c), Lib_Time (mktime.c, localtime.c, gmtime.c, timezone.c), Lib_Sort (qsort.c, bsearch.c,
    _swap.s), Lib_Ctype (ctype.s and the is... routines), Lib_Scanf (_scanf.c), Lib_Stdio (fgetc.c,
    fgets.c, fseek.c and the other files of streams), Lib_Files (the file table, fopen.s, fclose.s, fread.s,
    fwrite.s), Lib_Udiv (udiv.s, with the proof that it divides), Lib_Scan_Sources (vsscanf.s, vfscanf.s),
    Lib_Strftime (strftime.c, asctime.c), Lib_Strtok (strtok.c, strchr.s, with its property C32).
  \<^item> Proofs about the library: Lib_Heap_Core (tiles of the heap and the doubly linked free list),
    Lib_Heap_Alloc (what free and malloc do to them), Lib_Heap_Props and Lib_Heap_Claims (the
    invariant over programs and the properties C23 to C27), Lib_Calendar (the Gregorian calendar and that localtime computes it),
    Lib_Sorting (qsort and bsearch for a comparison with the contract ordering_cmp), Lib_Scanf_Spec (what a format
    means: its directives and what each does to the input), Lib_Scanf_Parse and Lib_Scanf_Refine
    (locale scan_source, the contract of a source of characters, and the simulation of the
    specification by _scanf under it; strings and streams interpret it), Lib_Scanf_Props,
    Lib_Strftime_Props (what strftime writes, and C31), Lib_Stdio_Props (C37).
  \<^item> Example_Card, Example_World, Example_Volume: a card with an image of two sectors, a board around
    it and a volume with a directory, on which the witnesses apply the theorems.

  What the theorems show. C1 to C5 are the reading path, C1, C2 and C21 over all layers; C6 and C7
  the FAT and its cache; C8 and C9 the lookup of a path and mounting; C10 to C14 the driver; C15 and
  C16 names; C17 stale objects; C18 and C19 the menu and its place on the screen; C20 and C21
  requests; C22 the listing of images. C23 to C27 are the memory allocator, C28 and C29 sorting and
  searching, C30 the calendar, C31 the date as text, C32 tokens, C33 to C36 scanf, C37 lines of a
  stream. C38 to C40 are the packets and the debug block, the load of a ROM and a script's memory.

  Not modelled: the interrupt vector, the startup code and the parts of the cc65 library written
  in assembler that are not named above (printf, the arithmetic of the runtime but for the unsigned
  division, directories; memset, memcpy, strlen, strncpy and sprintf have their C meaning where they
  are called), and of those in C the ones that are constants, print, end the program or wait (locale.c,
  perror.c, errormsg.c, abort.c, sleep.c and the like); zlib.h and the other headers are declarations;
  the FPGA's hardware descriptions but for the NES debug block and the memories behind it; the
  debugger's windows, message boxes and progress bars, its Lua interpreter and object set-up;
  FAT32, S-JIS and the NT flags of tff.c, which its configuration leaves out.
\<close>

section \<open>The floppy image on the card\<close>

text \<open>
  C1: fdd_readsector on the card. Over the whole read path (fddimage.c on tff.c on mmc.c on the
  SD card of theory Sd_Card), for an image file open on a chain of clusters, a position whose
  1024 bytes lie inside the file, and a sector buffer of 1024 bytes, the call ends with FR_OK
  and leaves in the buffer exactly the bytes of the file from that position; the file stays open
  with the same contents, so the next sector can be read.
\<close>

theorem fdd_readsector_delivers:
  assumes "image_open (mmc_io sd_ports csd_adr csd ro win) card_img cs file s" and "length buff = 1024"
    and "cur_side fdd \<le> 1" and "1 \<le> cur_sector fdd"
    and "fdd_position (unat (cur_side fdd)) (unat (cur_track fdd)) (unat (cur_sector fdd)) + 1024
      \<le> length (image_bytes card_img cs file s)"
  shows "\<exists>file' s'. fdd_readsector (mmc_io sd_ports csd_adr csd ro win) fdd file buff s = Some (FR_OK, file',
      take 1024 (drop (fdd_position (unat (cur_side fdd)) (unat (cur_track fdd)) (unat (cur_sector fdd)))
        (image_bytes card_img cs file s)), s')
    \<and> image_open (mmc_io sd_ports csd_adr csd ro win) card_img cs file' s'
    \<and> image_bytes card_img cs file' s' = image_bytes card_img cs file s"
  using assms by (rule sd.image.readsector)

theorem fdd_readsector_delivers_witness:
  "\<exists>file' s'. fdd_readsector ex_env ex_image ex_file (replicate 1024 0) ex_tff
     = Some (FR_OK, file', replicate 512 0xAA @ replicate 512 0xBB, s')"
proof -
  have f: "cur_side ex_image = 1" "cur_sector ex_image = 1" "cur_track ex_image = 0" by (simp_all add: ex_image_def)
  have p: "fdd_position (Suc 0) 0 (Suc 0) = 0" by (simp add: fdd_position_def)
  show ?thesis
    using fdd_readsector_delivers [of 0 "[]" True "0x2000" "[2, 3]" ex_file ex_tff "replicate 1024 0" ex_image]
      ex_image_open ex_bytes
    by (auto simp: ex_env_def f p)
qed



text \<open>
  C3: f_read never delivers wrong bytes. On any disk whose successful reads return the medium's
  sectors, a call of f_read on a file open for reading that returns either returns FR_OK with
  the buffer holding exactly the next \<open>min btr (fsize - fptr)\<close> bytes of the file's cluster
  chain, the count and the file pointer advanced by as many, and the file ready for the next
  read, or FR_RW_ERROR with the object marked by FA__ERROR; either way only the sector window
  and the disk's state have changed.
\<close>

theorem f_read_correct:
  assumes "sector_disk e img" and "reading_file e img cs fp s" and "ready_disk e s"
    and "unat btr \<le> length buff"
    and "f_read e fp adr buff btr s = Some (r, fp', buff', br, s')"
  shows "kept e img s s' \<and> same_file fp fp'
    \<and> (r = FR_OK
         \<and> unat br = min (unat btr) (unat (fsize fp) - unat (fptr fp))
         \<and> buff' = store 0 (take (unat btr) (drop (unat (fptr fp)) (file_bytes (img (disk s)) (cur_fs s) cs fp))) buff
         \<and> unat (fptr fp') = unat (fptr fp) + unat br \<and> reading_file e img cs fp' s'
       \<or> r = FR_RW_ERROR \<and> flag fp' AND FA__ERROR \<noteq> 0)"
  using sector_disk.f_read_reads [OF assms] assms(2)
  by (auto simp: reading_file_def file_bytes_length)

theorem f_read_correct_witness:
  "\<exists>fp' buff' br s'. f_read ex_env ex_file 0x4000 (replicate 700 0) 700 ex_tff = Some (FR_OK, fp', buff', br, s')
     \<and> unat br = 700 \<and> buff' = replicate 512 0xAA @ replicate 188 0xBB"
proof -
  obtain fp' buff' br s' where r: "f_read ex_env ex_file 0x4000 (replicate 700 0) 700 ex_tff = Some (FR_OK, fp', buff', br, s')"
    using live_disk.f_read_lives [OF ex_live ex_reading_file ex_ready] by blast
  have "fsize ex_file = 1024" "fptr ex_file = 0" by (simp_all add: ex_file_def)
  with f_read_correct [OF ex_sector_disk ex_reading_file ex_ready _ r] r ex_bytes
  show ?thesis by (simp add: image_bytes_def store_all)
qed

text \<open>
  C4: f_read succeeds. When the disk's reads do not fail, f_read on a file open for reading
  returns, with FR_OK, whatever count is asked for: neither the walk along the chain nor the
  splitting into partial, whole and multiple sectors can run on for ever or reach an error exit.
\<close>

theorem f_read_succeeds:
  assumes "live_disk e img" and "reading_file e img cs fp s" and "ready_disk e s"
  shows "\<exists>fp' buff' br s'. f_read e fp adr buff btr s = Some (FR_OK, fp', buff', br, s')"
  using assms by (rule live_disk.f_read_lives)

theorem f_read_succeeds_witness:
  "\<exists>fp' buff' br s'. f_read ex_env ex_file 0x4000 (replicate 1024 0) 1024 ex_tff = Some (FR_OK, fp', buff', br, s')"
  by (rule f_read_succeeds [OF ex_live ex_reading_file ex_ready])

text \<open>
  C5: f_lseek positions the file. On an open file that is not being extended, f_lseek returns
  FR_OK with the file pointer at the offset, or at the end of the file when the offset lies
  behind it, and with the cluster, sector and sectors-left fields of the object those of that
  position in the chain, so that reading goes on from there.
\<close>

theorem f_lseek_positions:
  assumes "live_disk e img" and "open_on e img cs fp s" and "ready_disk e s"
  shows "\<exists>fp' s'. f_lseek e fp ofs s = Some (FR_OK, fp', s') \<and> fptr fp' = min ofs (fsize fp)
    \<and> pos_ok (cur_fs s') cs fp' \<and> open_on e img cs fp' s' \<and> kept e img s s' \<and> same_file fp fp'"
proof -
  obtain fp' s' where r: "f_lseek e fp ofs s = Some (FR_OK, fp', s')"
    using live_disk.f_lseek_lives [OF assms] by blast
  with sector_disk.f_lseek_seeks [OF live_disk.axioms(1) [OF assms(1)] assms(2,3) r] show ?thesis by auto
qed

theorem f_lseek_positions_witness:
  "\<exists>fp' s'. f_lseek ex_env ex_file 1000 ex_tff = Some (FR_OK, fp', s') \<and> fptr fp' = 1000
     \<and> curr_sect fp' = 4"
proof -
  obtain fp' s' where r: "f_lseek ex_env ex_file 1000 ex_tff = Some (FR_OK, fp', s')" "fptr fp' = min 1000 (fsize ex_file)"
      and p: "pos_ok (cur_fs s') [2, 3] fp'" and k: "kept ex_env card_img ex_tff s'"
    using f_lseek_positions [OF ex_live ex_open_on ex_ready, of 1000] by blast
  have f: "fptr fp' = 1000" using r(2) by (simp add: ex_file_def)
  have s: "spc ex_fs = 1" by (simp add: spc_def ex_fs_def FATFS_zero_def)
  have "pos_ok ex_fs [2, 3] fp'" using p pos_ok_geometry [OF kept_geometry [OF k]] by simp
  then have "curr_sect fp' = file_sect ex_fs [2, 3] 1"
    by (simp add: pos_ok_def located_def f)
  then have "curr_sect fp' = 4"
    by (simp add: file_sect_def s clust_sect_def) (simp add: ex_fs_def FATFS_zero_def)
  with r f show ?thesis by blast
qed

section \<open>The FAT and the sector window\<close>

text \<open>
  C6: get_cluster reads the FAT. For every FAT type and every cluster, even where a FAT12 entry
  crosses a sector boundary, get_cluster either reports an error (1) or returns the entry that
  the FAT layout puts on the medium for that cluster; an entry is reported only for a cluster
  number the volume has, and only the sector window and the disk's state change. When the disk's
  reads do not fail, the entry is returned.
\<close>

theorem get_cluster_reads_fat:
  assumes "sector_disk e img" and "cached img s" and "vol_ok (cur_fs s)"
    and "get_cluster e c s = Some (v, s')"
  shows "cached img s' \<and> kept e img s s'
    \<and> (v \<noteq> 1 \<longrightarrow> data_clust (cur_fs s) c \<and> v = fat_entry (img (disk s)) (cur_fs s) c)
    \<and> (live_disk e img \<and> ready_disk e s \<and> data_clust (cur_fs s) c \<longrightarrow> v = fat_entry (img (disk s)) (cur_fs s) c)"
  using sector_disk.get_cluster_cached [OF assms] live_disk.get_cluster_live [of e img s c] assms
  by (auto simp: ready_disk_def)

theorem get_cluster_reads_fat_witness:
  "\<exists>s'. get_cluster ex_env 2 ex_tff = Some (3, s') \<and> cached card_img s'"
proof -
  have d: "d_status ex_env 0 (disk ex_tff) AND STA_NOINIT = 0" using ex_ready by (simp add: ready_disk_def)
  obtain s' where g: "get_cluster ex_env 2 ex_tff = Some (fat_entry (card_img (disk ex_tff)) (cur_fs ex_tff) 2, s')"
    using live_disk.get_cluster_live [OF ex_live ex_cached _ d, of 2] ex_vol_ok ex_data_clust by auto
  from get_cluster_reads_fat [OF ex_sector_disk ex_cached _ g] ex_vol_ok g show ?thesis
    by (auto simp: ex_fat)
qed

text \<open>
  C7: the sector window is a cache of the medium. move_window to a sector other than 0 keeps the
  window a faithful copy of the sector it is labelled with, also when the read fails, and on
  success the window holds the requested sector; nothing else of the module changes.
\<close>

theorem move_window_caches:
  assumes "sector_disk e img" and "cached img s" and "sect \<noteq> 0" and "move_window e sect s = Some (ok, s')"
  shows "cached img s' \<and> kept e img s s' \<and> (ok \<longrightarrow> fs__win s' = img (disk s) sect)"
  using assms by (rule sector_disk.move_window_cached)

theorem move_window_caches_witness:
  "\<exists>s'. move_window ex_env 4 ex_tff = Some (True, s') \<and> fs__win s' = replicate 512 0xBB"
proof -
  have d: "d_status ex_env 0 (disk ex_tff) AND STA_NOINIT = 0" using ex_ready by (simp add: ready_disk_def)
  obtain s' where m: "move_window ex_env 4 ex_tff = Some (True, s')"
    using live_disk.move_window_live [OF ex_live ex_cached d] by blast
  have "ex_store 4 = replicate 512 0xBB" by (simp add: ex_store_def)
  with move_window_caches [OF ex_sector_disk ex_cached _ m] m show ?thesis by simp
qed





section \<open>The card driver\<close>

text \<open>
  C10: disk_read delivers the card's sectors. On an initialised card of block addresses with
  sectors of 512 bytes, disk_read of any number of sectors (one with CMD17, several with CMD18
  and CMD12, each through a data token and a DMA transfer) ends with RES_OK, stores exactly
  these sectors in order, and leaves the card's contents as they were.
\<close>

theorem disk_read_delivers:
  assumes "Stat s AND STA_NOINIT = 0" and "CardType s AND 8 \<noteq> 0" and "cnt \<noteq> 0"
    and "\<And>x. length (store_of (hw s) x) = 512"
  shows "\<exists>h. disk_read sd_ports 0 buff sect cnt s = Some (RES_OK, sectors (store_of (hw s)) sect (unat cnt), s\<lparr>hw := h\<rparr>)
    \<and> store_of h = store_of (hw s)"
  using assms by (rule disk_read_card)

theorem disk_read_delivers_witness:
  "\<exists>h. disk_read sd_ports 0 0x4000 3 2 ex_disk
     = Some (RES_OK, replicate 512 0xAA @ replicate 512 0xBB, ex_disk\<lparr>hw := h\<rparr>)"
proof -
  have "ex_store 3 = replicate 512 0xAA" "ex_store 4 = replicate 512 0xBB" by (simp_all add: ex_store_def)
  then have "sectors ex_store 3 2 = replicate 512 0xAA @ replicate 512 0xBB"
    by (simp add: sectors_def numeral_2_eq_2)
  with disk_read_delivers [of ex_disk 2 "0x4000" 3] show ?thesis
    by (auto simp: ex_disk_def ex_card_def length_ex_store)
qed





text \<open>
  C13: the status discipline of the driver. In every state that calls of the driver's functions
  reach from power-up, on any hardware, either STA_NOINIT is the whole status and every read and
  write of sectors is refused with RES_NOTRDY without touching the card, or the status is 0 and
  a card type has been recorded.
\<close>

theorem mmc_status_discipline:
  assumes "mmc_reaches p h0 s"
  shows "Stat s = STA_NOINIT \<and> (\<forall>adr sect cnt mem. cnt \<noteq> 0 \<longrightarrow> disk_read p 0 adr sect cnt s = Some (RES_NOTRDY, [], s)
        \<and> disk_write p 0 adr mem sect cnt s = Some (RES_NOTRDY, s))
    \<or> Stat s = 0 \<and> CardType s \<in> {1, 2, 4, 12}"
proof -
  have "mmc_ok s" using assms by (rule mmc_reaches_ok)
  moreover have "STA_NOINIT AND STA_NOINIT \<noteq> 0" by (simp add: STA_NOINIT_def)
  ultimately show ?thesis using disk_not_ready [of s] by (fastforce simp: mmc_ok_def)
qed

theorem mmc_status_discipline_witness:
  "disk_read sd_ports 0 0x4000 7 1 (mmc_init ex_card) = Some (RES_NOTRDY, [], mmc_init ex_card)"
proof -
  have "mmc_reaches sd_ports ex_card (mmc_init ex_card)" by (rule mmc_reaches.start)
  from mmc_status_discipline [OF this] show ?thesis by (simp add: mmc_init_def STA_NOINIT_def)
qed

text \<open>
  C14: no call of the driver hangs. On any hardware whose two timers count down on their own,
  every call of disk_initialize, disk_read, disk_write, disk_ioctl and disk_poll returns,
  whatever bytes the card sends or fails to send: each wait loop is bounded by a timer that the
  code has started before it.
\<close>

theorem mmc_calls_return:
  assumes "timed_ports p rank1 rank2"
  shows "(\<exists>y. disk_initialize p drv s = Some y) \<and> (\<exists>y. disk_read p drv adr sect cnt s = Some y)
    \<and> (\<exists>y. disk_write p drv adr mem sect cnt s = Some y)
    \<and> (\<exists>y. disk_ioctl p a csd drv ctrl adr mem s = Some y) \<and> (\<exists>y. disk_poll p drv s = Some y)"
  using timed_ports.disk_initialize_ends [OF assms, THEN endsE] timed_ports.disk_read_ends [OF assms, THEN endsE]
    timed_ports.disk_write_ends [OF assms, THEN endsE] timed_ports.disk_ioctl_ends [OF assms, THEN endsE]
    timed_ports.disk_poll_ends [OF assms, THEN endsE] by (intro conjI)

theorem mmc_calls_return_witness:
  "\<exists>y. disk_write sd_ports 0 0x4000 (replicate 1024 0) 3 2 ex_disk = Some y"
  using mmc_calls_return [OF sd_timers.timed_ports_axioms] by blast

section \<open>File names\<close>

text \<open>
  make_dirfile on a valid name. A path segment of 1 to 8 accepted characters, or such a
  body, a dot and up to 3 accepted characters, ended by the terminator or a slash, becomes the
  11 bytes of the directory entry (upper case, padded with spaces), the terminating character
  is returned and the path pointer stands behind it.
\<close>

lemma make_dirfile_accepts:
  assumes "list_all path_byte b" and "list_all path_byte x"
    and "1 \<le> length b" and "length b \<le> 8" and "length x \<le> 3" and "d = 0 \<or> d = 0x2F"
  shows "make_dirfile (shown_name b x @ d # rest) =
    (d, rest, entry_name (map upcase b) (map upcase x) @ [0])"
  using assms by (rule make_dirfile_short)

lemma make_dirfile_accepts_witness:
  "make_dirfile (bytes_of ''boot.fdd'' @ 0x2F # [0x41]) = (0x2F, [0x41], bytes_of ''BOOT    FDD'' @ [0])"
proof -
  have "list_all path_byte (bytes_of ''boot'')" "list_all path_byte (bytes_of ''fdd'')"
    by code_simp+
  note m = make_dirfile_accepts [OF this, of "0x2F" "[0x41]"]
  have "shown_name (bytes_of ''boot'') (bytes_of ''fdd'') = bytes_of ''boot.fdd''"
    by code_simp
  moreover have "entry_name (map upcase (bytes_of ''boot'')) (map upcase (bytes_of ''fdd'')) = bytes_of ''BOOT    FDD''"
    by code_simp
  ultimately show ?thesis using m by simp
qed



text \<open>
  C16: names round-trip. For a directory entry whose name is well formed, the name that
  get_fileinfo reports (f_readdir hands it to the file selector) leads make_dirfile back to the
  same 11 bytes, so that a file chosen by its displayed name is the file that is opened.
\<close>

theorem file_names_round_trip:
  assumes "short_name b x" and "take 11 ent = entry_name b x"
  shows "make_dirfile (fname (get_fileinfo ent)) = (0, [], take 11 ent @ [0])"
proof -
  have l: "list_all path_byte b" "list_all path_byte x" "map upcase b = b" "map upcase x = x"
    using assms(1) name_byte_path_byte name_byte_upcase by (auto simp: short_name_def list_all_iff map_idI)
  show ?thesis
    using make_dirfile_short [OF l(1,2), of 0 "[]"] assms l(3,4) fname_entry [OF assms]
    by (simp add: short_name_def)
qed

theorem file_names_round_trip_witness:
  "make_dirfile (fname (get_fileinfo (bytes_of ''PUTUP   FDD'' @ replicate 21 0)))
     = (0, [], bytes_of ''PUTUP   FDD'' @ [0])"
proof -
  have s: "short_name (bytes_of ''PUTUP'') (bytes_of ''FDD'')" by code_simp
  have "take 11 (bytes_of ''PUTUP   FDD'' @ replicate 21 0) = entry_name (bytes_of ''PUTUP'') (bytes_of ''FDD'')"
    by code_simp
  from file_names_round_trip [OF s this] show ?thesis by simp
qed

text \<open>
  the displayed name fits. Whatever 32 bytes a directory entry holds, the name get_fileinfo
  stores has at most 12 characters and its terminator, the size of the array \<open>fname\<close> of FILINFO,
  and is terminated.
\<close>

lemma fileinfo_name_fits:
  "length (fname (get_fileinfo ent)) \<le> 13 \<and> last (fname (get_fileinfo ent)) = 0"
  using fname_fits [of ent] by (simp add: get_fileinfo_def)

section \<open>Positions in the image\<close>

text \<open>
  Sector addresses. For a side 0 or 1 and a sector number from 1 on, calc_offset computes
  the position of the sector without overflow in its mixed 16-bit and 32-bit arithmetic (side 1
  precedes side 0 in each track), and no two sectors of a disk with 5 sectors to a track share a
  position: the positions differ, and by the size of a sector at least.
\<close>

lemma sector_addresses:
  assumes "cur_side f \<le> 1" "1 \<le> cur_sector f" "cur_sector f \<le> 5"
    and "cur_side g \<le> 1" "1 \<le> cur_sector g" "cur_sector g \<le> 5"
  shows "unat (calc_offset f) = fdd_position (unat (cur_side f)) (unat (cur_track f)) (unat (cur_sector f))
    \<and> unat (calc_offset f) mod 1024 = 0
    \<and> (calc_offset f = calc_offset g \<longrightarrow>
        cur_side f = cur_side g \<and> cur_track f = cur_track g \<and> cur_sector f = cur_sector g)"
proof (intro conjI impI)
  note v = calc_offset_value [OF assms(1,2)] calc_offset_value [OF assms(4,5)]
  show "unat (calc_offset f) = fdd_position (unat (cur_side f)) (unat (cur_track f)) (unat (cur_sector f))"
    by (rule v(1))
  show "unat (calc_offset f) mod 1024 = 0" by (simp add: v fdd_position_def)
  assume "calc_offset f = calc_offset g"
  with v have "fdd_position (unat (cur_side f)) (unat (cur_track f)) (unat (cur_sector f))
      = fdd_position (unat (cur_side g)) (unat (cur_track g)) (unat (cur_sector g))" by simp
  then have "unat (cur_side f) = unat (cur_side g) \<and> unat (cur_track f) = unat (cur_track g)
      \<and> unat (cur_sector f) = unat (cur_sector g)"
    by (rule fdd_position_inj) (use assms in \<open>simp_all add: word_le_nat_alt\<close>)
  then show "cur_side f = cur_side g" "cur_track f = cur_track g" "cur_sector f = cur_sector g"
    by (simp_all add: word_unat_eq_iff)
qed

lemma sector_addresses_example:
  "unat (calc_offset (ex_image\<lparr>cur_side := 0, cur_track := 79, cur_sector := 5\<rparr>)) = 818176"
  using sector_addresses [of "ex_image\<lparr>cur_side := 0, cur_track := 79, cur_sector := 5\<rparr>" ex_image]
  by (simp add: ex_image_def fdd_position_def)

section \<open>Mounting\<close>

text \<open>
  C17: objects of an earlier mount are refused. After f_mount has registered a file system object
  (which it clears, as it clears the one registered before), every file or directory object that
  names either of them and carries the number of a mount is rejected with FR_INVALID_OBJECT, by
  the test every function on objects begins with, so f_read, f_lseek and f_readdir fail and leave
  the object and the volume alone.
\<close>

theorem stale_objects_refused:
  assumes "f_mount 0 new s = (r, s')" and "q = new \<or> q = FatFs s" and "i \<noteq> 0"
  shows "r = FR_OK \<and> FatFs s' = new \<and> validate e q i s' = FR_INVALID_OBJECT
    \<and> (fl_fs fp = q \<and> fl_id fp = i \<longrightarrow>
        f_read e fp adr buff btr s' = Some (FR_INVALID_OBJECT, fp, buff, 0, s')
        \<and> f_lseek e fp ofs s' = Some (FR_INVALID_OBJECT, fp, s'))
    \<and> (dj_fs dj = q \<and> dj_id dj = i \<longrightarrow> f_readdir e dj fi s' = Some (FR_INVALID_OBJECT, dj, fi, s'))"
proof -
  have "q = NULL \<or> fs_id (fsobj s' q) = 0"
    using assms(1,2) by (auto simp: f_mount_def Let_def clear_fs_def FATFS_zero_def split: if_splits)
  then have v: "validate e q i s' = FR_INVALID_OBJECT"
    using assms(3) by (auto simp: validate_def)
  have "FatFs s' = new" "r = FR_OK"
    using assms(1) by (auto simp: f_mount_def Let_def clear_fs_def split: if_splits)
  with v show ?thesis
    by (auto simp: f_read_def f_read_or_wr_def f_lseek_def f_readdir_def Let_def)
qed

theorem stale_objects_refused_witness:
  "f_read ex_env ex_file 0x4000 [] 1 (snd (f_mount 0 0x1000 ex_tff))
     = Some (FR_INVALID_OBJECT, ex_file, [], 0, snd (f_mount 0 0x1000 ex_tff))"
proof -
  have m: "f_mount 0 0x1000 ex_tff = (FR_OK, snd (f_mount 0 0x1000 ex_tff))"
    by (simp add: f_mount_def Let_def)
  have "fl_fs ex_file = 0x1000" "fl_id ex_file = 1" by (simp_all add: ex_file_def)
  with stale_objects_refused [OF m, where q = "0x1000" and i = 1] show ?thesis by simp
qed

section \<open>The menu and the display\<close>

text \<open>
  places of the file selector. For each of the 256 values an index can take, the 12 bytes of
  a name written at its place lie in the 256 bytes of display memory, and the places of two
  different items of a page share no byte.
\<close>

lemma fsel_places:
  "unat (fsel_index2offs i) + 12 \<le> DISPLAY_RAMSIZE
   \<and> (i < FSEL_PAGESIZE \<and> j < FSEL_PAGESIZE \<and> i \<noteq> j \<longrightarrow>
       unat (fsel_index2offs i) + 12 \<le> unat (fsel_index2offs j)
       \<or> unat (fsel_index2offs j) + 12 \<le> unat (fsel_index2offs i))"
  using fsel_place [of i] fsel_apart [of i j] by (simp add: DISPLAY_RAMSIZE_def)

lemma fsel_places_witness:
  "unat (fsel_index2offs 11) = 209 \<and> unat (fsel_index2offs 11) + 12 \<le> DISPLAY_RAMSIZE
   \<and> (unat (fsel_index2offs 10) + 12 \<le> 209 \<or> 221 \<le> unat (fsel_index2offs 10))"
proof -
  have "unat (fsel_index2offs 11) = 209" by code_simp
  moreover have "11 < FSEL_PAGESIZE" "10 < FSEL_PAGESIZE" by (simp_all add: FSEL_PAGESIZE_def)
  ultimately show ?thesis using fsel_places [of 11 10] by auto
qed





section \<open>Requests of the host\<close>

text \<open>
  how the request handler ends. The request loop returns only with FR_OK (no card answers),
  with FR_RW_ERROR (a transfer failed) or with MENURESULT_DISK (the user chose an image); the
  invariant of display, path and menu holds when it does.
\<close>

lemma slave_results:
  assumes "slave b w = Some (r, w')" and "menu_inv w" and "strlen (page0 b) \<le> 10"
  shows "r \<in> {fresult_code FR_OK, fresult_code FR_RW_ERROR, menuresult_code MENURESULT_DISK} \<and> menu_inv w'"
  using post_slave [OF assms(2,3)] assms(1) by (auto simp: post_def slave_result_def)

lemma slave_results_witness:
  "\<exists>w'. slave (ex_board\<lparr>stack_result := fresult_code FR_RW_ERROR\<rparr>) ex_world = Some (8, w') \<and> menu_inv w'"
proof -
  let ?b = "ex_board\<lparr>stack_result := fresult_code FR_RW_ERROR\<rparr>"
  obtain w' where s: "slave ?b ex_world = Some (8, w')"
    by (simp add: slave_def slave_loop.simps)
  have "strlen (page0 ?b) \<le> 10" using ex_page0(1) by simp
  from slave_results [OF s ex_menu_inv this] s show ?thesis by blast
qed



text \<open>
  a write request looks at the wrong variable. The write handler does not test the drive bit
  of its own command: whether it writes depends only on the drive bit \<open>t1\<close> that the last read
  or address request left. If that bit was set, a write to the image's drive is refused with
  DRVERR and neither the image file nor the buffer is touched, whatever the command; the handler
  hands \<open>t1\<close> on unchanged.
\<close>

lemma write_request_stale_drive:
  assumes "request_write b cmd t1 w = Some (r, t, w')"
  shows "t = t1 \<and> (t1 \<noteq> 0 \<longrightarrow> r = fresult_code FR_INVALID_DRIVE \<and> image_same w w')
    \<and> (\<exists>v. w' = set_status b (final_status True r) v)"
  using write_answer [OF assms] write_refused_same [OF assms] by blast

lemma write_request_stale_drive_witness:
  "\<exists>w'. request_write ex_board 0x20 2 ex_world = Some (fresult_code FR_INVALID_DRIVE, 2, w')
     \<and> buffer w' = buffer ex_world"
proof -
  have v: "vport ex_board MASTER_TRACK w = Some w" for w
    by (simp add: vport_def board_host ex_card_board)
  obtain y where "request_write ex_board 0x20 2 ex_world = Some y"
    by (simp add: request_write_def Let_def menu_busy_def busy_text_def ex_card_board drive_error_def v)
  then obtain r t w' where q: "request_write ex_board 0x20 2 ex_world = Some (r, t, w')" by (cases y) auto
  from write_request_stale_drive [OF q] q show ?thesis by (auto simp: image_same_def)
qed

text \<open>
  C21: a sector is served from end to end. On the board with the SD card, with an image file
  open on the mounted volume, a read request for the image's drive and a sector inside the image
  is answered: the request ends, the sector buffer holds exactly the 1024 bytes of the image at
  the place of the side in the command and of the track and sector at the host's ports, the
  status port shows COMPLETE and SUCCESS, and the image is as before, ready for the next request.
\<close>

theorem read_request_served:
  assumes "card_board b" and "image_in b cs w" and "length (buffer w) = 1024"
    and "cmd AND 2 = 0"
    and "1 \<le> host (get_hw w) MASTER_SECTOR"
    and "pos = fdd_position (unat (1 AND cmd)) (unat (host (get_hw w) MASTER_TRACK)) (unat (host (get_hw w) MASTER_SECTOR))"
    and "pos + 1024 \<le> length (image_of cs w)"
  shows "\<exists>w'. request_read b cmd w = Some (fresult_code FR_OK, 0, w')
    \<and> buffer w' = take 1024 (drop pos (image_of cs w))
    \<and> status_out (get_hw w') = CPU_STATUS_COMPLETE OR CPU_STATUS_SUCCESS
    \<and> image_in b cs w' \<and> image_of cs w' = image_of cs w"
  using assms by (rule request_read_card)

theorem read_request_served_witness:
  "\<exists>w'. request_read ex_board 0x11 ex_world = Some (0, 0, w')
     \<and> buffer w' = replicate 512 0xAA @ replicate 512 0xBB \<and> status_out (get_hw w') = 3"
proof -
  have p: "0 = fdd_position (unat (1 AND (0x11 :: BYTE))) (unat (host (get_hw ex_world) MASTER_TRACK))
      (unat (host (get_hw ex_world) MASTER_SECTOR))"
    by (simp add: fdd_position_def)
  from read_request_served [OF ex_card_board ex_image_in ex_buffer _ _ p] show ?thesis
    by (auto simp: ex_image_of status_defs)
qed



text \<open>
  Image files are recognised by their ending. endsWith compares exactly the last characters:
  it holds when the string, up to its terminator, is some stem followed by the suffix, and the
  comparison reads neither string behind its terminator, also when the suffix is the longer one.
\<close>

lemma endsWith_suffix: "endsWith s1 sfx \<longleftrightarrow> (\<exists>stem. cstr s1 = stem @ cstr sfx)"
  by (rule endsWith_iff)

end
